(* ===== verification/Prelude.thy ===== *)
theory Prelude
  imports Main "HOL-Library.Word"
begin

text \<open>
  Shared vocabulary of the development: the machine integers of the C++ code, the loops over
  fixed-size arrays it is written with (copy loops, first-match searches), big-endian byte
  splitting, and the generic lemmas and lemma collections the component theories rest on.
\<close>

unbundle bit_operations_syntax

type_synonym u8 = "8 word"
type_synonym u16 = "16 word"
type_synonym u32 = "32 word"

named_theorems consts_simps \<open>the named constants of the protocol, as numerals\<close>
named_theorems inv_intros \<open>preservation of the component invariants\<close>

section \<open>Byte loops\<close>

text \<open>
  The loop \<open>for (i = 0; i < n; ++i) dst[d + i] = src[s + i]\<close> over two arrays.
\<close>

definition copy_bytes :: "'a list \<Rightarrow> nat \<Rightarrow> 'a list \<Rightarrow> nat \<Rightarrow> nat \<Rightarrow> 'a list" where
  "copy_bytes dst d src s n = foldl (\<lambda>b i. b[d + i := src ! (s + i)]) dst [0..<n]"

lemma copy_bytes_0 [simp]: "copy_bytes dst d src s 0 = dst"
  by (simp add: copy_bytes_def)

lemma copy_bytes_Suc:
  "copy_bytes dst d src s (Suc n) = (copy_bytes dst d src s n)[d + n := src ! (s + n)]"
  by (simp add: copy_bytes_def)

lemma length_copy_bytes [simp]: "length (copy_bytes dst d src s n) = length dst"
  by (induction n) (simp_all add: copy_bytes_Suc)

lemma nth_copy_bytes:
  assumes "j < length dst"
  shows "copy_bytes dst d src s n ! j =
    (if d \<le> j \<and> j < d + n then src ! (s + (j - d)) else dst ! j)"
  using assms by (induction n) (auto simp: copy_bytes_Suc nth_list_update less_Suc_eq)

text \<open>In range, the loop is a splice of the source slice into the destination.\<close>

lemma copy_bytes_splice:
  assumes "d + n \<le> length dst" and "s + n \<le> length src"
  shows "copy_bytes dst d src s n = take d dst @ take n (drop s src) @ drop (d + n) dst"
proof (rule nth_equalityI)
  fix j assume "j < length (copy_bytes dst d src s n)"
  then have j: "j < length dst" by simp
  consider "j < d" | "d \<le> j" "j < d + n" | "d + n \<le> j" by linarith
  then show "copy_bytes dst d src s n ! j =
      (take d dst @ take n (drop s src) @ drop (d + n) dst) ! j"
    using assms j by cases (auto simp: nth_copy_bytes nth_append)
qed (use assms in simp)

section \<open>First-match searches\<close>

text \<open>
  The loop \<open>for (auto& e : xs) if (P(e)) { ... return; }\<close>: the index of the first match.
\<close>

fun find_index :: "('a \<Rightarrow> bool) \<Rightarrow> 'a list \<Rightarrow> nat option" where
  "find_index P [] = None"
| "find_index P (x # xs) = (if P x then Some 0 else map_option Suc (find_index P xs))"

lemma find_index_None_iff [simp]: "find_index P xs = None \<longleftrightarrow> (\<forall>x\<in>set xs. \<not> P x)"
  by (induction xs) auto

lemma find_index_SomeD:
  assumes "find_index P xs = Some i"
  shows "i < length xs" and "P (xs ! i)" and "\<And>j. j < i \<Longrightarrow> \<not> P (xs ! j)"
proof -
  have "i < length xs \<and> P (xs ! i) \<and> (\<forall>j<i. \<not> P (xs ! j))"
    using assms
  proof (induction xs arbitrary: i)
    case (Cons x xs)
    show ?case
    proof (cases "P x")
      case False
      with Cons.prems obtain k where k: "find_index P xs = Some k" "i = Suc k" by auto
      with Cons.IH [OF k(1)] False show ?thesis by (auto simp: nth_Cons split: nat.splits)
    qed (use Cons.prems in auto)
  qed simp
  then show "i < length xs" and "P (xs ! i)" and "\<And>j. j < i \<Longrightarrow> \<not> P (xs ! j)" by auto
qed

lemma find_index_eq_SomeI:
  assumes "i < length xs" and "P (xs ! i)" and "\<And>j. j < i \<Longrightarrow> \<not> P (xs ! j)"
  shows "find_index P xs = Some i"
  using assms
proof (induction xs arbitrary: i)
  case (Cons x xs)
  show ?case
  proof (cases i)
    case (Suc k)
    have "find_index P xs = Some k"
      using Cons.prems Suc by (intro Cons.IH) force+
    with Cons.prems(3) [of 0] Suc show ?thesis by simp
  qed (use Cons.prems in simp)
qed simp

lemma find_index_ex: "\<exists>x\<in>set xs. P x \<Longrightarrow> \<exists>i. find_index P xs = Some i"
  by (metis find_index_None_iff not_None_eq)

text \<open>Updating one element, seen by a search.\<close>

lemma find_index_map: "find_index P (map f xs) = find_index (\<lambda>x. P (f x)) xs"
  by (induction xs) simp_all

lemma find_index_update_same:
  "P y = P (xs ! i) \<Longrightarrow> find_index P (xs[i := y]) = find_index P xs"
proof (induction xs arbitrary: i)
  case (Cons x xs)
  then show ?case by (cases i) auto
qed simp

lemma find_index_update_first:
  assumes "find_index P xs = None" and "i < length xs" and "P y"
  shows "find_index P (xs[i := y]) = Some i"
proof (rule find_index_eq_SomeI)
  fix j assume "j < i"
  with assms show "\<not> P (xs[i := y] ! j)" by (simp add: all_set_conv_all_nth)
qed (use assms in simp_all)

section \<open>Lists\<close>

lemma set_list_update_subset: "x \<in> set (xs[i := y]) \<Longrightarrow> x \<in> set xs \<or> x = y"
  using set_update_subset_insert [of xs i y] by auto

lemma in_set_tlD: "x \<in> set (tl xs) \<Longrightarrow> x \<in> set xs"
  by (cases xs) simp_all

lemma take_Suc_update:
  "i < length xs \<Longrightarrow> take (Suc i) (xs[i := y]) = take i xs @ [y]"
  by (simp add: take_Suc_conv_app_nth)

section \<open>Counters\<close>

lemma unat_inc_less:
  assumes "(x :: 'a::len word) < y"
  shows "unat (x + 1) = Suc (unat x)"
proof -
  have "unat y < 2 ^ LENGTH('a)" by (rule unsigned_less)
  with assms have "Suc (unat x) < 2 ^ LENGTH('a)" by (simp only: word_less_nat_alt)
  then show ?thesis by (simp add: unat_word_ariths)
qed

section \<open>Big-endian bytes\<close>

definition hi8 :: "u16 \<Rightarrow> u8" where
  "hi8 v = ucast (drop_bit 8 v AND 0xFF)"

definition lo8 :: "u16 \<Rightarrow> u8" where
  "lo8 v = ucast (v AND 0xFF)"

definition u16_of_bytes :: "u8 \<Rightarrow> u8 \<Rightarrow> u16" where
  "u16_of_bytes h l = push_bit 8 (ucast h) OR ucast l"

definition byte32 :: "nat \<Rightarrow> u32 \<Rightarrow> u8" where
  "byte32 k v = ucast (drop_bit (8 * k) v AND 0xFF)"

definition u32_of_bytes :: "u8 \<Rightarrow> u8 \<Rightarrow> u8 \<Rightarrow> u8 \<Rightarrow> u32" where
  "u32_of_bytes a b c d =
     push_bit 24 (ucast a) OR push_bit 16 (ucast b) OR push_bit 8 (ucast c) OR ucast d"

lemma and_0xFF: "x AND 0xFF = take_bit 8 (x :: 'a::len word)"
proof -
  have "(0xFF :: 'a word) = mask 8"
    by (simp add: mask_eq_exp_minus_1)
  then show ?thesis by (simp only: take_bit_eq_mask)
qed

lemma hi8_eq: "hi8 v = ucast (drop_bit 8 v)"
  unfolding hi8_def and_0xFF by (rule bit_word_eqI) (auto simp: bit_simps)

lemma lo8_eq: "lo8 v = ucast v"
  unfolding lo8_def and_0xFF by (rule bit_word_eqI) (auto simp: bit_simps)

lemma byte32_eq: "byte32 k v = ucast (drop_bit (8 * k) v)"
  unfolding byte32_def and_0xFF by (rule bit_word_eqI) (auto simp: bit_simps)

lemma u16_of_bytes_inverse [simp]: "u16_of_bytes (hi8 v) (lo8 v) = v"
  by (rule bit_word_eqI) (auto simp: u16_of_bytes_def hi8_eq lo8_eq bit_simps)

lemma hi8_u16_of_bytes [simp]: "hi8 (u16_of_bytes h l) = h"
  by (rule bit_word_eqI) (auto simp: u16_of_bytes_def hi8_eq bit_simps dest: bit_imp_le_length)

lemma lo8_u16_of_bytes [simp]: "lo8 (u16_of_bytes h l) = l"
  by (rule bit_word_eqI) (auto simp: u16_of_bytes_def lo8_eq bit_simps)

lemma u32_of_bytes_inverse [simp]:
  "u32_of_bytes (byte32 3 v) (byte32 2 v) (byte32 1 v) (byte32 0 v) = v"
proof (rule bit_word_eqI)
  fix n assume n: "n < LENGTH(32)"
  consider "n < 8" | "8 \<le> n" "n < 16" | "16 \<le> n" "n < 24" | "24 \<le> n" by linarith
  then show "bit (u32_of_bytes (byte32 3 v) (byte32 2 v) (byte32 1 v) (byte32 0 v)) n = bit v n"
    using n by cases (auto simp: u32_of_bytes_def byte32_eq bit_simps)
qed

lemmas u32_of_bytes_inverse' [simp] = u32_of_bytes_inverse [unfolded One_nat_def]

end
