(* ===== verification/Protocol.thy ===== *)
theory Protocol
  imports Prelude
begin

text \<open>
  The shared wire protocol (\<open>protocol/\<close>): node addresses, message types, the packet structure,
  the CRC-16/CCITT-FALSE checksum and the frame codec, with the round trips of the codec and
  what its checksum detects.

  \<open>NodeAddress\<close> and \<open>MessageType\<close> are C++ enumerations with the fixed underlying type
  \<open>std::uint8_t\<close> and the code casts arbitrary wire bytes to them, so their values are exactly
  the bytes: both are bytes here, with the enumerators as named constants.
\<close>

section \<open>Addresses, message types and flags\<close>

type_synonym node_address = u8
type_synonym message_type = u8

definition addr_MainComputer :: node_address where [simp]: "addr_MainComputer = 0x01"
definition addr_DiagnosticComputer :: node_address where [simp]: "addr_DiagnosticComputer = 0x02"
definition addr_Northbridge :: node_address where [simp]: "addr_Northbridge = 0x10"
definition addr_Lighting :: node_address where [simp]: "addr_Lighting = 0x20"
definition addr_Security :: node_address where [simp]: "addr_Security = 0x21"
definition addr_Broadcast :: node_address where [simp]: "addr_Broadcast = 0xFF"

definition msg_Heartbeat :: message_type where [simp]: "msg_Heartbeat = 0x01"
definition msg_Ack :: message_type where [simp]: "msg_Ack = 0x02"
definition msg_Nack :: message_type where [simp]: "msg_Nack = 0x03"
definition msg_GetState :: message_type where [simp]: "msg_GetState = 0x10"
definition msg_StateUpdate :: message_type where [simp]: "msg_StateUpdate = 0x11"
definition msg_SetOutput :: message_type where [simp]: "msg_SetOutput = 0x20"
definition msg_InputEvent :: message_type where [simp]: "msg_InputEvent = 0x21"
definition msg_LightingDiagnostic :: message_type where [simp]: "msg_LightingDiagnostic = 0x22"
definition msg_ConfigRead :: message_type where [simp]: "msg_ConfigRead = 0x30"
definition msg_ConfigWrite :: message_type where [simp]: "msg_ConfigWrite = 0x31"
definition msg_Fault :: message_type where [simp]: "msg_Fault = 0x40"
definition msg_FaultClear :: message_type where [simp]: "msg_FaultClear = 0x41"
definition msg_DeviceInfo :: message_type where [simp]: "msg_DeviceInfo = 0x50"
definition msg_DeviceDiscovery :: message_type where [simp]: "msg_DeviceDiscovery = 0x51"
definition msg_Diagnostic :: message_type where [simp]: "msg_Diagnostic = 0x60"
definition msg_SecurityCommand :: message_type where [simp]: "msg_SecurityCommand = 0x70"
definition msg_SecurityState :: message_type where [simp]: "msg_SecurityState = 0x71"
definition msg_SecurityEvent :: message_type where [simp]: "msg_SecurityEvent = 0x72"
definition msg_AuthRequest :: message_type where [simp]: "msg_AuthRequest = 0x78"
definition msg_AuthResult :: message_type where [simp]: "msg_AuthResult = 0x79"
definition msg_FobPresent :: message_type where [simp]: "msg_FobPresent = 0x7A"

definition FlagNone :: u8 where [simp]: "FlagNone = 0x00"
definition FlagAckRequired :: u8 where [simp]: "FlagAckRequired = 0x01"
definition FlagResponse :: u8 where [simp]: "FlagResponse = 0x02"
definition FlagFault :: u8 where [simp]: "FlagFault = 0x04"

section \<open>Packets\<close>

definition kSyncByte1 :: u8 where [simp]: "kSyncByte1 = 0xA5"
definition kSyncByte2 :: u8 where [simp]: "kSyncByte2 = 0x5A"
definition kProtocolVersion :: u8 where [simp]: "kProtocolVersion = 0x01"
definition kMaxPayloadSize :: nat where [simp]: "kMaxPayloadSize = 128"
definition kHeaderSize :: nat where [simp]: "kHeaderSize = 10"
definition kCrcSize :: nat where [simp]: "kCrcSize = 2"
definition kMaxFrameSize :: nat where
  "kMaxFrameSize = kHeaderSize + kMaxPayloadSize + kCrcSize"

lemma kMaxFrameSize_eq [simp]: "kMaxFrameSize = 140"
  by (simp add: kMaxFrameSize_def)

record packet =
  pkt_source :: node_address
  pkt_destination :: node_address
  pkt_type :: message_type
  pkt_flags :: u8
  pkt_sequence :: u16
  pkt_length :: u16
  pkt_payload :: "u8 list"

text \<open>A value-initialised \<open>Packet{}\<close>, and the array type of its payload.\<close>

definition default_packet :: packet where
  "default_packet = \<lparr>pkt_source = addr_MainComputer, pkt_destination = addr_Northbridge,
     pkt_type = msg_Heartbeat, pkt_flags = FlagNone, pkt_sequence = 0, pkt_length = 0,
     pkt_payload = replicate kMaxPayloadSize 0\<rparr>"

definition wf_packet :: "packet \<Rightarrow> bool" where
  "wf_packet p \<longleftrightarrow> length (pkt_payload p) = kMaxPayloadSize"

lemma wf_default_packet [simp]: "wf_packet default_packet"
  by (simp add: wf_packet_def default_packet_def)

lemma default_packet_sel [simp]:
  "pkt_source default_packet = 0x01" "pkt_destination default_packet = 0x10"
  "pkt_type default_packet = 0x01" "pkt_flags default_packet = 0"
  "pkt_sequence default_packet = 0" "pkt_length default_packet = 0"
  "pkt_payload default_packet = replicate 128 0"
  by (simp_all add: default_packet_def)

lemma wf_packet_update [simp]:
  "wf_packet (p\<lparr>pkt_source := a\<rparr>) = wf_packet p" "wf_packet (p\<lparr>pkt_destination := a\<rparr>) = wf_packet p"
  "wf_packet (p\<lparr>pkt_type := a\<rparr>) = wf_packet p" "wf_packet (p\<lparr>pkt_flags := a\<rparr>) = wf_packet p"
  "wf_packet (p\<lparr>pkt_sequence := s\<rparr>) = wf_packet p" "wf_packet (p\<lparr>pkt_length := s\<rparr>) = wf_packet p"
  "wf_packet (p\<lparr>pkt_payload := bs\<rparr>) \<longleftrightarrow> length bs = 128"
  by (simp_all add: wf_packet_def)

datatype decode_status =
  Ok | FrameTooShort | InvalidSync | UnsupportedVersion | PayloadTooLarge | LengthMismatch
  | CrcMismatch

section \<open>CRC-16/CCITT-FALSE\<close>

definition crc_bit :: "u16 \<Rightarrow> u16" where
  "crc_bit crc = (if crc AND 0x8000 \<noteq> 0 then push_bit 1 crc XOR 0x1021 else push_bit 1 crc)"

definition crc_byte :: "u16 \<Rightarrow> u8 \<Rightarrow> u16" where
  "crc_byte crc b = (crc_bit ^^ 8) (crc XOR push_bit 8 (ucast b))"

definition crc16_ccitt_false :: "u8 list \<Rightarrow> nat \<Rightarrow> u16" where
  "crc16_ccitt_false data n = foldl crc_byte 0xFFFF (take n data)"

section \<open>The codec\<close>

definition write_u16_be :: "u8 list \<Rightarrow> nat \<Rightarrow> u16 \<Rightarrow> u8 list" where
  "write_u16_be out i v = out[i := hi8 v, i + 1 := lo8 v]"

definition read_u16_be :: "u8 list \<Rightarrow> nat \<Rightarrow> u16" where
  "read_u16_be bs i = u16_of_bytes (bs ! i) (bs ! (i + 1))"

definition encoded_size :: "packet \<Rightarrow> nat" where
  "encoded_size p = kHeaderSize + unat (pkt_length p) + kCrcSize"

text \<open>
  A null pointer is \<open>None\<close>. The result is the returned flag, the buffer after the call and
  the value left in \<open>out_length\<close>.
\<close>

definition encode_packet :: "packet \<Rightarrow> u8 list option \<Rightarrow> nat \<Rightarrow> bool \<times> u8 list option \<times> nat" where
  "encode_packet p out cap =
    (if unat (pkt_length p) > kMaxPayloadSize then (False, out, 0)
     else case out of
       None \<Rightarrow> (False, out, 0)
     | Some buf \<Rightarrow>
         let n = unat (pkt_length p); frame_size = encoded_size p in
         if cap < frame_size then (False, out, 0)
         else
           let b1 = buf[0 := kSyncByte1, 1 := kSyncByte2, 2 := kProtocolVersion,
                        3 := pkt_source p, 4 := pkt_destination p, 5 := pkt_type p,
                        6 := pkt_flags p];
               b2 = (write_u16_be b1 7 (pkt_sequence p))[9 := ucast (pkt_length p)];
               b3 = copy_bytes b2 kHeaderSize (pkt_payload p) 0 n;
               crc = crc16_ccitt_false b3 (kHeaderSize + n)
           in (True, Some (write_u16_be b3 (kHeaderSize + n) crc), frame_size))"

definition decode_packet :: "u8 list option \<Rightarrow> nat \<Rightarrow> packet \<Rightarrow> decode_status \<times> packet" where
  "decode_packet frame frame_length out =
    (case frame of
       None \<Rightarrow> (FrameTooShort, out)
     | Some f \<Rightarrow>
         if frame_length < kHeaderSize + kCrcSize then (FrameTooShort, out)
         else if f ! 0 \<noteq> kSyncByte1 \<or> f ! 1 \<noteq> kSyncByte2 then (InvalidSync, out)
         else if f ! 2 \<noteq> kProtocolVersion then (UnsupportedVersion, out)
         else
           let n = unat (f ! 9) in
           if n > kMaxPayloadSize then (PayloadTooLarge, out)
           else if frame_length \<noteq> kHeaderSize + n + kCrcSize then (LengthMismatch, out)
           else if read_u16_be f (kHeaderSize + n) \<noteq> crc16_ccitt_false f (kHeaderSize + n)
           then (CrcMismatch, out)
           else (Ok, \<lparr>pkt_source = f ! 3, pkt_destination = f ! 4, pkt_type = f ! 5,
                      pkt_flags = f ! 6, pkt_sequence = read_u16_be f 7,
                      pkt_length = ucast (f ! 9),
                      pkt_payload = copy_bytes (pkt_payload out) 0 f kHeaderSize n\<rparr>))"

section \<open>The checksum is linear and injective\<close>

lemma and_0x8000: "(x :: u16) AND 0x8000 = 0 \<longleftrightarrow> \<not> bit x 15"
  using and_exp_eq_0_iff_not_bit [of x 15] by simp

lemma bit_crc_bit:
  assumes "n < 16"
  shows "bit (crc_bit x) n \<longleftrightarrow> (0 < n \<and> bit x (n - 1)) \<noteq> (bit x 15 \<and> bit (0x1021 :: u16) n)"
proof -
  have "bit (push_bit 1 x) n \<longleftrightarrow> 0 < n \<and> bit x (n - 1)"
    using assms by (subst bit_push_bit_iff) auto
  then show ?thesis
    unfolding crc_bit_def and_0x8000 by (auto simp only: bit_xor_iff if_True if_False split: if_split)
qed

lemma crc_bit_xor: "crc_bit (x XOR y) = crc_bit x XOR crc_bit y"
  by (rule bit_word_eqI) (auto simp: bit_crc_bit bit_xor_iff)

lemma crc_bit_0 [simp]: "crc_bit 0 = 0"
  by (rule bit_word_eqI) (simp add: bit_crc_bit)

lemma crc_bit_eq_0_iff: "crc_bit x = 0 \<longleftrightarrow> x = 0"
proof
  assume z: "crc_bit x = 0"
  have n15: "\<not> bit x 15"
    using bit_crc_bit [of 0 x] z by simp
  show "x = 0"
  proof (rule bit_word_eqI)
    fix n assume "n < LENGTH(16)"
    with n15 z bit_crc_bit [of "Suc n" x] show "bit x n = bit 0 n"
      by (cases "n = 15") auto
  qed
qed simp

lemma crc_bit_pow_xor: "(crc_bit ^^ n) (x XOR y) = (crc_bit ^^ n) x XOR (crc_bit ^^ n) y"
  by (induction n) (simp_all add: crc_bit_xor)

lemma crc_bit_pow_eq_0_iff: "(crc_bit ^^ n) x = 0 \<longleftrightarrow> x = 0"
  by (induction n) (simp_all add: crc_bit_eq_0_iff)

lemma word_xor_cancel: "(x :: 'a::len word) XOR (x XOR y) = y"
  by (simp add: xor.assoc [symmetric])

lemma word_xor_left_cancel: "(x :: 'a::len word) XOR y = x XOR z \<longleftrightarrow> y = z"
  by (metis word_xor_cancel)

lemma word_xor_eq_0_iff: "(x :: 'a::len word) XOR y = 0 \<longleftrightarrow> x = y"
  using word_xor_left_cancel [of x y x] by auto

lemma crc_bit_pow_inj: "(crc_bit ^^ n) x = (crc_bit ^^ n) y \<longleftrightarrow> x = y"
  using crc_bit_pow_eq_0_iff [of n "x XOR y"] by (simp add: crc_bit_pow_xor word_xor_eq_0_iff)

lemma bit_crc_bit_low:
  "k \<le> 8 \<Longrightarrow> n < 16 \<Longrightarrow>
    bit ((crc_bit ^^ k) (ucast (b :: u8))) n \<longleftrightarrow> k \<le> n \<and> bit b (n - k)"
proof (induction k arbitrary: n)
  case 0
  then show ?case by (simp add: bit_ucast_iff)
next
  case (Suc k)
  have "\<not> bit b (15 - k)"
    using Suc.prems(1) by (intro notI) (drule bit_imp_le_length, simp)
  with Suc.prems Suc.IH [of 15] Suc.IH [of "n - 1"] show ?case
    by (cases n) (auto simp: bit_crc_bit)
qed

lemma crc_bit_pow_low: "(crc_bit ^^ 8) (ucast (b :: u8)) = push_bit 8 (ucast b)"
  by (rule bit_word_eqI) (auto simp: bit_crc_bit_low bit_simps)

lemma crc_byte_inj_state: "crc_byte x b = crc_byte y b \<longleftrightarrow> x = y"
  unfolding crc_byte_def crc_bit_pow_inj by (metis xor.commute word_xor_left_cancel)

text \<open>Two consecutive bytes enter the register as one 16-bit word.\<close>

lemma crc_byte_byte:
  "crc_byte (crc_byte c h) l = (crc_bit ^^ 16) (c XOR u16_of_bytes h l)"
proof -
  let ?x = "c XOR push_bit 8 (ucast h)"
  have "crc_byte (crc_byte c h) l = (crc_bit ^^ 8) ((crc_bit ^^ 8) ?x XOR (crc_bit ^^ 8) (ucast l))"
    by (simp only: crc_byte_def crc_bit_pow_low)
  also have "\<dots> = (crc_bit ^^ 8) ((crc_bit ^^ 8) (?x XOR ucast l))"
    by (simp only: crc_bit_pow_xor)
  also have "\<dots> = (crc_bit ^^ (8 + 8)) (?x XOR ucast l)"
    by (simp only: funpow_add o_apply)
  also have "?x XOR ucast l = c XOR u16_of_bytes h l"
    by (rule bit_word_eqI) (auto simp: u16_of_bytes_def bit_simps dest: bit_imp_le_length)
  finally show ?thesis by simp
qed

lemma u16_of_bytes_inj: "u16_of_bytes h l = u16_of_bytes h' l' \<longleftrightarrow> h = h' \<and> l = l'"
  by (metis hi8_u16_of_bytes lo8_u16_of_bytes)

lemma crc_byte_byte_inj:
  "crc_byte (crc_byte c h) l = crc_byte (crc_byte c h') l' \<longleftrightarrow> h = h' \<and> l = l'"
  by (simp add: crc_byte_byte crc_bit_pow_inj u16_of_bytes_inj word_xor_left_cancel)

lemma foldl_crc_inj: "foldl crc_byte c bs = foldl crc_byte c' bs \<longleftrightarrow> c = c'"
  by (induction bs arbitrary: c c') (simp_all add: crc_byte_inj_state)

text \<open>Appending the checksum, high byte first, leaves the register at zero.\<close>

lemma crc_residue_0: "foldl crc_byte c [hi8 r, lo8 r] = 0 \<longleftrightarrow> c = r"
  by (simp add: crc_byte_byte crc_bit_pow_eq_0_iff word_xor_eq_0_iff)

section \<open>The codec against the frame layout\<close>

text \<open>
  The frame layout of the protocol document as a list: the checksummed part, then the checksum.
\<close>

definition frame_header :: "packet \<Rightarrow> u8 list" where
  "frame_header p = [kSyncByte1, kSyncByte2, kProtocolVersion, pkt_source p, pkt_destination p,
     pkt_type p, pkt_flags p, hi8 (pkt_sequence p), lo8 (pkt_sequence p), ucast (pkt_length p)]"

definition frame_body :: "packet \<Rightarrow> u8 list" where
  "frame_body p = frame_header p @ take (unat (pkt_length p)) (pkt_payload p)"

definition frame_crc :: "packet \<Rightarrow> u16" where
  "frame_crc p = foldl crc_byte 0xFFFF (frame_body p)"

definition frame_of :: "packet \<Rightarrow> u8 list" where
  "frame_of p = frame_body p @ [hi8 (frame_crc p), lo8 (frame_crc p)]"

definition sendable :: "packet \<Rightarrow> bool" where
  "sendable p \<longleftrightarrow> wf_packet p \<and> unat (pkt_length p) \<le> kMaxPayloadSize"

lemma length_frame_header [simp]: "length (frame_header p) = 10"
  by (simp add: frame_header_def)

lemma length_frame_body: "sendable p \<Longrightarrow> length (frame_body p) = 10 + unat (pkt_length p)"
  by (simp add: frame_body_def sendable_def wf_packet_def)

lemma length_frame_of: "sendable p \<Longrightarrow> length (frame_of p) = encoded_size p"
  by (simp add: frame_of_def length_frame_body encoded_size_def)

lemma encoded_size_bounds:
  "sendable p \<Longrightarrow> 12 \<le> encoded_size p \<and> encoded_size p \<le> kMaxFrameSize"
  by (simp add: encoded_size_def sendable_def)

text \<open>Whatever the buffer held, its prefix becomes the frame.\<close>

lemma encode_packet_frame:
  assumes "sendable p" and "encoded_size p \<le> cap" and "cap \<le> length buf"
  shows "encode_packet p (Some buf) cap =
    (True, Some (frame_of p @ drop (encoded_size p) buf), encoded_size p)"
proof -
  let ?n = "unat (pkt_length p)"
  let ?b2 = "(write_u16_be (buf[0 := kSyncByte1, 1 := kSyncByte2, 2 := kProtocolVersion,
      3 := pkt_source p, 4 := pkt_destination p, 5 := pkt_type p, 6 := pkt_flags p]) 7
      (pkt_sequence p))[9 := ucast (pkt_length p)]"
  let ?b3 = "copy_bytes ?b2 10 (pkt_payload p) 0 ?n"
  have len: "?n + 12 \<le> length buf" and pl: "?n \<le> length (pkt_payload p)"
    using assms by (simp_all add: encoded_size_def sendable_def wf_packet_def)
  obtain a0 a1 a2 a3 a4 a5 a6 a7 a8 a9 bs where buf: "buf = a0#a1#a2#a3#a4#a5#a6#a7#a8#a9#bs"
    using len by (auto simp: Suc_le_length_iff numeral_eq_Suc)
  have b2: "?b2 = frame_header p @ bs"
    by (simp add: buf frame_header_def write_u16_be_def)
  have b3: "?b3 = frame_body p @ drop ?n bs"
    using len pl by (subst copy_bytes_splice) (simp_all only: b2, simp_all add: buf frame_body_def)
  have crc: "crc16_ccitt_false (frame_body p @ drop ?n bs) (10 + ?n) = frame_crc p"
    unfolding crc16_ccitt_false_def frame_crc_def using length_frame_body [OF assms(1)] by simp
  have w: "write_u16_be (frame_body p @ drop ?n bs) (10 + ?n) (frame_crc p) =
      frame_of p @ drop (?n + 2) bs"
  proof -
    have "2 \<le> length (drop ?n bs)"
      using len by (simp add: buf)
    then obtain x y r where d: "drop ?n bs = x # y # r"
      by (cases "drop ?n bs"; cases "tl (drop ?n bs)") auto
    have "drop (?n + 2) bs = drop 2 (drop ?n bs)"
      by (simp add: add.commute)
    with d have "drop (?n + 2) bs = r"
      by simp
    with d length_frame_body [OF assms(1)] show ?thesis
      by (simp add: write_u16_be_def list_update_append frame_of_def)
  qed
  have "\<not> cap < encoded_size p" "\<not> unat (pkt_length p) > kMaxPayloadSize"
    using assms by (simp_all add: sendable_def)
  moreover have "drop (encoded_size p) buf = drop (?n + 2) bs"
    by (simp add: buf encoded_size_def numeral_eq_Suc)
  ultimately show ?thesis
    unfolding encode_packet_def Let_def by (simp add: b3 [simplified] crc w [simplified])
qed

lemma encode_packet_too_large:
  "unat (pkt_length p) > kMaxPayloadSize \<Longrightarrow> encode_packet p out cap = (False, out, 0)"
  by (simp add: encode_packet_def)

text \<open>
  Decoding reads a frame that sits at the start of its buffer: the exact conditions under which
  it answers \<open>Ok\<close>.
\<close>

lemma decode_packet_Ok_iff:
  "fst (decode_packet (Some f) m out) = Ok \<longleftrightarrow>
    12 \<le> m \<and> f ! 0 = kSyncByte1 \<and> f ! 1 = kSyncByte2 \<and> f ! 2 = kProtocolVersion
    \<and> unat (f ! 9) \<le> kMaxPayloadSize \<and> m = 12 + unat (f ! 9)
    \<and> read_u16_be f (10 + unat (f ! 9)) = crc16_ccitt_false f (10 + unat (f ! 9))"
  by (auto simp: decode_packet_def Let_def)

lemma unat_ucast_u8_u16 [simp]: "unat (ucast (b :: u8) :: u16) = unat b"
  using unsigned_less [of b, where 'a = nat]
  by (simp add: unsigned_ucast_eq take_bit_nat_eq_self)

lemma ucast_u16_small: "unat (n :: u16) \<le> 128 \<Longrightarrow> unat (ucast n :: u8) = unat n"
  by (simp add: unsigned_ucast_eq take_bit_nat_eq_self)

lemma ucast_ucast_small: "unat (n :: u16) \<le> 128 \<Longrightarrow> (ucast (ucast n :: u8) :: u16) = n"
  by (simp add: word_unat_eq_iff ucast_u16_small)

lemma frame_of_nth:
  assumes "sendable p"
  shows "frame_of p ! 0 = kSyncByte1" "frame_of p ! 1 = kSyncByte2"
    "frame_of p ! 2 = kProtocolVersion" "frame_of p ! 3 = pkt_source p"
    "frame_of p ! 4 = pkt_destination p" "frame_of p ! 5 = pkt_type p"
    "frame_of p ! 6 = pkt_flags p" "frame_of p ! 7 = hi8 (pkt_sequence p)"
    "frame_of p ! 8 = lo8 (pkt_sequence p)" "frame_of p ! 9 = ucast (pkt_length p)"
    "read_u16_be (frame_of p) (10 + unat (pkt_length p)) = frame_crc p"
    "drop 10 (frame_of p) = take (unat (pkt_length p)) (pkt_payload p) @
       [hi8 (frame_crc p), lo8 (frame_crc p)]"
  using length_frame_body [OF assms]
  by (simp_all add: frame_of_def frame_body_def frame_header_def nth_append read_u16_be_def)

lemma decode_frame_of:
  assumes "sendable p" and "length (pkt_payload out) = kMaxPayloadSize"
  shows "decode_packet (Some (frame_of p @ rest)) (encoded_size p) out =
    (Ok, p\<lparr>pkt_payload := take (unat (pkt_length p)) (pkt_payload p) @
            drop (unat (pkt_length p)) (pkt_payload out)\<rparr>)"
proof -
  let ?f = "frame_of p @ rest" and ?n = "unat (pkt_length p)"
  have n: "?n \<le> 128" and pl: "length (pkt_payload p) = 128"
    using assms(1) by (simp_all add: sendable_def wf_packet_def)
  have lf: "length (frame_of p) = 12 + ?n"
    using length_frame_of [OF assms(1)] by (simp add: encoded_size_def)
  have nth: "?f ! i = frame_of p ! i" if "i < 12 + ?n" for i
    using that lf by (simp add: nth_append)
  have crc: "crc16_ccitt_false ?f (10 + ?n) = frame_crc p"
    using lf length_frame_body [OF assms(1)]
    by (simp add: crc16_ccitt_false_def frame_crc_def frame_of_def)
  have rd: "read_u16_be ?f (10 + ?n) = frame_crc p"
    using frame_of_nth(11) [OF assms(1)] by (simp add: read_u16_be_def nth)
  have pay: "copy_bytes (pkt_payload out) 0 ?f 10 ?n =
      take ?n (pkt_payload p) @ drop ?n (pkt_payload out)"
    using assms(2) n pl lf by (subst copy_bytes_splice) (simp_all add: frame_of_nth(12) [OF assms(1)])
  note hd = frame_of_nth(1-10) [OF assms(1)]
  have f9: "unat (?f ! 9) = ?n"
    using n by (simp add: nth hd ucast_u16_small)
  show ?thesis
    unfolding decode_packet_def option.case Let_def f9
    using n by (simp add: nth hd [simplified] crc [simplified] rd [simplified] pay encoded_size_def
      ucast_ucast_small) (simp add: read_u16_be_def nth hd [simplified])
qed

lemma take_10_nth:
  assumes "10 \<le> length f"
  shows "take 10 f = [f!0, f!1, f!2, f!3, f!4, f!5, f!6, f!7, f!8, f!9]"
proof -
  obtain a0 a1 a2 a3 a4 a5 a6 a7 a8 a9 bs where "f = a0#a1#a2#a3#a4#a5#a6#a7#a8#a9#bs"
    using assms by (auto simp: Suc_le_length_iff numeral_eq_Suc)
  then show ?thesis by simp
qed

lemma take_two_more:
  "n + 2 \<le> length f \<Longrightarrow> take (n + 2) f = take n f @ [f ! n, f ! (n + 1)]"
  by (simp add: take_Suc_conv_app_nth)

lemma ucast_down_up [simp]: "ucast (ucast (b :: u8) :: u16) = b"
  by (rule bit_word_eqI) (simp add: bit_simps)

lemma decode_packet_Ok:
  assumes ok: "decode_packet (Some f) m out = (Ok, p)" and m: "m \<le> length f"
    and out: "length (pkt_payload out) = kMaxPayloadSize"
  shows "sendable p" and "take m f = frame_of p"
proof -
  let ?n = "unat (f ! 9)"
  have c: "f ! 0 = kSyncByte1" "f ! 1 = kSyncByte2" "f ! 2 = kProtocolVersion" "?n \<le> 128"
    "m = 12 + ?n" "read_u16_be f (10 + ?n) = crc16_ccitt_false f (10 + ?n)"
    using decode_packet_Ok_iff [of f m out] ok by auto
  have p: "pkt_source p = f ! 3" "pkt_destination p = f ! 4" "pkt_type p = f ! 5"
    "pkt_flags p = f ! 6" "pkt_sequence p = u16_of_bytes (f ! 7) (f ! 8)"
    "pkt_length p = ucast (f ! 9)" "pkt_payload p = copy_bytes (pkt_payload out) 0 f 10 ?n"
    using ok by (auto simp: decode_packet_def Let_def read_u16_be_def split: if_splits)
  show s: "sendable p"
    using out c(4) by (simp add: sendable_def wf_packet_def p)
  have t10: "take 10 f = frame_header p"
    using m c(1-3) c(5) by (simp add: take_10_nth frame_header_def p)
  have pay: "take ?n (pkt_payload p) = take ?n (drop 10 f)"
    using m c(4) c(5) out unfolding p by (subst copy_bytes_splice) simp_all
  have body: "take (10 + ?n) f = frame_body p"
    by (simp add: take_add t10 frame_body_def pay) (simp add: p pay [unfolded p])
  have crc: "frame_crc p = u16_of_bytes (f ! (10 + ?n)) (f ! (11 + ?n))"
    using c(6) by (simp add: frame_crc_def body [symmetric] crc16_ccitt_false_def read_u16_be_def)
  have "take (12 + ?n) f = take (10 + ?n) f @ [f ! (10 + ?n), f ! (11 + ?n)]"
    using m c(5) take_two_more [of "10 + ?n" f] by (simp add: numeral_eq_Suc)
  then show "take m f = frame_of p"
    by (simp add: c(5) body [simplified] frame_of_def crc)
qed

lemma frame_of_residue: "foldl crc_byte 0xFFFF (frame_of p) = 0"
  using crc_residue_0 [of "frame_crc p" "frame_crc p"] by (simp add: frame_of_def frame_crc_def)

lemma decode_Ok_residue:
  assumes "fst (decode_packet (Some f) (length f) out) = Ok"
    and "length (pkt_payload out) = kMaxPayloadSize"
  shows "foldl crc_byte 0xFFFF f = 0"
proof -
  obtain p where "decode_packet (Some f) (length f) out = (Ok, p)"
    using assms(1) by (metis prod.collapse)
  from decode_packet_Ok(2) [OF this _ assms(2)] have "f = frame_of p" by simp
  then show ?thesis by (simp add: frame_of_residue)
qed

lemma crc_burst_neq:
  assumes "i + 1 < length f" and "f[i := a, i + 1 := b] \<noteq> f"
  shows "foldl crc_byte c (f[i := a, i + 1 := b]) \<noteq> foldl crc_byte c f"
proof -
  let ?pre = "take i f" and ?post = "drop (i + 2) f"
  have f: "f = ?pre @ f ! i # f ! (i + 1) # ?post"
    using assms(1) by (simp add: Cons_nth_drop_Suc)
  have f': "f[i := a, i + 1 := b] = ?pre @ a # b # ?post"
    using assms(1) by (subst f) (simp add: list_update_append)
  have "(a, b) \<noteq> (f ! i, f ! (i + 1))"
    using assms(2) by (metis list_update_id prod.inject)
  then have "crc_byte (crc_byte (foldl crc_byte c ?pre) a) b \<noteq>
      crc_byte (crc_byte (foldl crc_byte c ?pre) (f ! i)) (f ! (i + 1))"
    by (simp add: crc_byte_byte_inj)
  then show ?thesis
    unfolding f' by (subst (3) f) (simp add: foldl_crc_inj)
qed

text \<open>The checksum's published check value, and a concrete frame.\<close>

lemma crc_byte_unfold:
  "crc_byte c b = crc_bit (crc_bit (crc_bit (crc_bit (crc_bit (crc_bit (crc_bit (crc_bit
     (c XOR push_bit 8 (ucast b)))))))))"
  by (simp add: crc_byte_def numeral_eq_Suc)

lemma crc16_check_value:
  "crc16_ccitt_false [0x31, 0x32, 0x33, 0x34, 0x35, 0x36, 0x37, 0x38, 0x39] 9 = 0x29B1"
  by (simp add: crc16_ccitt_false_def crc_byte_unfold crc_bit_def)

lemma default_frame:
  "frame_of default_packet = [0xA5, 0x5A, 1, 1, 0x10, 1, 0, 0, 0, 0, 0x52, 0xA8]"
  by (simp add: frame_of_def frame_header_def frame_body_def frame_crc_def crc_byte_unfold
    crc_bit_def hi8_def lo8_def)

lemma sendable_default [simp]: "sendable default_packet"
  by (simp add: sendable_def)

lemma default_packet_eta [simp]: "default_packet\<lparr>pkt_payload := replicate 128 0\<rparr> = default_packet"
  by (simp add: default_packet_def)

lemma length_default_frame [simp]: "length (frame_of default_packet) = 12"
  by (simp add: length_frame_of encoded_size_def)

lemma decode_default_frame:
  "decode_packet (Some (frame_of default_packet @ rest)) 12 default_packet = (Ok, default_packet)"
  "decode_packet (Some (frame_of default_packet)) 12 default_packet = (Ok, default_packet)"
  using decode_frame_of [of default_packet default_packet rest]
    decode_frame_of [of default_packet default_packet "[]"] by (simp_all add: encoded_size_def)

section \<open>Properties of the codec\<close>

text \<open>C22: Encoding then decoding. Any packet whose payload array has its declared size and whose
  length field is at most 128 is encoded into any buffer that holds its frame, and decoding the
  written bytes answers \<open>Ok\<close> with every header field and the payload prefix unchanged; the
  rest of the receiving packet's payload array is left as it was.\<close>

theorem codec_roundtrip:
  assumes "sendable p" and "encoded_size p \<le> length buf"
    and "length (pkt_payload out) = kMaxPayloadSize"
  shows "\<exists>buf'. encode_packet p (Some buf) (length buf) = (True, Some buf', encoded_size p)
    \<and> length buf' = length buf
    \<and> decode_packet (Some buf') (encoded_size p) out =
        (Ok, p\<lparr>pkt_payload := take (unat (pkt_length p)) (pkt_payload p) @
                 drop (unat (pkt_length p)) (pkt_payload out)\<rparr>)"
  using encode_packet_frame [OF assms(1,2), of buf] decode_frame_of [OF assms(1,3)]
    length_frame_of [OF assms(1)] assms(2) by auto

theorem codec_roundtrip_witness:
  "\<exists>buf'. encode_packet default_packet (Some (replicate 12 0)) 12 = (True, Some buf', 12)
    \<and> length buf' = 12 \<and> decode_packet (Some buf') 12 default_packet = (Ok, default_packet)"
  using codec_roundtrip [of default_packet "replicate 12 0" default_packet]
  by (simp add: encoded_size_def)

text \<open>Decoding then encoding. A byte sequence that decodes \<open>Ok\<close> is exactly the frame
  encoding writes for the packet it decodes to: the codec accepts one spelling per packet.\<close>

theorem decode_canonical:
  assumes "decode_packet (Some f) (length f) out = (Ok, p)"
    and "length (pkt_payload out) = kMaxPayloadSize"
  shows "encode_packet p (Some f) (length f) = (True, Some f, length f)"
proof -
  have s: "sendable p" and f: "f = frame_of p"
    using decode_packet_Ok [OF assms(1) _ assms(2)] by simp_all
  have n: "encoded_size p = length f"
    using length_frame_of [OF s] f by simp
  show ?thesis
    using encode_packet_frame [OF s, of "length f" f] f n by simp
qed

theorem decode_canonical_witness:
  "encode_packet default_packet (Some [0xA5, 0x5A, 1, 1, 0x10, 1, 0, 0, 0, 0, 0x52, 0xA8]) 12 =
    (True, Some [0xA5, 0x5A, 1, 1, 0x10, 1, 0, 0, 0, 0, 0x52, 0xA8], 12)"
  using decode_canonical [of "[0xA5, 0x5A, 1, 1, 0x10, 1, 0, 0, 0, 0, 0x52, 0xA8]" default_packet
      default_packet] decode_default_frame
  by (simp add: default_frame eval_nat_numeral)

text \<open>C25: Error detection. Overwriting any two adjacent bytes of a frame that decodes \<open>Ok\<close>,
  header, length, payload and checksum bytes included, with any other values is never accepted:
  the receiver answers some error status, whatever its packet buffer held.\<close>

theorem corruption_detected:
  assumes "fst (decode_packet (Some f) (length f) out) = Ok"
    and "i + 1 < length f" and "f[i := a, i + 1 := b] \<noteq> f"
    and "length (pkt_payload out) = kMaxPayloadSize"
    and "length (pkt_payload out') = kMaxPayloadSize"
  shows "fst (decode_packet (Some (f[i := a, i + 1 := b])) (length f) out') \<noteq> Ok"
proof
  let ?f' = "f[i := a, i + 1 := b]"
  assume "fst (decode_packet (Some ?f') (length f) out') = Ok"
  then have "foldl crc_byte 0xFFFF ?f' = 0"
    using decode_Ok_residue [of ?f' out'] assms(5) by simp
  moreover have "foldl crc_byte 0xFFFF f = 0"
    using assms(1,4) by (rule decode_Ok_residue)
  ultimately show False
    using crc_burst_neq [OF assms(2,3)] by metis
qed

theorem corruption_detected_witness:
  "fst (decode_packet (Some ((frame_of default_packet)[4 := 0x20, 5 := 0x20])) 12 default_packet) \<noteq> Ok"
proof -
  have "(frame_of default_packet)[4 := 0x20, 4 + 1 := 0x20] \<noteq> frame_of default_packet"
    by (simp add: default_frame)
  then show ?thesis
    using corruption_detected [of "frame_of default_packet" default_packet 4 "0x20" "0x20" default_packet]
      decode_default_frame by simp
qed

end
