(* ===== verification/StreamParser.thy ===== *)
theory StreamParser
  imports Protocol
begin

text \<open>
  The byte-stream parser (\<open>library/src/stream_parser.cpp\<close>): its state, \<open>push\<close> and
  \<open>reset\<close>, the invariant that keeps every buffer access in range, and what it makes of a
  stream: exactly the packets whose frames were sent, in order, after any garbage that does not
  contain the two-byte synchronisation pattern.
\<close>

section \<open>State and operations\<close>

record stream_parser =
  sp_buffer :: "u8 list"
  sp_length :: nat
  sp_expected :: nat
  sp_rejected :: u32

definition stream_parser_init :: stream_parser where
  "stream_parser_init = \<lparr>sp_buffer = replicate kMaxFrameSize 0, sp_length = 0, sp_expected = 0,
     sp_rejected = 0\<rparr>"

definition parser_reset :: "stream_parser \<Rightarrow> stream_parser" where
  "parser_reset s = s\<lparr>sp_length := 0, sp_expected := 0\<rparr>"

definition parser_reject :: "stream_parser \<Rightarrow> stream_parser" where
  "parser_reject s = parser_reset (s\<lparr>sp_rejected := sp_rejected s + 1\<rparr>)"

definition parser_store :: "stream_parser \<Rightarrow> u8 \<Rightarrow> stream_parser" where
  "parser_store s b = s\<lparr>sp_buffer := (sp_buffer s)[sp_length s := b], sp_length := sp_length s + 1\<rparr>"

definition parser_push :: "stream_parser \<Rightarrow> u8 \<Rightarrow> packet \<Rightarrow> bool \<times> stream_parser \<times> packet" where
  "parser_push s byte out =
    (if sp_length s = 0 then
       (if byte \<noteq> kSyncByte1 then (False, s, out) else (False, parser_store s byte, out))
     else if sp_length s = 1 then
       (if byte \<noteq> kSyncByte2 then
          (if byte = kSyncByte1
           then (False, s\<lparr>sp_length := 1, sp_buffer := (sp_buffer s)[0 := byte]\<rparr>, out)
           else (False, s\<lparr>sp_length := 0\<rparr>, out))
        else (False, parser_store s byte, out))
     else if sp_length s \<ge> length (sp_buffer s) then (False, parser_reject s, out)
     else
       let s1 = parser_store s byte in
       if sp_length s1 = kHeaderSize \<and> unat (sp_buffer s1 ! 9) > kMaxPayloadSize
       then (False, parser_reject s1, out)
       else
         let s2 = (if sp_length s1 = kHeaderSize
                   then s1\<lparr>sp_expected := kHeaderSize + unat (sp_buffer s1 ! 9) + kCrcSize\<rparr>
                   else s1)
         in if sp_expected s2 \<noteq> 0 \<and> sp_length s2 = sp_expected s2 then
              case decode_packet (Some (sp_buffer s2)) (sp_length s2) out of (status, out') \<Rightarrow>
                (if status = Ok then (True, parser_reset s2, out')
                 else (False, parser_reject s2, out'))
            else (False, s2, out))"

text \<open>
  The receive loop of the nodes and of the northbridge: every byte is pushed with a fresh
  \<open>Packet{}\<close>; the completed packets are handled in order.
\<close>

fun parser_feed :: "stream_parser \<Rightarrow> u8 list \<Rightarrow> stream_parser \<times> packet list" where
  "parser_feed s [] = (s, [])"
| "parser_feed s (b # bs) =
    (case parser_push s b default_packet of
       (ok, s', p) \<Rightarrow>
         case parser_feed s' bs of (s'', ps) \<Rightarrow> (s'', if ok then p # ps else ps))"

lemma parser_feed_append:
  "parser_feed s (bs @ cs) =
    (let (s1, ps) = parser_feed s bs; (s2, qs) = parser_feed s1 cs in (s2, ps @ qs))"
  by (induction bs arbitrary: s) (auto simp: Let_def split: prod.splits)

section \<open>The invariant\<close>

text \<open>
  Every buffer access is in range, the collected prefix starts with the synchronisation bytes,
  the expected size is known exactly when the header is complete, and a complete frame never
  waits.
\<close>

definition parser_inv :: "stream_parser \<Rightarrow> bool" where
  "parser_inv s \<longleftrightarrow>
     length (sp_buffer s) = kMaxFrameSize
     \<and> (sp_length s \<ge> 1 \<longrightarrow> sp_buffer s ! 0 = kSyncByte1)
     \<and> (sp_length s \<ge> 2 \<longrightarrow> sp_buffer s ! 1 = kSyncByte2)
     \<and> (if sp_length s < kHeaderSize then sp_expected s = 0
        else sp_expected s = kHeaderSize + unat (sp_buffer s ! 9) + kCrcSize
          \<and> unat (sp_buffer s ! 9) \<le> kMaxPayloadSize \<and> sp_length s < sp_expected s)"

lemma parser_inv_init [inv_intros]: "parser_inv stream_parser_init"
  by (simp add: parser_inv_def stream_parser_init_def)

lemma parser_inv_length: "parser_inv s \<Longrightarrow> sp_length s < length (sp_buffer s)"
  by (auto simp: parser_inv_def split: if_splits)

lemma parser_inv_idleI:
  "length (sp_buffer s) = kMaxFrameSize \<Longrightarrow> sp_length s = 0 \<Longrightarrow> sp_expected s = 0 \<Longrightarrow> parser_inv s"
  by (simp add: parser_inv_def)

lemma parser_store_sel [simp]:
  "sp_buffer (parser_store s b) = (sp_buffer s)[sp_length s := b]"
  "sp_length (parser_store s b) = Suc (sp_length s)"
  "sp_expected (parser_store s b) = sp_expected s"
  "sp_rejected (parser_store s b) = sp_rejected s"
  by (simp_all add: parser_store_def)

lemma parser_reset_sel [simp]:
  "sp_buffer (parser_reset s) = sp_buffer s" "sp_length (parser_reset s) = 0"
  "sp_expected (parser_reset s) = 0" "sp_rejected (parser_reset s) = sp_rejected s"
  by (simp_all add: parser_reset_def)

lemma parser_reject_sel [simp]:
  "sp_buffer (parser_reject s) = sp_buffer s" "sp_length (parser_reject s) = 0"
  "sp_expected (parser_reject s) = 0" "sp_rejected (parser_reject s) = sp_rejected s + 1"
  by (simp_all add: parser_reject_def)

text \<open>The four phases of \<open>push\<close>, as conditional equations over the invariant.\<close>

lemma push_idle:
  "sp_length s = 0 \<Longrightarrow> parser_push s b out =
    (False, if b = kSyncByte1 then parser_store s b else s, out)"
  by (simp add: parser_push_def)

lemma push_sync:
  "sp_length s = 1 \<Longrightarrow> parser_push s b out =
    (False, if b = kSyncByte2 then parser_store s b
            else if b = kSyncByte1 then s\<lparr>sp_buffer := (sp_buffer s)[0 := b]\<rparr>
            else s\<lparr>sp_length := 0\<rparr>, out)"
  by (simp add: parser_push_def)

lemma push_collect:
  assumes "parser_inv s" and "2 \<le> sp_length s" and "sp_length s \<noteq> 9"
    and "Suc (sp_length s) \<noteq> sp_expected s"
  shows "parser_push s b out = (False, parser_store s b, out)"
  using assms parser_inv_length [OF assms(1)] by (simp add: parser_push_def Let_def)

lemma push_header:
  assumes "parser_inv s" and "sp_length s = 9"
  shows "parser_push s b out =
    (if unat b > kMaxPayloadSize then (False, parser_reject (parser_store s b), out)
     else (False, (parser_store s b)\<lparr>sp_expected := 12 + unat b\<rparr>, out))"
  using assms parser_inv_length [OF assms(1)] by (simp add: parser_push_def Let_def)

lemma push_complete:
  assumes "parser_inv s" and "2 \<le> sp_length s" and "sp_length s \<noteq> 9"
    and "Suc (sp_length s) = sp_expected s"
  shows "parser_push s b out =
    (case decode_packet (Some ((sp_buffer s)[sp_length s := b])) (sp_expected s) out of
       (status, out') \<Rightarrow> if status = Ok then (True, parser_reset (parser_store s b), out')
                        else (False, parser_reject (parser_store s b), out'))"
  using assms parser_inv_length [OF assms(1)] by (simp add: parser_push_def Let_def)

lemma push_cases [consumes 1, case_names idle sync collect header complete]:
  assumes "parser_inv s"
  obtains "sp_length s = 0" | "sp_length s = 1"
  | "2 \<le> sp_length s" "sp_length s \<noteq> 9" "Suc (sp_length s) \<noteq> sp_expected s"
  | "sp_length s = 9"
  | "10 \<le> sp_length s" "Suc (sp_length s) = sp_expected s"
proof -
  have "sp_length s < 10 \<Longrightarrow> sp_expected s = 0"
    using assms by (simp add: parser_inv_def)
  then show ?thesis using that by force
qed

lemma parser_push_inv [inv_intros]:
  assumes "parser_inv s"
  shows "parser_inv (fst (snd (parser_push s b out)))"
  using assms
proof (cases s rule: push_cases)
  case idle
  with assms show ?thesis by (simp add: push_idle parser_inv_def)
next
  case sync
  with assms show ?thesis by (auto simp: push_sync parser_inv_def)
next
  case collect
  with assms parser_inv_length [OF assms] show ?thesis
    by (auto simp: push_collect parser_inv_def nth_list_update split: if_splits)
next
  case header
  with assms show ?thesis by (auto simp: push_header parser_inv_def)
next
  case complete
  with assms show ?thesis
    by (auto simp: push_complete parser_inv_def split: prod.splits)
qed

lemma parser_feed_inv [inv_intros]:
  "parser_inv s \<Longrightarrow> parser_inv (fst (parser_feed s bs))"
proof (induction bs arbitrary: s)
  case (Cons b bs)
  then show ?case
    using parser_push_inv [OF Cons.prems, of b default_packet]
    by (fastforce split: prod.splits dest: Cons.IH)
qed simp

section \<open>Parsing a frame\<close>

text \<open>
  A parser that has collected the prefix \<open>xs\<close> of some frame, having rejected \<open>r\<close> frames so far.
\<close>

definition collected :: "u32 \<Rightarrow> u8 list \<Rightarrow> stream_parser \<Rightarrow> bool" where
  "collected r xs s \<longleftrightarrow> parser_inv s \<and> sp_length s = length xs \<and> take (length xs) (sp_buffer s) = xs
     \<and> sp_rejected s = r"

lemma collected_idle: "collected r [] s \<longleftrightarrow> parser_inv s \<and> sp_length s = 0 \<and> sp_rejected s = r"
  by (auto simp: collected_def)

lemma collected_nth: "collected r xs s \<Longrightarrow> i < length xs \<Longrightarrow> sp_buffer s ! i = xs ! i"
  unfolding collected_def by (metis nth_take)

lemma collected_store:
  assumes "collected r xs s" and "parser_inv s'" and "sp_buffer s' = (sp_buffer s)[length xs := b]"
    and "sp_length s' = Suc (length xs)" and "sp_rejected s' = sp_rejected s"
  shows "collected r (xs @ [b]) s'"
  using assms parser_inv_length [of s] unfolding collected_def
  by (simp add: take_Suc_update)

text \<open>The packet a receiver with a fresh \<open>Packet{}\<close> sees: the payload prefix, zero-filled.\<close>

definition received :: "packet \<Rightarrow> packet" where
  "received p = p\<lparr>pkt_payload := take (unat (pkt_length p)) (pkt_payload p) @
                  replicate (kMaxPayloadSize - unat (pkt_length p)) 0\<rparr>"

lemma received_sel [simp]:
  "pkt_source (received p) = pkt_source p" "pkt_destination (received p) = pkt_destination p"
  "pkt_type (received p) = pkt_type p" "pkt_flags (received p) = pkt_flags p"
  "pkt_sequence (received p) = pkt_sequence p" "pkt_length (received p) = pkt_length p"
  by (simp_all add: received_def)

lemma frame_of_received [simp]: "sendable h \<Longrightarrow> frame_of (received h) = frame_of h"
  by (simp add: frame_of_def frame_body_def frame_crc_def frame_header_def received_def sendable_def wf_packet_def)

lemma received_payload_nth:
  "sendable p \<Longrightarrow> i < unat (pkt_length p) \<Longrightarrow> pkt_payload (received p) ! i = pkt_payload p ! i"
  by (simp add: received_def sendable_def wf_packet_def nth_append)

lemma sendable_received [simp]: "sendable p \<Longrightarrow> sendable (received p)"
  by (simp add: sendable_def wf_packet_def received_def)

lemma collected_step:
  assumes c: "collected r (take k (frame_of p)) s" and k: "Suc k < length (frame_of p)"
    and p: "sendable p"
  shows "\<exists>s'. parser_push s (frame_of p ! k) out = (False, s', out)
    \<and> collected r (take (Suc k) (frame_of p)) s'"
proof -
  let ?b = "frame_of p ! k"
  have inv: "parser_inv s" and len: "sp_length s = k"
    using c k by (simp_all add: collected_def)
  have inv': "parser_inv (fst (snd (parser_push s ?b out)))"
    using inv by (rule parser_push_inv)
  have T: "take (Suc k) (frame_of p) = take k (frame_of p) @ [?b]"
    using k by (simp add: take_Suc_conv_app_nth)
  have store: "collected r (take (Suc k) (frame_of p)) s'"
    if "parser_inv s'" "sp_buffer s' = (sp_buffer s)[k := ?b]" "sp_length s' = Suc k"
      "sp_rejected s' = sp_rejected s" for s'
    unfolding T using c that k by (intro collected_store) simp_all
  have n: "unat (pkt_length p) \<le> 128" and L: "length (frame_of p) = 12 + unat (pkt_length p)"
    using p length_frame_of [OF p] by (simp_all add: sendable_def encoded_size_def)
  have exp: "10 \<le> k \<Longrightarrow> sp_expected s = length (frame_of p)"
    using inv len collected_nth [OF c, of 9] k n frame_of_nth(10) [OF p] L
    by (simp add: parser_inv_def ucast_u16_small)
  consider "k = 0" | "k = 1" | "2 \<le> k" "k \<noteq> 9" | "k = 9" by linarith
  then show ?thesis
  proof cases
    case 1
    with len inv' store frame_of_nth(1) [OF p] show ?thesis by (simp add: push_idle)
  next
    case 2
    with len inv' store frame_of_nth(2) [OF p] show ?thesis by (simp add: push_sync)
  next
    case 3
    have "Suc (sp_length s) \<noteq> sp_expected s"
      using inv len k exp by (cases "10 \<le> k") (auto simp: parser_inv_def)
    then have "parser_push s ?b out = (False, parser_store s ?b, out)"
      using inv len 3 by (intro push_collect) simp_all
    with inv' store len show ?thesis by simp
  next
    case 4
    with inv len inv' store n frame_of_nth(10) [OF p] show ?thesis
      by (auto simp: push_header ucast_u16_small)
  qed
qed

lemma feed_prefix:
  assumes "collected r [] s" and "k < length (frame_of p)" and "sendable p"
  shows "\<exists>s'. parser_feed s (take k (frame_of p)) = (s', []) \<and> collected r (take k (frame_of p)) s'"
  using assms(2)
proof (induction k)
  case (Suc k)
  then obtain s1 where s1: "parser_feed s (take k (frame_of p)) = (s1, [])"
    "collected r (take k (frame_of p)) s1" by auto
  from collected_step [OF s1(2) Suc.prems assms(3), of default_packet]
  obtain s2 where "parser_push s1 (frame_of p ! k) default_packet = (False, s2, default_packet)"
    "collected r (take (Suc k) (frame_of p)) s2" by auto
  with s1(1) Suc.prems show ?case
    by (auto simp: take_Suc_conv_app_nth parser_feed_append)
qed (use assms(1) in simp)

text \<open>The last byte of a frame, whatever packet the caller hands in.\<close>

lemma push_last:
  assumes c: "collected r (take k (frame_of p)) s" and k: "Suc k = length (frame_of p)"
    and p: "sendable p" and out: "length (pkt_payload out) = kMaxPayloadSize"
  shows "\<exists>s'. parser_push s (frame_of p ! k) out = (True, s', p\<lparr>pkt_payload :=
      take (unat (pkt_length p)) (pkt_payload p) @ drop (unat (pkt_length p)) (pkt_payload out)\<rparr>)
    \<and> collected r [] s'"
proof -
  let ?f = "frame_of p"
  have L: "length ?f = 12 + unat (pkt_length p)" "unat (pkt_length p) \<le> 128"
    using p length_frame_of [OF p] by (simp_all add: sendable_def encoded_size_def)
  then have k': "k < length ?f" "11 \<le> k" using k by simp_all
  let ?b = "?f ! k" and ?buf = "(sp_buffer s)[k := ?f ! k]"
  have inv: "parser_inv s" and len: "sp_length s = k"
    using c k' by (simp_all add: collected_def)
  have exp: "sp_expected s = length ?f"
    using inv len collected_nth [OF c, of 9] k' L frame_of_nth(10) [OF p]
    by (simp add: parser_inv_def ucast_u16_small)
  have "take (Suc k) ?buf = take k ?f @ [?b]"
    using c k' parser_inv_length [OF inv] len by (subst take_Suc_update) (simp_all add: collected_def)
  then have "take (length ?f) ?buf = ?f"
    using k k' by (simp add: take_Suc_conv_app_nth [symmetric])
  then have buf: "?buf = ?f @ drop (length ?f) ?buf"
    by (metis append_take_drop_id)
  have "decode_packet (Some ?buf) (sp_expected s) out = (Ok, p\<lparr>pkt_payload :=
      take (unat (pkt_length p)) (pkt_payload p) @ drop (unat (pkt_length p)) (pkt_payload out)\<rparr>)"
    using decode_frame_of [OF p out, of "drop (length ?f) ?buf"]
      length_frame_of [OF p] unfolding buf [symmetric] exp by simp
  then have "parser_push s ?b out = (True, parser_reset (parser_store s ?b), p\<lparr>pkt_payload :=
      take (unat (pkt_length p)) (pkt_payload p) @ drop (unat (pkt_length p)) (pkt_payload out)\<rparr>)"
    using inv len k k' exp by (subst push_complete) simp_all
  moreover have "collected r [] (parser_reset (parser_store s ?b))"
    using inv c by (auto simp: collected_def parser_inv_def)
  ultimately show ?thesis by blast
qed

lemma feed_frame:
  assumes "collected r [] s" and p: "sendable p"
  shows "\<exists>s'. parser_feed s (frame_of p) = (s', [received p]) \<and> collected r [] s'"
proof -
  define k where "k = length (frame_of p) - 1"
  have k: "Suc k = length (frame_of p)"
    using length_frame_of [OF p] by (simp add: k_def encoded_size_def)
  then have "k < length (frame_of p)" by simp
  from feed_prefix [OF assms(1) this p] obtain s1 where s1:
    "parser_feed s (take k (frame_of p)) = (s1, [])" "collected r (take k (frame_of p)) s1" by auto
  from push_last [OF s1(2) k p, of default_packet] obtain s2 where
    "parser_push s1 (frame_of p ! k) default_packet = (True, s2, received p)" "collected r [] s2"
    by (auto simp: received_def)
  with s1(1) have "parser_feed s (take k (frame_of p) @ [frame_of p ! k]) = (s2, [received p])"
    by (simp add: parser_feed_append)
  moreover have "take k (frame_of p) @ [frame_of p ! k] = frame_of p"
    using k by (simp add: take_Suc_conv_app_nth [symmetric])
  ultimately show ?thesis using \<open>collected r [] s2\<close> by auto
qed

section \<open>Parsing a stream\<close>

text \<open>Bytes in which the two synchronisation bytes never stand next to each other.\<close>

fun no_sync :: "u8 list \<Rightarrow> bool" where
  "no_sync (a # b # bs) = (\<not> (a = kSyncByte1 \<and> b = kSyncByte2) \<and> no_sync (b # bs))"
| "no_sync _ = True"

text \<open>Before a frame: nothing collected, or a first synchronisation byte still in doubt.\<close>

definition hunting :: "u32 \<Rightarrow> stream_parser \<Rightarrow> bool" where
  "hunting r s \<longleftrightarrow> parser_inv s \<and> sp_length s \<le> 1 \<and> sp_rejected s = r"

lemma feed_no_sync:
  assumes "hunting r s" and "no_sync bs" and "sp_length s = 1 \<Longrightarrow> no_sync (kSyncByte1 # bs)"
  shows "\<exists>s'. parser_feed s bs = (s', []) \<and> hunting r s'"
  using assms
proof (induction bs arbitrary: s)
  case (Cons b bs)
  have inv: "parser_inv (fst (snd (parser_push s b default_packet)))"
    using Cons.prems(1) by (intro parser_push_inv) (simp add: hunting_def)
  have "\<exists>s1. parser_push s b default_packet = (False, s1, default_packet) \<and> hunting r s1
    \<and> (sp_length s1 = 1 \<longrightarrow> b = kSyncByte1)"
  proof (cases "sp_length s = 0")
    case True
    with Cons.prems(1) inv show ?thesis by (auto simp: push_idle hunting_def)
  next
    case False
    then have l: "sp_length s = 1" using Cons.prems(1) by (simp add: hunting_def)
    then have "b \<noteq> kSyncByte2" using Cons.prems(3) by simp
    with l Cons.prems(1) inv show ?thesis by (auto simp: push_sync hunting_def)
  qed
  then obtain s1 where s1: "parser_push s b default_packet = (False, s1, default_packet)"
    "hunting r s1" "sp_length s1 = 1 \<Longrightarrow> b = kSyncByte1" by auto
  have "no_sync bs" using Cons.prems(2) by (cases bs) simp_all
  with s1 Cons.prems(2) Cons.IH [of s1] obtain s' where "parser_feed s1 bs = (s', [])" "hunting r s'"
    by auto
  with s1(1) show ?case by auto
qed simp

text \<open>A parser still hunting reads a frame as if it were idle.\<close>

lemma feed_frame_hunting:
  assumes "hunting r s" and p: "sendable p"
  shows "\<exists>s'. parser_feed s (frame_of p) = (s', [received p]) \<and> collected r [] s'"
proof (cases "sp_length s = 0")
  case True
  with assms show ?thesis by (intro feed_frame) (simp_all add: hunting_def collected_idle)
next
  case False
  then have l: "sp_length s = 1" and inv: "parser_inv s" and r: "sp_rejected s = r"
    using assms(1) by (auto simp: hunting_def)
  define s0 where "s0 = s\<lparr>sp_length := 0\<rparr>"
  have "parser_inv s0"
    using inv l by (simp add: s0_def parser_inv_def)
  then have "\<exists>s'. parser_feed s0 (frame_of p) = (s', [received p]) \<and> collected r [] s'"
    using r p by (intro feed_frame) (simp_all add: collected_idle s0_def)
  moreover obtain bs where f: "frame_of p = kSyncByte1 # bs"
    by (simp add: frame_of_def frame_body_def frame_header_def)
  moreover have "parser_push s kSyncByte1 default_packet = parser_push s0 kSyncByte1 default_packet"
    using l by (simp add: push_sync push_idle s0_def parser_store_def)
  ultimately show ?thesis by simp
qed

lemma collected_hunting: "collected r [] s \<Longrightarrow> hunting r s"
  by (simp add: collected_idle hunting_def)

lemma feed_frames:
  assumes "collected r [] s" and "\<forall>p\<in>set ps. sendable p"
  shows "\<exists>s'. parser_feed s (concat (map frame_of ps)) = (s', map received ps) \<and> collected r [] s'"
  using assms
proof (induction ps arbitrary: s)
  case (Cons p ps)
  then obtain s1 where "parser_feed s (frame_of p) = (s1, [received p])" "collected r [] s1"
    using feed_frame by fastforce
  with Cons.IH [of s1] Cons.prems(2) show ?case by (auto simp: parser_feed_append)
qed simp

text \<open>A delivered packet was decoded from exactly its own frame.\<close>

lemma push_delivers:
  assumes "parser_inv s" and "parser_push s b default_packet = (True, s', p)"
  shows "take (sp_length s) (sp_buffer s) @ [b] = frame_of p \<and> sendable p
    \<and> sp_rejected s' = sp_rejected s"
  using assms(1)
proof (cases s rule: push_cases)
  case complete
  have l: "sp_length s < length (sp_buffer s)" by (rule parser_inv_length [OF assms(1)])
  then have l': "sp_expected s \<le> length ((sp_buffer s)[sp_length s := b])"
    using complete(2) by simp
  have d: "decode_packet (Some ((sp_buffer s)[sp_length s := b])) (sp_expected s) default_packet = (Ok, p)"
    and r: "sp_rejected s' = sp_rejected s"
    using assms complete by (auto simp: push_complete split: prod.splits if_splits)
  have "take (sp_expected s) ((sp_buffer s)[sp_length s := b]) = take (sp_length s) (sp_buffer s) @ [b]"
    using l complete(2) by (metis take_Suc_update)
  with decode_packet_Ok [OF d l'] r show ?thesis by simp
qed (use assms in \<open>simp_all add: push_idle push_sync push_collect push_header split: if_splits\<close>)

lemma feed_sendable:
  "parser_inv s \<Longrightarrow> parser_feed s bs = (s', ps) \<Longrightarrow> \<forall>p\<in>set ps. sendable p"
proof (induction bs arbitrary: s s' ps)
  case (Cons b bs)
  obtain ok s1 p where push: "parser_push s b default_packet = (ok, s1, p)" by (metis prod_cases3)
  obtain s2 qs where rest: "parser_feed s1 bs = (s2, qs)" by fastforce
  have "parser_inv s1" using parser_push_inv [OF Cons.prems(1), of b default_packet] by (simp add: push)
  from Cons.IH [OF this rest] push_delivers [OF Cons.prems(1), of b s1 p] push Cons.prems(2)
  show ?case by (auto simp: rest split: if_splits)
qed simp

section \<open>Properties of the stream parser\<close>

text \<open>C14: Framing. A parser with nothing pending, fed any bytes in which the two synchronisation
  bytes never stand next to each other (line noise, boot messages) followed by the frames of any
  packets, delivers exactly those packets, in order, rejects nothing, and ends with nothing
  pending.\<close>

theorem stream_recovers_packets:
  assumes "parser_inv s" and "sp_length s = 0" and "no_sync noise"
    and "\<forall>p\<in>set ps. sendable p" and "ps \<noteq> []"
  shows "\<exists>s'. parser_feed s (noise @ concat (map frame_of ps)) = (s', map received ps)
    \<and> parser_inv s' \<and> sp_length s' = 0 \<and> sp_rejected s' = sp_rejected s"
proof -
  let ?r = "sp_rejected s"
  from assms obtain p qs where ps: "ps = p # qs" by (cases ps) auto
  have "hunting ?r s" using assms by (simp add: hunting_def)
  then obtain s1 where s1: "parser_feed s noise = (s1, [])" "hunting ?r s1"
    using feed_no_sync assms(2,3) by fastforce
  with assms(4) obtain s2 where s2: "parser_feed s1 (frame_of p) = (s2, [received p])"
    "collected ?r [] s2" using feed_frame_hunting ps by fastforce
  with assms(4) obtain s3 where
    "parser_feed s2 (concat (map frame_of qs)) = (s3, map received qs)" "collected ?r [] s3"
    using feed_frames ps by fastforce
  with s1 s2 show ?thesis by (auto simp: ps parser_feed_append collected_idle)
qed

theorem stream_recovers_packets_witness:
  "\<exists>s'. parser_feed stream_parser_init
      ([0x41, 0xA5, 0x0A] @ concat (map frame_of [default_packet, default_packet]))
        = (s', map received [default_packet, default_packet])
    \<and> parser_inv s' \<and> sp_length s' = 0 \<and> sp_rejected s' = sp_rejected stream_parser_init"
  by (rule stream_recovers_packets [OF parser_inv_init]) (simp_all add: stream_parser_init_def)

text \<open>Memory safety of the receive buffer. After any input whatsoever the parser satisfies its
  invariant: its write index stays strictly below the 140 bytes of the buffer (so the overflow
  branch of \<open>push\<close> is never taken), the bytes collected start with the synchronisation bytes,
  and a frame is only awaited up to the buffer's size.\<close>

theorem parser_never_overflows:
  "parser_inv (fst (parser_feed stream_parser_init bs))
   \<and> sp_length (fst (parser_feed stream_parser_init bs)) < kMaxFrameSize
   \<and> length (sp_buffer (fst (parser_feed stream_parser_init bs))) = kMaxFrameSize"
proof -
  have inv: "parser_inv (fst (parser_feed stream_parser_init bs))"
    by (intro inv_intros)
  then have "length (sp_buffer (fst (parser_feed stream_parser_init bs))) = kMaxFrameSize"
    by (simp only: parser_inv_def)
  with inv parser_inv_length [OF inv] show ?thesis by simp
qed

text \<open>What the parser accepts. Whenever \<open>push\<close> delivers a packet, the buffer it decoded
  held, byte for byte, the frame of that packet: nothing with a wrong version, length or checksum
  is ever delivered, and the counter of rejected frames does not move.\<close>

theorem parser_delivers_only_frames:
  assumes "parser_inv s" and "parser_push s b default_packet = (True, s', p)"
  shows "take (sp_length s) (sp_buffer s) @ [b] = frame_of p \<and> sendable p
    \<and> sp_rejected s' = sp_rejected s"
  using assms by (rule push_delivers)

theorem parser_delivers_only_frames_witness:
  "\<exists>p. parser_push (stream_parser_init\<lparr>sp_buffer := frame_of default_packet @ replicate 128 0,
      sp_length := 11, sp_expected := 12\<rparr>) 0xA8 default_packet =
      (True, parser_reset (stream_parser_init\<lparr>sp_buffer := frame_of default_packet @ replicate 128 0,
        sp_length := 12, sp_expected := 12\<rparr>), p)
    \<and> take 11 (frame_of default_packet) @ [0xA8] = frame_of p"
proof -
  let ?s = "stream_parser_init\<lparr>sp_buffer := frame_of default_packet @ replicate 128 0,
      sp_length := 11, sp_expected := 12\<rparr>"
  have inv: "parser_inv ?s"
    by (simp add: parser_inv_def stream_parser_init_def default_frame)
  have push: "parser_push ?s 0xA8 default_packet = (True, parser_reset (?s\<lparr>sp_length := 12\<rparr>), default_packet)"
  proof -
    have "(frame_of default_packet @ replicate 128 0)[11 := 0xA8] =
        frame_of default_packet @ replicate 128 0"
      by (simp add: default_frame)
    then show ?thesis
      using decode_default_frame(1) [of "replicate 128 0"] inv
      by (subst push_complete) (simp_all add: parser_store_def parser_reset_def)
  qed
  show ?thesis
    using parser_delivers_only_frames [OF inv push] push by simp
qed

end
