(* ===== verification/NetProtocol.thy ===== *)
theory NetProtocol
  imports StreamParser
begin

text \<open>
  The protocol of the stand-alone northbridge sketch (\<open>esp32s3C/Protocol.h\<close>, \<open>Protocol.cpp\<close>): its own
  checksum, encoder and stream parser, and how they relate to those of the protocol library. The
  sketch rejects a foreign protocol version when the header is complete, the library when the
  frame is.
\<close>

section \<open>Constants, packets, checksum\<close>

definition NET_SYNC1 :: u8 where [simp]: "NET_SYNC1 = 0xA5"
definition NET_SYNC2 :: u8 where [simp]: "NET_SYNC2 = 0x5A"
definition NET_VERSION :: u8 where [simp]: "NET_VERSION = 1"
definition NET_MAIN :: u8 where [simp]: "NET_MAIN = 0x01"
definition NET_NORTH :: u8 where [simp]: "NET_NORTH = 0x10"
definition NET_LIGHT :: u8 where [simp]: "NET_LIGHT = 0x20"
definition NET_SECURITY :: u8 where [simp]: "NET_SECURITY = 0x21"
definition NET_BROADCAST :: u8 where [simp]: "NET_BROADCAST = 0xFF"
definition NET_MAX_PAYLOAD :: nat where [simp]: "NET_MAX_PAYLOAD = 128"
definition NET_MAX_FRAME :: nat where [simp]: "NET_MAX_FRAME = 140"
definition NET_HEARTBEAT :: u8 where [simp]: "NET_HEARTBEAT = 0x01"
definition NET_ACK :: u8 where [simp]: "NET_ACK = 0x02"
definition NET_GET_STATE :: u8 where [simp]: "NET_GET_STATE = 0x10"
definition NET_DEVICE_INFO :: u8 where [simp]: "NET_DEVICE_INFO = 0x50"
definition NET_DISCOVERY :: u8 where [simp]: "NET_DISCOVERY = 0x51"
definition NET_DIAGNOSTIC :: u8 where [simp]: "NET_DIAGNOSTIC = 0x60"

record net_packet =
  np_src :: u8
  np_dst :: u8
  np_type :: u8
  np_flags :: u8
  np_seq :: u16
  np_len :: u8
  np_payload :: "u8 list"

definition default_net_packet :: net_packet where
  "default_net_packet = \<lparr>np_src = 0, np_dst = 0, np_type = 0, np_flags = 0, np_seq = 0, np_len = 0,
     np_payload = replicate NET_MAX_PAYLOAD 0\<rparr>"

definition net_crc_bit :: "u16 \<Rightarrow> u16" where
  "net_crc_bit crc = (if crc AND 0x8000 \<noteq> 0 then push_bit 1 crc XOR 0x1021 else push_bit 1 crc)"

definition net_crc16 :: "u8 list \<Rightarrow> nat \<Rightarrow> u16" where
  "net_crc16 data n =
    foldl (\<lambda>crc b. (net_crc_bit ^^ 8) (crc XOR push_bit 8 (ucast b))) 0xFFFF (take n data)"

section \<open>Encoding\<close>

text \<open>The result, the buffer after the call and \<open>written\<close>.\<close>

definition net_encode :: "net_packet \<Rightarrow> u8 list \<Rightarrow> nat \<Rightarrow> bool \<times> u8 list \<times> nat" where
  "net_encode p f cap =
    (let n = unat (np_len p) in
     if n > NET_MAX_PAYLOAD \<or> cap < 12 + n then (False, f, 0)
     else
       let f1 = f[0 := NET_SYNC1, 1 := NET_SYNC2, 2 := NET_VERSION, 3 := np_src p, 4 := np_dst p,
                  5 := np_type p, 6 := np_flags p, 7 := hi8 (np_seq p), 8 := lo8 (np_seq p), 9 := np_len p];
           f2 = copy_bytes f1 10 (np_payload p) 0 n;
           crc = net_crc16 f2 (10 + n)
       in (True, f2[10 + n := hi8 crc, 11 + n := lo8 crc], 12 + n))"

section \<open>Parsing\<close>

record net_parser =
  nq_buffer :: "u8 list"
  nq_used :: nat
  nq_expected :: nat
  nq_rejected :: u32

definition net_parser_init :: net_parser where
  "net_parser_init = \<lparr>nq_buffer = replicate NET_MAX_FRAME 0, nq_used = 0, nq_expected = 0, nq_rejected = 0\<rparr>"

definition net_reset :: "net_parser \<Rightarrow> net_parser" where
  "net_reset s = s\<lparr>nq_used := 0, nq_expected := 0\<rparr>"

text \<open>\<open>buffer_[used_++] = b\<close> and \<open>++rejected_; reset();\<close>\<close>

definition net_store :: "net_parser \<Rightarrow> u8 \<Rightarrow> net_parser" where
  "net_store s b = s\<lparr>nq_buffer := (nq_buffer s)[nq_used s := b], nq_used := nq_used s + 1\<rparr>"

definition net_reject :: "net_parser \<Rightarrow> net_parser" where
  "net_reject s = net_reset (s\<lparr>nq_rejected := nq_rejected s + 1\<rparr>)"

definition net_push :: "net_parser \<Rightarrow> u8 \<Rightarrow> net_packet \<Rightarrow> bool \<times> net_parser \<times> net_packet" where
  "net_push s b p =
    (if nq_used s = 0 then
       (if b \<noteq> NET_SYNC1 then (False, s, p) else (False, net_store s b, p))
     else if nq_used s = 1 then
       (if b \<noteq> NET_SYNC2 then
          (let s1 = net_reset s in (False, if b = NET_SYNC1 then net_store s1 b else s1, p))
        else (False, net_store s b, p))
     else if nq_used s \<ge> NET_MAX_FRAME then (False, net_reject s, p)
     else
       let s1 = net_store s b in
       if nq_used s1 = 10 \<and> (nq_buffer s1 ! 2 \<noteq> NET_VERSION \<or> unat (nq_buffer s1 ! 9) > NET_MAX_PAYLOAD)
       then (False, net_reject s1, p)
       else
         let s2 = (if nq_used s1 = 10 then s1\<lparr>nq_expected := 12 + unat (nq_buffer s1 ! 9)\<rparr> else s1);
             f = nq_buffer s2
         in if nq_expected s2 \<noteq> 0 \<and> nq_used s2 = nq_expected s2 then
              (let n = 10 + unat (f ! 9) in
               if net_crc16 f n \<noteq> u16_of_bytes (f ! n) (f ! (n + 1)) then (False, net_reject s2, p)
               else (True, net_reset s2,
                 \<lparr>np_src = f ! 3, np_dst = f ! 4, np_type = f ! 5, np_flags = f ! 6,
                  np_seq = u16_of_bytes (f ! 7) (f ! 8), np_len = f ! 9,
                  np_payload = copy_bytes (np_payload p) 0 f 10 (unat (f ! 9))\<rparr>))
            else (False, s2, p))"

section \<open>Against the protocol library\<close>

text \<open>The sketch's packet and parser as those of the library: the length is wider there.\<close>

definition host_packet :: "net_packet \<Rightarrow> packet" where
  "host_packet p = \<lparr>pkt_source = np_src p, pkt_destination = np_dst p, pkt_type = np_type p,
     pkt_flags = np_flags p, pkt_sequence = np_seq p, pkt_length = ucast (np_len p),
     pkt_payload = np_payload p\<rparr>"

definition host_parser :: "net_parser \<Rightarrow> stream_parser" where
  "host_parser s = \<lparr>sp_buffer = nq_buffer s, sp_length = nq_used s, sp_expected = nq_expected s,
     sp_rejected = nq_rejected s\<rparr>"

definition net_sendable :: "net_packet \<Rightarrow> bool" where
  "net_sendable p \<longleftrightarrow> length (np_payload p) = NET_MAX_PAYLOAD \<and> unat (np_len p) \<le> NET_MAX_PAYLOAD"

lemma host_packet_sel [simp]:
  "pkt_source (host_packet p) = np_src p" "pkt_destination (host_packet p) = np_dst p"
  "pkt_type (host_packet p) = np_type p" "pkt_flags (host_packet p) = np_flags p"
  "pkt_sequence (host_packet p) = np_seq p" "pkt_length (host_packet p) = ucast (np_len p)"
  "pkt_payload (host_packet p) = np_payload p"
  by (simp_all add: host_packet_def)

lemma ucast_u8_inj [simp]: "(ucast (x :: u8) :: u16) = ucast y \<longleftrightarrow> x = y"
  by (metis unat_ucast_u8_u16 word_unat_eq_iff)

lemma host_packet_inj: "host_packet p = host_packet q \<longleftrightarrow> p = q"
  by (auto simp: host_packet_def)

lemma host_parser_sel [simp]:
  "sp_buffer (host_parser s) = nq_buffer s" "sp_length (host_parser s) = nq_used s"
  "sp_expected (host_parser s) = nq_expected s" "sp_rejected (host_parser s) = nq_rejected s"
  "host_parser (net_store s b) = parser_store (host_parser s) b"
  "host_parser (net_reset s) = parser_reset (host_parser s)"
  "host_parser (net_reject s) = parser_reject (host_parser s)"
  "host_parser (s\<lparr>nq_expected := e\<rparr>) = (host_parser s)\<lparr>sp_expected := e\<rparr>"
  by (simp_all add: host_parser_def net_store_def parser_store_def net_reset_def parser_reset_def
    net_reject_def parser_reject_def)

lemma net_sendable_host: "net_sendable p \<Longrightarrow> sendable (host_packet p)"
  by (simp add: net_sendable_def sendable_def wf_packet_def)

lemma net_crc_bit_eq: "net_crc_bit = crc_bit"
  by (rule ext) (simp add: net_crc_bit_def crc_bit_def)

lemma net_crc16_eq: "net_crc16 = crc16_ccitt_false"
  by (intro ext) (simp add: net_crc16_def crc16_ccitt_false_def net_crc_bit_eq crc_byte_def [abs_def])

lemma net_encode_eq:
  "net_encode p f cap = (case encode_packet (host_packet p) (Some f) cap of (ok, g, n) \<Rightarrow> (ok, the g, n))"
  by (simp add: net_encode_def encode_packet_def net_crc16_eq Let_def encoded_size_def write_u16_be_def
    ucast_down_up)

text \<open>The parser, step by step.\<close>

definition net_parser_inv :: "net_parser \<Rightarrow> bool" where
  "net_parser_inv s \<longleftrightarrow> parser_inv (host_parser s) \<and> (nq_used s \<ge> 10 \<longrightarrow> nq_buffer s ! 2 = NET_VERSION)"

text \<open>The byte that completes a header of another protocol version.\<close>

definition foreign_header :: "net_parser \<Rightarrow> bool" where
  "foreign_header s \<longleftrightarrow> nq_used s = 9 \<and> nq_buffer s ! 2 \<noteq> NET_VERSION"

lemma net_parser_inv_init: "net_parser_inv net_parser_init"
  by (simp add: net_parser_inv_def net_parser_init_def parser_inv_def)

lemma net_store_sel [simp]:
  "nq_buffer (net_store s b) = (nq_buffer s)[nq_used s := b]" "nq_used (net_store s b) = Suc (nq_used s)"
  "nq_expected (net_store s b) = nq_expected s" "nq_rejected (net_store s b) = nq_rejected s"
  by (simp_all add: net_store_def)

lemma net_push_foreign:
  assumes "net_parser_inv s" and "foreign_header s"
  shows "net_push s b p = (False, net_reject (net_store s b), p)"
  using assms by (simp add: net_push_def foreign_header_def net_parser_inv_def parser_inv_def net_store_def Let_def)

lemma net_push_idle:
  "nq_used s = 0 \<Longrightarrow> net_push s b p = (False, if b = NET_SYNC1 then net_store s b else s, p)"
  by (simp add: net_push_def)

lemma net_push_sync:
  assumes "net_parser_inv s" and "nq_used s = 1"
  shows "net_push s b p = (False, if b = NET_SYNC2 then net_store s b
    else if b = NET_SYNC1 then s\<lparr>nq_buffer := (nq_buffer s)[0 := b]\<rparr> else s\<lparr>nq_used := 0\<rparr>, p)"
  using assms by (simp add: net_push_def net_parser_inv_def parser_inv_def net_reset_def net_store_def Let_def)

lemma net_push_host:
  assumes "net_parser_inv s" and "\<not> foreign_header s" and "net_push s b p = (ok, s', q)"
  shows "parser_push (host_parser s) b (host_packet p) = (ok, host_parser s', host_packet q)"
proof -
  have inv: "parser_inv (host_parser s)" using assms(1) by (simp add: net_parser_inv_def)
  from parser_inv_length [OF inv] inv have len: "nq_used s < 140" "length (nq_buffer s) = 140"
    by (simp_all add: parser_inv_def)
  from inv show ?thesis
  proof (cases "host_parser s" rule: push_cases)
    case idle
    with assms(3) show ?thesis by (auto simp: net_push_idle push_idle)
  next
    case sync
    with assms(3) net_push_sync [OF assms(1)] show ?thesis
      by (auto simp: push_sync host_parser_def)
  next
    case collect
    with assms(3) len show ?thesis
      by (auto simp: push_collect [OF inv collect] net_push_def Let_def)
  next
    case header
    with assms(2,3) len show ?thesis
      by (auto simp: push_header [OF inv header] net_push_def Let_def foreign_header_def split: if_splits)
  next
    case complete
    then have sync: "nq_buffer s ! 0 = kSyncByte1" "nq_buffer s ! 1 = kSyncByte2" "nq_buffer s ! 2 = NET_VERSION"
      and ex: "nq_expected s = 12 + unat (nq_buffer s ! 9)" "unat (nq_buffer s ! 9) \<le> 128"
      using inv assms(1) by (simp_all add: parser_inv_def net_parser_inv_def)
    let ?f = "(nq_buffer s)[11 + unat (nq_buffer s ! 9) := b]"
    have u: "nq_used s = 11 + unat (nq_buffer s ! 9)" using complete ex by simp
    then have f: "?f ! 0 = kSyncByte1" "?f ! Suc 0 = kSyncByte2" "?f ! 2 = NET_VERSION" "?f ! 9 = nq_buffer s ! 9"
      using sync by simp_all
    have d: "decode_packet (Some ?f) (12 + unat (nq_buffer s ! 9)) (host_packet p) =
      (let n = 10 + unat (?f ! 9) in
       if net_crc16 ?f n \<noteq> u16_of_bytes (?f ! n) (?f ! (n + 1)) then (CrcMismatch, host_packet p)
       else (Ok, host_packet \<lparr>np_src = ?f ! 3, np_dst = ?f ! 4, np_type = ?f ! 5, np_flags = ?f ! 6,
                  np_seq = u16_of_bytes (?f ! 7) (?f ! 8), np_len = ?f ! 9,
                  np_payload = copy_bytes (np_payload p) 0 ?f 10 (unat (?f ! 9))\<rparr>))"
      using f ex(2) by (simp add: decode_packet_def Let_def net_crc16_eq read_u16_be_def host_packet_def)
    have "2 \<le> sp_length (host_parser s)" "sp_length (host_parser s) \<noteq> 9" using complete by simp_all
    note pc = push_complete [OF inv this complete(2)]
    show ?thesis
      using assms(3) complete ex u len f unfolding pc
      by (auto simp: d net_push_def Let_def split: if_splits)
  qed
qed

lemma net_parser_inv_push [inv_intros]:
  assumes "net_parser_inv s" and "net_push s b p = (ok, s', q)"
  shows "net_parser_inv s'"
proof (cases "foreign_header s")
  case True
  with net_push_foreign [OF assms(1) True, of b p] assms show ?thesis
    by (auto simp: net_parser_inv_def parser_inv_def net_reject_def net_reset_def)
next
  case False
  have "parser_inv (host_parser s)" using assms(1) by (simp add: net_parser_inv_def)
  from parser_push_inv [OF this, of b "host_packet p"] net_push_host [OF assms(1) False assms(2)]
  have "parser_inv (host_parser s')" by simp
  moreover have "nq_buffer s' ! 2 = NET_VERSION" if "10 \<le> nq_used s'"
    using assms False that
    by (auto simp: net_push_def Let_def net_parser_inv_def net_reject_def net_reset_def
      foreign_header_def nth_list_update split: if_splits)
  ultimately show ?thesis by (simp add: net_parser_inv_def)
qed

text \<open>A parser that has collected a prefix of a frame goes on as the library's does.\<close>

definition net_collected :: "u32 \<Rightarrow> u8 list \<Rightarrow> net_parser \<Rightarrow> bool" where
  "net_collected r xs s \<longleftrightarrow> net_parser_inv s \<and> collected r xs (host_parser s)"

lemma net_collected_idle:
  "net_collected r [] s \<longleftrightarrow> net_parser_inv s \<and> nq_used s = 0 \<and> nq_rejected s = r"
  by (auto simp: net_collected_def collected_idle net_parser_inv_def)

lemma net_collected_domestic:
  assumes "net_collected r (take k (frame_of h)) s" and "k < length (frame_of h)" and "sendable h"
  shows "\<not> foreign_header s"
proof
  assume f: "foreign_header s"
  then have "k = 9" using assms(1,2) by (simp add: net_collected_def collected_def foreign_header_def)
  with collected_nth [of r "take k (frame_of h)" "host_parser s" 2] assms frame_of_nth(3) [OF assms(3)] f
  show False by (simp add: net_collected_def foreign_header_def)
qed

lemma net_step:
  assumes "net_collected r (take k (frame_of h)) s" and "Suc k < length (frame_of h)" and "sendable h"
  shows "\<exists>s'. net_push s (frame_of h ! k) p = (False, s', p) \<and> net_collected r (take (Suc k) (frame_of h)) s'"
proof -
  obtain ok s' q where n: "net_push s (frame_of h ! k) p = (ok, s', q)" by (metis prod_cases3)
  have inv: "net_parser_inv s" and c: "collected r (take k (frame_of h)) (host_parser s)"
    using assms(1) by (simp_all add: net_collected_def)
  have "\<not> foreign_header s" using net_collected_domestic [OF assms(1) _ assms(3)] assms(2) by simp
  from net_push_host [OF inv this n] collected_step [OF c assms(2,3), of "host_packet p"]
  have "\<not> ok" "host_packet q = host_packet p" "collected r (take (Suc k) (frame_of h)) (host_parser s')"
    by auto
  moreover from this(2) have "q = p" by (simp only: host_packet_inj)
  ultimately show ?thesis using n net_parser_inv_push [OF inv n] by (simp add: net_collected_def)
qed

lemma net_last:
  assumes "net_collected r (take k (frame_of h)) s" and "Suc k = length (frame_of h)" and "sendable h"
    and "length (np_payload p) = NET_MAX_PAYLOAD"
  shows "\<exists>s' q. net_push s (frame_of h ! k) p = (True, s', q) \<and> net_collected r [] s'
    \<and> host_packet q = h\<lparr>pkt_payload :=
      take (unat (pkt_length h)) (pkt_payload h) @ drop (unat (pkt_length h)) (np_payload p)\<rparr>"
proof -
  obtain ok s' q where n: "net_push s (frame_of h ! k) p = (ok, s', q)" by (metis prod_cases3)
  have inv: "net_parser_inv s" and c: "collected r (take k (frame_of h)) (host_parser s)"
    using assms(1) by (simp_all add: net_collected_def)
  have "\<not> foreign_header s" using net_collected_domestic [OF assms(1) _ assms(3)] assms(2) by simp
  from net_push_host [OF inv this n] push_last [OF c assms(2,3), of "host_packet p"] assms(4) n
    net_parser_inv_push [OF inv n]
  show ?thesis by (auto simp: net_collected_def)
qed

section \<open>Until the next packet\<close>

text \<open>The bytes a receive loop pushes until a packet is complete: the rest stays unread.\<close>

fun net_until :: "net_parser \<Rightarrow> net_packet \<Rightarrow> u8 list \<Rightarrow> bool \<times> net_parser \<times> net_packet \<times> u8 list" where
  "net_until s p [] = (False, s, p, [])"
| "net_until s p (b # bs) =
    (case net_push s b p of (ok, s', q) \<Rightarrow> if ok then (True, s', q, bs) else net_until s' q bs)"

lemma net_until_frame:
  assumes "net_collected r (take k (frame_of h)) s" and "k < length (frame_of h)" and "sendable h"
    and "length (np_payload p) = NET_MAX_PAYLOAD"
  shows "\<exists>s' q. net_until s p (drop k (frame_of h) @ bs) = (True, s', q, bs) \<and> net_collected r [] s'
    \<and> host_packet q = h\<lparr>pkt_payload :=
      take (unat (pkt_length h)) (pkt_payload h) @ drop (unat (pkt_length h)) (np_payload p)\<rparr>"
  using assms(1,2)
proof (induction "length (frame_of h) - k" arbitrary: k s)
  case (Suc n)
  have d: "drop k (frame_of h) = frame_of h ! k # drop (Suc k) (frame_of h)"
    using Suc.prems(2) by (simp add: Cons_nth_drop_Suc)
  show ?case
  proof (cases "Suc k = length (frame_of h)")
    case True
    with net_last [OF Suc.prems(1) True assms(3,4)] show ?thesis by (auto simp: d)
  next
    case False
    then have less: "Suc k < length (frame_of h)" using Suc.prems(2) by simp
    from net_step [OF Suc.prems(1) less assms(3), of p] obtain s1 where
      s1: "net_push s (frame_of h ! k) p = (False, s1, p)" "net_collected r (take (Suc k) (frame_of h)) s1" by auto
    have "n = length (frame_of h) - Suc k" using Suc.hyps(2) by simp
    from Suc.hyps(1) [OF this s1(2) less] s1(1) show ?thesis by (simp add: d)
  qed
qed simp

end
