(* ===== verification/Transport.thy ===== *)
theory Transport
  imports Prelude
begin

text \<open>
  Byte transports. \<open>bike::Transport\<close> is an abstract class: its two virtual operations are a
  record of functions over the state \<open>'w\<close> of the outside world, taking the transport object
  (its address, a number) as an argument, so that several objects, or one object attached twice,
  share one world. The serial adapter of the three ESP32 firmwares (\<open>ArduinoSerialTransport\<close>) is
  modelled over the Arduino \<open>HardwareSerial\<close> operations, which are not part of the repository
  and are parameters.
\<close>

section \<open>The interface\<close>

record 'w transport_ops =
  tp_write :: "nat \<Rightarrow> u8 list \<Rightarrow> 'w \<Rightarrow> bool \<times> 'w"
  tp_read :: "nat \<Rightarrow> nat \<Rightarrow> 'w \<Rightarrow> u8 list \<times> 'w"

text \<open>What the callers' fixed 64-byte chunk relies on.\<close>

locale bounded_transport =
  fixes ops :: "'w transport_ops"
  assumes read_bounded: "length (fst (tp_read ops t cap w)) \<le> cap"
begin

lemma read_chunk: "tp_read ops t cap w = (bs, w') \<Longrightarrow> length bs \<le> cap"
  using read_bounded [of t cap w] by simp

end

text \<open>
  A transport whose input is finite: reading takes bytes out of a store, writing adds none.
\<close>

locale finite_transport = bounded_transport +
  fixes avail :: "nat \<Rightarrow> 'w \<Rightarrow> nat"
  assumes read_avail: "avail t (snd (tp_read ops t cap w)) + length (fst (tp_read ops t cap w))
      = avail t w"
    and write_avail: "avail t (snd (tp_write ops u bs w)) = avail t w"
begin

lemma read_decreases:
  assumes "tp_read ops t cap w = (bs, w')"
  shows "avail t w' + length bs = avail t w"
  using assms read_avail [of t cap w] by simp

lemma write_keeps: "tp_write ops u bs w = (r, w') \<Longrightarrow> avail t w' = avail t w"
  using write_avail [of t u bs w] by simp

end

section \<open>The serial adapter of the firmwares\<close>

record 'w hardware_serial =
  hs_available :: "nat \<Rightarrow> 'w \<Rightarrow> int"
  hs_read :: "nat \<Rightarrow> 'w \<Rightarrow> int \<times> 'w"
  hs_write :: "nat \<Rightarrow> u8 list \<Rightarrow> 'w \<Rightarrow> nat \<times> 'w"

definition arduino_write :: "'w hardware_serial \<Rightarrow> nat \<Rightarrow> u8 list \<Rightarrow> 'w \<Rightarrow> bool \<times> 'w" where
  "arduino_write hs t bs w = (case hs_write hs t bs w of (n, w') \<Rightarrow> (n = length bs, w'))"

text \<open>The loop ends at the latest when \<open>capacity\<close> bytes have been stored.\<close>

fun arduino_read :: "'w hardware_serial \<Rightarrow> nat \<Rightarrow> nat \<Rightarrow> 'w \<Rightarrow> u8 list \<times> 'w" where
  "arduino_read hs t 0 w = ([], w)"
| "arduino_read hs t (Suc cap) w =
    (if hs_available hs t w > 0 then
       case hs_read hs t w of (value, w1) \<Rightarrow>
         (if value < 0 then ([], w1)
          else case arduino_read hs t cap w1 of (bs, w2) \<Rightarrow> (word_of_int value # bs, w2))
     else ([], w))"

definition arduino_transport :: "'w hardware_serial \<Rightarrow> 'w transport_ops" where
  "arduino_transport hs = \<lparr>tp_write = arduino_write hs, tp_read = arduino_read hs\<rparr>"

lemma arduino_transport_sel [simp]:
  "tp_write (arduino_transport hs) = arduino_write hs"
  "tp_read (arduino_transport hs) = arduino_read hs"
  by (simp_all add: arduino_transport_def)

lemma length_arduino_read: "length (fst (arduino_read hs t cap w)) \<le> cap"
proof (induction cap arbitrary: w)
  case (Suc cap)
  have "length bs \<le> cap" if "arduino_read hs t cap w1 = (bs, w2)" for w1 bs w2
    using Suc.IH [of w1] that by simp
  then show ?case by (auto split: prod.splits)
qed simp

text \<open>Whatever the serial port does, the adapter never overfills the caller's buffer.\<close>

interpretation arduino: bounded_transport "arduino_transport hs" for hs
  by unfold_locales (simp add: length_arduino_read)

section \<open>Serial ports that behave as queues\<close>

text \<open>
  The documented behaviour of \<open>HardwareSerial\<close>: a receive queue per port, from which
  \<open>read\<close> takes the oldest byte, and a transmit side that accepts what it is given.
\<close>

record serial_world =
  sw_rx :: "nat \<Rightarrow> u8 list"
  sw_tx :: "(nat \<times> u8 list) list"

definition queue_serial :: "serial_world hardware_serial" where
  "queue_serial = \<lparr>
     hs_available = (\<lambda>t w. int (length (sw_rx w t))),
     hs_read = (\<lambda>t w. case sw_rx w t of [] \<Rightarrow> (- 1, w)
                | b # bs \<Rightarrow> (uint b, w\<lparr>sw_rx := (sw_rx w)(t := bs)\<rparr>)),
     hs_write = (\<lambda>t bs w. (length bs, w\<lparr>sw_tx := sw_tx w @ [(t, bs)]\<rparr>))\<rparr>"

lemma queue_serial_sel [simp]:
  "hs_available queue_serial t w = int (length (sw_rx w t))"
  "hs_read queue_serial t w = (case sw_rx w t of [] \<Rightarrow> (- 1, w)
                | b # bs \<Rightarrow> (uint b, w\<lparr>sw_rx := (sw_rx w)(t := bs)\<rparr>))"
  "hs_write queue_serial t bs w = (length bs, w\<lparr>sw_tx := sw_tx w @ [(t, bs)]\<rparr>)"
  by (simp_all add: queue_serial_def)

definition bench_transport :: "serial_world transport_ops" where
  "bench_transport = arduino_transport queue_serial"

lemma bench_read:
  "arduino_read queue_serial t cap w =
    (take cap (sw_rx w t), w\<lparr>sw_rx := (sw_rx w)(t := drop cap (sw_rx w t))\<rparr>)"
proof (induction cap arbitrary: w)
  case (Suc cap)
  show ?case
  proof (cases "sw_rx w t")
    case Nil
    then have "(sw_rx w)(t := []) = sw_rx w" by (simp add: fun_upd_idem)
    with Nil show ?thesis by simp
  next
    case (Cons b bs)
    with Suc.IH show ?thesis by (simp cong: if_cong)
  qed
qed (simp add: fun_upd_idem)

interpretation bench: finite_transport bench_transport "\<lambda>t w. length (sw_rx w t)"
  by unfold_locales
    (auto simp: bench_transport_def bench_read arduino_write_def)

text \<open>On a queue port nothing is lost: writes are appended to the transmit log.\<close>

lemma bench_write [simp]:
  "tp_write bench_transport t bs w = (True, w\<lparr>sw_tx := sw_tx w @ [(t, bs)]\<rparr>)"
  by (simp add: bench_transport_def arduino_write_def)

lemma bench_read_eq [simp]:
  "tp_read bench_transport t cap w =
    (take cap (sw_rx w t), w\<lparr>sw_rx := (sw_rx w)(t := drop cap (sw_rx w t))\<rparr>)"
  by (simp add: bench_transport_def bench_read)

definition quiet_world :: serial_world where
  "quiet_world = \<lparr>sw_rx = (\<lambda>_. []), sw_tx = []\<rparr>"

lemma quiet_world_sel [simp]: "sw_rx quiet_world t = []" "sw_tx quiet_world = []"
  by (simp_all add: quiet_world_def)

end
