(* ===== verification/NetRouter.thy ===== *)
theory NetRouter
  imports NetProtocol Transport
begin

text \<open>
  The ports and the router of the stand-alone northbridge sketch (\<open>esp32s3C/Ports.*\<close>,
  \<open>Router.*\<close>, \<open>Config.h\<close>): three hardware UARTs with a parser each, and forwarding by fixed
  addresses from fixed ports. The UARTs are the Arduino serial operations of \<open>Transport\<close> with
  the free space of their transmit buffer; objects and world are passed and returned.
\<close>

section \<open>Ports\<close>

definition BAUD :: u32 where [simp]: "BAUD = 115200"
definition MAIN_RX :: int where [simp]: "MAIN_RX = 4"
definition MAIN_TX :: int where [simp]: "MAIN_TX = 5"
definition LIGHT_RX :: int where [simp]: "LIGHT_RX = 6"
definition LIGHT_TX :: int where [simp]: "LIGHT_TX = 7"
definition SECURITY_RX :: int where [simp]: "SECURITY_RX = 15"
definition SECURITY_TX :: int where [simp]: "SECURITY_TX = 16"
definition NET_PORTS :: nat where [simp]: "NET_PORTS = 3"

record 'w uart_ops = "'w hardware_serial" +
  ua_available_for_write :: "nat \<Rightarrow> 'w \<Rightarrow> int"
  ua_begin :: "nat \<Rightarrow> u32 \<Rightarrow> int \<Rightarrow> int \<Rightarrow> 'w \<Rightarrow> 'w"

record net_ports =
  pt_serial :: "nat option list"
  pt_parsers :: "net_parser list"
  pt_rx :: "u32 list"
  pt_tx :: "u32 list"

definition net_ports_init :: net_ports where
  "net_ports_init = \<lparr>pt_serial = replicate NET_PORTS None, pt_parsers = replicate NET_PORTS net_parser_init,
     pt_rx = replicate NET_PORTS 0, pt_tx = replicate NET_PORTS 0\<rparr>"

text \<open>The UARTs \<open>mainUart(1)\<close>, \<open>lightUart(2)\<close>, \<open>securityUart(0)\<close> behind ports 0, 1, 2.\<close>

definition ports_begin :: "'w uart_ops \<Rightarrow> net_ports \<Rightarrow> 'w \<Rightarrow> net_ports \<times> 'w" where
  "ports_begin ops pt w =
    (let pt1 = pt\<lparr>pt_serial := (pt_serial pt)[0 := Some 1, 1 := Some 2, 2 := Some 0]\<rparr>;
         w1 = ua_begin ops 1 BAUD MAIN_RX MAIN_TX w;
         w2 = ua_begin ops 2 BAUD LIGHT_RX LIGHT_TX w1
     in (pt1, ua_begin ops 0 BAUD SECURITY_RX SECURITY_TX w2))"

definition ports_send :: "'w uart_ops \<Rightarrow> u8 \<Rightarrow> net_packet \<Rightarrow> net_ports \<Rightarrow> 'w \<Rightarrow> bool \<times> net_ports \<times> 'w" where
  "ports_send ops port p pt w =
    (if unat port \<ge> NET_PORTS then (False, pt, w)
     else case pt_serial pt ! unat port of
       None \<Rightarrow> (False, pt, w)
     | Some u \<Rightarrow>
         case net_encode p (replicate NET_MAX_FRAME 0) NET_MAX_FRAME of
           (ok, frame, n) \<Rightarrow>
             if \<not> ok then (False, pt, w)
             else if ua_available_for_write ops u w < int n then (False, pt, w)
             else case hs_write ops u (take n frame) w of
               (written, w1) \<Rightarrow>
                 (written = n,
                  if written = n
                  then pt\<lparr>pt_tx := (pt_tx pt)[unat port := pt_tx pt ! unat port + 1]\<rparr> else pt, w1))"

text \<open>The receive loop with what is left of its budget of bytes.\<close>

fun receive_bytes :: "'w uart_ops \<Rightarrow> nat \<Rightarrow> nat \<Rightarrow> nat \<Rightarrow> net_packet \<Rightarrow> net_ports \<Rightarrow> 'w
    \<Rightarrow> bool \<times> net_packet \<times> net_ports \<times> 'w" where
  "receive_bytes ops port u 0 p pt w = (False, p, pt, w)"
| "receive_bytes ops port u (Suc budget) p pt w =
    (if hs_available ops u w \<noteq> 0 then
       case hs_read ops u w of (value, w1) \<Rightarrow>
         case net_push (pt_parsers pt ! port) (word_of_int value) p of (ok, s, q) \<Rightarrow>
           (let pt1 = pt\<lparr>pt_parsers := (pt_parsers pt)[port := s]\<rparr> in
            if ok then (True, q, pt1\<lparr>pt_rx := (pt_rx pt1)[port := pt_rx pt1 ! port + 1]\<rparr>, w1)
            else receive_bytes ops port u budget q pt1 w1)
     else (False, p, pt, w))"

definition ports_receive :: "'w uart_ops \<Rightarrow> u8 \<Rightarrow> net_packet \<Rightarrow> net_ports \<Rightarrow> 'w
    \<Rightarrow> bool \<times> net_packet \<times> net_ports \<times> 'w" where
  "ports_receive ops port p pt w =
    (if unat port \<ge> NET_PORTS then (False, p, pt, w)
     else case pt_serial pt ! unat port of
       None \<Rightarrow> (False, p, pt, w)
     | Some u \<Rightarrow> receive_bytes ops (unat port) u 256 p pt w)"

definition ports_rx :: "net_ports \<Rightarrow> u8 \<Rightarrow> u32" where
  "ports_rx pt port = (if unat port < NET_PORTS then pt_rx pt ! unat port else 0)"

definition ports_tx :: "net_ports \<Rightarrow> u8 \<Rightarrow> u32" where
  "ports_tx pt port = (if unat port < NET_PORTS then pt_tx pt ! unat port else 0)"

definition ports_malformed :: "net_ports \<Rightarrow> u8 \<Rightarrow> u32" where
  "ports_malformed pt port = (if unat port < NET_PORTS then nq_rejected (pt_parsers pt ! unat port) else 0)"

section \<open>Router\<close>

record net_router =
  nr_forwarded :: u32
  nr_dropped :: u32
  nr_sequence :: u16

definition net_router_init :: net_router where
  "net_router_init = \<lparr>nr_forwarded = 0, nr_dropped = 0, nr_sequence = 1\<rparr>"

definition count_dropped :: "net_router \<Rightarrow> net_router" where
  "count_dropped r = r\<lparr>nr_dropped := nr_dropped r + 1\<rparr>"

definition count_forwarded :: "net_router \<Rightarrow> net_router" where
  "count_forwarded r = r\<lparr>nr_forwarded := nr_forwarded r + 1\<rparr>"

definition net_reply :: "'w uart_ops \<Rightarrow> u8 \<Rightarrow> u8 \<Rightarrow> u8 \<Rightarrow> u16 \<Rightarrow> net_router \<Rightarrow> net_ports \<Rightarrow> 'w
    \<Rightarrow> net_router \<times> net_ports \<times> 'w" where
  "net_reply ops port dst type seq r pt w =
    (let (s, r1) = (if seq \<noteq> 0 then (seq, r) else (nr_sequence r, r\<lparr>nr_sequence := nr_sequence r + 1\<rparr>));
         p = default_net_packet\<lparr>np_src := NET_NORTH, np_dst := dst, np_type := type, np_flags := 0x02, np_seq := s\<rparr>
     in case ports_send ops port p pt w of
          (ok, pt1, w1) \<Rightarrow> (if ok then r1 else count_dropped r1, pt1, w1))"

definition net_set :: "nat \<Rightarrow> u8 \<Rightarrow> net_packet \<Rightarrow> net_packet" where
  "net_set i b p = p\<lparr>np_payload := (np_payload p)[i := b]\<rparr>"

definition net_put32 :: "nat \<Rightarrow> u32 \<Rightarrow> net_packet \<Rightarrow> net_packet" where
  "net_put32 at v p =
    net_set (at + 3) (byte32 0 v) (net_set (at + 2) (byte32 1 v)
      (net_set (at + 1) (byte32 2 v) (net_set at (byte32 3 v) p)))"

fun net_diag_ports :: "net_ports \<Rightarrow> u8 list \<Rightarrow> net_packet \<Rightarrow> net_packet" where
  "net_diag_ports pt [] p = p"
| "net_diag_ports pt (i # is) p =
    (let at = unat (18 + i * 21);
         p1 = net_set at i p;
         p2 = net_put32 (at + 1) (ports_rx pt i) p1;
         p3 = net_put32 (at + 5) (ports_tx pt i) p2;
         p4 = net_put32 (at + 9) 0 p3;
         p5 = net_put32 (at + 13) 0 p4
     in net_diag_ports pt is (net_put32 (at + 17) (ports_malformed pt i) p5))"

definition net_diag_packet :: "net_router \<Rightarrow> net_ports \<Rightarrow> u8 \<Rightarrow> net_packet" where
  "net_diag_packet r pt dst =
    (let p = default_net_packet\<lparr>np_src := NET_NORTH, np_dst := dst, np_type := NET_DIAGNOSTIC,
               np_flags := 0x02, np_seq := nr_sequence r, np_len := 18\<rparr>;
         p1 = net_set 1 (word_of_nat NET_PORTS) (net_set 0 0x02 p);
         p2 = net_put32 6 (nr_dropped r) (net_put32 2 (nr_forwarded r) p1);
         p3 = net_put32 14 0 (net_put32 10 0 p2)
     in (net_diag_ports pt [0, 1, 2] p3)\<lparr>np_len := 18 + word_of_nat NET_PORTS * 21\<rparr>)"

definition net_local :: "'w uart_ops \<Rightarrow> u8 \<Rightarrow> net_packet \<Rightarrow> net_router \<Rightarrow> net_ports \<Rightarrow> 'w
    \<Rightarrow> net_router \<times> net_ports \<times> 'w" where
  "net_local ops ingress p r pt w =
    (let (r1, pt1, w1) = (if np_flags p AND 0x01 \<noteq> 0
                          then net_reply ops ingress (np_src p) NET_ACK (np_seq p) r pt w else (r, pt, w));
         r2 = r1\<lparr>nr_sequence := nr_sequence r1 + 1\<rparr>
     in if np_type p = NET_HEARTBEAT then net_reply ops ingress (np_src p) NET_HEARTBEAT 0 r1 pt1 w1
        else if np_type p = NET_DISCOVERY then (r2, pt1, w1)
        else if np_type p = NET_DIAGNOSTIC \<or> np_type p = NET_GET_STATE
        then (case ports_send ops ingress (net_diag_packet r1 pt1 (np_src p)) pt1 w1 of
                (ok, pt2, w2) \<Rightarrow> (if ok then r2 else count_dropped r2, pt2, w2))
        else (r1, pt1, w1))"

definition net_port_of :: "u8 \<Rightarrow> u8" where
  "net_port_of a = (if a = NET_MAIN then 0 else if a = NET_LIGHT then 1 else if a = NET_SECURITY then 2 else 255)"

definition net_transmit :: "'w uart_ops \<Rightarrow> u8 \<Rightarrow> net_packet \<Rightarrow> net_router \<Rightarrow> net_ports \<Rightarrow> 'w
    \<Rightarrow> net_router \<times> net_ports \<times> 'w" where
  "net_transmit ops port p r pt w =
    (case ports_send ops port p pt w of
       (ok, pt1, w1) \<Rightarrow> (if ok then count_forwarded r else count_dropped r, pt1, w1))"

fun net_broadcast :: "'w uart_ops \<Rightarrow> u8 \<Rightarrow> u8 list \<Rightarrow> net_packet \<Rightarrow> net_router \<Rightarrow> net_ports \<Rightarrow> 'w
    \<Rightarrow> net_router \<times> net_ports \<times> 'w" where
  "net_broadcast ops ingress [] p r pt w = (r, pt, w)"
| "net_broadcast ops ingress (i # is) p r pt w =
    (if i \<noteq> ingress
     then (case net_transmit ops i p r pt w of (r1, pt1, w1) \<Rightarrow> net_broadcast ops ingress is p r1 pt1 w1)
     else net_broadcast ops ingress is p r pt w)"

definition net_route :: "'w uart_ops \<Rightarrow> u8 \<Rightarrow> net_packet \<Rightarrow> net_router \<Rightarrow> net_ports \<Rightarrow> 'w
    \<Rightarrow> net_router \<times> net_ports \<times> 'w" where
  "net_route ops ingress p r pt w =
    (if np_src p = NET_NORTH \<or> np_src p = NET_BROADCAST then (count_dropped r, pt, w)
     else if net_port_of (np_src p) \<noteq> ingress then (count_dropped r, pt, w)
     else if np_dst p = NET_NORTH then net_local ops ingress p r pt w
     else if np_dst p = NET_BROADCAST then
       (case net_local ops ingress p r pt w of
          (r1, pt1, w1) \<Rightarrow> net_broadcast ops ingress [0, 1, 2] p r1 pt1 w1)
     else
       let target = net_port_of (np_dst p) in
       if target = 255 \<or> target = ingress then (count_dropped r, pt, w)
       else net_transmit ops target p r pt w)"

text \<open>One port with what is left of its budget of packets; the packet object is reused.\<close>

fun net_service_port :: "'w uart_ops \<Rightarrow> u8 \<Rightarrow> nat \<Rightarrow> net_packet \<Rightarrow> net_router \<Rightarrow> net_ports \<Rightarrow> 'w
    \<Rightarrow> net_router \<times> net_ports \<times> 'w" where
  "net_service_port ops port 0 p r pt w = (r, pt, w)"
| "net_service_port ops port (Suc budget) p r pt w =
    (case ports_receive ops port p pt w of
       (ok, q, pt1, w1) \<Rightarrow>
         if ok then (case net_route ops port q r pt1 w1 of
                       (r1, pt2, w2) \<Rightarrow> net_service_port ops port budget q r1 pt2 w2)
         else (r, pt1, w1))"

definition net_service :: "'w uart_ops \<Rightarrow> net_router \<Rightarrow> net_ports \<Rightarrow> 'w \<Rightarrow> net_router \<times> net_ports \<times> 'w" where
  "net_service ops r pt w =
    (case net_service_port ops 0 8 default_net_packet r pt w of
       (r1, pt1, w1) \<Rightarrow> case net_service_port ops 1 8 default_net_packet r1 pt1 w1 of
         (r2, pt2, w2) \<Rightarrow> net_service_port ops 2 8 default_net_packet r2 pt2 w2)"

text \<open>\<open>setup\<close> of the sketch; its \<open>loop\<close> is \<open>net_service\<close> and a printed statistic.\<close>

definition net_setup :: "'w uart_ops \<Rightarrow> 'w \<Rightarrow> net_router \<times> net_ports \<times> 'w" where
  "net_setup ops w = (case ports_begin ops net_ports_init w of (pt, w1) \<Rightarrow> (net_router_init, pt, w1))"

end
