(* ===== verification/Node.thy ===== *)
theory Node
  imports StreamParser Transport
begin

text \<open>
  The network endpoint every computer and controller is built on
  (\<open>library/src/node.cpp\<close>): sequence numbers, sending with and without acknowledgement, the
  single pending transmission with its timeout and retries, and the receive path from the
  transport's bytes to the eight-packet receive queue.
\<close>

section \<open>Bounded queues\<close>

text \<open>
  The contract of a bounded first-in first-out queue whose \<open>enqueue\<close> drops the newest element
  when full, and what follows from it for bursts of insertions and for draining.
\<close>

locale bounded_queue =
  fixes enq :: "'q \<Rightarrow> 'a \<Rightarrow> bool \<times> 'q"
    and deq :: "'q \<Rightarrow> 'a \<Rightarrow> bool \<times> 'a \<times> 'q"
    and contents :: "'q \<Rightarrow> 'a list"
    and wf_queue :: "'q \<Rightarrow> bool"
    and bound :: nat
  assumes contents_bound: "wf_queue q \<Longrightarrow> length (contents q) \<le> bound"
    and enq_accepts: "wf_queue q \<Longrightarrow> fst (enq q x) \<longleftrightarrow> length (contents q) < bound"
    and enq_contents: "wf_queue q \<Longrightarrow> contents (snd (enq q x)) = take bound (contents q @ [x])"
    and enq_wf: "wf_queue q \<Longrightarrow> wf_queue (snd (enq q x))"
    and deq_succeeds: "wf_queue q \<Longrightarrow> fst (deq q out) \<longleftrightarrow> contents q \<noteq> []"
    and deq_value: "wf_queue q \<Longrightarrow> fst (snd (deq q out)) = (case contents q of [] \<Rightarrow> out | x # _ \<Rightarrow> x)"
    and deq_contents: "wf_queue q \<Longrightarrow> contents (snd (snd (deq q out))) = tl (contents q)"
    and deq_wf: "wf_queue q \<Longrightarrow> wf_queue (snd (snd (deq q out)))"
begin

lemma enq_burst_wf: "wf_queue q \<Longrightarrow> wf_queue (foldl (\<lambda>q x. snd (enq q x)) q xs)"
  by (induction xs arbitrary: q) (simp_all add: enq_wf)

lemma enq_burst:
  "wf_queue q \<Longrightarrow> contents (foldl (\<lambda>q x. snd (enq q x)) q xs) = take bound (contents q @ xs)"
proof (induction xs arbitrary: q)
  case (Cons x xs)
  then show ?case
    using contents_bound [OF Cons.prems]
    by (auto simp: enq_wf enq_contents take_Cons')
qed (simp add: contents_bound)

lemma deq_first:
  assumes "wf_queue q" and "contents q = x # xs"
  shows "\<exists>q'. deq q out = (True, x, q') \<and> contents q' = xs \<and> wf_queue q'"
  using deq_succeeds [OF assms(1), of out] deq_value [OF assms(1), of out]
    deq_contents [OF assms(1), of out] deq_wf [OF assms(1), of out] assms(2)
  by (cases "deq q out") simp

end

section \<open>State\<close>

record pending_tx =
  ptx_active :: bool
  ptx_packet :: packet
  ptx_sent_at_ms :: u32
  ptx_retries :: u8

definition kNodeRxQueueSize :: nat where [simp]: "kNodeRxQueueSize = 8"

record bike_node =
  nd_address :: node_address
  nd_transport :: nat
  nd_parser :: stream_parser
  nd_sequence :: u16
  nd_pending :: pending_tx
  nd_ack_timeout_ms :: u32
  nd_max_retries :: u8
  nd_tx_failures :: u32
  nd_auto_ack :: bool
  nd_rx_queue :: "packet list"
  nd_rx_head :: nat
  nd_rx_tail :: nat
  nd_rx_count :: nat
  nd_rx_drops :: u32

definition node_init :: "node_address \<Rightarrow> nat \<Rightarrow> bike_node" where
  "node_init address transport = \<lparr>nd_address = address, nd_transport = transport,
     nd_parser = stream_parser_init, nd_sequence = 1,
     nd_pending = \<lparr>ptx_active = False, ptx_packet = default_packet, ptx_sent_at_ms = 0,
       ptx_retries = 0\<rparr>,
     nd_ack_timeout_ms = 250, nd_max_retries = 3, nd_tx_failures = 0, nd_auto_ack = True,
     nd_rx_queue = replicate kNodeRxQueueSize default_packet, nd_rx_head = 0, nd_rx_tail = 0,
     nd_rx_count = 0, nd_rx_drops = 0\<rparr>"

definition node_set_ack_timeout_ms :: "u32 \<Rightarrow> bike_node \<Rightarrow> bike_node" where
  "node_set_ack_timeout_ms v nd = nd\<lparr>nd_ack_timeout_ms := v\<rparr>"

definition node_set_max_retries :: "u8 \<Rightarrow> bike_node \<Rightarrow> bike_node" where
  "node_set_max_retries v nd = nd\<lparr>nd_max_retries := v\<rparr>"

definition node_set_auto_ack :: "bool \<Rightarrow> bike_node \<Rightarrow> bike_node" where
  "node_set_auto_ack v nd = nd\<lparr>nd_auto_ack := v\<rparr>"

section \<open>Sending\<close>

definition node_next_sequence :: "bike_node \<Rightarrow> u16 \<times> bike_node" where
  "node_next_sequence nd =
    (let value = nd_sequence nd; s = value + 1
     in (value, nd\<lparr>nd_sequence := (if s = 0 then 1 else s)\<rparr>))"

definition node_write_packet ::
  "'w transport_ops \<Rightarrow> bike_node \<Rightarrow> packet \<Rightarrow> 'w \<Rightarrow> bool \<times> 'w" where
  "node_write_packet ops nd p w =
    (case encode_packet p (Some (replicate kMaxFrameSize 0)) kMaxFrameSize of
       (True, Some frame, n) \<Rightarrow> tp_write ops (nd_transport nd) (take n frame) w
     | _ \<Rightarrow> (False, w))"

definition node_send ::
  "'w transport_ops \<Rightarrow> bike_node \<Rightarrow> packet \<Rightarrow> u32 \<Rightarrow> bool \<Rightarrow> 'w \<Rightarrow> bool \<times> bike_node \<times> 'w" where
  "node_send ops nd p now require_ack w =
    (let p1 = p\<lparr>pkt_source := nd_address nd\<rparr>;
         (p2, nd2) = (if pkt_sequence p1 = 0
                      then (case node_next_sequence nd of (v, nd') \<Rightarrow> (p1\<lparr>pkt_sequence := v\<rparr>, nd'))
                      else (p1, nd))
     in if require_ack \<and> ptx_active (nd_pending nd2) then (False, nd2, w)
        else
          let p3 = (if require_ack then p2\<lparr>pkt_flags := pkt_flags p2 OR FlagAckRequired\<rparr> else p2)
          in case node_write_packet ops nd2 p3 w of
               (ok, w') \<Rightarrow>
                 (if \<not> ok then (False, nd2, w')
                  else (True,
                        (if require_ack
                         then nd2\<lparr>nd_pending := \<lparr>ptx_active = True, ptx_packet = p3,
                                     ptx_sent_at_ms = now, ptx_retries = 0\<rparr>\<rparr>
                         else nd2), w')))"

definition node_send_ack ::
  "'w transport_ops \<Rightarrow> bike_node \<Rightarrow> node_address \<Rightarrow> u16 \<Rightarrow> bool \<Rightarrow> 'w \<Rightarrow> bool \<times> 'w" where
  "node_send_ack ops nd destination sequence nack w =
    node_write_packet ops nd
      (default_packet\<lparr>pkt_source := nd_address nd, pkt_destination := destination,
         pkt_type := (if nack then msg_Nack else msg_Ack), pkt_flags := FlagResponse,
         pkt_sequence := sequence, pkt_length := 0\<rparr>) w"

section \<open>Receiving\<close>

definition node_handle_control_packet :: "bike_node \<Rightarrow> packet \<Rightarrow> bike_node" where
  "node_handle_control_packet nd p =
    (let pd = nd_pending nd in
     if \<not> ptx_active pd then nd
     else if pkt_sequence p \<noteq> pkt_sequence (ptx_packet pd) then nd
     else if pkt_source p \<noteq> pkt_destination (ptx_packet pd) then nd
     else if pkt_type p = msg_Ack then nd\<lparr>nd_pending := pd\<lparr>ptx_active := False\<rparr>\<rparr>
     else if pkt_type p = msg_Nack then nd\<lparr>nd_pending := pd\<lparr>ptx_sent_at_ms := 0\<rparr>\<rparr>
     else nd)"

definition node_enqueue_rx :: "bike_node \<Rightarrow> packet \<Rightarrow> bool \<times> bike_node" where
  "node_enqueue_rx nd p =
    (if nd_rx_count nd \<ge> length (nd_rx_queue nd)
     then (False, nd\<lparr>nd_rx_drops := nd_rx_drops nd + 1\<rparr>)
     else (True, nd\<lparr>nd_rx_queue := (nd_rx_queue nd)[nd_rx_tail nd := p],
                   nd_rx_tail := (nd_rx_tail nd + 1) mod length (nd_rx_queue nd),
                   nd_rx_count := nd_rx_count nd + 1\<rparr>))"

definition node_dequeue_rx :: "bike_node \<Rightarrow> packet \<Rightarrow> bool \<times> packet \<times> bike_node" where
  "node_dequeue_rx nd out =
    (if nd_rx_count nd = 0 then (False, out, nd)
     else (True, nd_rx_queue nd ! nd_rx_head nd,
           nd\<lparr>nd_rx_head := (nd_rx_head nd + 1) mod length (nd_rx_queue nd),
              nd_rx_count := nd_rx_count nd - 1\<rparr>))"

text \<open>The body of the receive loop for one completed packet.\<close>

definition node_receive :: "'w transport_ops \<Rightarrow> bike_node \<Rightarrow> packet \<Rightarrow> 'w \<Rightarrow> bike_node \<times> 'w" where
  "node_receive ops nd p w =
    (if pkt_destination p \<noteq> nd_address nd \<and> pkt_destination p \<noteq> addr_Broadcast then (nd, w)
     else if pkt_type p = msg_Ack \<or> pkt_type p = msg_Nack
     then (node_handle_control_packet nd p, w)
     else
       let w' = (if nd_auto_ack nd \<and> pkt_flags p AND FlagAckRequired \<noteq> 0
                 then snd (node_send_ack ops nd (pkt_source p) (pkt_sequence p) False w) else w)
       in (snd (node_enqueue_rx nd p), w'))"

fun node_rx_bytes :: "'w transport_ops \<Rightarrow> bike_node \<Rightarrow> u8 list \<Rightarrow> 'w \<Rightarrow> bike_node \<times> 'w" where
  "node_rx_bytes ops nd [] w = (nd, w)"
| "node_rx_bytes ops nd (b # bs) w =
    (case parser_push (nd_parser nd) b default_packet of
       (ok, ps, p) \<Rightarrow>
         let nd1 = nd\<lparr>nd_parser := ps\<rparr> in
         if ok then (case node_receive ops nd1 p w of (nd2, w2) \<Rightarrow> node_rx_bytes ops nd2 bs w2)
         else node_rx_bytes ops nd1 bs w)"

definition node_poll ::
  "'w transport_ops \<Rightarrow> bike_node \<Rightarrow> packet \<Rightarrow> u32 \<Rightarrow> 'w \<Rightarrow> bool \<times> packet \<times> bike_node \<times> 'w" where
  "node_poll ops nd out now w =
    (case node_dequeue_rx nd out of
       (True, p, nd1) \<Rightarrow> (True, p, nd1, w)
     | (False, _, _) \<Rightarrow>
         case tp_read ops (nd_transport nd) 64 w of
           (chunk, w1) \<Rightarrow>
             case node_rx_bytes ops nd chunk w1 of
               (nd2, w2) \<Rightarrow>
                 case node_dequeue_rx nd2 out of (ok, p, nd3) \<Rightarrow> (ok, p, nd3, w2))"

section \<open>Timeouts and retries\<close>

definition node_service :: "'w transport_ops \<Rightarrow> bike_node \<Rightarrow> u32 \<Rightarrow> 'w \<Rightarrow> bike_node \<times> 'w" where
  "node_service ops nd now w =
    (let pd = nd_pending nd in
     if \<not> ptx_active pd then (nd, w)
     else if now - ptx_sent_at_ms pd < nd_ack_timeout_ms nd then (nd, w)
     else if ptx_retries pd \<ge> nd_max_retries nd
     then (nd\<lparr>nd_pending := pd\<lparr>ptx_active := False\<rparr>, nd_tx_failures := nd_tx_failures nd + 1\<rparr>, w)
     else case node_write_packet ops nd (ptx_packet pd) w of
       (ok, w') \<Rightarrow>
         (if ok then (nd\<lparr>nd_pending := pd\<lparr>ptx_retries := ptx_retries pd + 1,
                                         ptx_sent_at_ms := now\<rparr>\<rparr>, w')
          else (nd, w')))"

section \<open>What goes onto the wire\<close>

text \<open>Sending a packet, as seen by the transport: its frame, or nothing when it is too long.\<close>

definition transmit :: "'w transport_ops \<Rightarrow> nat \<Rightarrow> packet \<Rightarrow> 'w \<Rightarrow> bool \<times> 'w" where
  "transmit ops t p w =
    (if unat (pkt_length p) > kMaxPayloadSize then (False, w) else tp_write ops t (frame_of p) w)"

lemma encode_zero_buffer:
  assumes "wf_packet p"
  shows "encode_packet p (Some (replicate kMaxFrameSize 0)) kMaxFrameSize =
    (if unat (pkt_length p) > kMaxPayloadSize then (False, Some (replicate kMaxFrameSize 0), 0)
     else (True, Some (frame_of p @ replicate (kMaxFrameSize - encoded_size p) 0), encoded_size p))"
proof (cases "unat (pkt_length p) > kMaxPayloadSize")
  case True
  then show ?thesis by (simp add: encode_packet_too_large)
next
  case False
  with assms have s: "sendable p" by (simp add: sendable_def)
  from encode_packet_frame [OF this, of kMaxFrameSize "replicate kMaxFrameSize 0"]
    encoded_size_bounds [OF s] False
  show ?thesis by simp
qed

lemma node_write_packet_eq:
  assumes "wf_packet p"
  shows "node_write_packet ops nd p w = transmit ops (nd_transport nd) p w"
proof (cases "unat (pkt_length p) > kMaxPayloadSize")
  case True
  then show ?thesis
    by (simp add: node_write_packet_def transmit_def encode_packet_too_large)
next
  case False
  with assms have "length (frame_of p) = encoded_size p"
    by (intro length_frame_of) (simp add: sendable_def)
  with False show ?thesis
    by (simp add: node_write_packet_def transmit_def encode_zero_buffer [OF assms, simplified])
qed

text \<open>The acknowledgement a node answers with.\<close>

definition ack_packet :: "node_address \<Rightarrow> node_address \<Rightarrow> u16 \<Rightarrow> bool \<Rightarrow> packet" where
  "ack_packet src dst sequence nack = default_packet\<lparr>pkt_source := src, pkt_destination := dst,
     pkt_type := (if nack then msg_Nack else msg_Ack), pkt_flags := FlagResponse,
     pkt_sequence := sequence, pkt_length := 0\<rparr>"

lemma ack_packet_sel [simp]:
  "pkt_source (ack_packet a d s n) = a" "pkt_destination (ack_packet a d s n) = d"
  "pkt_type (ack_packet a d s n) = (if n then msg_Nack else msg_Ack)"
  "pkt_flags (ack_packet a d s n) = FlagResponse" "pkt_sequence (ack_packet a d s n) = s"
  "pkt_length (ack_packet a d s n) = 0" "sendable (ack_packet a d s n)"
  by (simp_all add: ack_packet_def sendable_def)

lemma node_send_ack_eq:
  "node_send_ack ops nd d s n w =
    tp_write ops (nd_transport nd) (frame_of (ack_packet (nd_address nd) d s n)) w"
proof -
  have "wf_packet (ack_packet (nd_address nd) d s n)" by (simp add: ack_packet_def)
  from node_write_packet_eq [OF this, of ops nd w] show ?thesis
    by (simp add: transmit_def) (simp add: node_send_ack_def ack_packet_def)
qed

section \<open>The receive queue is a bounded queue\<close>

definition node_ring :: "bike_node \<Rightarrow> bool" where
  "node_ring nd \<longleftrightarrow> length (nd_rx_queue nd) = kNodeRxQueueSize \<and> nd_rx_head nd < kNodeRxQueueSize
     \<and> nd_rx_count nd \<le> kNodeRxQueueSize
     \<and> nd_rx_tail nd = (nd_rx_head nd + nd_rx_count nd) mod kNodeRxQueueSize"

definition rx_list :: "bike_node \<Rightarrow> packet list" where
  "rx_list nd =
     map (\<lambda>i. nd_rx_queue nd ! ((nd_rx_head nd + i) mod kNodeRxQueueSize)) [0..<nd_rx_count nd]"

lemma length_rx_list [simp]: "length (rx_list nd) = nd_rx_count nd"
  by (simp add: rx_list_def)

lemma ring_index_neq:
  assumes "(h::nat) < 8" and "i < n" and "n < 8"
  shows "(h + i) mod 8 \<noteq> (h + n) mod 8"
  using assms by (auto simp: mod_if)

lemma node_enqueue_contents:
  assumes "node_ring nd"
  shows "rx_list (snd (node_enqueue_rx nd p)) = take kNodeRxQueueSize (rx_list nd @ [p])"
proof (cases "nd_rx_count nd \<ge> 8")
  case True
  with assms show ?thesis by (simp add: node_enqueue_rx_def rx_list_def node_ring_def)
next
  case False
  have "rx_list (snd (node_enqueue_rx nd p)) = rx_list nd @ [p]"
    using assms False
    by (auto simp: node_enqueue_rx_def rx_list_def node_ring_def nth_list_update
      dest: ring_index_neq [of "nd_rx_head nd" _ "nd_rx_count nd"])
  with False show ?thesis by simp
qed

lemma node_enqueue_ring: "node_ring nd \<Longrightarrow> node_ring (snd (node_enqueue_rx nd p))"
  by (auto simp: node_enqueue_rx_def node_ring_def mod_Suc_eq)

lemma rx_list_Cons:
  assumes "node_ring nd" and "0 < nd_rx_count nd"
  shows "rx_list nd = nd_rx_queue nd ! nd_rx_head nd #
    map (\<lambda>i. nd_rx_queue nd ! ((Suc (nd_rx_head nd) mod 8 + i) mod 8)) [0..<nd_rx_count nd - 1]"
proof -
  have "[0..<nd_rx_count nd] = 0 # map Suc [0..<nd_rx_count nd - 1]"
    using assms(2) by (metis Suc_pred' map_Suc_upt upt_conv_Cons)
  with assms(1) show ?thesis
    by (simp add: rx_list_def node_ring_def mod_add_left_eq)
qed

lemma node_dequeue_contents:
  "node_ring nd \<Longrightarrow> rx_list (snd (snd (node_dequeue_rx nd out))) = tl (rx_list nd)"
  by (cases "nd_rx_count nd = 0")
    (simp_all add: node_dequeue_rx_def rx_list_Cons, simp_all add: rx_list_def node_ring_def)

lemma node_dequeue_ring: "node_ring nd \<Longrightarrow> node_ring (snd (snd (node_dequeue_rx nd out)))"
proof (cases "nd_rx_count nd")
  case (Suc n)
  moreover assume "node_ring nd"
  ultimately show ?thesis
    by (simp add: node_dequeue_rx_def node_ring_def mod_add_left_eq)
qed (simp add: node_dequeue_rx_def)

interpretation rxq: bounded_queue node_enqueue_rx node_dequeue_rx rx_list node_ring kNodeRxQueueSize
proof unfold_locales
  fix nd p out
  assume r: "node_ring nd"
  show "length (rx_list nd) \<le> kNodeRxQueueSize" using r by (simp add: node_ring_def)
  show "fst (node_enqueue_rx nd p) \<longleftrightarrow> length (rx_list nd) < kNodeRxQueueSize"
    using r by (auto simp: node_enqueue_rx_def node_ring_def)
  show "fst (node_dequeue_rx nd out) \<longleftrightarrow> rx_list nd \<noteq> []"
    by (simp add: node_dequeue_rx_def rx_list_def)
  show "fst (snd (node_dequeue_rx nd out)) = (case rx_list nd of [] \<Rightarrow> out | x # _ \<Rightarrow> x)"
    using r by (cases "nd_rx_count nd = 0")
      (simp add: node_dequeue_rx_def rx_list_def, simp add: node_dequeue_rx_def rx_list_Cons)
qed (simp_all add: node_enqueue_contents node_enqueue_ring node_dequeue_contents node_dequeue_ring)

section \<open>The node invariant\<close>

text \<open>
  What a node hands to its application: packets for it or for everyone, never a control packet,
  and always with a payload that fits the declared length. What it keeps pending: a packet of its
  own that asked for an acknowledgement.
\<close>

definition deliverable :: "bike_node \<Rightarrow> packet \<Rightarrow> bool" where
  "deliverable nd p \<longleftrightarrow> sendable p
     \<and> (pkt_destination p = nd_address nd \<or> pkt_destination p = addr_Broadcast)
     \<and> pkt_type p \<noteq> msg_Ack \<and> pkt_type p \<noteq> msg_Nack"

definition pending_ok :: "bike_node \<Rightarrow> bool" where
  "pending_ok nd \<longleftrightarrow> (ptx_active (nd_pending nd) \<longrightarrow>
     sendable (ptx_packet (nd_pending nd)) \<and> pkt_source (ptx_packet (nd_pending nd)) = nd_address nd
     \<and> pkt_flags (ptx_packet (nd_pending nd)) AND FlagAckRequired \<noteq> 0
     \<and> pkt_sequence (ptx_packet (nd_pending nd)) \<noteq> 0)"

definition node_inv :: "bike_node \<Rightarrow> bool" where
  "node_inv nd \<longleftrightarrow> parser_inv (nd_parser nd) \<and> node_ring nd \<and> nd_sequence nd \<noteq> 0 \<and> pending_ok nd
     \<and> (\<forall>p\<in>set (rx_list nd). deliverable nd p)"

lemma rx_list_update [simp]:
  "rx_list (nd\<lparr>nd_parser := a\<rparr>) = rx_list nd" "rx_list (nd\<lparr>nd_sequence := b\<rparr>) = rx_list nd"
  "rx_list (nd\<lparr>nd_pending := c\<rparr>) = rx_list nd" "rx_list (nd\<lparr>nd_tx_failures := d\<rparr>) = rx_list nd"
  "rx_list (nd\<lparr>nd_ack_timeout_ms := d\<rparr>) = rx_list nd" "rx_list (nd\<lparr>nd_max_retries := e\<rparr>) = rx_list nd"
  "rx_list (nd\<lparr>nd_auto_ack := f\<rparr>) = rx_list nd"
  by (simp_all add: rx_list_def)

lemma node_ring_update [simp]:
  "node_ring (nd\<lparr>nd_parser := a\<rparr>) = node_ring nd" "node_ring (nd\<lparr>nd_sequence := b\<rparr>) = node_ring nd"
  "node_ring (nd\<lparr>nd_pending := c\<rparr>) = node_ring nd" "node_ring (nd\<lparr>nd_tx_failures := d\<rparr>) = node_ring nd"
  "node_ring (nd\<lparr>nd_ack_timeout_ms := d\<rparr>) = node_ring nd" "node_ring (nd\<lparr>nd_max_retries := e\<rparr>) = node_ring nd"
  "node_ring (nd\<lparr>nd_auto_ack := f\<rparr>) = node_ring nd"
  by (simp_all add: node_ring_def)

lemma node_inv_init [inv_intros]: "node_inv (node_init a t)"
  by (simp add: node_inv_def node_init_def parser_inv_init node_ring_def pending_ok_def rx_list_def)

lemma node_inv_setters [inv_intros]:
  "node_inv nd \<Longrightarrow> node_inv (node_set_ack_timeout_ms v nd)"
  "node_inv nd \<Longrightarrow> node_inv (node_set_max_retries r nd)"
  "node_inv nd \<Longrightarrow> node_inv (node_set_auto_ack b nd)"
  by (simp_all add: node_inv_def node_set_ack_timeout_ms_def node_set_max_retries_def
    node_set_auto_ack_def pending_ok_def deliverable_def)

lemma flag_set [simp]: "(x OR 1) AND 1 = (1 :: u8)"
  by (rule bit_word_eqI) (auto simp: bit_simps)

text \<open>Sending touches only the sequence counter and the pending slot.\<close>

definition stamped :: "bike_node \<Rightarrow> packet \<Rightarrow> bool \<Rightarrow> packet" where
  "stamped nd p require_ack = p\<lparr>pkt_source := nd_address nd,
     pkt_sequence := (if pkt_sequence p = 0 then nd_sequence nd else pkt_sequence p),
     pkt_flags := (if require_ack then pkt_flags p OR FlagAckRequired else pkt_flags p)\<rparr>"

definition bump_sequence :: "bike_node \<Rightarrow> packet \<Rightarrow> bike_node" where
  "bump_sequence nd p = (if pkt_sequence p = 0 then snd (node_next_sequence nd) else nd)"

lemma bump_sequence_sel [simp]:
  "nd_pending (bump_sequence nd p) = nd_pending nd" "nd_address (bump_sequence nd p) = nd_address nd"
  "nd_transport (bump_sequence nd p) = nd_transport nd" "rx_list (bump_sequence nd p) = rx_list nd"
  "node_ring (bump_sequence nd p) = node_ring nd" "nd_parser (bump_sequence nd p) = nd_parser nd"
  "nd_rx_count (bump_sequence nd p) = nd_rx_count nd"
  "nd_tx_failures (bump_sequence nd p) = nd_tx_failures nd"
  "nd_rx_drops (bump_sequence nd p) = nd_rx_drops nd"
  "nd_auto_ack (bump_sequence nd p) = nd_auto_ack nd"
  "nd_max_retries (bump_sequence nd p) = nd_max_retries nd"
  "nd_ack_timeout_ms (bump_sequence nd p) = nd_ack_timeout_ms nd"
  by (simp_all add: bump_sequence_def node_next_sequence_def Let_def)

lemma bump_sequence_nonzero: "nd_sequence nd \<noteq> 0 \<Longrightarrow> nd_sequence (bump_sequence nd p) \<noteq> 0"
  by (simp add: bump_sequence_def node_next_sequence_def Let_def)

lemma stamped_sel [simp]:
  "pkt_source (stamped nd p r) = nd_address nd" "pkt_destination (stamped nd p r) = pkt_destination p"
  "pkt_type (stamped nd p r) = pkt_type p" "pkt_length (stamped nd p r) = pkt_length p"
  "pkt_payload (stamped nd p r) = pkt_payload p"
  "wf_packet (stamped nd p r) = wf_packet p" "sendable (stamped nd p r) = sendable p"
  by (simp_all add: stamped_def sendable_def)

lemma node_send_eq:
  assumes "wf_packet p"
  shows "node_send ops nd p now require_ack w =
    (if require_ack \<and> ptx_active (nd_pending nd) then (False, bump_sequence nd p, w)
     else case transmit ops (nd_transport nd) (stamped nd p require_ack) w of
       (ok, w') \<Rightarrow> (ok,
         if ok \<and> require_ack
         then (bump_sequence nd p)\<lparr>nd_pending := \<lparr>ptx_active = True,
                ptx_packet = stamped nd p require_ack, ptx_sent_at_ms = now, ptx_retries = 0\<rparr>\<rparr>
         else bump_sequence nd p, w'))"
proof -
  have st: "(let p1 = p\<lparr>pkt_source := nd_address nd\<rparr>
      in (if pkt_sequence p1 = 0
          then (case node_next_sequence nd of (v, nd') \<Rightarrow> (p1\<lparr>pkt_sequence := v\<rparr>, nd'))
          else (p1, nd))) =
    ((stamped nd p False), bump_sequence nd p)"
    by (auto simp: stamped_def bump_sequence_def node_next_sequence_def Let_def)
  have fl: "(if require_ack then (stamped nd p False)\<lparr>pkt_flags := pkt_flags (stamped nd p False)
      OR FlagAckRequired\<rparr> else stamped nd p False) = stamped nd p require_ack"
    by (simp add: stamped_def)
  show ?thesis
    unfolding node_send_def st [unfolded Let_def] Let_def case_prod_conv fl
    using assms by (auto simp: node_write_packet_eq split: prod.splits)
qed

lemma node_send_inv [inv_intros]:
  assumes "node_inv nd" and "wf_packet p"
  shows "node_inv (fst (snd (node_send ops nd p now r w)))"
proof -
  have seq: "pkt_sequence (stamped nd p r) \<noteq> 0"
    using assms(1) by (simp add: stamped_def node_inv_def)
  have fl: "r \<Longrightarrow> pkt_flags (stamped nd p r) AND FlagAckRequired \<noteq> 0"
    by (simp add: stamped_def)
  have base: "node_inv (bump_sequence nd p)"
    using assms(1) by (simp add: node_inv_def pending_ok_def deliverable_def bump_sequence_nonzero)
  obtain ok w' where t: "transmit ops (nd_transport nd) (stamped nd p r) w = (ok, w')"
    by fastforce
  have "ok \<Longrightarrow> sendable p"
    using t assms(2) by (auto simp: transmit_def sendable_def split: if_splits)
  with base seq fl t show ?thesis
    unfolding node_send_eq [OF assms(2)] t
    by (auto simp: node_inv_def pending_ok_def deliverable_def)
qed

text \<open>The receive path changes the parser, the pending slot and the queue.\<close>

lemma node_handle_control_sel [simp]:
  "nd_address (node_handle_control_packet nd p) = nd_address nd"
  "nd_transport (node_handle_control_packet nd p) = nd_transport nd"
  "nd_parser (node_handle_control_packet nd p) = nd_parser nd"
  "nd_sequence (node_handle_control_packet nd p) = nd_sequence nd"
  "rx_list (node_handle_control_packet nd p) = rx_list nd"
  "node_ring (node_handle_control_packet nd p) = node_ring nd"
  "nd_rx_count (node_handle_control_packet nd p) = nd_rx_count nd"
  by (simp_all add: node_handle_control_packet_def Let_def)

lemma node_handle_control_pending:
  "pending_ok nd \<Longrightarrow> pending_ok (node_handle_control_packet nd p)"
  by (simp add: node_handle_control_packet_def Let_def pending_ok_def)

lemma node_enqueue_sel [simp]:
  "nd_address (snd (node_enqueue_rx nd p)) = nd_address nd"
  "nd_transport (snd (node_enqueue_rx nd p)) = nd_transport nd"
  "nd_parser (snd (node_enqueue_rx nd p)) = nd_parser nd"
  "nd_sequence (snd (node_enqueue_rx nd p)) = nd_sequence nd"
  "nd_pending (snd (node_enqueue_rx nd p)) = nd_pending nd"
  by (simp_all add: node_enqueue_rx_def)

lemma node_dequeue_sel [simp]:
  "nd_address (snd (snd (node_dequeue_rx nd out))) = nd_address nd"
  "nd_transport (snd (snd (node_dequeue_rx nd out))) = nd_transport nd"
  "nd_parser (snd (snd (node_dequeue_rx nd out))) = nd_parser nd"
  "nd_sequence (snd (snd (node_dequeue_rx nd out))) = nd_sequence nd"
  "nd_pending (snd (snd (node_dequeue_rx nd out))) = nd_pending nd"
  by (simp_all add: node_dequeue_rx_def)

lemma node_enqueue_inv:
  assumes "node_inv nd" and "deliverable nd p"
  shows "node_inv (snd (node_enqueue_rx nd p))"
  using assms by (auto simp: node_inv_def pending_ok_def deliverable_def rxq.enq_contents
    node_enqueue_ring dest!: in_set_takeD)

lemma node_receive_sel [simp]:
  "nd_address (fst (node_receive ops nd p w)) = nd_address nd"
  "nd_transport (fst (node_receive ops nd p w)) = nd_transport nd"
  "nd_parser (fst (node_receive ops nd p w)) = nd_parser nd"
  by (simp_all add: node_receive_def Let_def)

lemma node_receive_inv:
  assumes "node_inv nd" and "sendable p"
  shows "node_inv (fst (node_receive ops nd p w))"
proof -
  have "node_inv (node_handle_control_packet nd p)"
    using assms(1) by (simp add: node_inv_def node_handle_control_pending deliverable_def)
  with assms show ?thesis
    by (auto simp: node_receive_def Let_def intro!: node_enqueue_inv) (simp_all add: deliverable_def)
qed

lemma node_rx_bytes_inv:
  "node_inv nd \<Longrightarrow> node_inv (fst (node_rx_bytes ops nd bs w))"
proof (induction bs arbitrary: nd w)
  case (Cons b bs)
  obtain ok ps p where push: "parser_push (nd_parser nd) b default_packet = (ok, ps, p)"
    by (cases "parser_push (nd_parser nd) b default_packet")
  have "parser_inv (nd_parser nd)" using Cons.prems by (simp add: node_inv_def)
  from parser_push_inv [OF this, of b default_packet] push_delivers [OF this, of b ps p] push
  have ps: "parser_inv ps" "ok \<Longrightarrow> sendable p" by auto
  then have 1: "node_inv (nd\<lparr>nd_parser := ps\<rparr>)"
    using Cons.prems by (simp add: node_inv_def pending_ok_def deliverable_def)
  show ?case
    using Cons.IH 1 node_receive_inv [OF 1, of p ops w] ps(2) by (auto simp: push Let_def split: prod.splits)
qed simp

lemma node_dequeue_inv [inv_intros]:
  "node_inv nd \<Longrightarrow> node_inv (snd (snd (node_dequeue_rx nd out)))"
  by (auto simp: node_inv_def rxq.deq_contents rxq.deq_wf pending_ok_def deliverable_def
    dest!: in_set_tlD)

lemma node_poll_cases:
  "node_poll ops nd out now w =
    (if nd_rx_count nd \<noteq> 0
     then (case node_dequeue_rx nd out of (ok, p, nd') \<Rightarrow> (ok, p, nd', w))
     else case tp_read ops (nd_transport nd) 64 w of
       (chunk, w1) \<Rightarrow> case node_rx_bytes ops nd chunk w1 of
         (nd2, w2) \<Rightarrow> case node_dequeue_rx nd2 out of (ok, p, nd3) \<Rightarrow> (ok, p, nd3, w2))"
  by (simp add: node_poll_def node_dequeue_rx_def split: prod.splits)

lemma node_poll_inv [inv_intros]:
  assumes "node_inv nd" and "node_poll ops nd out now w = (ok, p, nd', w')"
  shows "node_inv nd'" and "ok \<Longrightarrow> deliverable nd' p"
proof -
  have *: "node_inv nd' \<and> (ok \<longrightarrow> deliverable nd' p)"
    if "node_inv nd1" and "node_dequeue_rx nd1 out = (ok, p, nd')" for nd1
  proof -
    have "node_inv nd'"
      using node_dequeue_inv [OF that(1), of out] that(2) by simp
    moreover have "ok \<longrightarrow> p \<in> set (rx_list nd1)" and "nd_address nd' = nd_address nd1"
      using rxq.deq_succeeds [of nd1 out] rxq.deq_value [of nd1 out] that node_dequeue_sel(1) [of nd1 out]
      by (auto simp: node_inv_def split: list.splits)
    ultimately show ?thesis using that(1) by (auto simp: node_inv_def deliverable_def)
  qed
  have "node_inv nd' \<and> (ok \<longrightarrow> deliverable nd' p)"
  proof (cases "nd_rx_count nd \<noteq> 0")
    case True
    with assms * show ?thesis by (auto simp: node_poll_cases split: prod.splits)
  next
    case False
    with assms(2) obtain chunk w1 nd2 w2 where
      "node_rx_bytes ops nd chunk w1 = (nd2, w2)" "node_dequeue_rx nd2 out = (ok, p, nd')"
      by (auto simp: node_poll_cases split: prod.splits)
    with * [of nd2] node_rx_bytes_inv [OF assms(1), of ops chunk w1] show ?thesis by simp
  qed
  then show "node_inv nd'" and "ok \<Longrightarrow> deliverable nd' p" by auto
qed

lemma node_service_inv [inv_intros]:
  "node_inv nd \<Longrightarrow> node_inv (fst (node_service ops nd now w))"
  by (auto simp: node_service_def Let_def node_inv_def pending_ok_def deliverable_def split: prod.splits)

end
