(* ===== verification/NodeLink.thy ===== *)
theory NodeLink
  imports Node
begin

text \<open>
  What the node promises over time (\<open>library/src/node.cpp\<close>): its reachable states, the loop
  \<open>while (node.poll(packet, now))\<close> of every controller with its termination, the bounded number
  of retransmissions, and the acknowledged delivery of a packet between two nodes.
\<close>

section \<open>The receive loop over completed packets\<close>

lemma node_receive_parser:
  "node_receive ops (nd\<lparr>nd_parser := x\<rparr>) p w =
    (case node_receive ops nd p w of (nd', w') \<Rightarrow> (nd'\<lparr>nd_parser := x\<rparr>, w'))"
  by (simp add: node_receive_def node_handle_control_packet_def node_enqueue_rx_def
    node_send_ack_eq Let_def)

fun node_receive_all :: "'w transport_ops \<Rightarrow> bike_node \<Rightarrow> packet list \<Rightarrow> 'w \<Rightarrow> bike_node \<times> 'w" where
  "node_receive_all ops nd [] w = (nd, w)"
| "node_receive_all ops nd (p # ps) w =
    (case node_receive ops nd p w of (nd', w') \<Rightarrow> node_receive_all ops nd' ps w')"

lemma node_receive_all_parser:
  "node_receive_all ops (nd\<lparr>nd_parser := x\<rparr>) ps w =
    (case node_receive_all ops nd ps w of (nd', w') \<Rightarrow> (nd'\<lparr>nd_parser := x\<rparr>, w'))"
  by (induction ps arbitrary: nd w) (simp_all add: node_receive_parser split: prod.splits)

text \<open>The node handles exactly the packets its parser completes, in order.\<close>

lemma node_rx_bytes_feed:
  "node_rx_bytes ops nd bs w =
    (case parser_feed (nd_parser nd) bs of (ps, pks) \<Rightarrow>
       case node_receive_all ops nd pks w of (nd', w') \<Rightarrow> (nd'\<lparr>nd_parser := ps\<rparr>, w'))"
proof (induction bs arbitrary: nd w)
  case (Cons b bs)
  then show ?case
    by (simp add: node_receive_parser node_receive_all_parser Let_def split: prod.splits)
qed simp

lemma node_write_packet_keeps:
  assumes "finite_transport ops avail"
  shows "avail t (snd (node_write_packet ops nd p w)) = avail t w"
  using finite_transport.write_avail [OF assms]
  by (auto simp: node_write_packet_def split: prod.splits option.splits bool.splits)

lemma node_send_keeps:
  assumes "finite_transport ops avail" and "node_send ops nd p now r w = (ok, nd', w')"
  shows "avail t w' = avail t w" and "nd_rx_count nd' = nd_rx_count nd"
    and "nd_transport nd' = nd_transport nd"
  using assms(2) node_write_packet_keeps [OF assms(1)]
  by (auto simp: node_send_def node_next_sequence_def Let_def split: prod.splits if_splits)
     (metis snd_conv)+

lemma node_send_ack_keeps:
  assumes "finite_transport ops avail"
  shows "avail t (snd (node_send_ack ops nd d s n w)) = avail t w"
  unfolding node_send_ack_def by (rule node_write_packet_keeps [OF assms])

lemma node_service_keeps:
  assumes "finite_transport ops avail"
  shows "avail t (snd (node_service ops nd now w)) = avail t w"
    and "nd_rx_count (fst (node_service ops nd now w)) = nd_rx_count nd"
    and "nd_transport (fst (node_service ops nd now w)) = nd_transport nd"
  using node_write_packet_keeps [OF assms, of t nd "ptx_packet (nd_pending nd)" w]
  by (auto simp: node_service_def Let_def split: prod.splits)

lemma node_receive_all_keeps:
  assumes "finite_transport ops avail"
  shows "avail t (snd (node_receive_all ops nd ps w)) = avail t w
    \<and> nd_rx_count (fst (node_receive_all ops nd ps w)) \<le> nd_rx_count nd + length ps
    \<and> nd_transport (fst (node_receive_all ops nd ps w)) = nd_transport nd"
proof (induction ps arbitrary: nd w)
  case (Cons p ps)
  have "avail t (snd (node_receive ops nd p w)) = avail t w"
    "nd_rx_count (fst (node_receive ops nd p w)) \<le> Suc (nd_rx_count nd)"
    "nd_transport (fst (node_receive ops nd p w)) = nd_transport nd"
    using node_send_ack_keeps [OF assms]
    by (auto simp: node_receive_def Let_def) (auto simp: node_enqueue_rx_def)
  then show ?case
    using Cons.IH [of "fst (node_receive ops nd p w)" "snd (node_receive ops nd p w)"]
    by (auto split: prod.splits)
qed simp

lemma length_parser_feed: "length (snd (parser_feed s bs)) \<le> length bs"
proof (induction bs arbitrary: s)
  case (Cons b bs)
  have "length ps \<le> length bs" if "parser_feed s' bs = (s'', ps)" for s' s'' ps
    using Cons.IH [of s'] that by simp
  then show ?case by (auto split: prod.splits) (meson le_SucI)
qed simp

text \<open>A poll that delivers a packet consumes queued packets or transport bytes.\<close>

definition node_backlog :: "(nat \<Rightarrow> 'w \<Rightarrow> nat) \<Rightarrow> bike_node \<Rightarrow> 'w \<Rightarrow> nat" where
  "node_backlog avail nd w = nd_rx_count nd + avail (nd_transport nd) w"

lemma node_poll_backlog:
  assumes fin: "finite_transport ops avail"
    and poll: "node_poll ops nd out now w = (True, p, nd', w')"
  shows "node_backlog avail nd' w' < node_backlog avail nd w"
proof -
  have deq: "nd_rx_count n' < nd_rx_count n \<and> nd_transport n' = nd_transport n"
    if "node_dequeue_rx n out = (True, p, n')" for n n'
    using that by (auto simp: node_dequeue_rx_def split: if_splits)
  show ?thesis
  proof (cases "nd_rx_count nd \<noteq> 0")
    case True
    with poll deq show ?thesis
      by (auto simp: node_poll_cases node_backlog_def split: prod.splits)
  next
    case False
    with poll obtain chunk w1 n2 where r: "tp_read ops (nd_transport nd) 64 w = (chunk, w1)"
      and b: "node_rx_bytes ops nd chunk w1 = (n2, w')" and d: "node_dequeue_rx n2 out = (True, p, nd')"
      by (auto simp: node_poll_cases split: prod.splits)
    obtain ps pks where f: "parser_feed (nd_parser nd) chunk = (ps, pks)" by fastforce
    have "avail (nd_transport nd) w' = avail (nd_transport nd) w1"
      and "nd_rx_count n2 \<le> length pks" and "nd_transport n2 = nd_transport nd"
      using node_receive_all_keeps [OF fin, of "nd_transport nd" nd pks w1] b False
      by (auto simp: node_rx_bytes_feed f split: prod.splits)
    moreover have "avail (nd_transport nd) w1 + length chunk = avail (nd_transport nd) w"
      using finite_transport.read_decreases [OF fin r] .
    moreover have "length pks \<le> length chunk"
      using length_parser_feed [of "nd_parser nd" chunk] f by simp
    ultimately show ?thesis using deq [OF d] by (simp add: node_backlog_def)
  qed
qed

section \<open>The service loop of the controllers\<close>

text \<open>
  \<open>while (node.poll(packet, now)) BODY\<close>: \<open>body\<close> is what the loop does with a packet and the
  state \<open>'s\<close> around the node. \<open>None\<close> is a loop that never ends.
\<close>

partial_function (option) node_drain ::
  "'w transport_ops \<Rightarrow> u32 \<Rightarrow> (packet \<Rightarrow> 's \<Rightarrow> bike_node \<Rightarrow> 'w \<Rightarrow> 's \<times> bike_node \<times> 'w)
    \<Rightarrow> 's \<Rightarrow> bike_node \<Rightarrow> 'w \<Rightarrow> ('s \<times> bike_node \<times> 'w) option" where
  "node_drain ops now body s nd w =
    (case node_poll ops nd default_packet now w of
       (ok, p, nd1, w1) \<Rightarrow>
         if ok then (case body p s nd1 w1 of (s2, nd2, w2) \<Rightarrow> node_drain ops now body s2 nd2 w2)
         else Some (s, nd1, w1))"

lemma node_drain_terminates:
  assumes fin: "finite_transport ops avail"
    and body: "\<And>p s nd w s' nd' w'. body p s nd w = (s', nd', w') \<Longrightarrow>
      node_backlog avail nd' w' = node_backlog avail nd w"
  shows "\<exists>r. node_drain ops now body s nd w = Some r"
proof (induction "node_backlog avail nd w" arbitrary: s nd w rule: less_induct)
  case less
  obtain ok p nd1 w1 where poll: "node_poll ops nd default_packet now w = (ok, p, nd1, w1)"
    by (metis prod_cases4)
  show ?case
  proof (cases ok)
    case False
    with poll show ?thesis by (subst node_drain.simps) simp
  next
    case True
    obtain s2 nd2 w2 where b: "body p s nd1 w1 = (s2, nd2, w2)" by (metis prod_cases3)
    have "node_backlog avail nd2 w2 < node_backlog avail nd w"
      using node_poll_backlog [OF fin] poll True body [OF b] by simp
    from less [OF this, of s2] b poll True show ?thesis
      by (subst node_drain.simps) simp
  qed
qed

lemma node_drain_invariant:
  assumes run: "node_drain ops now body s nd w = Some (s', nd', w')"
    and start: "I s nd w"
    and poll: "\<And>s nd w ok p nd1 w1. I s nd w \<Longrightarrow>
      node_poll ops nd default_packet now w = (ok, p, nd1, w1) \<Longrightarrow>
      (if ok then (case body p s nd1 w1 of (s2, nd2, w2) \<Rightarrow> I s2 nd2 w2) else I s nd1 w1)"
  shows "I s' nd' w'"
proof -
  have "I s nd w \<longrightarrow> (case r of (s', nd', w') \<Rightarrow> I s' nd' w')"
    if "node_drain ops now body s nd w = Some r" for r
  proof (rule node_drain.raw_induct [OF _ that, where P = "\<lambda>ops' now' body' s nd w r.
      ops' = ops \<longrightarrow> now' = now \<longrightarrow> body' = body \<longrightarrow> I s nd w \<longrightarrow> (case r of (s', nd', w') \<Rightarrow> I s' nd' w')",
      THEN mp, THEN mp, THEN mp, OF _ refl refl refl])
    fix f ops' now' body' s nd w r
    assume IH: "\<And>ops' now' body' s nd w r. f ops' now' body' s nd w = Some r \<Longrightarrow>
        ops' = ops \<longrightarrow> now' = now \<longrightarrow> body' = body \<longrightarrow> I s nd w \<longrightarrow>
          (case r of (s', nd', w') \<Rightarrow> I s' nd' w')"
      and eq: "(case node_poll ops' nd default_packet now' w of (ok, p, nd1, w1) \<Rightarrow>
        if ok then (case body' p s nd1 w1 of (s2, nd2, w2) \<Rightarrow> f ops' now' body' s2 nd2 w2)
        else Some (s, nd1, w1)) = Some r"
    show "ops' = ops \<longrightarrow> now' = now \<longrightarrow> body' = body \<longrightarrow> I s nd w \<longrightarrow>
        (case r of (s', nd', w') \<Rightarrow> I s' nd' w')"
    proof (intro impI)
      assume same: "ops' = ops" "now' = now" "body' = body" and I: "I s nd w"
      obtain ok p nd1 w1 where np: "node_poll ops nd default_packet now w = (ok, p, nd1, w1)"
        by (metis prod_cases4)
      obtain s2 nd2 w2 where b: "body p s nd1 w1 = (s2, nd2, w2)" by (metis prod_cases3)
      show "case r of (s', nd', w') \<Rightarrow> I s' nd' w'"
        using eq poll [OF I np] IH [of ops now body s2 nd2 w2 r] by (cases ok) (auto simp: same np b)
    qed
  qed
  with run start show ?thesis by fastforce
qed

text \<open>The packets a drain hands to its body, in order.\<close>

definition recording :: "(packet \<Rightarrow> 's \<Rightarrow> bike_node \<Rightarrow> 'w \<Rightarrow> 's \<times> bike_node \<times> 'w)
    \<Rightarrow> packet \<Rightarrow> 's \<times> packet list \<Rightarrow> bike_node \<Rightarrow> 'w \<Rightarrow> ('s \<times> packet list) \<times> bike_node \<times> 'w" where
  "recording body p x nd w =
    (case x of (s, ps) \<Rightarrow> case body p s nd w of (s', nd', w') \<Rightarrow> ((s', ps @ [p]), nd', w'))"

lemma node_drain_recorded:
  assumes "node_drain ops now body s nd w = Some (s', nd', w')"
  shows "\<exists>ps. node_drain ops now (recording body) (s, xs) nd w = Some ((s', xs @ ps), nd', w')"
proof -
  have "\<forall>xs. \<exists>ps. node_drain ops now (recording body) (s, xs) nd w = Some ((fst r, xs @ ps), snd r)"
    if "node_drain ops now body s nd w = Some r" for r
  proof (rule node_drain.raw_induct [OF _ that, where P = "\<lambda>ops' now' body' s nd w r.
      \<forall>xs. \<exists>ps. node_drain ops' now' (recording body') (s, xs) nd w = Some ((fst r, xs @ ps), snd r)"])
    fix f ops' now' body' s nd w r
    assume IH: "\<And>ops' now' body' s nd w r. f ops' now' body' s nd w = Some r \<Longrightarrow>
        \<forall>xs. \<exists>ps. node_drain ops' now' (recording body') (s, xs) nd w = Some ((fst r, xs @ ps), snd r)"
      and eq: "(case node_poll ops' nd default_packet now' w of (ok, p, nd1, w1) \<Rightarrow>
        if ok then (case body' p s nd1 w1 of (s2, nd2, w2) \<Rightarrow> f ops' now' body' s2 nd2 w2)
        else Some (s, nd1, w1)) = Some r"
    obtain ok p nd1 w1 where np: "node_poll ops' nd default_packet now' w = (ok, p, nd1, w1)"
      by (metis prod_cases4)
    obtain s2 nd2 w2 where b: "body' p s nd1 w1 = (s2, nd2, w2)" by (metis prod_cases3)
    show "\<forall>xs. \<exists>ps. node_drain ops' now' (recording body') (s, xs) nd w = Some ((fst r, xs @ ps), snd r)"
    proof
      fix xs
      show "\<exists>ps. node_drain ops' now' (recording body') (s, xs) nd w = Some ((fst r, xs @ ps), snd r)"
      proof (cases ok)
        case True
        with eq have "f ops' now' body' s2 nd2 w2 = Some r" by (simp add: np b)
        from IH [OF this, THEN spec, of "xs @ [p]"] True show ?thesis
          by (subst node_drain.simps) (auto simp: np b recording_def)
      next
        case False
        with eq show ?thesis by (subst node_drain.simps) (auto simp: np)
      qed
    qed
  qed
  from this [OF assms] show ?thesis by fastforce
qed

section \<open>Reachable nodes\<close>

text \<open>
  Every call an application can make on a node, in any order, and any change of the outside world
  between the calls.
\<close>

inductive node_step :: "'w transport_ops \<Rightarrow> bike_node \<times> 'w \<Rightarrow> bike_node \<times> 'w \<Rightarrow> bool"
  for ops :: "'w transport_ops" where
  step_send: "wf_packet p \<Longrightarrow> node_send ops nd p now r w = (ok, nd', w') \<Longrightarrow>
    node_step ops (nd, w) (nd', w')"
| step_send_ack: "node_send_ack ops nd d q n w = (ok, w') \<Longrightarrow> node_step ops (nd, w) (nd, w')"
| step_poll: "node_poll ops nd out now w = (ok, p, nd', w') \<Longrightarrow> node_step ops (nd, w) (nd', w')"
| step_service: "node_service ops nd now w = (nd', w') \<Longrightarrow> node_step ops (nd, w) (nd', w')"
| step_ack_timeout: "node_step ops (nd, w) (node_set_ack_timeout_ms v nd, w)"
| step_max_retries: "node_step ops (nd, w) (node_set_max_retries m nd, w)"
| step_auto_ack: "node_step ops (nd, w) (node_set_auto_ack b nd, w)"
| step_world: "node_step ops (nd, w) (nd, w')"

inductive node_reachable :: "'w transport_ops \<Rightarrow> node_address \<Rightarrow> nat \<Rightarrow> bike_node \<times> 'w \<Rightarrow> bool"
  for ops :: "'w transport_ops" and a t where
  reach_init: "node_reachable ops a t (node_init a t, w)"
| reach_step: "node_reachable ops a t s \<Longrightarrow> node_step ops s s' \<Longrightarrow> node_reachable ops a t s'"

inductive_cases node_stepE: "node_step ops (nd, w) (nd', w')"

lemma node_receive_all_address [simp]:
  "nd_address (fst (node_receive_all ops nd ps w)) = nd_address nd"
  by (induction ps arbitrary: nd w) (auto split: prod.splits, metis fst_conv node_receive_sel(1))

lemma node_rx_bytes_address [simp]:
  "nd_address (fst (node_rx_bytes ops nd bs w)) = nd_address nd"
  using node_receive_all_address [of ops nd "snd (parser_feed (nd_parser nd) bs)" w]
  by (auto simp: node_rx_bytes_feed simp del: node_receive_all_address split: prod.splits)

lemma node_dequeue_address:
  "node_dequeue_rx nd out = (ok, p, nd') \<Longrightarrow> nd_address nd' = nd_address nd"
  using node_dequeue_sel(1) [of nd out] by simp

lemma node_rx_bytes_address':
  "node_rx_bytes ops nd bs w = (nd', w') \<Longrightarrow> nd_address nd' = nd_address nd"
  using node_rx_bytes_address [of ops nd bs w] by simp

lemma node_poll_address: "node_poll ops nd out now w = (ok, p, nd', w') \<Longrightarrow> nd_address nd' = nd_address nd"
  by (auto simp: node_poll_cases split: prod.splits if_splits
    dest!: node_dequeue_address node_rx_bytes_address')

lemma node_send_address: "node_send ops nd p now r w = (ok, nd', w') \<Longrightarrow> nd_address nd' = nd_address nd"
  by (auto simp: node_send_def node_next_sequence_def Let_def split: prod.splits if_splits)

lemma node_send_inv':
  "node_send ops nd p now r w = (ok, nd', w') \<Longrightarrow> wf_packet p \<Longrightarrow> node_inv nd \<Longrightarrow> node_inv nd'"
  using node_send_inv [of nd p ops now r w] by simp

lemma node_service_inv':
  "node_service ops nd now w = (nd', w') \<Longrightarrow> node_inv nd \<Longrightarrow> node_inv nd' \<and> nd_address nd' = nd_address nd"
  using node_service_inv [of nd ops now w]
  by (auto simp: node_service_def Let_def split: prod.splits if_splits)

lemma node_setters_address [simp]:
  "nd_address (node_set_ack_timeout_ms v nd) = nd_address nd"
  "nd_address (node_set_max_retries m nd) = nd_address nd"
  "nd_address (node_set_auto_ack b nd) = nd_address nd"
  by (simp_all add: node_set_ack_timeout_ms_def node_set_max_retries_def node_set_auto_ack_def)

lemma node_step_inv:
  assumes "node_step ops (nd, w) (nd', w')" and "node_inv nd"
  shows "node_inv nd' \<and> nd_address nd' = nd_address nd"
  using assms(1)
  by (rule node_stepE)
    (use assms(2) in \<open>auto intro: node_inv_setters dest: node_send_inv' node_send_address
      node_poll_inv(1) node_poll_address node_service_inv'\<close>)

lemma node_reachable_inv:
  "node_reachable ops a t s \<Longrightarrow> node_inv (fst s) \<and> nd_address (fst s) = a"
proof (induction rule: node_reachable.induct)
  case (reach_init w)
  then show ?case by (simp add: node_inv_init) (simp add: node_init_def)
next
  case (reach_step s s')
  then show ?case using node_step_inv [of ops "fst s" "snd s" "fst s'" "snd s'"] by simp
qed

section \<open>No packet is dropped\<close>

text \<open>
  \<open>poll\<close> reads only when the receive queue is empty, and at most 64 bytes: they complete at most
  six frames, and the queue holds eight.
\<close>

lemma push_length:
  assumes "parser_inv s" and "parser_push s b default_packet = (ok, s', p)"
  shows "if ok then 11 \<le> sp_length s \<and> sp_length s' = 0 else sp_length s' \<le> Suc (sp_length s)"
  using assms(1)
proof (cases s rule: push_cases)
  case complete
  have "sp_expected s \<ge> 12"
    using assms(1) complete by (simp add: parser_inv_def split: if_splits)
  with complete assms show ?thesis
    by (auto simp: push_complete parser_reject_def parser_reset_def split: prod.splits if_splits)
qed (use assms in \<open>auto simp: push_idle push_sync push_collect push_header parser_store_def
      parser_reject_def parser_reset_def split: if_splits\<close>)

lemma parser_feed_count:
  "parser_inv s \<Longrightarrow> parser_feed s bs = (s', pks) \<Longrightarrow>
    12 * length pks \<le> min (sp_length s) 11 + length bs"
proof (induction bs arbitrary: s pks)
  case (Cons b bs)
  obtain ok s1 p where push: "parser_push s b default_packet = (ok, s1, p)" by (metis prod_cases3)
  obtain pks2 where feed: "parser_feed s1 bs = (s', pks2)"
    and pks: "pks = (if ok then p # pks2 else pks2)"
    using Cons.prems(2) push by (auto split: prod.splits if_splits)
  have "parser_inv s1" using parser_push_inv [OF Cons.prems(1), of b default_packet] push by simp
  from Cons.IH [OF this feed] push_length [OF Cons.prems(1) push] pks show ?case
    by (auto split: if_splits)
qed simp

definition accepted :: "bike_node \<Rightarrow> packet \<Rightarrow> bool" where
  "accepted nd p \<longleftrightarrow> (pkt_destination p = nd_address nd \<or> pkt_destination p = addr_Broadcast)
     \<and> pkt_type p \<noteq> msg_Ack \<and> pkt_type p \<noteq> msg_Nack"

lemma node_receive_queue:
  assumes "node_ring nd" and "nd_rx_count nd < kNodeRxQueueSize"
    and "node_receive ops nd p w = (nd', w')"
  shows "rx_list nd' = rx_list nd @ (if accepted nd p then [p] else [])
    \<and> nd_rx_drops nd' = nd_rx_drops nd \<and> node_ring nd' \<and> nd_address nd' = nd_address nd"
proof -
  have "rx_list (snd (node_enqueue_rx nd p)) = rx_list nd @ [p]"
    using assms(1,2) by (simp add: rxq.enq_contents)
  moreover have "nd_rx_drops (snd (node_enqueue_rx nd p)) = nd_rx_drops nd"
    using assms(1,2) by (simp add: node_enqueue_rx_def node_ring_def)
  moreover have "nd' = (if accepted nd p then snd (node_enqueue_rx nd p)
      else if pkt_destination p \<noteq> nd_address nd \<and> pkt_destination p \<noteq> addr_Broadcast then nd
      else node_handle_control_packet nd p)"
    using arg_cong [OF assms(3), of fst] by (auto simp: node_receive_def accepted_def Let_def)
  moreover have "nd_rx_drops (node_handle_control_packet nd p) = nd_rx_drops nd"
    by (simp add: node_handle_control_packet_def Let_def)
  ultimately show ?thesis
    using assms(1) rxq.enq_wf [OF assms(1)] by auto
qed

lemma node_receive_all_queue:
  assumes "node_ring nd" and "nd_rx_count nd + length ps \<le> kNodeRxQueueSize"
    and "node_receive_all ops nd ps w = (nd', w')"
  shows "rx_list nd' = rx_list nd @ filter (accepted nd) ps \<and> nd_rx_drops nd' = nd_rx_drops nd"
  using assms
proof (induction ps arbitrary: nd w)
  case (Cons p ps)
  obtain nd1 w1 where r: "node_receive ops nd p w = (nd1, w1)" by fastforce
  from node_receive_queue [OF Cons.prems(1) _ r] Cons.prems(2)
  have 1: "rx_list nd1 = rx_list nd @ (if accepted nd p then [p] else [])"
    "nd_rx_drops nd1 = nd_rx_drops nd" "node_ring nd1" "nd_address nd1 = nd_address nd"
    by simp_all
  have "nd_rx_count nd1 \<le> Suc (nd_rx_count nd)"
    using arg_cong [OF 1(1), of length] by (simp split: if_splits)
  moreover have "accepted nd1 = accepted nd" using 1(4) by (simp add: accepted_def [abs_def])
  ultimately show ?case using Cons.IH [OF 1(3), of w1] Cons.prems(2,3) r 1 by simp
qed simp

lemma node_rx_bytes_queue:
  assumes inv: "node_inv nd" and empty: "nd_rx_count nd = 0" and len: "length bs \<le> 64"
    and run: "node_rx_bytes ops nd bs w = (nd', w')"
    and feed: "parser_feed (nd_parser nd) bs = (ps, pks)"
  shows "rx_list nd' = filter (accepted nd) pks \<and> nd_rx_drops nd' = nd_rx_drops nd"
proof -
  have "12 * length pks \<le> 11 + 64"
    using parser_feed_count [OF _ feed] inv len by (simp add: node_inv_def)
  then have n: "nd_rx_count nd + length pks \<le> kNodeRxQueueSize" using empty by simp
  obtain nd1 where r: "node_receive_all ops nd pks w = (nd1, w')" and nd': "nd' = nd1\<lparr>nd_parser := ps\<rparr>"
    using run by (auto simp: node_rx_bytes_feed feed split: prod.splits)
  from node_receive_all_queue [OF _ n r] inv empty show ?thesis
    by (auto simp: nd' node_inv_def rx_list_def)
qed

lemma node_poll_drops:
  assumes "bounded_transport ops" and "node_inv nd" and "node_poll ops nd out now w = (ok, p, nd', w')"
  shows "nd_rx_drops nd' = nd_rx_drops nd"
proof -
  have d: "nd_rx_drops n' = nd_rx_drops n" if "node_dequeue_rx n out = (ok, p, n')" for n n'
    using that by (auto simp: node_dequeue_rx_def split: if_splits)
  show ?thesis
  proof (cases "nd_rx_count nd = 0")
    case True
    with assms(3) obtain chunk w1 n2 where r: "tp_read ops (nd_transport nd) 64 w = (chunk, w1)"
      and b: "node_rx_bytes ops nd chunk w1 = (n2, w')" and q: "node_dequeue_rx n2 out = (ok, p, nd')"
      by (auto simp: node_poll_cases split: prod.splits)
    have "length chunk \<le> 64" by (rule bounded_transport.read_chunk [OF assms(1) r])
    from node_rx_bytes_queue [OF assms(2) True this b prod.collapse [symmetric]] d [OF q]
    show ?thesis by simp
  next
    case False
    with assms(3) d show ?thesis by (auto simp: node_poll_cases split: prod.splits)
  qed
qed

lemma node_step_drops:
  assumes "node_step ops (nd, w) (nd', w')" and "bounded_transport ops" and "node_inv nd"
  shows "nd_rx_drops nd' = nd_rx_drops nd"
  using assms(1)
proof (rule node_stepE)
  fix p now r ok assume "wf_packet p" and s: "node_send ops nd p now r w = (ok, nd', w')"
  then show ?thesis by (auto simp: node_send_eq split: prod.splits if_splits)
next
  fix out now ok p assume "node_poll ops nd out now w = (ok, p, nd', w')"
  with assms(2,3) show ?thesis by (rule node_poll_drops)
qed (auto simp: node_service_def Let_def node_set_ack_timeout_ms_def node_set_max_retries_def
    node_set_auto_ack_def split: prod.splits if_splits)

lemma node_reachable_drops:
  "node_reachable ops a t s \<Longrightarrow> bounded_transport ops \<Longrightarrow> nd_rx_drops (fst s) = 0"
proof (induction rule: node_reachable.induct)
  case (reach_init w)
  then show ?case by (simp add: node_init_def)
next
  case (reach_step s s')
  from node_step_drops [of ops "fst s" "snd s" "fst s'" "snd s'"] reach_step
    node_reachable_inv [OF reach_step(1)]
  show ?case by simp
qed

section \<open>Retransmission\<close>

fun node_service_run :: "'w transport_ops \<Rightarrow> bike_node \<Rightarrow> u32 list \<Rightarrow> 'w \<Rightarrow> bike_node \<times> 'w" where
  "node_service_run ops nd [] w = (nd, w)"
| "node_service_run ops nd (t # ts) w =
    (case node_service ops nd t w of (nd', w') \<Rightarrow> node_service_run ops nd' ts w')"

text \<open>The acknowledgement timeout has elapsed at every service time, counted from the last send.\<close>

fun timed_out :: "u32 \<Rightarrow> u32 \<Rightarrow> u32 list \<Rightarrow> bool" where
  "timed_out d sent [] = True"
| "timed_out d sent (t # ts) = (d \<le> t - sent \<and> timed_out d t ts)"

definition accepts :: "'w transport_ops \<Rightarrow> nat \<Rightarrow> u8 list \<Rightarrow> bool" where
  "accepts ops t f \<longleftrightarrow> (\<forall>w. fst (tp_write ops t f w))"

definition after_write :: "'w transport_ops \<Rightarrow> nat \<Rightarrow> u8 list \<Rightarrow> 'w \<Rightarrow> 'w" where
  "after_write ops t f w = snd (tp_write ops t f w)"

lemma node_service_resend:
  assumes "node_inv nd" and "nd_pending nd = pd" and "ptx_active pd"
    and "nd_ack_timeout_ms nd \<le> t - ptx_sent_at_ms pd" and "ptx_retries pd < nd_max_retries nd"
    and "accepts ops (nd_transport nd) (frame_of (ptx_packet pd))"
  shows "node_service ops nd t w =
    (nd\<lparr>nd_pending := pd\<lparr>ptx_retries := ptx_retries pd + 1, ptx_sent_at_ms := t\<rparr>\<rparr>,
     after_write ops (nd_transport nd) (frame_of (ptx_packet pd)) w)"
proof -
  have s: "sendable (ptx_packet pd)" using assms(1-3) by (simp add: node_inv_def pending_ok_def)
  have "fst (tp_write ops (nd_transport nd) (frame_of (ptx_packet pd)) w)"
    using assms(6) by (simp add: accepts_def)
  then show ?thesis
    using assms(2-5) s unfolding node_service_def Let_def
    by (auto simp: node_write_packet_eq sendable_def transmit_def after_write_def split: prod.splits)
qed

lemma node_service_run_resends:
  assumes "node_inv nd" and "ptx_active (nd_pending nd)"
    and "unat (ptx_retries (nd_pending nd)) + length ts \<le> unat (nd_max_retries nd)"
    and "timed_out (nd_ack_timeout_ms nd) (ptx_sent_at_ms (nd_pending nd)) ts"
    and "accepts ops (nd_transport nd) (frame_of (ptx_packet (nd_pending nd)))"
  shows "\<exists>r s. node_service_run ops nd ts w =
      (nd\<lparr>nd_pending := (nd_pending nd)\<lparr>ptx_retries := r, ptx_sent_at_ms := s\<rparr>\<rparr>,
       (after_write ops (nd_transport nd) (frame_of (ptx_packet (nd_pending nd)))
          ^^ length ts) w)
    \<and> unat r = unat (ptx_retries (nd_pending nd)) + length ts
    \<and> s = last (ptx_sent_at_ms (nd_pending nd) # ts)"
  using assms
proof (induction ts arbitrary: nd w)
  case Nil
  then show ?case by (intro exI [of _ "ptx_retries (nd_pending nd)"]) simp
next
  case (Cons t ts)
  let ?pd = "nd_pending nd"
  let ?pd' = "?pd\<lparr>ptx_retries := ptx_retries ?pd + 1, ptx_sent_at_ms := t\<rparr>"
  let ?nd' = "nd\<lparr>nd_pending := ?pd'\<rparr>"
  have less: "ptx_retries ?pd < nd_max_retries nd"
    using Cons.prems(3) by (simp add: word_less_nat_alt)
  then have inc: "unat (ptx_retries ?pd + 1) = unat (ptx_retries ?pd) + 1"
    by (simp add: unat_inc_less)
  have sv: "node_service ops nd t w =
      (?nd', after_write ops (nd_transport nd) (frame_of (ptx_packet ?pd)) w)"
    using Cons.prems less by (intro node_service_resend) simp_all
  have "node_inv ?nd'"
    using Cons.prems(1) by (simp add: node_inv_def pending_ok_def deliverable_def)
  with Cons.prems(2-) Cons.IH [of ?nd' "after_write ops (nd_transport nd) (frame_of (ptx_packet ?pd)) w"]
  show ?case by (auto simp: sv inc funpow_swap1)
qed

lemma timed_out_append:
  "timed_out d s (ts @ us) \<longleftrightarrow> timed_out d s ts \<and> timed_out d (last (s # ts)) us"
  by (induction ts arbitrary: s) auto

lemma node_service_run_append:
  "node_service_run ops nd (ts @ us) w =
    (case node_service_run ops nd ts w of (nd', w') \<Rightarrow> node_service_run ops nd' us w')"
  by (induction ts arbitrary: nd w) (auto split: prod.splits)

lemma node_service_run_gives_up:
  assumes "node_inv nd" and "ptx_active (nd_pending nd)" and "ptx_retries (nd_pending nd) = 0"
    and "length ts = Suc (unat (nd_max_retries nd))"
    and "timed_out (nd_ack_timeout_ms nd) (ptx_sent_at_ms (nd_pending nd)) ts"
    and "accepts ops (nd_transport nd) (frame_of (ptx_packet (nd_pending nd)))"
  shows "\<exists>nd'. node_service_run ops nd ts w =
      (nd', (after_write ops (nd_transport nd) (frame_of (ptx_packet (nd_pending nd)))
              ^^ unat (nd_max_retries nd)) w)
    \<and> \<not> ptx_active (nd_pending nd') \<and> nd_tx_failures nd' = nd_tx_failures nd + 1"
proof -
  obtain us t where ts: "ts = us @ [t]" and us: "length us = unat (nd_max_retries nd)"
    using assms(4) by (metis length_Suc_conv_rev)
  with assms(5) have to: "timed_out (nd_ack_timeout_ms nd) (ptx_sent_at_ms (nd_pending nd)) us"
    and last: "nd_ack_timeout_ms nd \<le> t - last (ptx_sent_at_ms (nd_pending nd) # us)"
    by (simp_all add: timed_out_append)
  from node_service_run_resends [OF assms(1,2) _ to assms(6), of w] us assms(3)
  obtain r s where run: "node_service_run ops nd us w =
      (nd\<lparr>nd_pending := (nd_pending nd)\<lparr>ptx_retries := r, ptx_sent_at_ms := s\<rparr>\<rparr>,
       (after_write ops (nd_transport nd) (frame_of (ptx_packet (nd_pending nd)))
          ^^ unat (nd_max_retries nd)) w)"
    and r: "unat r = unat (nd_max_retries nd)" and s: "s = last (ptx_sent_at_ms (nd_pending nd) # us)"
    by auto
  from r have "r = nd_max_retries nd" by (simp add: word_unat_eq_iff)
  with run s last assms(2) show ?thesis
    by (auto simp: ts node_service_run_append node_service_def Let_def)
qed

section \<open>Two nodes on a link\<close>

definition node_quiet :: "bike_node \<Rightarrow> bool" where
  "node_quiet nd \<longleftrightarrow> node_inv nd \<and> nd_rx_count nd = 0 \<and> sp_length (nd_parser nd) = 0"

lemma node_poll_one_frame:
  assumes "node_quiet nd" and "sendable p" and "tp_read ops (nd_transport nd) 64 w = (frame_of p, w1)"
    and "node_receive ops nd (received p) w1 = (nd2, w2)"
    and "node_poll ops nd out now w = (ok, q, nd', w')"
  shows "w' = w2 \<and> (\<exists>ps. node_dequeue_rx (nd2\<lparr>nd_parser := ps\<rparr>) out = (ok, q, nd'))"
proof -
  have "collected (sp_rejected (nd_parser nd)) [] (nd_parser nd)"
    using assms(1) by (simp add: collected_idle node_quiet_def node_inv_def)
  from feed_frame [OF this assms(2)] obtain ps where
    "parser_feed (nd_parser nd) (frame_of p) = (ps, [received p])" by auto
  with assms show ?thesis
    by (auto simp: node_poll_cases node_quiet_def node_rx_bytes_feed split: prod.splits)
qed

lemma node_poll_delivers:
  assumes "node_quiet nd" and "sendable p" and "tp_read ops (nd_transport nd) 64 w = (frame_of p, w1)"
    and "pkt_destination p = nd_address nd" and "pkt_type p \<noteq> msg_Ack" and "pkt_type p \<noteq> msg_Nack"
    and "node_poll ops nd out now w = (ok, q, nd', w')"
  shows "ok \<and> q = received p \<and>
    w' = (if nd_auto_ack nd \<and> pkt_flags p AND FlagAckRequired \<noteq> 0
          then after_write ops (nd_transport nd)
                 (frame_of (ack_packet (nd_address nd) (pkt_source p) (pkt_sequence p) False)) w1
          else w1)"
proof -
  have ring: "node_ring nd" and empty: "rx_list nd = []"
    using assms(1) by (simp_all add: node_quiet_def node_inv_def rx_list_def)
  obtain nd2 w2 where r: "node_receive ops nd (received p) w1 = (nd2, w2)" by fastforce
  have nd2: "nd2 = snd (node_enqueue_rx nd (received p))"
    and w2: "w2 = (if nd_auto_ack nd \<and> pkt_flags p AND FlagAckRequired \<noteq> 0
          then after_write ops (nd_transport nd)
                 (frame_of (ack_packet (nd_address nd) (pkt_source p) (pkt_sequence p) False)) w1
          else w1)"
    using r assms(4-6) by (auto simp: node_receive_def Let_def node_send_ack_eq after_write_def)
  have c: "rx_list nd2 = [received p]" and ring2: "node_ring nd2"
    using rxq.enq_contents [OF ring] rxq.enq_wf [OF ring] by (simp_all add: nd2 empty)
  from node_poll_one_frame [OF assms(1-3) r assms(7)] obtain ps where
    "node_dequeue_rx (nd2\<lparr>nd_parser := ps\<rparr>) out = (ok, q, nd')" "w' = w2"
    by auto
  with rxq.deq_first [of "nd2\<lparr>nd_parser := ps\<rparr>" "received p" "[]" out] c ring2 w2
  show ?thesis by simp
qed

text \<open>After the delivery the receive queue is empty and the port's buffer is read out.\<close>

lemma node_poll_delivers_empty:
  assumes "node_quiet nd" and "sendable p" and "tp_read ops (nd_transport nd) 64 w = (frame_of p, w1)"
    and "pkt_destination p = nd_address nd" and "pkt_type p \<noteq> msg_Ack" and "pkt_type p \<noteq> msg_Nack"
    and "node_poll ops nd out now w = (ok, q, nd', w')"
  shows "nd_rx_count nd' = 0 \<and> nd_transport nd' = nd_transport nd"
proof -
  have ring: "node_ring nd" and empty: "rx_list nd = []"
    using assms(1) by (simp_all add: node_quiet_def node_inv_def rx_list_def)
  obtain nd2 w2 where r: "node_receive ops nd (received p) w1 = (nd2, w2)" by fastforce
  have nd2: "nd2 = snd (node_enqueue_rx nd (received p))"
    using r assms(4-6) by (auto simp: node_receive_def Let_def node_send_ack_eq)
  have c: "rx_list nd2 = [received p]" and ring2: "node_ring nd2"
    using rxq.enq_contents [OF ring] rxq.enq_wf [OF ring] by (simp_all add: nd2 empty)
  from node_poll_one_frame [OF assms(1-3) r assms(7)] obtain ps where
    d: "node_dequeue_rx (nd2\<lparr>nd_parser := ps\<rparr>) out = (ok, q, nd')"
    by auto
  with rxq.deq_first [of "nd2\<lparr>nd_parser := ps\<rparr>" "received p" "[]" out] c ring2
  have "rx_list nd' = []" by simp
  then have "nd_rx_count nd' = 0" by (metis length_rx_list list.size(3))
  moreover have "nd_transport nd2 = nd_transport nd" by (simp add: nd2 node_enqueue_rx_def)
  ultimately show ?thesis using d by (auto simp: node_dequeue_rx_def split: if_splits)
qed

lemma node_poll_ack:
  assumes "node_quiet nd" and "tp_read ops (nd_transport nd) 64 w = (frame_of k, w1)"
    and "k = ack_packet src (nd_address nd) (pkt_sequence (ptx_packet (nd_pending nd))) False"
    and "ptx_active (nd_pending nd) \<Longrightarrow> pkt_destination (ptx_packet (nd_pending nd)) = src"
    and "node_poll ops nd out now w = (ok, q, nd', w')"
  shows "\<not> ok \<and> \<not> ptx_active (nd_pending nd') \<and> w' = w1"
proof -
  have k: "sendable k" using assms(3) by simp
  have r: "node_receive ops nd (received k) w1 = (node_handle_control_packet nd (received k), w1)"
    by (simp add: node_receive_def assms(3))
  have p: "\<not> ptx_active (nd_pending (node_handle_control_packet nd (received k)))"
    using assms(4) by (auto simp: node_handle_control_packet_def Let_def assms(3))
  from node_poll_one_frame [OF assms(1) k assms(2) r assms(5)] obtain ps where
    d: "node_dequeue_rx ((node_handle_control_packet nd (received k))\<lparr>nd_parser := ps\<rparr>) out =
      (ok, q, nd')" and w: "w' = w1"
    by auto
  have "nd_rx_count nd = 0" using assms(1) by (simp add: node_quiet_def)
  with d p w show ?thesis by (auto simp: node_dequeue_rx_def)
qed

lemma bench_after_write [simp]:
  "after_write bench_transport t f w = w\<lparr>sw_tx := sw_tx w @ [(t, f)]\<rparr>"
  by (simp add: after_write_def)

lemma acked_delivery:
  assumes a: "node_quiet a" "\<not> ptx_active (nd_pending a)" and b: "node_quiet b" "nd_auto_ack b"
    and p: "wf_packet p" "unat (pkt_length p) \<le> 52" "pkt_destination p = nd_address b"
      "pkt_type p \<noteq> msg_Ack" "pkt_type p \<noteq> msg_Nack"
    and send: "node_send bench_transport a p now True w = (sent, a1, w1)"
    and v: "sw_rx v (nd_transport b) = snd (last (sw_tx w1))"
    and poll_b: "node_poll bench_transport b out now' v = (got, q, b1, v1)"
    and u: "sw_rx u (nd_transport a) = snd (last (sw_tx v1))"
    and poll_a: "node_poll bench_transport a1 out' now'' u = (got', q', a2, u1)"
  shows "sent \<and> got \<and> q = received (stamped a p True) \<and> \<not> got' \<and> \<not> ptx_active (nd_pending a2)"
proof -
  let ?s = "stamped a p True"
  have s: "sendable ?s" using p(1,2) by (simp add: sendable_def)
  have send': "sent" "w1 = w\<lparr>sw_tx := sw_tx w @ [(nd_transport a, frame_of ?s)]\<rparr>"
    "a1 = (bump_sequence a p)\<lparr>nd_pending := \<lparr>ptx_active = True, ptx_packet = ?s,
       ptx_sent_at_ms = now, ptx_retries = 0\<rparr>\<rparr>"
    using send a(2) p(1,2) by (auto simp: node_send_eq transmit_def)
  have len: "length (frame_of ?s) \<le> 64"
    using length_frame_of [OF s] p(2) by (simp add: encoded_size_def)
  have rb: "tp_read bench_transport (nd_transport b) 64 v =
      (frame_of ?s, v\<lparr>sw_rx := (sw_rx v)(nd_transport b := [])\<rparr>)"
    using v len by (simp add: send'(2))
  have fl: "pkt_flags ?s AND FlagAckRequired \<noteq> 0" by (simp add: stamped_def)
  let ?k = "ack_packet (nd_address b) (nd_address a) (pkt_sequence ?s) False"
  from node_poll_delivers [OF b(1) s rb _ _ _ poll_b] p(3-5) b(2) fl
  have got: "got" "q = received ?s" and v1: "snd (last (sw_tx v1)) = frame_of ?k"
    by auto
  have len': "length (frame_of ?k) \<le> 64"
    using length_frame_of [of ?k] by (simp add: encoded_size_def)
  have "node_quiet a1"
  proof -
    have "node_inv a1" using node_send_inv [of a p bench_transport now True w] send a(1) p(1)
      by (simp add: node_quiet_def)
    with a(1) show ?thesis by (simp add: node_quiet_def send'(3))
  qed
  moreover have "tp_read bench_transport (nd_transport a1) 64 u =
      (frame_of ?k, u\<lparr>sw_rx := (sw_rx u)(nd_transport a1 := [])\<rparr>)"
    using u len' by (simp add: v1 send'(3))
  ultimately have "\<not> got' \<and> \<not> ptx_active (nd_pending a2) \<and>
      u1 = u\<lparr>sw_rx := (sw_rx u)(nd_transport a1 := [])\<rparr>"
    by (rule node_poll_ack [where src = "nd_address b", OF _ _ _ _ poll_a]) (simp_all add: send'(3) p(3))
  with send'(1) got show ?thesis by simp
qed

text \<open>Sending on a queue port without asking for an acknowledgement.\<close>

lemma bench_send:
  assumes "wf_packet p" and "unat (pkt_length p) \<le> kMaxPayloadSize"
  shows "node_send bench_transport nd p now False w =
    (True, bump_sequence nd p, w\<lparr>sw_tx := sw_tx w @ [(nd_transport nd, frame_of (stamped nd p False))]\<rparr>)"
  using assms by (simp add: node_send_eq transmit_def)

section \<open>Talking\<close>

text \<open>
  What an application does to its node while it handles a packet: it sends well-formed packets and
  acknowledgements. Everything the receive side relies on survives.
\<close>

inductive node_sends :: "(packet \<Rightarrow> bool) \<Rightarrow> 'w transport_ops \<Rightarrow> bike_node \<times> 'w \<Rightarrow> bike_node \<times> 'w \<Rightarrow> bool"
  for Q :: "packet \<Rightarrow> bool" and ops :: "'w transport_ops" where
  sends_refl: "node_sends Q ops (nd, w) (nd, w)"
| sends_packet: "node_sends Q ops a (nd, w) \<Longrightarrow> wf_packet p \<Longrightarrow> Q p \<Longrightarrow> node_send ops nd p now r w = (ok, nd', w') \<Longrightarrow>
    node_sends Q ops a (nd', w')"
| sends_ack: "node_sends Q ops a (nd, w) \<Longrightarrow> node_send_ack ops nd d q n w = (ok, w') \<Longrightarrow>
    node_sends Q ops a (nd, w')"

text \<open>
  Most of what the programs send are no security commands, which the security controller knows by
  their type and their length of 1.
\<close>

definition calm :: "packet \<Rightarrow> bool" where
  "calm p \<longleftrightarrow> \<not> (pkt_type p = msg_SecurityCommand \<and> pkt_length p = 1)"

lemma calm_type [simp]: "pkt_type p \<noteq> msg_SecurityCommand \<Longrightarrow> calm p"
  and calm_length [simp]: "pkt_length p \<noteq> 1 \<Longrightarrow> calm p"
  by (simp_all add: calm_def)

abbreviation node_talk :: "'w transport_ops \<Rightarrow> bike_node \<times> 'w \<Rightarrow> bike_node \<times> 'w \<Rightarrow> bool" where
  "node_talk \<equiv> node_sends calm"

lemma sends_mono: "node_sends P ops a b \<Longrightarrow> (\<And>p. P p \<Longrightarrow> Q p) \<Longrightarrow> node_sends Q ops a b"
  by (induction rule: node_sends.induct) (auto intro: node_sends.intros)

lemma sends_one: "wf_packet p \<Longrightarrow> node_send ops nd p now r w = (ok, nd', w') \<Longrightarrow> Q p \<Longrightarrow>
    node_sends Q ops (nd, w) (nd', w')"
  by (erule (1) sends_packet [OF sends_refl])

lemma sends_one_ack: "node_sends Q ops (nd, w) (nd, snd (node_send_ack ops nd d q n w))"
  by (rule sends_ack [OF sends_refl prod.collapse [symmetric]])

lemma sends_trans:
  "node_sends Q ops b c \<Longrightarrow> node_sends Q ops a b \<Longrightarrow> node_sends Q ops a c"
  by (induction rule: node_sends.induct) (auto intro: node_sends.intros)

lemmas talk_refl = sends_refl [where Q = calm]
lemmas talk_send1 = sends_one [where Q = calm]
lemmas talk_ack1 = sends_one_ack [where Q = calm]
lemmas talk_trans = sends_trans [where Q = calm]

lemma talk_keeps:
  assumes "node_sends Q ops a b"
  shows "node_inv (fst a) \<longrightarrow> node_inv (fst b)" "nd_address (fst b) = nd_address (fst a)"
    "nd_transport (fst b) = nd_transport (fst a)" "nd_rx_count (fst b) = nd_rx_count (fst a)"
proof -
  show "node_inv (fst a) \<longrightarrow> node_inv (fst b)" using assms
    by (induction rule: node_sends.induct) (auto dest: node_send_inv')
  show "nd_address (fst b) = nd_address (fst a)" "nd_transport (fst b) = nd_transport (fst a)"
    "nd_rx_count (fst b) = nd_rx_count (fst a)"
    using assms
    by (induction rule: node_sends.induct) (auto simp: node_send_eq split: prod.splits if_splits)
qed

lemma talk_backlog:
  assumes "node_sends Q ops a b" and "finite_transport ops avail"
  shows "node_backlog avail (fst b) (snd b) = node_backlog avail (fst a) (snd a)"
  using assms(1)
proof (induction rule: node_sends.induct)
  case (sends_packet a nd w p now r ok nd' w')
  from node_send_keeps [OF assms(2) sends_packet(4)] sends_packet(5) show ?case
    by (simp add: node_backlog_def)
next
  case (sends_ack a nd w d q n ok w')
  with node_send_ack_keeps [OF assms(2), of "nd_transport nd" nd d q n w] show ?case
    by (simp add: node_backlog_def)
qed simp

text \<open>A service loop whose body talks ends, and keeps what the body and the node keep.\<close>

lemma node_drain_talk_ends:
  assumes "finite_transport ops avail"
    and "\<And>p s nd w s' nd' w'. body p s nd w = (s', nd', w') \<Longrightarrow> node_sends Q ops (nd, w) (nd', w')"
  shows "\<exists>r. node_drain ops now body s nd w = Some r"
  using talk_backlog [OF assms(2) assms(1)] by (intro node_drain_terminates [OF assms(1)]) fastforce

lemma node_drain_talk_inv:
  assumes "node_drain ops now body s nd w = Some (s', nd', w')" and "node_inv nd" and "I s"
    and body: "\<And>p s nd w s' nd' w'. body p s nd w = (s', nd', w') \<Longrightarrow> node_sends Q ops (nd, w) (nd', w')"
    and state: "\<And>p s nd w s' nd' w'. body p s nd w = (s', nd', w') \<Longrightarrow> I s \<Longrightarrow> deliverable nd p \<Longrightarrow> I s'"
  shows "I s' \<and> node_inv nd'"
  using assms(1)
proof (rule node_drain_invariant [where I = "\<lambda>s nd w. I s \<and> node_inv nd"])
  show "I s \<and> node_inv nd" using assms(2,3) by simp
  fix s nd w ok p nd1 w1
  assume I: "I s \<and> node_inv nd" and poll: "node_poll ops nd default_packet now w = (ok, p, nd1, w1)"
  from node_poll_inv [OF _ poll] I have 1: "node_inv nd1" "ok \<Longrightarrow> deliverable nd1 p" by auto
  show "if ok then case body p s nd1 w1 of (s2, nd2, w2) \<Rightarrow> I s2 \<and> node_inv nd2
        else I s \<and> node_inv nd1"
  proof (cases ok)
    case True
    obtain s2 nd2 w2 where b: "body p s nd1 w1 = (s2, nd2, w2)" by (metis prod_cases3)
    from talk_keeps(1) [OF body [OF b]] state [OF b _ 1(2)] I 1 True b show ?thesis by simp
  qed (use I 1 in simp)
qed

lemma talk_reachable:
  "node_sends Q ops a b \<Longrightarrow> node_reachable ops ad t a \<Longrightarrow> node_reachable ops ad t b"
proof (induction rule: node_sends.induct)
  case (sends_packet a nd w p now r ok nd' w')
  then show ?case by (blast intro: reach_step step_send)
next
  case (sends_ack a nd w d q n ok w')
  then show ?case by (blast intro: reach_step step_send_ack)
qed

lemma node_drain_reachable:
  assumes "node_drain ops now body s nd w = Some (s', nd', w')" and "node_reachable ops ad t (nd, w)" and "I s"
    and body: "\<And>p s nd w s' nd' w'. body p s nd w = (s', nd', w') \<Longrightarrow> node_sends Q ops (nd, w) (nd', w')"
    and state: "\<And>p s nd w s' nd' w'. body p s nd w = (s', nd', w') \<Longrightarrow> I s \<Longrightarrow> I s'"
  shows "I s' \<and> node_reachable ops ad t (nd', w')"
  using assms(1)
proof (rule node_drain_invariant [where I = "\<lambda>s nd w. I s \<and> node_reachable ops ad t (nd, w)"])
  show "I s \<and> node_reachable ops ad t (nd, w)" using assms(2,3) by simp
  fix s nd w ok p nd1 w1
  assume I: "I s \<and> node_reachable ops ad t (nd, w)" and poll: "node_poll ops nd default_packet now w = (ok, p, nd1, w1)"
  have 1: "node_reachable ops ad t (nd1, w1)" using I step_poll [OF poll] by (blast intro: reach_step)
  obtain s2 nd2 w2 where b: "body p s nd1 w1 = (s2, nd2, w2)" by (metis prod_cases3)
  show "if ok then case body p s nd1 w1 of (s2, nd2, w2) \<Rightarrow> I s2 \<and> node_reachable ops ad t (nd2, w2)
        else I s \<and> node_reachable ops ad t (nd1, w1)"
    using state [OF b] talk_reachable [OF body [OF b] 1] I 1 by (simp add: b)
qed

section \<open>Properties of the node\<close>

text \<open>Reachable nodes. Starting from a fresh node and after any sequence of sends,
  acknowledgements, polls, services and setting changes, on any transport that respects the
  64-byte chunk and whatever the world does in between, the node satisfies its invariant (ring
  indices in range, sequence number never 0, a pending packet that is its own and asks for an
  acknowledgement, only deliverable packets queued), keeps its address, and has never dropped a
  received packet: the drop counter of the receive queue stays 0.\<close>

theorem node_reachable_safe:
  assumes "bounded_transport ops" and "node_reachable ops a t (nd, w)"
  shows "node_inv nd \<and> nd_address nd = a \<and> nd_rx_drops nd = 0"
  using node_reachable_inv [OF assms(2)] node_reachable_drops [OF assms(2,1)] by simp

theorem node_reachable_safe_witness:
  "nd_rx_drops (fst (snd (snd (node_poll bench_transport (node_init addr_Northbridge 0) default_packet 5
     (quiet_world\<lparr>sw_rx := (\<lambda>_. frame_of default_packet)\<rparr>))))) = 0"
proof -
  let ?w = "quiet_world\<lparr>sw_rx := (\<lambda>_. frame_of default_packet)\<rparr>"
  obtain ok p nd w' where poll: "node_poll bench_transport (node_init addr_Northbridge 0)
      default_packet 5 ?w = (ok, p, nd, w')" by (metis prod_cases4)
  have "node_reachable bench_transport addr_Northbridge 0 (nd, w')"
    by (rule reach_step [OF reach_init step_poll [OF poll]])
  from node_reachable_safe [OF bench.bounded_transport_axioms this] poll show ?thesis by simp
qed

text \<open>Receiving. Reading a chunk of at most 64 bytes into an empty receive queue queues exactly
  the packets the parser completes from it that are addressed to the node or broadcast and are not
  acknowledgements, in their order of arrival; none is dropped.\<close>

theorem node_receives_exactly:
  assumes "node_inv nd" and "nd_rx_count nd = 0" and "length bs \<le> 64"
    and "node_rx_bytes ops nd bs w = (nd', w')"
    and "parser_feed (nd_parser nd) bs = (ps, pks)"
  shows "rx_list nd' = filter (accepted nd) pks \<and> nd_rx_drops nd' = nd_rx_drops nd"
  using assms by (rule node_rx_bytes_queue)

lemma node_init_sel [simp]:
  "nd_address (node_init a t) = a" "nd_transport (node_init a t) = t"
  "nd_parser (node_init a t) = stream_parser_init" "nd_rx_count (node_init a t) = 0"
  "nd_auto_ack (node_init a t)" "\<not> ptx_active (nd_pending (node_init a t))"
  "node_quiet (node_init a t)"
  using node_inv_init [of a t]
  by (simp_all add: node_quiet_def) (simp_all add: node_init_def stream_parser_init_def)

lemma feed_frame_init: "sendable p \<Longrightarrow> \<exists>ps. parser_feed stream_parser_init (frame_of p) = (ps, [received p])"
  using feed_frame [of 0 stream_parser_init p] parser_inv_init
  by (auto simp: collected_idle) (auto simp: stream_parser_init_def)

theorem node_receives_exactly_witness:
  "rx_list (fst (node_rx_bytes bench_transport (node_init addr_Northbridge 0) (frame_of default_packet)
     quiet_world)) = [received default_packet]"
proof -
  obtain nd' w' where run: "node_rx_bytes bench_transport (node_init addr_Northbridge 0)
      (frame_of default_packet) quiet_world = (nd', w')" by fastforce
  obtain ps where feed: "parser_feed stream_parser_init (frame_of default_packet) =
      (ps, [received default_packet])" using feed_frame_init by force
  from node_receives_exactly [OF node_inv_init _ _ run, of ps "[received default_packet]"] feed run
  show ?thesis by (simp add: accepted_def)
qed

text \<open>The service loop ends. On a transport with finite input, the loop
  \<open>while (node.poll(packet, now))\<close> returns, for every loop body that sends any number of packets
  but neither queues nor reads any.\<close>

theorem node_drain_ends:
  assumes "finite_transport ops avail"
    and "\<And>p s nd w s' nd' w'. body p s nd w = (s', nd', w') \<Longrightarrow>
      node_backlog avail nd' w' = node_backlog avail nd w"
  shows "\<exists>r. node_drain ops now body s nd w = Some r"
  using assms by (rule node_drain_terminates)

theorem node_drain_ends_witness:
  "\<exists>r. node_drain bench_transport 0 (\<lambda>p s nd w. (p # s, nd, w)) []
     (node_init addr_Northbridge 0) (quiet_world\<lparr>sw_rx := (\<lambda>_. frame_of default_packet)\<rparr>) = Some r"
  by (rule node_drain_ends [OF bench.finite_transport_axioms]) simp

text \<open>C27: Bounded retransmission. Serviced each time the acknowledgement timeout has run out, a
  node with a pending packet and no acknowledgement writes its frame exactly \<open>max_retries\<close> times
  more and then gives up: nothing is pending, and one transmission failure is counted.\<close>

theorem node_retries_then_gives_up:
  assumes "node_inv nd" and "ptx_active (nd_pending nd)" and "ptx_retries (nd_pending nd) = 0"
    and "length ts = Suc (unat (nd_max_retries nd))"
    and "timed_out (nd_ack_timeout_ms nd) (ptx_sent_at_ms (nd_pending nd)) ts"
    and "accepts ops (nd_transport nd) (frame_of (ptx_packet (nd_pending nd)))"
  shows "\<exists>nd'. node_service_run ops nd ts w =
      (nd', (after_write ops (nd_transport nd) (frame_of (ptx_packet (nd_pending nd)))
              ^^ unat (nd_max_retries nd)) w)
    \<and> \<not> ptx_active (nd_pending nd') \<and> nd_tx_failures nd' = nd_tx_failures nd + 1"
  using assms by (rule node_service_run_gives_up)

theorem node_retries_then_gives_up_witness:
  "\<exists>f nd'. node_service_run bench_transport
      (fst (snd (node_send bench_transport (node_init addr_Lighting 0) default_packet 10 True quiet_world)))
      [260, 510, 760, 1010] quiet_world =
        (nd', quiet_world\<lparr>sw_tx := [(0, f), (0, f), (0, f)]\<rparr>)
      \<and> \<not> ptx_active (nd_pending nd') \<and> nd_tx_failures nd' = 1"
proof -
  let ?n0 = "node_init addr_Lighting 0"
  let ?nd = "fst (snd (node_send bench_transport ?n0 default_packet 10 True quiet_world))"
  have inv: "node_inv ?nd" by (intro node_send_inv node_inv_init wf_default_packet)
  have eq: "?nd = (bump_sequence ?n0 default_packet)\<lparr>nd_pending := \<lparr>ptx_active = True,
      ptx_packet = stamped ?n0 default_packet True, ptx_sent_at_ms = 10, ptx_retries = 0\<rparr>\<rparr>"
    by (simp add: node_send_eq transmit_def)
  have s: "nd_max_retries ?nd = 3" "nd_ack_timeout_ms ?nd = 250" "nd_tx_failures ?nd = 0"
    "nd_transport ?nd = 0" "ptx_sent_at_ms (nd_pending ?nd) = 10" "ptx_retries (nd_pending ?nd) = 0"
    "ptx_active (nd_pending ?nd)"
    unfolding eq by (simp_all, simp_all add: node_init_def)
  have n: "unat (nd_max_retries ?nd) = 3" unfolding s(1) by simp
  have len: "length [260, 510, 760, 1010 :: u32] = Suc (unat (nd_max_retries ?nd))"
    unfolding n by simp
  have to: "timed_out (nd_ack_timeout_ms ?nd) (ptx_sent_at_ms (nd_pending ?nd)) [260, 510, 760, 1010]"
    unfolding s(2,5) by simp
  have acc: "accepts bench_transport (nd_transport ?nd) (frame_of (ptx_packet (nd_pending ?nd)))"
    by (simp add: accepts_def)
  have three: "(after_write bench_transport 0 f ^^ 3) quiet_world =
      quiet_world\<lparr>sw_tx := [(0, f), (0, f), (0, f)]\<rparr>" for f
    by (simp add: numeral_3_eq_3)
  show ?thesis
    using node_retries_then_gives_up [OF inv s(7,6) len to acc, of quiet_world]
    unfolding n s(3,4) three add_0_left by (rule exI)
qed

text \<open>C23: Acknowledged delivery. A packet of at most 52 bytes (its frame fits one read) is sent with an
  acknowledgement request by an idle node that waits for none, to an idle node that acknowledges on its
  own, as every node does from its construction until that is switched off (the two ESP32 controllers
  switch it off and acknowledge commands themselves). It reaches the receiver's application in one poll,
  stamped with the sender's address and a sequence number; the acknowledgement the receiver writes settles
  the sender's pending transmission in the sender's next poll and is not handed to the application.
  Whatever else the two nodes are connected to.\<close>

theorem acknowledged_delivery:
  assumes "node_quiet a" and "\<not> ptx_active (nd_pending a)" and "node_quiet b" and "nd_auto_ack b"
    and "wf_packet p" and "unat (pkt_length p) \<le> 52" and "pkt_destination p = nd_address b"
    and "pkt_type p \<noteq> msg_Ack" and "pkt_type p \<noteq> msg_Nack"
    and "node_send bench_transport a p now True w = (sent, a1, w1)"
    and "sw_rx v (nd_transport b) = snd (last (sw_tx w1))"
    and "node_poll bench_transport b out now' v = (got, q, b1, v1)"
    and "sw_rx u (nd_transport a) = snd (last (sw_tx v1))"
    and "node_poll bench_transport a1 out' now'' u = (got', q', a2, u1)"
  shows "sent \<and> got \<and> q = received (stamped a p True) \<and> \<not> got' \<and> \<not> ptx_active (nd_pending a2)"
  using assms by (rule acked_delivery)

theorem acknowledged_delivery_witness:
  "case node_send bench_transport (node_init addr_MainComputer 0)
      (default_packet\<lparr>pkt_destination := addr_Lighting\<rparr>) 5 True quiet_world of (sent, a1, w1) \<Rightarrow>
   case node_poll bench_transport (node_init addr_Lighting 1) default_packet 6
      (quiet_world\<lparr>sw_rx := (\<lambda>_. snd (last (sw_tx w1)))\<rparr>) of (got, q, b1, v1) \<Rightarrow>
   case node_poll bench_transport a1 default_packet 7
      (quiet_world\<lparr>sw_rx := (\<lambda>_. snd (last (sw_tx v1)))\<rparr>) of (got', q', a2, u1) \<Rightarrow>
     sent \<and> got \<and> \<not> got' \<and> \<not> ptx_active (nd_pending a2)"
proof -
  let ?p = "default_packet\<lparr>pkt_destination := addr_Lighting\<rparr>"
  obtain sent a1 w1 where s: "node_send bench_transport (node_init addr_MainComputer 0) ?p 5 True
      quiet_world = (sent, a1, w1)" by (metis prod_cases3)
  let ?v = "quiet_world\<lparr>sw_rx := (\<lambda>_. snd (last (sw_tx w1)))\<rparr>"
  obtain got q b1 v1 where b: "node_poll bench_transport (node_init addr_Lighting 1) default_packet 6
      ?v = (got, q, b1, v1)" by (metis prod_cases4)
  let ?u = "quiet_world\<lparr>sw_rx := (\<lambda>_. snd (last (sw_tx v1)))\<rparr>"
  obtain got' q' a2 u1 where a: "node_poll bench_transport a1 default_packet 7 ?u = (got', q', a2, u1)"
    by (metis prod_cases4)
  from acknowledged_delivery [OF _ _ _ _ _ _ _ _ _ s _ b _ a] show ?thesis
    unfolding s prod.case b a by simp
qed

end
