(* ===== verification/DeviceInfo.thy ===== *)
theory DeviceInfo
  imports Protocol
begin

text \<open>
  The device identity record and its sixteen-byte payload
  (\<open>protocol/include/bike_protocol/device_info.hpp\<close>), with the byte-by-byte reading of it.
\<close>

section \<open>Writing payload bytes\<close>

text \<open>\<open>packet.payload[i] = b\<close>, for an index inside the 128-byte array.\<close>

definition set_payload :: "nat \<Rightarrow> u8 \<Rightarrow> packet \<Rightarrow> packet" where
  "set_payload i b p = p\<lparr>pkt_payload := (pkt_payload p)[i := b]\<rparr>"

lemma set_payload_sel [simp]:
  "pkt_source (set_payload i b p) = pkt_source p"
  "pkt_destination (set_payload i b p) = pkt_destination p"
  "pkt_type (set_payload i b p) = pkt_type p" "pkt_flags (set_payload i b p) = pkt_flags p"
  "pkt_sequence (set_payload i b p) = pkt_sequence p"
  "pkt_length (set_payload i b p) = pkt_length p"
  "pkt_payload (set_payload i b p) = (pkt_payload p)[i := b]"
  "wf_packet (set_payload i b p) = wf_packet p"
  by (simp_all add: set_payload_def wf_packet_def)

definition put_device_u32 :: "nat \<Rightarrow> u32 \<Rightarrow> packet \<Rightarrow> packet" where
  "put_device_u32 offset v p =
    set_payload (offset + 3) (byte32 0 v) (set_payload (offset + 2) (byte32 1 v)
      (set_payload (offset + 1) (byte32 2 v) (set_payload offset (byte32 3 v) p)))"

lemma put_device_u32_sel [simp]:
  "pkt_source (put_device_u32 i v p) = pkt_source p"
  "pkt_destination (put_device_u32 i v p) = pkt_destination p"
  "pkt_type (put_device_u32 i v p) = pkt_type p" "pkt_flags (put_device_u32 i v p) = pkt_flags p"
  "pkt_sequence (put_device_u32 i v p) = pkt_sequence p"
  "pkt_length (put_device_u32 i v p) = pkt_length p"
  "pkt_payload (put_device_u32 i v p) = (pkt_payload p)
     [i := byte32 3 v, i + 1 := byte32 2 v, i + 2 := byte32 1 v, i + 3 := byte32 0 v]"
  "wf_packet (put_device_u32 i v p) = wf_packet p"
  by (simp_all add: put_device_u32_def)

text \<open>Reading a big-endian word back out of a payload.\<close>

definition read_u32_be :: "u8 list \<Rightarrow> nat \<Rightarrow> u32" where
  "read_u32_be bs i = u32_of_bytes (bs ! i) (bs ! (i + 1)) (bs ! (i + 2)) (bs ! (i + 3))"

lemma read_put_device_u32:
  assumes "wf_packet p" and "i + 3 < kMaxPayloadSize"
  shows "read_u32_be (pkt_payload (put_device_u32 i v p)) i = v"
  using assms by (simp add: read_u32_be_def wf_packet_def)

lemma read_put_device_u32_other:
  assumes "i + 3 < j \<or> j + 3 < i"
  shows "read_u32_be (pkt_payload (put_device_u32 i v p)) j = read_u32_be (pkt_payload p) j"
  using assms by (auto simp: read_u32_be_def nth_list_update)

lemma put_device_u32_nth:
  "j < i \<or> i + 3 < j \<Longrightarrow> pkt_payload (put_device_u32 i v p) ! j = pkt_payload p ! j"
  by auto

section \<open>Device identity\<close>

type_synonym device_class = u8
type_synonym reset_reason = u8

definition DeviceClass_MainComputer :: device_class where [simp]: "DeviceClass_MainComputer = 0x01"
definition DeviceClass_DiagnosticComputer :: device_class where
  [simp]: "DeviceClass_DiagnosticComputer = 0x02"
definition DeviceClass_NetworkController :: device_class where
  [simp]: "DeviceClass_NetworkController = 0x03"
definition DeviceClass_LightingController :: device_class where
  [simp]: "DeviceClass_LightingController = 0x10"
definition DeviceClass_SecurityController :: device_class where
  [simp]: "DeviceClass_SecurityController = 0x11"

definition CapabilityNone :: u32 where [simp]: "CapabilityNone = 0"
definition CapabilityRouting :: u32 where [simp]: "CapabilityRouting = 0x01"
definition CapabilityDiagnostics :: u32 where [simp]: "CapabilityDiagnostics = 0x02"
definition CapabilityLighting :: u32 where [simp]: "CapabilityLighting = 0x04"
definition CapabilitySecurity :: u32 where [simp]: "CapabilitySecurity = 0x08"
definition CapabilityPersistentState :: u32 where [simp]: "CapabilityPersistentState = 0x10"
definition CapabilityAlarm :: u32 where [simp]: "CapabilityAlarm = 0x20"
definition CapabilityStartInhibit :: u32 where [simp]: "CapabilityStartInhibit = 0x40"

definition ResetReason_Unknown :: reset_reason where [simp]: "ResetReason_Unknown = 0"
definition ResetReason_PowerOn :: reset_reason where [simp]: "ResetReason_PowerOn = 1"
definition ResetReason_Software :: reset_reason where [simp]: "ResetReason_Software = 2"
definition ResetReason_Watchdog :: reset_reason where [simp]: "ResetReason_Watchdog = 3"
definition ResetReason_Brownout :: reset_reason where [simp]: "ResetReason_Brownout = 4"
definition ResetReason_External :: reset_reason where [simp]: "ResetReason_External = 5"
definition ResetReason_DeepSleep :: reset_reason where [simp]: "ResetReason_DeepSleep = 6"

record device_identity =
  di_device_class :: device_class
  di_firmware_major :: u8
  di_firmware_minor :: u8
  di_firmware_patch :: u8
  di_hardware_revision :: u8
  di_reset_reason :: reset_reason
  di_capabilities :: u32

definition default_identity :: device_identity where
  "default_identity = \<lparr>di_device_class = DeviceClass_MainComputer, di_firmware_major = 0,
     di_firmware_minor = 1, di_firmware_patch = 0, di_hardware_revision = 1,
     di_reset_reason = ResetReason_Unknown, di_capabilities = CapabilityNone\<rparr>"

definition kDeviceInfoSchemaVersion :: u8 where [simp]: "kDeviceInfoSchemaVersion = 1"
definition kDeviceInfoPayloadSize :: nat where [simp]: "kDeviceInfoPayloadSize = 16"

definition encode_device_info_payload ::
  "node_address \<Rightarrow> device_identity \<Rightarrow> u32 \<Rightarrow> packet \<Rightarrow> packet" where
  "encode_device_info_payload a d uptime p =
    (let p1 = p\<lparr>pkt_length := of_nat kDeviceInfoPayloadSize\<rparr>;
         p2 = set_payload 0 kDeviceInfoSchemaVersion p1;
         p3 = set_payload 1 a p2;
         p4 = set_payload 2 (di_device_class d) p3;
         p5 = set_payload 3 kProtocolVersion p4;
         p6 = set_payload 4 (di_firmware_major d) p5;
         p7 = set_payload 5 (di_firmware_minor d) p6;
         p8 = set_payload 6 (di_firmware_patch d) p7;
         p9 = set_payload 7 (di_hardware_revision d) p8;
         p10 = set_payload 8 (di_reset_reason d) p9;
         p11 = set_payload 9 0 p10;
         p12 = put_device_u32 10 uptime p11;
         p13 = set_payload 14 (byte32 1 (di_capabilities d)) p12
     in set_payload 15 (byte32 0 (di_capabilities d)) p13)"

lemma encode_device_info_sel [simp]:
  "pkt_source (encode_device_info_payload a d u p) = pkt_source p"
  "pkt_destination (encode_device_info_payload a d u p) = pkt_destination p"
  "pkt_type (encode_device_info_payload a d u p) = pkt_type p"
  "pkt_flags (encode_device_info_payload a d u p) = pkt_flags p"
  "pkt_sequence (encode_device_info_payload a d u p) = pkt_sequence p"
  "pkt_length (encode_device_info_payload a d u p) = 16"
  "wf_packet (encode_device_info_payload a d u p) = wf_packet p"
  by (simp_all add: encode_device_info_payload_def Let_def wf_packet_def)

lemma encode_device_info_payload_eq:
  assumes "wf_packet p"
  shows "take 16 (pkt_payload (encode_device_info_payload a d u p)) =
    [1, a, di_device_class d, 1, di_firmware_major d, di_firmware_minor d, di_firmware_patch d,
     di_hardware_revision d, di_reset_reason d, 0, byte32 3 u, byte32 2 u, byte32 1 u, byte32 0 u,
     byte32 1 (di_capabilities d), byte32 0 (di_capabilities d)]"
proof -
  obtain x0 x1 x2 x3 x4 x5 x6 x7 x8 x9 x10 x11 x12 x13 x14 x15 xs where
    "pkt_payload p = x0#x1#x2#x3#x4#x5#x6#x7#x8#x9#x10#x11#x12#x13#x14#x15#xs"
    using assms by (auto simp: wf_packet_def length_Suc_conv numeral_eq_Suc)
  then show ?thesis by (simp add: encode_device_info_payload_def Let_def)
qed

end
