(* ===== verification/Router.thy ===== *)
theory Router
  imports Node
begin

text \<open>
  The forwarding engine of the northbridge (\<open>library/src/router.cpp\<close>): eight ports, a table of
  eight routes that learns from the traffic, unicast and broadcast forwarding and the online
  check. The route table is shown to be a partial map from addresses to ports.
\<close>

section \<open>Address tables\<close>

text \<open>
  A bounded table from keys to values: inserting may be refused, otherwise the last insertion of
  a key counts. The northbridge keeps two: its routes and its topology bindings.
\<close>

locale address_table =
  fixes lookup :: "'s \<Rightarrow> 'a \<Rightarrow> 'p option"
    and insert_entry :: "'a \<Rightarrow> 'p \<Rightarrow> 's \<Rightarrow> bool \<times> 's"
    and wf_table :: "'s \<Rightarrow> bool"
    and admissible :: "'s \<Rightarrow> 'p \<Rightarrow> bool"
  assumes insert_ok: "wf_table s \<Longrightarrow> insert_entry a p s = (True, s') \<Longrightarrow> lookup s' = (lookup s)(a \<mapsto> p)"
    and insert_refused: "wf_table s \<Longrightarrow> insert_entry a p s = (False, s') \<Longrightarrow> lookup s' = lookup s"
    and insert_update: "wf_table s \<Longrightarrow> admissible s p \<Longrightarrow> lookup s a \<noteq> None \<Longrightarrow> fst (insert_entry a p s)"
    and insert_admissible: "wf_table s \<Longrightarrow> fst (insert_entry a p s) \<Longrightarrow> admissible s p"
    and insert_wf: "wf_table s \<Longrightarrow> insert_entry a p s = (r, s') \<Longrightarrow> wf_table s'"
begin

lemma insert_other:
  "wf_table s \<Longrightarrow> insert_entry a p s = (r, s') \<Longrightarrow> b \<noteq> a \<Longrightarrow> lookup s' b = lookup s b"
  using insert_ok [of s a p s'] insert_refused [of s a p s'] by (cases r) auto

lemma insert_lookup_same:
  "wf_table s \<Longrightarrow> insert_entry a p s = (True, s') \<Longrightarrow> lookup s' a = Some p"
  by (simp add: insert_ok)

lemma insert_twice:
  assumes "wf_table s" and "insert_entry a p s = (True, s1)" and "insert_entry a q s1 = (True, s2)"
  shows "lookup s2 = (lookup s)(a \<mapsto> q)"
  using assms insert_wf [OF assms(1,2)] by (simp add: insert_ok)

end

text \<open>A table that also forgets keys.\<close>

locale removable_table = address_table +
  fixes remove_entry :: "'a \<Rightarrow> 's \<Rightarrow> bool \<times> 's"
  assumes remove_found: "wf_table s \<Longrightarrow> fst (remove_entry a s) \<longleftrightarrow> lookup s a \<noteq> None"
    and remove_lookup: "wf_table s \<Longrightarrow> lookup (snd (remove_entry a s)) = (lookup s)(a := None)"
    and remove_wf: "wf_table s \<Longrightarrow> wf_table (snd (remove_entry a s))"
begin

lemma insert_then_remove:
  assumes "wf_table s" and "insert_entry a p s = (True, s')"
  shows "fst (remove_entry a s') \<and> lookup (snd (remove_entry a s')) = (lookup s)(a := None)"
  using assms insert_wf [OF assms] by (simp add: remove_found remove_lookup insert_ok)

end

section \<open>State and operations\<close>

definition kMaxRouterPorts :: nat where [simp]: "kMaxRouterPorts = 8"

record route_entry =
  re_address :: node_address
  re_port :: u8
  re_active :: bool
  re_last_seen_ms :: u32

definition empty_route :: route_entry where
  "empty_route = \<lparr>re_address = addr_Broadcast, re_port = 0, re_active = False, re_last_seen_ms = 0\<rparr>"

record router =
  rt_ports :: "nat option list"
  rt_routes :: "route_entry list"

definition router_init :: router where
  "router_init = \<lparr>rt_ports = replicate kMaxRouterPorts None,
     rt_routes = replicate kMaxRouterPorts empty_route\<rparr>"

definition attached :: "nat option list \<Rightarrow> u8 \<Rightarrow> bool" where
  "attached ports port \<longleftrightarrow> unat port < length ports \<and> ports ! unat port \<noteq> None"

definition router_attach_port :: "u8 \<Rightarrow> nat \<Rightarrow> router \<Rightarrow> bool \<times> router" where
  "router_attach_port port transport r =
    (if unat port \<ge> length (rt_ports r) then (False, r)
     else (True, r\<lparr>rt_ports := (rt_ports r)[unat port := Some transport]\<rparr>))"

definition route_matches :: "node_address \<Rightarrow> route_entry \<Rightarrow> bool" where
  "route_matches a e \<longleftrightarrow> re_active e \<and> re_address e = a"

definition router_set_route :: "node_address \<Rightarrow> u8 \<Rightarrow> router \<Rightarrow> bool \<times> router" where
  "router_set_route a port r =
    (if unat port \<ge> length (rt_ports r) \<or> rt_ports r ! unat port = None then (False, r)
     else case find_index (route_matches a) (rt_routes r) of
       Some i \<Rightarrow> (True, r\<lparr>rt_routes := (rt_routes r)[i := (rt_routes r ! i)\<lparr>re_port := port\<rparr>]\<rparr>)
     | None \<Rightarrow>
         case find_index (\<lambda>e. \<not> re_active e) (rt_routes r) of
           Some i \<Rightarrow> (True, r\<lparr>rt_routes := (rt_routes r)[i :=
             \<lparr>re_address = a, re_port = port, re_active = True, re_last_seen_ms = 0\<rparr>]\<rparr>)
         | None \<Rightarrow> (False, r))"

definition router_remove_route :: "node_address \<Rightarrow> router \<Rightarrow> bool \<times> router" where
  "router_remove_route a r =
    (case find_index (route_matches a) (rt_routes r) of
       Some i \<Rightarrow> (True, r\<lparr>rt_routes := (rt_routes r)[i := empty_route]\<rparr>)
     | None \<Rightarrow> (False, r))"

definition router_route_for :: "router \<Rightarrow> node_address \<Rightarrow> int" where
  "router_route_for r a =
    (case find_index (route_matches a) (rt_routes r) of
       Some i \<Rightarrow> int (unat (re_port (rt_routes r ! i)))
     | None \<Rightarrow> - 1)"

definition router_mark_seen :: "node_address \<Rightarrow> u8 \<Rightarrow> u32 \<Rightarrow> router \<Rightarrow> router" where
  "router_mark_seen a ingress now r =
    (case find_index (route_matches a) (rt_routes r) of
       Some i \<Rightarrow> r\<lparr>rt_routes := (rt_routes r)[i :=
                  (rt_routes r ! i)\<lparr>re_port := ingress, re_last_seen_ms := now\<rparr>]\<rparr>
     | None \<Rightarrow>
         let r1 = snd (router_set_route a ingress r) in
         case find_index (route_matches a) (rt_routes r1) of
           Some i \<Rightarrow> r1\<lparr>rt_routes := (rt_routes r1)[i := (rt_routes r1 ! i)\<lparr>re_last_seen_ms := now\<rparr>]\<rparr>
         | None \<Rightarrow> r1)"

definition router_is_online :: "router \<Rightarrow> node_address \<Rightarrow> u32 \<Rightarrow> u32 \<Rightarrow> bool" where
  "router_is_online r a now timeout =
    (case find_index (route_matches a) (rt_routes r) of
       Some i \<Rightarrow> now - re_last_seen_ms (rt_routes r ! i) \<le> timeout
     | None \<Rightarrow> False)"

definition router_write_to_port ::
  "'w transport_ops \<Rightarrow> router \<Rightarrow> u8 \<Rightarrow> packet \<Rightarrow> 'w \<Rightarrow> bool \<times> 'w" where
  "router_write_to_port ops r port p w =
    (if unat port \<ge> length (rt_ports r) then (False, w)
     else case rt_ports r ! unat port of
       None \<Rightarrow> (False, w)
     | Some t \<Rightarrow>
         case encode_packet p (Some (replicate kMaxFrameSize 0)) kMaxFrameSize of
           (True, Some frame, n) \<Rightarrow> tp_write ops t (take n frame) w
         | _ \<Rightarrow> (False, w))"

text \<open>The port loop \<open>for (port = 0; port < ports.size(); ++port)\<close>.\<close>

definition port_numbers :: "u8 list" where
  "port_numbers = map word_of_nat [0..<kMaxRouterPorts]"

fun router_broadcast ::
  "'w transport_ops \<Rightarrow> router \<Rightarrow> packet \<Rightarrow> u8 \<Rightarrow> u8 list \<Rightarrow> bool \<Rightarrow> 'w \<Rightarrow> bool \<times> 'w" where
  "router_broadcast ops r p ingress [] forwarded w = (forwarded, w)"
| "router_broadcast ops r p ingress (port # ports) forwarded w =
    (if port = ingress \<or> rt_ports r ! unat port = None
     then router_broadcast ops r p ingress ports forwarded w
     else case router_write_to_port ops r port p w of
       (ok, w') \<Rightarrow> router_broadcast ops r p ingress ports (ok \<or> forwarded) w')"

definition router_forward ::
  "'w transport_ops \<Rightarrow> packet \<Rightarrow> u8 \<Rightarrow> u32 \<Rightarrow> router \<Rightarrow> 'w \<Rightarrow> bool \<times> router \<times> 'w" where
  "router_forward ops p ingress now r w =
    (let r1 = router_mark_seen (pkt_source p) ingress now r in
     if pkt_destination p = addr_Northbridge then (True, r1, w)
     else if pkt_destination p = addr_Broadcast
     then (case router_broadcast ops r1 p ingress port_numbers False w of (ok, w') \<Rightarrow> (ok, r1, w'))
     else
       let destination_port = router_route_for r1 (pkt_destination p) in
       if destination_port < 0 \<or> (word_of_int destination_port :: u8) = ingress then (False, r1, w)
       else case router_write_to_port ops r1 (word_of_int destination_port) p w of
         (ok, w') \<Rightarrow> (ok, r1, w'))"

section \<open>The route table as a map\<close>

definition router_inv :: "router \<Rightarrow> bool" where
  "router_inv r \<longleftrightarrow> length (rt_ports r) = kMaxRouterPorts \<and> length (rt_routes r) = kMaxRouterPorts
     \<and> (\<forall>i<kMaxRouterPorts. \<forall>j<kMaxRouterPorts. re_active (rt_routes r ! i) \<longrightarrow> re_active (rt_routes r ! j)
          \<longrightarrow> re_address (rt_routes r ! i) = re_address (rt_routes r ! j) \<longrightarrow> i = j)
     \<and> (\<forall>e\<in>set (rt_routes r). re_active e \<longrightarrow> attached (rt_ports r) (re_port e))"

definition route_lookup :: "router \<Rightarrow> node_address \<Rightarrow> u8 option" where
  "route_lookup r a =
    map_option (\<lambda>i. re_port (rt_routes r ! i)) (find_index (route_matches a) (rt_routes r))"

lemma route_for_lookup:
  "router_route_for r a = (case route_lookup r a of Some p \<Rightarrow> int (unat p) | None \<Rightarrow> - 1)"
  by (cases "find_index (route_matches a) (rt_routes r)")
    (simp_all add: router_route_for_def route_lookup_def del: find_index_None_iff)

lemma find_route_iff:
  assumes "router_inv r"
  shows "find_index (route_matches a) (rt_routes r) = Some i \<longleftrightarrow>
    i < kMaxRouterPorts \<and> re_active (rt_routes r ! i) \<and> re_address (rt_routes r ! i) = a"
proof
  assume "find_index (route_matches a) (rt_routes r) = Some i"
  from find_index_SomeD(1,2) [OF this] assms show "i < kMaxRouterPorts \<and>
      re_active (rt_routes r ! i) \<and> re_address (rt_routes r ! i) = a"
    by (simp add: router_inv_def route_matches_def)
next
  assume i: "i < kMaxRouterPorts \<and> re_active (rt_routes r ! i) \<and> re_address (rt_routes r ! i) = a"
  show "find_index (route_matches a) (rt_routes r) = Some i"
  proof (rule find_index_eq_SomeI)
    fix j assume "j < i"
    with i assms show "\<not> route_matches a (rt_routes r ! j)"
      unfolding router_inv_def route_matches_def by (metis less_trans less_irrefl)
  qed (use i assms in \<open>auto simp: router_inv_def route_matches_def\<close>)
qed

lemma router_inv_init [inv_intros]: "router_inv router_init"
  by (simp add: router_inv_def router_init_def empty_route_def)

text \<open>Every update of the routes is one of two kinds.\<close>

lemma router_inv_update:
  assumes "router_inv r" and "i < kMaxRouterPorts"
    and "re_active e \<Longrightarrow> attached (rt_ports r) (re_port e)"
    and "re_active e \<Longrightarrow>
      (re_active (rt_routes r ! i) \<and> re_address (rt_routes r ! i) = re_address e)
      \<or> find_index (route_matches (re_address e)) (rt_routes r) = None"
  shows "router_inv (r\<lparr>rt_routes := (rt_routes r)[i := e]\<rparr>)"
proof -
  have other: "j = i" if "re_active e" "j < 8" "re_active (rt_routes r ! j)"
    "re_address (rt_routes r ! j) = re_address e" for j
    using assms(4) [OF that(1)] that(2-4) assms(1,2)
    by (fastforce simp: router_inv_def route_matches_def)
  with assms(1-3) show ?thesis
    unfolding router_inv_def by (auto simp: nth_list_update dest!: set_list_update_subset)
qed

lemma route_lookup_iff:
  assumes "router_inv r"
  shows "route_lookup r a = Some p \<longleftrightarrow> (\<exists>i<kMaxRouterPorts. re_active (rt_routes r ! i)
    \<and> re_address (rt_routes r ! i) = a \<and> re_port (rt_routes r ! i) = p)"
  by (auto simp: route_lookup_def find_route_iff [OF assms])

lemma route_lookup_attached:
  assumes "router_inv r" and "route_lookup r a = Some p"
  shows "attached (rt_ports r) p"
  using assms by (auto simp: route_lookup_iff) (auto simp: router_inv_def)

lemma find_index_update_irrelevant:
  "\<not> P (xs ! i) \<Longrightarrow> \<not> P e \<Longrightarrow> find_index P (xs[i := e]) = find_index P xs"
  by (induction xs arbitrary: i) (auto split: nat.splits)

lemma route_lookup_update_other:
  assumes "\<not> route_matches b (rt_routes r ! i)" and "\<not> route_matches b e"
  shows "route_lookup (r\<lparr>rt_routes := (rt_routes r)[i := e]\<rparr>) b = route_lookup r b"
proof (cases "find_index (route_matches b) (rt_routes r)")
  case None
  then show ?thesis
    using find_index_update_irrelevant [OF assms]
    by (simp add: route_lookup_def del: find_index_None_iff)
next
  case (Some j)
  with assms(1) have "j \<noteq> i" using find_index_SomeD(2) [OF Some] by auto
  with Some show ?thesis
    using find_index_update_irrelevant [OF assms] by (simp add: route_lookup_def)
qed

lemma route_lookup_set:
  assumes inv: "router_inv r" and inv': "router_inv (r\<lparr>rt_routes := (rt_routes r)[i := e]\<rparr>)"
    and i: "i < kMaxRouterPorts" and e: "re_active e" "re_address e = a"
    and old: "re_active (rt_routes r ! i) \<Longrightarrow> re_address (rt_routes r ! i) = a"
  shows "route_lookup (r\<lparr>rt_routes := (rt_routes r)[i := e]\<rparr>) = (route_lookup r)(a \<mapsto> re_port e)"
proof
  fix b
  have len: "i < length (rt_routes r)" using inv i by (simp add: router_inv_def)
  show "route_lookup (r\<lparr>rt_routes := (rt_routes r)[i := e]\<rparr>) b = ((route_lookup r)(a \<mapsto> re_port e)) b"
  proof (cases "b = a")
    case True
    have "find_index (route_matches a) (rt_routes (r\<lparr>rt_routes := (rt_routes r)[i := e]\<rparr>)) = Some i"
      unfolding find_route_iff [OF inv'] using i e len by simp
    with True len show ?thesis by (simp add: route_lookup_def)
  next
    case False
    with e old show ?thesis
      by (subst route_lookup_update_other) (auto simp: route_matches_def)
  qed
qed

lemma route_lookup_clear:
  assumes inv: "router_inv r" and i: "find_index (route_matches a) (rt_routes r) = Some i"
    and e: "\<not> re_active e"
  shows "route_lookup (r\<lparr>rt_routes := (rt_routes r)[i := e]\<rparr>) = (route_lookup r)(a := None)"
proof
  fix b
  have m: "i < kMaxRouterPorts" "re_active (rt_routes r ! i)" "re_address (rt_routes r ! i) = a"
    using i by (simp_all add: find_route_iff [OF inv] del: kMaxRouterPorts_def)
  show "route_lookup (r\<lparr>rt_routes := (rt_routes r)[i := e]\<rparr>) b = ((route_lookup r)(a := None)) b"
  proof (cases "b = a")
    case True
    have "\<not> route_matches a x" if x: "x \<in> set ((rt_routes r)[i := e])" for x
    proof -
      from x obtain j where j: "j < length (rt_routes r)" "x = (rt_routes r)[i := e] ! j"
        by (auto simp: in_set_conv_nth)
      show ?thesis
      proof (cases "j = i")
        case False
        have "\<not> route_matches a (rt_routes r ! j)"
          using False m j(1) inv unfolding router_inv_def route_matches_def by metis
        with False j show ?thesis by simp
      qed (use j e in \<open>simp add: route_matches_def\<close>)
    qed
    with True show ?thesis by (simp add: route_lookup_def)
  next
    case False
    with e m show ?thesis
      by (subst route_lookup_update_other) (auto simp: route_matches_def)
  qed
qed

section \<open>The operations on the route table\<close>

lemma router_inv_ports:
  "router_inv (r\<lparr>rt_routes := xs\<rparr>) \<Longrightarrow> rt_ports (r\<lparr>rt_routes := xs\<rparr>) = rt_ports r"
  by simp

lemma router_set_route_cases:
  assumes inv: "router_inv r"
  obtains (refused) "router_set_route a p r = (False, r)"
      "\<not> attached (rt_ports r) p \<or> route_lookup r a = None"
    | (stored) i e where "router_set_route a p r = (True, r\<lparr>rt_routes := (rt_routes r)[i := e]\<rparr>)"
      "attached (rt_ports r) p" "i < kMaxRouterPorts" "re_active e" "re_address e = a" "re_port e = p"
      "re_active (rt_routes r ! i) \<Longrightarrow> re_address (rt_routes r ! i) = a"
      "router_inv (r\<lparr>rt_routes := (rt_routes r)[i := e]\<rparr>)"
proof (cases "attached (rt_ports r) p")
  case False
  then show ?thesis
    by (intro refused(1)) (auto simp: router_set_route_def attached_def)
next
  case att: True
  then have port: "\<not> (unat p \<ge> length (rt_ports r) \<or> rt_ports r ! unat p = None)"
    by (auto simp: attached_def)
  show ?thesis
  proof (cases "find_index (route_matches a) (rt_routes r)")
    case (Some i)
    let ?e = "(rt_routes r ! i)\<lparr>re_port := p\<rparr>"
    have m: "i < kMaxRouterPorts" "re_active (rt_routes r ! i)" "re_address (rt_routes r ! i) = a"
      using Some by (simp_all add: find_route_iff [OF inv] del: kMaxRouterPorts_def)
    have "router_inv (r\<lparr>rt_routes := (rt_routes r)[i := ?e]\<rparr>)"
      by (rule router_inv_update [OF inv m(1)]) (simp_all add: att m)
    with m att Some port show ?thesis
      by (intro stored [of i ?e]) (simp_all add: router_set_route_def)
  next
    case none: None
    then have free: "route_lookup r a = None"
      by (simp add: route_lookup_def del: find_index_None_iff)
    show ?thesis
    proof (cases "find_index (\<lambda>e. \<not> re_active e) (rt_routes r)")
      case None
      with none port free show ?thesis
        by (intro refused) (simp_all add: router_set_route_def del: find_index_None_iff)
    next
      case (Some i)
      let ?e = "\<lparr>re_address = a, re_port = p, re_active = True, re_last_seen_ms = 0\<rparr>"
      have m: "i < kMaxRouterPorts" "\<not> re_active (rt_routes r ! i)"
        using find_index_SomeD(1,2) [OF Some] inv by (simp_all add: router_inv_def)
      have "router_inv (r\<lparr>rt_routes := (rt_routes r)[i := ?e]\<rparr>)"
        by (rule router_inv_update [OF inv m(1)]) (simp_all add: att none del: find_index_None_iff)
      with m att none Some port show ?thesis
        by (intro stored [of i ?e]) (simp_all add: router_set_route_def del: find_index_None_iff)
    qed
  qed
qed

lemma router_remove_route_cases:
  assumes inv: "router_inv r"
  obtains (absent) "router_remove_route a r = (False, r)" "route_lookup r a = None"
    | (found) i where "router_remove_route a r = (True, r\<lparr>rt_routes := (rt_routes r)[i := empty_route]\<rparr>)"
      "find_index (route_matches a) (rt_routes r) = Some i"
      "router_inv (r\<lparr>rt_routes := (rt_routes r)[i := empty_route]\<rparr>)"
proof (cases "find_index (route_matches a) (rt_routes r)")
  case None
  then show ?thesis
    by (intro absent) (simp_all add: router_remove_route_def route_lookup_def del: find_index_None_iff)
next
  case (Some i)
  then have "router_inv (r\<lparr>rt_routes := (rt_routes r)[i := empty_route]\<rparr>)"
    using find_index_SomeD(1) [OF Some] inv
    by (intro router_inv_update [OF inv]) (simp_all add: router_inv_def empty_route_def)
  with Some show ?thesis by (intro found [of i]) (simp_all add: router_remove_route_def)
qed

lemma router_set_route_wf:
  assumes "router_inv r" and "router_set_route a p r = (ok, r')"
  shows "router_inv r' \<and> rt_ports r' = rt_ports r"
  using assms(1)
  by (rule router_set_route_cases [where a = a and p = p]) (use assms in auto)

lemma router_set_route_ok:
  assumes "router_inv r" and "router_set_route a p r = (True, r')"
  shows "route_lookup r' = (route_lookup r)(a \<mapsto> p)" and "attached (rt_ports r) p"
proof -
  have "route_lookup r' = (route_lookup r)(a \<mapsto> p) \<and> attached (rt_ports r) p"
    using assms(1)
  proof (cases rule: router_set_route_cases [where a = a and p = p])
    case (stored i e)
    from route_lookup_set [OF assms(1) stored(8,3,4,5,7)] stored assms(2) show ?thesis by auto
  qed (use assms(2) in simp)
  then show "route_lookup r' = (route_lookup r)(a \<mapsto> p)" and "attached (rt_ports r) p" by simp_all
qed

lemma router_set_route_refused:
  assumes "router_inv r" and "router_set_route a p r = (False, r')"
  shows "r' = r \<and> (\<not> attached (rt_ports r) p \<or> route_lookup r a = None)"
  using assms(1)
  by (rule router_set_route_cases [where a = a and p = p]) (use assms(2) in auto)

interpretation routes: removable_table route_lookup router_set_route router_inv
  "\<lambda>r p. attached (rt_ports r) p" router_remove_route
proof (unfold_locales, goal_cases)
  case (1 s a p s') then show ?case by (rule router_set_route_ok)
next
  case (2 s a p s') then show ?case using router_set_route_refused by blast
next
  case (3 s p a)
  then show ?case
    using router_set_route_refused [OF 3(1), of a p] by (metis prod.collapse)
next
  case (4 s a p)
  then show ?case using router_set_route_ok(2) [OF 4(1)] by (metis prod.collapse)
next
  case (5 s a p r s') then show ?case using router_set_route_wf by blast
next
  case (6 s a)
  then show ?case
    by (rule router_remove_route_cases [where a = a])
      (auto simp: route_lookup_def simp del: find_index_None_iff)
next
  case (7 s a)
  then show ?case
  proof (cases rule: router_remove_route_cases [where a = a])
    case absent then show ?thesis by (simp add: fun_upd_idem)
  next
    case (found i)
    then show ?thesis using route_lookup_clear [OF 7 found(2), of empty_route]
      by (simp add: empty_route_def)
  qed
next
  case (8 s a)
  then show ?case by (rule router_remove_route_cases [where a = a]) (use 8 in auto)
qed

section \<open>Learning\<close>

lemma router_attach_port_inv [inv_intros]:
  assumes "router_inv r"
  shows "router_inv (snd (router_attach_port p t r))"
  using assms unfolding router_inv_def
  by (auto simp: router_attach_port_def attached_def nth_list_update)

text \<open>There is room for a new address while a route slot is inactive.\<close>

definition has_room :: "router \<Rightarrow> node_address \<Rightarrow> bool" where
  "has_room r a \<longleftrightarrow> route_lookup r a \<noteq> None \<or> (\<exists>e\<in>set (rt_routes r). \<not> re_active e)"

lemma router_set_route_room:
  assumes "router_inv r" and "attached (rt_ports r) p" and "has_room r a"
  shows "\<exists>r'. router_set_route a p r = (True, r')"
proof (cases "find_index (route_matches a) (rt_routes r)")
  case (Some i)
  with assms(2) show ?thesis by (auto simp: router_set_route_def attached_def)
next
  case None
  with assms(3) have "\<exists>e\<in>set (rt_routes r). \<not> re_active e"
    by (simp add: has_room_def route_lookup_def del: find_index_None_iff)
  then obtain j where "find_index (\<lambda>e. \<not> re_active e) (rt_routes r) = Some j"
    using find_index_ex [of "rt_routes r" "\<lambda>e. \<not> re_active e"] by blast
  with None assms(2) show ?thesis
    by (auto simp: router_set_route_def attached_def simp del: find_index_None_iff)
qed

lemma router_mark_seen_cases:
  assumes inv: "router_inv r" and att: "attached (rt_ports r) ingress"
  obtains (full) "\<not> has_room r a" "router_mark_seen a ingress now r = r"
    | (seen) i e where "has_room r a"
      "router_mark_seen a ingress now r = r\<lparr>rt_routes := (rt_routes r)[i := e]\<rparr>"
      "i < kMaxRouterPorts" "re_active e" "re_address e = a" "re_port e = ingress"
      "re_last_seen_ms e = now" "re_active (rt_routes r ! i) \<Longrightarrow> re_address (rt_routes r ! i) = a"
      "router_inv (r\<lparr>rt_routes := (rt_routes r)[i := e]\<rparr>)"
proof (cases "find_index (route_matches a) (rt_routes r)")
  case (Some i)
  let ?e = "(rt_routes r ! i)\<lparr>re_port := ingress, re_last_seen_ms := now\<rparr>"
  have m: "i < kMaxRouterPorts" "re_active (rt_routes r ! i)" "re_address (rt_routes r ! i) = a"
    using Some by (simp_all add: find_route_iff [OF inv] del: kMaxRouterPorts_def)
  then have "router_inv (r\<lparr>rt_routes := (rt_routes r)[i := ?e]\<rparr>)"
    by (intro router_inv_update [OF inv m(1)]) (simp_all add: att)
  with Some m show ?thesis
    by (intro seen [of i ?e]) (simp_all add: router_mark_seen_def has_room_def route_lookup_def)
next
  case none: None
  show ?thesis
    using inv
  proof (cases rule: router_set_route_cases [where a = a and p = ingress])
    case refused
    then have "\<not> has_room r a"
      using router_set_route_room [OF inv att, of a] by auto
    with refused none show ?thesis
      by (intro full) (simp_all add: router_mark_seen_def del: find_index_None_iff)
  next
    case (stored i e)
    let ?r1 = "r\<lparr>rt_routes := (rt_routes r)[i := e]\<rparr>" and ?e = "e\<lparr>re_last_seen_ms := now\<rparr>"
    have len: "i < length (rt_routes r)" using inv stored(3) by (simp add: router_inv_def)
    have f: "find_index (route_matches a) (rt_routes ?r1) = Some i"
      unfolding find_route_iff [OF stored(8)] using stored len by simp
    have "router_inv (?r1\<lparr>rt_routes := (rt_routes ?r1)[i := ?e]\<rparr>)"
      using stored len by (intro router_inv_update [OF stored(8,3)]) (simp_all add: att)
    moreover have "has_room r a"
    proof -
      have "\<not> re_active (rt_routes r ! i)"
        using stored(7) none len
        by (force simp: route_matches_def)
      with len show ?thesis by (auto simp: has_room_def)
    qed
    ultimately show ?thesis
      using stored none f len
      by (intro seen [of i ?e]) (simp_all add: router_mark_seen_def del: find_index_None_iff)
  qed
qed

lemma router_mark_seen_inv:
  assumes "router_inv r" and "attached (rt_ports r) ingress"
  shows "router_inv (router_mark_seen a ingress now r)"
    and "rt_ports (router_mark_seen a ingress now r) = rt_ports r"
  by (rule router_mark_seen_cases [OF assms, of a now]; use assms in auto)+

lemma router_mark_seen_lookup:
  assumes "router_inv r" and "attached (rt_ports r) ingress"
  shows "route_lookup (router_mark_seen a ingress now r) =
    (if has_room r a then (route_lookup r)(a \<mapsto> ingress) else route_lookup r)"
  using assms
proof (cases rule: router_mark_seen_cases [where a = a and now = now])
  case (seen i e)
  with route_lookup_set [OF assms(1) seen(9,3,4,5,8)] show ?thesis by simp
qed simp

lemma router_mark_seen_online:
  assumes "router_inv r" and "attached (rt_ports r) ingress" and "has_room r a"
  shows "router_is_online (router_mark_seen a ingress seen r) a now timeout \<longleftrightarrow> now - seen \<le> timeout"
  using assms(1,2)
proof (cases rule: router_mark_seen_cases [where a = a and now = seen])
  case (seen i e)
  have len: "i < length (rt_routes r)" using assms(1) seen(3) by (simp add: router_inv_def)
  have "find_index (route_matches a) (rt_routes (r\<lparr>rt_routes := (rt_routes r)[i := e]\<rparr>)) = Some i"
    unfolding find_route_iff [OF seen(9)] using seen len by simp
  with seen len show ?thesis by (simp add: router_is_online_def)
qed (use assms(3) in simp)

section \<open>What forwarding writes\<close>

definition egress_ports :: "router \<Rightarrow> u8 \<Rightarrow> node_address \<Rightarrow> u8 list" where
  "egress_ports r ingress destination =
    (if destination = addr_Northbridge then []
     else if destination = addr_Broadcast
     then filter (\<lambda>q. q \<noteq> ingress \<and> attached (rt_ports r) q) port_numbers
     else case route_lookup r destination of
       Some q \<Rightarrow> (if q = ingress then [] else [q])
     | None \<Rightarrow> [])"

fun transmit_all :: "'w transport_ops \<Rightarrow> packet \<Rightarrow> nat list \<Rightarrow> bool \<Rightarrow> 'w \<Rightarrow> bool \<times> 'w" where
  "transmit_all ops p [] ok w = (ok, w)"
| "transmit_all ops p (t # ts) ok w =
    (case transmit ops t p w of (k, w') \<Rightarrow> transmit_all ops p ts (k \<or> ok) w')"

definition port_transport :: "router \<Rightarrow> u8 \<Rightarrow> nat" where
  "port_transport r q = the (rt_ports r ! unat q)"

lemma port_numbers_iff [simp]: "q \<in> set port_numbers \<longleftrightarrow> unat q < kMaxRouterPorts"
proof -
  have "x < 8 \<Longrightarrow> unat (word_of_nat x :: u8) = x" for x
    by (simp add: unat_of_nat)
  then show ?thesis
    by (auto simp: port_numbers_def image_iff intro!: bexI [of _ "unat q"])
qed

lemma distinct_port_numbers: "distinct port_numbers"
  by (simp add: port_numbers_def upt_rec)

lemma encode_and_write:
  assumes "wf_packet p"
  shows "(case encode_packet p (Some (replicate kMaxFrameSize 0)) kMaxFrameSize of
      (True, Some frame, n) \<Rightarrow> tp_write ops t (take n frame) w | _ \<Rightarrow> (False, w)) = transmit ops t p w"
proof -
  have n: "nd_transport (node_init 0 t) = t" by (simp add: node_init_def)
  show ?thesis
    by (rule node_write_packet_eq [OF assms, of ops "node_init 0 t" w,
      unfolded node_write_packet_def n])
qed

lemma router_write_to_port_eq:
  assumes "wf_packet p"
  shows "router_write_to_port ops r q p w =
    (if attached (rt_ports r) q then transmit ops (port_transport r q) p w else (False, w))"
  unfolding router_write_to_port_def encode_and_write [OF assms]
  by (auto simp: attached_def port_transport_def)

lemma router_broadcast_eq:
  assumes "wf_packet p" and "\<And>q. q \<in> set qs \<Longrightarrow> unat q < length (rt_ports r)"
  shows "router_broadcast ops r p ingress qs ok w =
    transmit_all ops p (map (port_transport r)
      (filter (\<lambda>q. q \<noteq> ingress \<and> attached (rt_ports r) q) qs)) ok w"
  using assms(2)
proof (induction qs arbitrary: ok w)
  case (Cons q qs)
  then show ?case
    by (auto simp: router_write_to_port_eq [OF assms(1)] attached_def split: prod.split)
qed simp

lemma router_forward_eq:
  assumes inv: "router_inv r" and att: "attached (rt_ports r) ingress" and p: "wf_packet p"
    and r1: "r1 = router_mark_seen (pkt_source p) ingress now r"
  shows "router_forward ops p ingress now r w =
    (case transmit_all ops p (map (port_transport r1) (egress_ports r1 ingress (pkt_destination p)))
       (pkt_destination p = addr_Northbridge) w of (ok, w') \<Rightarrow> (ok, r1, w'))"
proof -
  have inv1: "router_inv r1" using router_mark_seen_inv [OF inv att] r1 by simp
  then have len: "length (rt_ports r1) = kMaxRouterPorts" by (simp add: router_inv_def)
  consider "pkt_destination p = addr_Northbridge" | "pkt_destination p = addr_Broadcast"
    | "pkt_destination p \<noteq> addr_Northbridge" "pkt_destination p \<noteq> addr_Broadcast" by blast
  then show ?thesis
  proof cases
    case 1
    then show ?thesis by (simp add: router_forward_def r1 egress_ports_def)
  next
    case 2
    then show ?thesis
      using router_broadcast_eq [OF p, of port_numbers r1 ops ingress False w] len
      by (simp add: router_forward_def r1 [symmetric] egress_ports_def)
  next
    case 3
    then show ?thesis
    proof (cases "route_lookup r1 (pkt_destination p)")
      case (Some q)
      with 3 route_lookup_attached [OF inv1 Some] show ?thesis
        by (auto simp: router_forward_def r1 [symmetric] egress_ports_def route_for_lookup Let_def
          router_write_to_port_eq [OF p] split: prod.split)
    next
      case None
      with 3 show ?thesis
        by (simp add: router_forward_def r1 [symmetric] egress_ports_def route_for_lookup)
    qed
  qed
qed

lemma egress_no_echo:
  assumes "router_inv r"
  shows "distinct (egress_ports r ingress a)"
    and "q \<in> set (egress_ports r ingress a) \<Longrightarrow> q \<noteq> ingress \<and> attached (rt_ports r) q"
  using route_lookup_attached [OF assms]
  by (auto simp: egress_ports_def distinct_port_numbers split: option.splits if_splits)

lemma bench_transmit_all:
  assumes "unat (pkt_length p) \<le> kMaxPayloadSize"
  shows "transmit_all bench_transport p ts ok w =
    (ok \<or> ts \<noteq> [], w\<lparr>sw_tx := sw_tx w @ map (\<lambda>t. (t, frame_of p)) ts\<rparr>)"
  using assms by (induction ts arbitrary: ok w) (simp_all add: transmit_def)

lemma router_forward_bench:
  assumes "router_inv r" and "attached (rt_ports r) ingress" and "sendable p"
  shows "\<exists>r1. router_forward bench_transport p ingress now r w =
      (pkt_destination p = addr_Northbridge \<or> egress_ports r1 ingress (pkt_destination p) \<noteq> [], r1,
       w\<lparr>sw_tx := sw_tx w @ map (\<lambda>q. (port_transport r q, frame_of p))
                            (egress_ports r1 ingress (pkt_destination p))\<rparr>)
    \<and> router_inv r1 \<and> rt_ports r1 = rt_ports r
    \<and> route_lookup r1 = (if has_room r (pkt_source p)
        then (route_lookup r)(pkt_source p \<mapsto> ingress) else route_lookup r)
    \<and> distinct (egress_ports r1 ingress (pkt_destination p))
    \<and> (\<forall>q\<in>set (egress_ports r1 ingress (pkt_destination p)). q \<noteq> ingress \<and> attached (rt_ports r) q)"
proof -
  let ?r1 = "router_mark_seen (pkt_source p) ingress now r"
  have wf: "wf_packet p" and len: "unat (pkt_length p) \<le> kMaxPayloadSize"
    using assms(3) by (simp_all add: sendable_def)
  have inv1: "router_inv ?r1" and ports: "rt_ports ?r1 = rt_ports r"
    by (rule router_mark_seen_inv [OF assms(1,2)])+
  have tr: "port_transport ?r1 = port_transport r"
    by (simp add: port_transport_def [abs_def] ports)
  show ?thesis
    unfolding router_forward_eq [OF assms(1,2) wf refl] bench_transmit_all [OF len]
    using inv1 ports egress_no_echo [OF inv1]
    by (intro exI [of _ ?r1]) (auto simp: router_mark_seen_lookup [OF assms(1,2)] tr)
qed

section \<open>Properties of the router\<close>

text \<open>C24: Forwarding. On queue ports, forwarding a packet appends to the transmit log exactly one
  copy of its frame for each egress port of its destination, in port order: none for the
  northbridge itself, every attached port but the ingress port for a broadcast, the port learned
  for a unicast destination, none when it is unknown or behind the ingress port. No frame is
  echoed to its ingress port, no port gets it twice, the result says whether anything was sent (or
  the packet was for the northbridge), and of the routes only the sender's changes: it is learned
  or moved to the ingress port unless all eight slots belong to other nodes.\<close>

theorem router_forward_targets:
  assumes "router_inv r" and "attached (rt_ports r) ingress" and "sendable p"
  shows "\<exists>r1. router_forward bench_transport p ingress now r w =
      (pkt_destination p = addr_Northbridge \<or> egress_ports r1 ingress (pkt_destination p) \<noteq> [], r1,
       w\<lparr>sw_tx := sw_tx w @ map (\<lambda>q. (port_transport r q, frame_of p))
                            (egress_ports r1 ingress (pkt_destination p))\<rparr>)
    \<and> router_inv r1 \<and> rt_ports r1 = rt_ports r
    \<and> route_lookup r1 = (if has_room r (pkt_source p)
        then (route_lookup r)(pkt_source p \<mapsto> ingress) else route_lookup r)
    \<and> distinct (egress_ports r1 ingress (pkt_destination p))
    \<and> (\<forall>q\<in>set (egress_ports r1 ingress (pkt_destination p)). q \<noteq> ingress \<and> attached (rt_ports r) q)"
  using assms by (rule router_forward_bench)

definition three_port_router :: router where
  "three_port_router = router_init\<lparr>rt_ports := [Some 7, Some 8, Some 9, None, None, None, None, None]\<rparr>"

lemma three_port_router_inv: "router_inv three_port_router"
  using router_inv_init
  by (simp add: three_port_router_def router_inv_def router_init_def empty_route_def)

theorem router_forward_targets_witness:
  "\<exists>r1. router_forward bench_transport (default_packet\<lparr>pkt_destination := addr_Broadcast\<rparr>) 1 5
      three_port_router quiet_world =
      (True, r1, quiet_world\<lparr>sw_tx :=
         [(7, frame_of (default_packet\<lparr>pkt_destination := addr_Broadcast\<rparr>)),
          (9, frame_of (default_packet\<lparr>pkt_destination := addr_Broadcast\<rparr>))]\<rparr>)"
proof -
  let ?p = "default_packet\<lparr>pkt_destination := addr_Broadcast\<rparr>"
  have att: "attached (rt_ports three_port_router) 1" by code_simp
  have s: "sendable ?p" by (simp add: sendable_def)
  have e: "egress_ports r1 1 addr_Broadcast = [0, 2]" if "rt_ports r1 = rt_ports three_port_router" for r1
  proof -
    have "filter (\<lambda>q. q \<noteq> 1 \<and> attached (rt_ports three_port_router) q) port_numbers = [0, 2]"
      by code_simp
    with that show ?thesis by (simp add: egress_ports_def)
  qed
  have t: "port_transport three_port_router 0 = 7" "port_transport three_port_router 2 = 9" by code_simp+
  show ?thesis
    using router_forward_targets [OF three_port_router_inv att s, of 5 quiet_world] e t
    by (auto simp del: addr_Broadcast_def)
qed

text \<open>Learning and liveness. After a packet from a node has been seen on an attached port, the
  node is routed to that port, every other route is untouched, and the node counts as online
  exactly while the time since (modulo \<open>2 ^ 32\<close>) is at most the timeout.\<close>

theorem router_learns_source:
  assumes "router_inv r" and "attached (rt_ports r) ingress" and "has_room r a"
  shows "router_route_for (router_mark_seen a ingress seen r) a = int (unat ingress)
    \<and> (\<forall>b. b \<noteq> a \<longrightarrow> router_route_for (router_mark_seen a ingress seen r) b = router_route_for r b)
    \<and> (router_is_online (router_mark_seen a ingress seen r) a now timeout \<longleftrightarrow> now - seen \<le> timeout)"
  using assms
  by (simp add: router_mark_seen_online route_for_lookup router_mark_seen_lookup)

theorem router_learns_source_witness:
  "router_route_for (router_mark_seen addr_Lighting 2 4294967290 three_port_router) addr_Lighting = 2
    \<and> router_is_online (router_mark_seen addr_Lighting 2 4294967290 three_port_router) addr_Lighting 20 30"
proof -
  have "attached (rt_ports three_port_router) 2" "has_room three_port_router addr_Lighting"
    by code_simp+
  from router_learns_source [OF three_port_router_inv this, of 4294967290 20 30] show ?thesis by simp
qed

end
