(* ===== verification/Supervisor.thy ===== *)
theory Supervisor
  imports NodeLink DeviceInfo Router
begin

text \<open>
  The network supervisor of the main computer (\<open>library/src/supervisor.cpp\<close>): a table of the nodes
  it has heard of, their identity and health, the required nodes, and the broadcasts that look for
  them. The table is an array of sixteen entries, found by a first-match search.
\<close>

section \<open>State\<close>

datatype node_health = Health_Unknown | Health_Online | Health_Degraded | Health_Offline | Health_Incompatible

record node_status =
  ns_address :: node_address
  ns_discovered :: bool
  ns_online :: bool
  ns_health :: node_health
  ns_required :: bool
  ns_last_seen_ms :: u32
  ns_last_heartbeat_ms :: u32
  ns_fault_count :: u32
  ns_reboot_count :: u32
  ns_identity_valid :: bool
  ns_identity_schema :: u8
  ns_device_class :: device_class
  ns_protocol_version :: u8
  ns_firmware_major :: u8
  ns_firmware_minor :: u8
  ns_firmware_patch :: u8
  ns_hardware_revision :: u8
  ns_reset_reason :: reset_reason
  ns_uptime_ms :: u32
  ns_capabilities :: u16
  ns_protocol_compatible :: bool

definition default_status :: node_status where
  "default_status = \<lparr>ns_address = addr_Broadcast, ns_discovered = False, ns_online = False,
     ns_health = Health_Unknown, ns_required = False, ns_last_seen_ms = 0, ns_last_heartbeat_ms = 0,
     ns_fault_count = 0, ns_reboot_count = 0, ns_identity_valid = False, ns_identity_schema = 0,
     ns_device_class = DeviceClass_MainComputer, ns_protocol_version = 0, ns_firmware_major = 0,
     ns_firmware_minor = 0, ns_firmware_patch = 0, ns_hardware_revision = 0,
     ns_reset_reason = ResetReason_Unknown, ns_uptime_ms = 0, ns_capabilities = 0,
     ns_protocol_compatible = False\<rparr>"

record supervisor =
  sv_nodes :: "node_status list"
  sv_heartbeat_interval_ms :: u32
  sv_offline_timeout_ms :: u32
  sv_rediscovery_interval_ms :: u32
  sv_last_heartbeat_tx_ms :: u32
  sv_last_discovery_tx_ms :: u32
  sv_required_node_fault :: bool

definition sv_set_heartbeat_interval_ms :: "u32 \<Rightarrow> supervisor \<Rightarrow> supervisor" where
  "sv_set_heartbeat_interval_ms v s = s\<lparr>sv_heartbeat_interval_ms := v\<rparr>"

definition sv_set_offline_timeout_ms :: "u32 \<Rightarrow> supervisor \<Rightarrow> supervisor" where
  "sv_set_offline_timeout_ms v s = s\<lparr>sv_offline_timeout_ms := v\<rparr>"

definition sv_set_rediscovery_interval_ms :: "u32 \<Rightarrow> supervisor \<Rightarrow> supervisor" where
  "sv_set_rediscovery_interval_ms v s = s\<lparr>sv_rediscovery_interval_ms := v\<rparr>"

section \<open>Operations\<close>

definition is_entry :: "node_address \<Rightarrow> node_status \<Rightarrow> bool" where
  "is_entry a e \<longleftrightarrow> ns_discovered e \<and> ns_address e = a"

text \<open>The returned pointer is the entry's index.\<close>

definition find_or_create :: "node_address \<Rightarrow> supervisor \<Rightarrow> nat option \<times> supervisor" where
  "find_or_create a s =
    (case find_index (is_entry a) (sv_nodes s) of
       Some i \<Rightarrow> (Some i, s)
     | None \<Rightarrow>
         (case find_index (\<lambda>e. \<not> ns_discovered e) (sv_nodes s) of
            Some i \<Rightarrow> (Some i, s\<lparr>sv_nodes := (sv_nodes s)
              [i := (sv_nodes s ! i)\<lparr>ns_address := a, ns_discovered := True\<rparr>]\<rparr>)
          | None \<Rightarrow> (None, s)))"

definition update_health :: "node_status \<Rightarrow> node_status" where
  "update_health e =
    (if \<not> ns_online e
     then e\<lparr>ns_health := (if ns_discovered e then Health_Offline else Health_Unknown)\<rparr>
     else if ns_identity_valid e \<and> \<not> ns_protocol_compatible e then e\<lparr>ns_health := Health_Incompatible\<rparr>
     else if ns_fault_count e > 0 then e\<lparr>ns_health := Health_Degraded\<rparr>
     else e\<lparr>ns_health := Health_Online\<rparr>)"

definition sv_set_required :: "node_address \<Rightarrow> bool \<Rightarrow> supervisor \<Rightarrow> bool \<times> supervisor" where
  "sv_set_required a required s =
    (case find_or_create a s of
       (None, s1) \<Rightarrow> (False, s1)
     | (Some i, s1) \<Rightarrow> (True, s1\<lparr>sv_nodes := (sv_nodes s1)
         [i := update_health ((sv_nodes s1 ! i)\<lparr>ns_required := required\<rparr>)]\<rparr>))"

definition supervisor_init :: supervisor where
  "supervisor_init =
    (let s = \<lparr>sv_nodes = replicate 16 default_status, sv_heartbeat_interval_ms = 1000,
           sv_offline_timeout_ms = 3000, sv_rediscovery_interval_ms = 5000,
           sv_last_heartbeat_tx_ms = 0, sv_last_discovery_tx_ms = 0, sv_required_node_fault = False\<rparr>;
         s1 = snd (sv_set_required addr_Northbridge True s);
         s2 = snd (sv_set_required addr_Lighting True s1)
     in snd (sv_set_required addr_Security True s2))"

definition sv_status :: "supervisor \<Rightarrow> node_address \<Rightarrow> node_status option" where
  "sv_status s a = map_option (\<lambda>i. sv_nodes s ! i) (find_index (is_entry a) (sv_nodes s))"

definition known_node_count :: "supervisor \<Rightarrow> nat" where
  "known_node_count s = length (filter ns_discovered (sv_nodes s))"

definition sv_send_discovery :: "'w transport_ops \<Rightarrow> u32 \<Rightarrow> supervisor \<Rightarrow> bike_node \<Rightarrow> 'w
    \<Rightarrow> bool \<times> supervisor \<times> bike_node \<times> 'w" where
  "sv_send_discovery ops now s nd w =
    (case node_send ops nd (default_packet\<lparr>pkt_destination := addr_Broadcast,
            pkt_type := msg_DeviceDiscovery\<rparr>) now False w of
       (ok, nd1, w1) \<Rightarrow>
         if \<not> ok then (False, s, nd1, w1) else (True, s\<lparr>sv_last_discovery_tx_ms := now\<rparr>, nd1, w1))"

definition sv_send_heartbeat :: "'w transport_ops \<Rightarrow> u32 \<Rightarrow> supervisor \<Rightarrow> bike_node \<Rightarrow> 'w
    \<Rightarrow> bool \<times> supervisor \<times> bike_node \<times> 'w" where
  "sv_send_heartbeat ops now s nd w =
    (case node_send ops nd (default_packet\<lparr>pkt_destination := addr_Broadcast,
            pkt_type := msg_Heartbeat\<rparr>) now False w of
       (ok, nd1, w1) \<Rightarrow>
         if \<not> ok then (False, s, nd1, w1) else (True, s\<lparr>sv_last_heartbeat_tx_ms := now\<rparr>, nd1, w1))"

definition carries_identity :: "packet \<Rightarrow> bool" where
  "carries_identity p \<longleftrightarrow> pkt_type p = msg_DeviceInfo \<and> unat (pkt_length p) \<ge> kDeviceInfoPayloadSize
     \<and> pkt_payload p ! 0 = kDeviceInfoSchemaVersion"

text \<open>The identity taken over from a device information packet.\<close>

definition learn_identity :: "packet \<Rightarrow> node_status \<Rightarrow> node_status" where
  "learn_identity p e =
    (let b = pkt_payload p;
         new_uptime = read_u32_be b 10;
         e1 = (if ns_identity_valid e \<and> new_uptime < ns_uptime_ms e
               then e\<lparr>ns_reboot_count := ns_reboot_count e + 1\<rparr> else e)
     in e1\<lparr>ns_identity_schema := b ! 0, ns_address := b ! 1, ns_device_class := b ! 2,
           ns_protocol_version := b ! 3, ns_firmware_major := b ! 4, ns_firmware_minor := b ! 5,
           ns_firmware_patch := b ! 6, ns_hardware_revision := b ! 7, ns_reset_reason := b ! 8,
           ns_uptime_ms := new_uptime, ns_capabilities := u16_of_bytes (b ! 14) (b ! 15),
           ns_protocol_compatible := (b ! 3 = kProtocolVersion), ns_identity_valid := True\<rparr>)"

definition observe_entry :: "packet \<Rightarrow> u32 \<Rightarrow> node_status \<Rightarrow> node_status" where
  "observe_entry p now e =
    (let e1 = e\<lparr>ns_online := True, ns_last_seen_ms := now\<rparr>
     in update_health
       (if carries_identity p then learn_identity p e1
        else if pkt_type p = msg_Heartbeat then e1\<lparr>ns_last_heartbeat_ms := now\<rparr>
        else if pkt_type p = msg_Fault then e1\<lparr>ns_fault_count := ns_fault_count e1 + 1\<rparr>
        else e1))"

definition sv_observe :: "packet \<Rightarrow> u32 \<Rightarrow> supervisor \<Rightarrow> supervisor" where
  "sv_observe p now s =
    (case find_or_create (pkt_source p) s of
       (None, s1) \<Rightarrow> s1
     | (Some i, s1) \<Rightarrow> s1\<lparr>sv_nodes := (sv_nodes s1)[i := observe_entry p now (sv_nodes s1 ! i)]\<rparr>)"

definition service_entry :: "u32 \<Rightarrow> u32 \<Rightarrow> node_status \<Rightarrow> node_status" where
  "service_entry now timeout e =
    (if \<not> ns_discovered e then e
     else update_health
       (if ns_online e \<and> now - ns_last_seen_ms e \<ge> timeout then e\<lparr>ns_online := False\<rparr> else e))"

definition missing_entry :: "node_status \<Rightarrow> bool" where
  "missing_entry e \<longleftrightarrow> ns_discovered e \<and> ns_required e \<and> (\<not> ns_online e \<or> ns_health e = Health_Incompatible)"

fun service_entries :: "u32 \<Rightarrow> u32 \<Rightarrow> node_status list \<Rightarrow> bool \<Rightarrow> node_status list \<times> bool" where
  "service_entries now timeout [] missing = ([], missing)"
| "service_entries now timeout (e # es) missing =
    (let e1 = service_entry now timeout e;
         (es1, missing1) = service_entries now timeout es (missing \<or> missing_entry e1)
     in (e1 # es1, missing1))"

definition sv_service :: "'w transport_ops \<Rightarrow> u32 \<Rightarrow> supervisor \<Rightarrow> bike_node \<Rightarrow> 'w
    \<Rightarrow> supervisor \<times> bike_node \<times> 'w" where
  "sv_service ops now s nd w =
    (let (s1, nd1, w1) = (if now - sv_last_heartbeat_tx_ms s \<ge> sv_heartbeat_interval_ms s
                          then snd (sv_send_heartbeat ops now s nd w) else (s, nd, w));
         (nodes, missing) = service_entries now (sv_offline_timeout_ms s1) (sv_nodes s1) False;
         s2 = s1\<lparr>sv_nodes := nodes, sv_required_node_fault := missing\<rparr>
     in if missing \<and> now - sv_last_discovery_tx_ms s2 \<ge> sv_rediscovery_interval_ms s2
        then snd (sv_send_discovery ops now s2 nd1 w1) else (s2, nd1, w1))"

section \<open>The table\<close>

lemma update_health_sel [simp]:
  "ns_address (update_health e) = ns_address e" "ns_discovered (update_health e) = ns_discovered e"
  "ns_online (update_health e) = ns_online e" "ns_required (update_health e) = ns_required e"
  "ns_last_seen_ms (update_health e) = ns_last_seen_ms e"
  "ns_last_heartbeat_ms (update_health e) = ns_last_heartbeat_ms e"
  "ns_fault_count (update_health e) = ns_fault_count e"
  "ns_identity_valid (update_health e) = ns_identity_valid e"
  "ns_protocol_compatible (update_health e) = ns_protocol_compatible e"
  "ns_reboot_count (update_health e) = ns_reboot_count e"
  by (simp_all add: update_health_def)

lemma update_health_idem [simp]: "update_health (update_health e) = update_health e"
  by (simp add: update_health_def)

lemma is_entry_update_health [simp]: "is_entry a (update_health e) = is_entry a e"
  by (simp add: is_entry_def)

text \<open>A full table has no free entry; then an unknown node has no entry.\<close>

definition table_full :: "supervisor \<Rightarrow> bool" where
  "table_full s \<longleftrightarrow> (\<forall>e\<in>set (sv_nodes s). ns_discovered e)"

definition new_entry :: "node_address \<Rightarrow> supervisor \<Rightarrow> node_status" where
  "new_entry a s = (hd (filter (\<lambda>e. \<not> ns_discovered e) (sv_nodes s)))\<lparr>ns_address := a, ns_discovered := True\<rparr>"

lemma hd_filter_find_index: "find_index P xs = Some i \<Longrightarrow> hd (filter P xs) = xs ! i"
proof (induction xs arbitrary: i)
  case (Cons x xs)
  then show ?case by (cases "P x") auto
qed simp

lemma sv_status_other:
  assumes "\<not> is_entry b e" and "\<not> is_entry b (sv_nodes s ! i)"
  shows "sv_status (s\<lparr>sv_nodes := (sv_nodes s)[i := e]\<rparr>) b = sv_status s b"
proof -
  have fi: "find_index (is_entry b) ((sv_nodes s)[i := e]) = find_index (is_entry b) (sv_nodes s)"
    using find_index_update_same [of "is_entry b" e "sv_nodes s" i] assms by simp
  have "(sv_nodes s)[i := e] ! j = sv_nodes s ! j" if "find_index (is_entry b) (sv_nodes s) = Some j" for j
    using find_index_SomeD(2) [OF that] assms(2) by (cases "j = i") auto
  then show ?thesis by (cases "find_index (is_entry b) (sv_nodes s)")
      (simp_all add: sv_status_def fi del: find_index_None_iff)
qed

text \<open>Putting an entry for the same address where \<open>find_or_create\<close> points changes that address only.\<close>

lemma find_or_create_status:
  assumes "find_or_create a s = (Some i, s1)"
  shows "i < length (sv_nodes s1)" "length (sv_nodes s1) = length (sv_nodes s)"
    "sv_nodes s1 ! i = (case sv_status s a of Some e \<Rightarrow> e | None \<Rightarrow> new_entry a s)"
    "is_entry a (sv_nodes s1 ! i)"
    "is_entry a e \<Longrightarrow> sv_status (s1\<lparr>sv_nodes := (sv_nodes s1)[i := e]\<rparr>) b = (if b = a then Some e else sv_status s b)"
    "sv_status s a \<noteq> None \<or> \<not> table_full s"
proof -
  have "i < length (sv_nodes s1) \<and> length (sv_nodes s1) = length (sv_nodes s)
    \<and> sv_nodes s1 ! i = (case sv_status s a of Some e \<Rightarrow> e | None \<Rightarrow> new_entry a s)
    \<and> is_entry a (sv_nodes s1 ! i)
    \<and> (is_entry a e \<longrightarrow> sv_status (s1\<lparr>sv_nodes := (sv_nodes s1)[i := e]\<rparr>) b = (if b = a then Some e else sv_status s b))
    \<and> (sv_status s a \<noteq> None \<or> \<not> table_full s)"
  proof (cases "find_index (is_entry a) (sv_nodes s)")
    case (Some k)
    then have s1: "s1 = s" "i = k" using assms by (simp_all add: find_or_create_def)
    note k = find_index_SomeD [OF Some]
    have st: "sv_status s a = Some (sv_nodes s ! i)" by (simp add: sv_status_def Some s1)
    have "sv_status (s\<lparr>sv_nodes := (sv_nodes s)[i := e]\<rparr>) b = (if b = a then Some e else sv_status s b)"
      if e: "is_entry a e"
    proof (cases "b = a")
      case True
      have "find_index (is_entry a) ((sv_nodes s)[i := e]) = Some i"
        using find_index_update_same [of "is_entry a" e "sv_nodes s" i] e k Some s1 by simp
      with k s1 True show ?thesis by (simp add: sv_status_def)
    next
      case False
      have "\<not> is_entry b e" "\<not> is_entry b (sv_nodes s ! i)"
        using e k(2) s1 False by (auto simp: is_entry_def)
      then show ?thesis using False sv_status_other [of b e s i] by simp
    qed
    with k s1 st show ?thesis by simp
  next
    case None
    then obtain k where k: "find_index (\<lambda>e. \<not> ns_discovered e) (sv_nodes s) = Some k" "i = k"
      and s1: "s1 = s\<lparr>sv_nodes := (sv_nodes s)[i := (sv_nodes s ! i)\<lparr>ns_address := a, ns_discovered := True\<rparr>]\<rparr>"
      using assms by (auto simp: find_or_create_def simp del: find_index_None_iff split: option.splits)
    note ki = find_index_SomeD [OF k(1)]
    have "sv_status s a = None" using None by (simp add: sv_status_def)
    moreover have "new_entry a s = (sv_nodes s ! i)\<lparr>ns_address := a, ns_discovered := True\<rparr>"
      using hd_filter_find_index [OF k(1)] k(2) by (simp add: new_entry_def)
    moreover have "sv_status (s1\<lparr>sv_nodes := (sv_nodes s1)[i := e]\<rparr>) b = (if b = a then Some e else sv_status s b)"
      if e: "is_entry a e"
    proof (cases "b = a")
      case True
      have "find_index (is_entry a) ((sv_nodes s)[i := e]) = Some i"
        using find_index_update_first [OF None] ki(1) k(2) e by blast
      with ki(1) k(2) True show ?thesis by (simp add: sv_status_def s1)
    next
      case False
      have "\<not> is_entry b e" "\<not> is_entry b (sv_nodes s ! i)"
        using e ki(2) k(2) False by (auto simp: is_entry_def)
      then show ?thesis using False sv_status_other [of b e s i] by (simp add: s1)
    qed
    moreover have "\<not> table_full s" using ki k(2) by (auto simp: table_full_def)
    ultimately show ?thesis using ki k(2) by (simp add: s1 is_entry_def)
  qed
  then show "i < length (sv_nodes s1)" "length (sv_nodes s1) = length (sv_nodes s)"
    "sv_nodes s1 ! i = (case sv_status s a of Some e \<Rightarrow> e | None \<Rightarrow> new_entry a s)"
    "is_entry a (sv_nodes s1 ! i)"
    "is_entry a e \<Longrightarrow> sv_status (s1\<lparr>sv_nodes := (sv_nodes s1)[i := e]\<rparr>) b = (if b = a then Some e else sv_status s b)"
    "sv_status s a \<noteq> None \<or> \<not> table_full s"
    by blast+
qed

lemma find_or_create_None:
  assumes "find_or_create a s = (None, s1)"
  shows "s1 = s" "sv_status s a = None" "table_full s"
  using assms by (auto simp: find_or_create_def sv_status_def table_full_def split: option.splits)

text \<open>The required flags are an address table like the router's routes, with any flag admissible.\<close>

definition sv_required :: "supervisor \<Rightarrow> node_address \<Rightarrow> bool option" where
  "sv_required s a = map_option ns_required (sv_status s a)"

lemma sv_set_required_cases:
  obtains (full) "find_or_create a s = (None, s)" "sv_set_required a r s = (False, s)" "sv_status s a = None"
  | (ok) i s1 where "find_or_create a s = (Some i, s1)"
    "sv_set_required a r s = (True, s1\<lparr>sv_nodes := (sv_nodes s1)
       [i := update_health ((sv_nodes s1 ! i)\<lparr>ns_required := r\<rparr>)]\<rparr>)"
    "is_entry a (update_health ((sv_nodes s1 ! i)\<lparr>ns_required := r\<rparr>))"
proof (cases "fst (find_or_create a s)")
  case None
  then obtain s1 where "find_or_create a s = (None, s1)" by (cases "find_or_create a s") auto
  with find_or_create_None [OF this] show ?thesis by (intro full) (auto simp: sv_set_required_def)
next
  case (Some i)
  then obtain s1 where f: "find_or_create a s = (Some i, s1)" by (cases "find_or_create a s") auto
  with find_or_create_status(4) [OF f] show ?thesis
    by (intro ok) (auto simp: sv_set_required_def is_entry_def)
qed

interpretation required_nodes: address_table sv_required sv_set_required "\<lambda>_. True" "\<lambda>_ _. True"
proof (unfold_locales, goal_cases)
  case (1 s a r s')
  show ?case
  proof (cases rule: sv_set_required_cases [of a s r])
    case (ok i s1)
    with 1 find_or_create_status(5) [OF ok(1) ok(3)] show ?thesis by (auto simp: sv_required_def fun_eq_iff)
  qed (use 1 in simp)
next
  case (2 s a r s')
  then show ?case by (cases rule: sv_set_required_cases [of a s r]) auto
next
  case (3 s r a)
  then show ?case by (cases rule: sv_set_required_cases [of a s r]) (auto simp: sv_required_def)
qed simp_all

text \<open>A packet is honest about its sender if an identity in it names the sender's own address.\<close>

definition honest :: "packet \<Rightarrow> bool" where
  "honest p \<longleftrightarrow> (carries_identity p \<longrightarrow> pkt_payload p ! 1 = pkt_source p)"

lemma observe_entry_sel [simp]:
  "ns_discovered (observe_entry p now e) = ns_discovered e" "ns_online (observe_entry p now e)"
  "ns_last_seen_ms (observe_entry p now e) = now" "ns_required (observe_entry p now e) = ns_required e"
  "update_health (observe_entry p now e) = observe_entry p now e"
  by (simp_all add: observe_entry_def learn_identity_def Let_def)

lemma observe_entry_honest:
  "honest p \<Longrightarrow> is_entry (pkt_source p) e \<Longrightarrow> is_entry (pkt_source p) (observe_entry p now e)"
  by (auto simp: honest_def is_entry_def observe_entry_def learn_identity_def Let_def)

text \<open>What observing an honest packet does to the table, seen by address.\<close>

lemma sv_observe_status:
  assumes "honest p"
  shows "sv_status (sv_observe p now s) =
    (if sv_status s (pkt_source p) = None \<and> table_full s then sv_status s
     else (sv_status s)(pkt_source p \<mapsto> observe_entry p now
       (case sv_status s (pkt_source p) of Some e \<Rightarrow> e | None \<Rightarrow> new_entry (pkt_source p) s)))"
proof (cases "fst (find_or_create (pkt_source p) s)")
  case None
  then obtain s1 where f: "find_or_create (pkt_source p) s = (None, s1)" by (cases "find_or_create (pkt_source p) s") auto
  with find_or_create_None [OF f] show ?thesis by (simp add: sv_observe_def)
next
  case (Some i)
  then obtain s1 where f: "find_or_create (pkt_source p) s = (Some i, s1)" by (cases "find_or_create (pkt_source p) s") auto
  note st = find_or_create_status [OF f]
  from st(5) [OF observe_entry_honest [OF assms st(4)]] st(3,6) f show ?thesis
    by (auto simp: sv_observe_def fun_eq_iff)
qed

section \<open>Invariant\<close>

definition sv_inv :: "supervisor \<Rightarrow> bool" where
  "sv_inv s \<longleftrightarrow> length (sv_nodes s) = 16 \<and> distinct (map ns_address (filter ns_discovered (sv_nodes s)))
    \<and> (\<forall>e\<in>set (sv_nodes s). if ns_discovered e then update_health e = e else e = default_status)"

lemma distinct_filter_update:
  assumes "distinct (map f (filter P xs))" and "i < length xs"
    and "P y" and "\<forall>j<length xs. j \<noteq> i \<longrightarrow> P (xs ! j) \<longrightarrow> f (xs ! j) \<noteq> f y"
  shows "distinct (map f (filter P (xs[i := y])))"
  using assms
proof (induction xs arbitrary: i)
  case (Cons x xs)
  show ?case
  proof (cases i)
    case 0
    have "f y \<notin> f ` {z \<in> set xs. P z}"
      using Cons.prems(4) unfolding 0 by (auto simp: in_set_conv_nth)
    with Cons.prems 0 show ?thesis by (auto split: if_splits)
  next
    case (Suc k)
    have IH: "distinct (map f (filter P (xs[k := y])))"
      using Cons.prems Suc by (intro Cons.IH) (auto split: if_splits)
    have "f x \<noteq> f y" if "P x" using Cons.prems(4) Suc that by force
    moreover have "set (xs[k := y]) \<subseteq> insert y (set xs)" by (rule set_update_subset_insert)
    ultimately have "P x \<longrightarrow> f x \<notin> f ` {z \<in> set (xs[k := y]). P z}"
      using Cons.prems(1) by (auto split: if_splits)
    with IH Suc show ?thesis by simp
  qed
qed simp

lemma distinct_entries:
  assumes "distinct (map f (filter P xs))" and "i < length xs" "j < length xs" "P (xs ! i)" "P (xs ! j)"
    and "f (xs ! i) = f (xs ! j)"
  shows "i = j"
  using assms
proof (induction xs arbitrary: i j)
  case (Cons x xs)
  show ?case
    using Cons.prems Cons.IH [of "i - 1" "j - 1"]
    by (cases i; cases j) (auto split: if_splits simp: image_iff dest: nth_mem)
qed simp

lemma sv_inv_put:
  assumes inv: "sv_inv s" and f: "find_or_create a s = (Some i, s1)" and "is_entry a e" and "update_health e = e"
  shows "sv_inv (s1\<lparr>sv_nodes := (sv_nodes s1)[i := e]\<rparr>)"
proof -
  have n: "(sv_nodes s1)[i := e] = (sv_nodes s)[i := e] \<and> i < length (sv_nodes s)
    \<and> (\<forall>j<length (sv_nodes s). j \<noteq> i \<longrightarrow> \<not> is_entry a (sv_nodes s ! j))"
  proof (cases "find_index (is_entry a) (sv_nodes s)")
    case (Some k)
    then have s1: "s1 = s" "i = k" using f by (simp_all add: find_or_create_def)
    note k = find_index_SomeD [OF Some]
    have "j = i" if "j < length (sv_nodes s)" "is_entry a (sv_nodes s ! j)" for j
      using that k inv s1 by (intro distinct_entries [of ns_address ns_discovered "sv_nodes s"])
        (auto simp: sv_inv_def is_entry_def)
    with k s1 show ?thesis by auto
  next
    case None
    then obtain k where k: "find_index (\<lambda>e. \<not> ns_discovered e) (sv_nodes s) = Some k" "i = k"
      and s1: "s1 = s\<lparr>sv_nodes := (sv_nodes s)[i := (sv_nodes s ! i)\<lparr>ns_address := a, ns_discovered := True\<rparr>]\<rparr>"
      using f by (auto simp: find_or_create_def simp del: find_index_None_iff split: option.splits)
    with None find_index_SomeD(1) [OF k(1)] show ?thesis by (auto simp: all_set_conv_all_nth)
  qed
  have d: "distinct (map ns_address (filter ns_discovered ((sv_nodes s)[i := e])))"
    using inv n assms(3) by (intro distinct_filter_update) (auto simp: sv_inv_def is_entry_def)
  have "\<forall>x\<in>set ((sv_nodes s)[i := e]). if ns_discovered x then update_health x = x else x = default_status"
    using inv assms(3,4) by (auto simp: sv_inv_def is_entry_def dest!: set_list_update_subset)
  with d n inv show ?thesis by (simp add: sv_inv_def)
qed

lemma sv_inv_set_required: "sv_inv s \<Longrightarrow> sv_inv (snd (sv_set_required a r s))"
  by (cases rule: sv_set_required_cases [of a s r]) (simp_all add: sv_inv_put)

lemma sv_inv_observe:
  assumes "sv_inv s" and "honest p"
  shows "sv_inv (sv_observe p now s)"
proof (cases "fst (find_or_create (pkt_source p) s)")
  case None
  then obtain s1 where f: "find_or_create (pkt_source p) s = (None, s1)" by (cases "find_or_create (pkt_source p) s") auto
  with find_or_create_None [OF f] assms(1) show ?thesis by (simp add: sv_observe_def)
next
  case (Some i)
  then obtain s1 where f: "find_or_create (pkt_source p) s = (Some i, s1)" by (cases "find_or_create (pkt_source p) s") auto
  from sv_inv_put [OF assms(1) f observe_entry_honest [OF assms(2) find_or_create_status(4) [OF f]]] f
  show ?thesis by (simp add: sv_observe_def)
qed

section \<open>The watchdog\<close>

lemma service_entry_sel [simp]:
  "ns_address (service_entry now t e) = ns_address e" "ns_discovered (service_entry now t e) = ns_discovered e"
  "ns_required (service_entry now t e) = ns_required e"
  "ns_last_seen_ms (service_entry now t e) = ns_last_seen_ms e"
  "is_entry a (service_entry now t e) = is_entry a e"
  by (simp_all add: service_entry_def is_entry_def)

lemma service_entry_fresh:
  "ns_discovered e \<Longrightarrow> ns_online (service_entry now t e) \<longleftrightarrow> ns_online e \<and> now - ns_last_seen_ms e < t"
  by (auto simp: service_entry_def not_le)

lemma service_entries_eq:
  "service_entries now t es m =
    (map (service_entry now t) es, m \<or> (\<exists>e\<in>set es. missing_entry (service_entry now t e)))"
  by (induction es arbitrary: m) (auto simp: Let_def)

lemma sv_status_map:
  assumes "\<And>e a. is_entry a (f e) = is_entry a e"
  shows "sv_status (s\<lparr>sv_nodes := map f (sv_nodes s), sv_required_node_fault := m\<rparr>) a = map_option f (sv_status s a)"
  using find_index_SomeD(1) [of "is_entry a" "sv_nodes s"]
  by (cases "find_index (is_entry a) (sv_nodes s)")
    (simp_all add: sv_status_def find_index_map assms del: find_index_None_iff)

lemma length_find_or_create:
  "find_or_create a s = (r, s1) \<Longrightarrow> length (sv_nodes s1) = length (sv_nodes s)"
  by (auto simp: find_or_create_def split: option.splits)

lemma length_sv_observe [simp]: "length (sv_nodes (sv_observe p now s)) = length (sv_nodes s)"
  using length_find_or_create by (auto simp: sv_observe_def Let_def split: prod.splits option.splits)

lemma sv_send_sel:
  assumes "sv_send_discovery ops now s nd w = (ok, s', nd', w') \<or> sv_send_heartbeat ops now s nd w = (ok, s', nd', w')"
  shows "sv_nodes s' = sv_nodes s" "sv_required_node_fault s' = sv_required_node_fault s"
    "sv_offline_timeout_ms s' = sv_offline_timeout_ms s"
    "sv_rediscovery_interval_ms s' = sv_rediscovery_interval_ms s"
    "node_talk ops (nd, w) (nd', w')"
proof -
  let ?p = "default_packet\<lparr>pkt_destination := addr_Broadcast, pkt_type := msg_DeviceDiscovery\<rparr>"
  let ?q = "default_packet\<lparr>pkt_destination := addr_Broadcast, pkt_type := msg_Heartbeat\<rparr>"
  show "sv_nodes s' = sv_nodes s" "sv_required_node_fault s' = sv_required_node_fault s"
    "sv_offline_timeout_ms s' = sv_offline_timeout_ms s"
    "sv_rediscovery_interval_ms s' = sv_rediscovery_interval_ms s"
    using assms by (auto simp: sv_send_discovery_def sv_send_heartbeat_def split: prod.splits if_splits)
  have "wf_packet ?p" "wf_packet ?q" "calm ?p" "calm ?q" by simp_all
  note talk = talk_send1 [OF this(1) _ this(3), of ops nd now False w, simplified]
    talk_send1 [OF this(2) _ this(4), of ops nd now False w, simplified]
  show "node_talk ops (nd, w) (nd', w')"
    using assms by (auto simp: sv_send_discovery_def sv_send_heartbeat_def split: prod.splits if_splits
      dest: talk)
qed

lemma sv_service_nodes:
  assumes "sv_service ops now s nd w = (s', nd', w')"
  shows "sv_nodes s' = map (service_entry now (sv_offline_timeout_ms s)) (sv_nodes s)"
    and "sv_required_node_fault s' \<longleftrightarrow> (\<exists>e\<in>set (sv_nodes s'). missing_entry e)"
    and "node_talk ops (nd, w) (nd', w')"
proof -
  obtain s1 nd1 w1 where hb: "(if now - sv_last_heartbeat_tx_ms s \<ge> sv_heartbeat_interval_ms s
      then snd (sv_send_heartbeat ops now s nd w) else (s, nd, w)) = (s1, nd1, w1)" by (metis prod_cases3)
  have 1: "sv_nodes s1 = sv_nodes s \<and> sv_offline_timeout_ms s1 = sv_offline_timeout_ms s
      \<and> node_talk ops (nd, w) (nd1, w1)"
  proof (cases "now - sv_last_heartbeat_tx_ms s \<ge> sv_heartbeat_interval_ms s")
    case True
    obtain ok where "sv_send_heartbeat ops now s nd w = (ok, s1, nd1, w1)"
      using hb unfolding if_P [OF True] by (metis prod.collapse)
    from sv_send_sel [OF disjI2 [OF this]] show ?thesis by simp
  next
    case False
    then show ?thesis using hb unfolding if_not_P [OF False] by (simp add: talk_refl)
  qed
  let ?m = "\<exists>e\<in>set (sv_nodes s). missing_entry (service_entry now (sv_offline_timeout_ms s) e)"
  let ?s2 = "s1\<lparr>sv_nodes := map (service_entry now (sv_offline_timeout_ms s)) (sv_nodes s),
      sv_required_node_fault := ?m\<rparr>"
  from 1 have n1: "sv_nodes s1 = sv_nodes s" and t1: "sv_offline_timeout_ms s1 = sv_offline_timeout_ms s"
    by simp_all
  have r: "(if ?m \<and> now - sv_last_discovery_tx_ms ?s2 \<ge> sv_rediscovery_interval_ms ?s2
      then snd (sv_send_discovery ops now ?s2 nd1 w1) else (?s2, nd1, w1)) = (s', nd', w')"
    using assms unfolding sv_service_def Let_def hb
    by (simp only: prod.case service_entries_eq n1 t1 simp_thms)
  have 2: "sv_nodes s' = sv_nodes ?s2 \<and> sv_required_node_fault s' = ?m \<and> node_talk ops (nd1, w1) (nd', w')"
  proof (cases "?m \<and> now - sv_last_discovery_tx_ms ?s2 \<ge> sv_rediscovery_interval_ms ?s2")
    case True
    obtain ok where d: "sv_send_discovery ops now ?s2 nd1 w1 = (ok, s', nd', w')"
      using r unfolding if_P [OF True] by (metis prod.collapse)
    have "sv_required_node_fault ?s2 = ?m" by simp
    with sv_send_sel [OF disjI1 [OF d]] show ?thesis by simp
  next
    case False
    have "(?s2, nd1, w1) = (s', nd', w')" using r unfolding if_not_P [OF False] .
    then show ?thesis by (auto simp: talk_refl)
  qed
  from 2 show "sv_nodes s' = map (service_entry now (sv_offline_timeout_ms s)) (sv_nodes s)" by simp
  with 2 show "sv_required_node_fault s' \<longleftrightarrow> (\<exists>e\<in>set (sv_nodes s'). missing_entry e)" by simp
  from 1 2 show "node_talk ops (nd, w) (nd', w')" by (blast intro: talk_trans)
qed

lemma sv_service_status:
  assumes "sv_service ops now s nd w = (s', nd', w')"
  shows "sv_status s' a = map_option (service_entry now (sv_offline_timeout_ms s)) (sv_status s a)"
proof -
  have "sv_status s' a = sv_status (s\<lparr>sv_nodes := map (service_entry now (sv_offline_timeout_ms s)) (sv_nodes s),
      sv_required_node_fault := sv_required_node_fault s\<rparr>) a"
    by (simp add: sv_status_def sv_service_nodes(1) [OF assms])
  then show ?thesis by (simp only: sv_status_map service_entry_sel)
qed

lemma sv_inv_service:
  assumes "sv_inv s" and "sv_service ops now s nd w = (s', nd', w')"
  shows "sv_inv s'"
proof -
  let ?f = "service_entry now (sv_offline_timeout_ms s)"
  have "map ns_address (filter ns_discovered (map ?f xs)) = map ns_address (filter ns_discovered xs)" for xs
    by (induction xs) simp_all
  moreover have "if ns_discovered (?f e) then update_health (?f e) = ?f e else ?f e = default_status"
    if "e \<in> set (sv_nodes s)" for e
    using assms(1) that by (auto simp: sv_inv_def service_entry_def split: if_splits)
  ultimately show ?thesis using assms(1) by (simp add: sv_inv_def sv_service_nodes(1) [OF assms(2)])
qed

lemma sv_inv_init: "sv_inv supervisor_init"
proof -
  have "sv_inv (supervisor_init\<lparr>sv_nodes := replicate 16 default_status\<rparr>)"
    by (simp add: sv_inv_def default_status_def filter_replicate)
  then have "sv_inv \<lparr>sv_nodes = replicate 16 default_status, sv_heartbeat_interval_ms = 1000,
           sv_offline_timeout_ms = 3000, sv_rediscovery_interval_ms = 5000,
           sv_last_heartbeat_tx_ms = 0, sv_last_discovery_tx_ms = 0, sv_required_node_fault = False\<rparr>"
    by (simp add: sv_inv_def)
  then show ?thesis unfolding supervisor_init_def Let_def by (intro sv_inv_set_required)
qed

section \<open>Who is in the table\<close>

text \<open>The entries in use come first.\<close>

definition in_front :: "('a \<Rightarrow> bool) \<Rightarrow> 'a list \<Rightarrow> bool" where
  "in_front P xs \<longleftrightarrow> (\<exists>n. \<forall>i<length xs. P (xs ! i) \<longleftrightarrow> i < n)"

lemma in_front_count:
  assumes "in_front P xs" and "i < length xs"
  shows "P (xs ! i) \<longleftrightarrow> i < length (filter P xs)"
proof -
  from assms(1) obtain n where n: "\<forall>i<length xs. P (xs ! i) \<longleftrightarrow> i < n" by (auto simp: in_front_def)
  then have "{i. i < length xs \<and> P (xs ! i)} = {..< min n (length xs)}" by auto
  then have "length (filter P xs) = min n (length xs)" by (simp add: length_filter_conv_card)
  with n assms(2) show ?thesis by simp
qed

lemma in_front_fill:
  assumes "in_front P xs" and "find_index (\<lambda>x. \<not> P x) xs = Some k" and "P y"
  shows "in_front P (xs[k := y])"
proof -
  note k = find_index_SomeD [OF assms(2)]
  from assms(1) obtain n where n: "\<forall>i<length xs. P (xs ! i) \<longleftrightarrow> i < n" by (auto simp: in_front_def)
  have "P (xs ! i) \<longleftrightarrow> i < k" if "i < length xs" for i using n k that by (metis linorder_not_le order_less_le_trans)
  with k(1) assms(3) have "\<forall>i<length xs. P (xs[k := y] ! i) \<longleftrightarrow> i < Suc k" by (auto simp: nth_list_update less_Suc_eq)
  then show ?thesis unfolding in_front_def by (intro exI [of _ "Suc k"]) simp
qed

lemma update_nth: "i < length xs \<Longrightarrow> xs[k := y] ! i = (if i = k then y else xs ! i)"
  by simp

lemma in_front_same: "in_front P xs \<Longrightarrow> P (xs ! k) = P y \<Longrightarrow> in_front P (xs[k := y])"
  unfolding in_front_def by (elim exE, rule_tac x = n in exI) (auto simp: update_nth split: if_splits)

lemma in_front_map: "(\<And>x. P (f x) = P x) \<Longrightarrow> in_front P (map f xs) = in_front P xs"
  by (simp add: in_front_def)

text \<open>Nobody leaves the table, so the nodes required from the start stay in it.\<close>

definition sv_filled :: "supervisor \<Rightarrow> bool" where
  "sv_filled s \<longleftrightarrow> in_front ns_discovered (sv_nodes s)
     \<and> (\<forall>a\<in>{addr_Northbridge, addr_Lighting, addr_Security}. sv_status s a \<noteq> None)"

lemma sv_filled_cong: "sv_nodes s' = sv_nodes s \<Longrightarrow> sv_filled s' = sv_filled s"
  by (simp add: sv_filled_def sv_status_def)

lemma in_front_put:
  assumes "in_front ns_discovered (sv_nodes s)" and f: "find_or_create a s = (Some i, s1)" and "is_entry a e"
  shows "in_front ns_discovered (sv_nodes (s1\<lparr>sv_nodes := (sv_nodes s1)[i := e]\<rparr>))"
proof (cases "find_index (is_entry a) (sv_nodes s)")
  case (Some k)
  then have "s1 = s" "i = k" using f by (simp_all add: find_or_create_def)
  with find_index_SomeD(2) [OF Some] assms(3) in_front_same [OF assms(1), of i e] show ?thesis by (simp add: is_entry_def)
next
  case None
  then obtain k where k: "find_index (\<lambda>e. \<not> ns_discovered e) (sv_nodes s) = Some k" "i = k"
    and s1: "s1 = s\<lparr>sv_nodes := (sv_nodes s)[i := (sv_nodes s ! i)\<lparr>ns_address := a, ns_discovered := True\<rparr>]\<rparr>"
    using f by (auto simp: find_or_create_def simp del: find_index_None_iff split: option.splits)
  with in_front_fill [OF assms(1) k(1), of e] assms(3) show ?thesis by (simp add: is_entry_def)
qed

lemma sv_filled_put:
  assumes "sv_filled s" and f: "find_or_create a s = (Some i, s1)" and "is_entry a e"
  shows "sv_filled (s1\<lparr>sv_nodes := (sv_nodes s1)[i := e]\<rparr>)"
  using assms(1) in_front_put [OF _ f assms(3)] find_or_create_status(5) [OF f assms(3)]
  by (auto simp: sv_filled_def)

lemma sv_filled_set_required: "sv_filled s \<Longrightarrow> sv_filled (snd (sv_set_required a r s))"
  by (cases rule: sv_set_required_cases [of a s r]) (simp_all add: sv_filled_put)

lemma sv_filled_observe:
  assumes "sv_filled s" and "honest p"
  shows "sv_filled (sv_observe p now s)"
proof (cases "find_or_create (pkt_source p) s")
  case (Pair r s1)
  show ?thesis
  proof (cases r)
    case None
    with Pair find_or_create_None [of "pkt_source p" s s1] assms(1) show ?thesis by (simp add: sv_observe_def)
  next
    case (Some i)
    with Pair have f: "find_or_create (pkt_source p) s = (Some i, s1)" by simp
    from sv_filled_put [OF assms(1) f observe_entry_honest [OF assms(2) find_or_create_status(4) [OF f]]] f
    show ?thesis by (simp add: sv_observe_def)
  qed
qed

lemma sv_filled_service:
  assumes "sv_filled s" and "sv_service ops now s nd w = (s', nd', w')"
  shows "sv_filled s'"
  using assms(1) sv_service_status [OF assms(2)] in_front_map [of ns_discovered "service_entry now (sv_offline_timeout_ms s)" "sv_nodes s"]
  by (simp add: sv_filled_def sv_service_nodes(1) [OF assms(2)])

lemma sv_filled_init: "sv_filled supervisor_init"
proof -
  let ?r = "\<lambda>a s. snd (sv_set_required a True s)"
  have front: "in_front ns_discovered (sv_nodes (?r a s))" if "in_front ns_discovered (sv_nodes s)" for a s
  proof (cases rule: sv_set_required_cases [of a s True])
    case (ok i s1)
    from in_front_put [OF that ok(1,3)] show ?thesis by (simp add: ok(2))
  qed (use that in simp)
  have "in_front ns_discovered (replicate 16 default_status)"
    unfolding in_front_def by (intro exI [of _ 0]) (simp add: default_status_def)
  then have "in_front ns_discovered (sv_nodes supervisor_init)"
    unfolding supervisor_init_def Let_def by (intro front) simp
  moreover have "sv_status supervisor_init addr_Northbridge \<noteq> None" "sv_status supervisor_init addr_Lighting \<noteq> None"
    "sv_status supervisor_init addr_Security \<noteq> None" by code_simp+
  ultimately show ?thesis by (simp add: sv_filled_def)
qed

text \<open>Every use of a supervisor by its owner, on honest packets.\<close>

inductive supervisor_reachable :: "'w transport_ops \<Rightarrow> supervisor \<Rightarrow> bool" for ops where
  sv_boot: "supervisor_reachable ops supervisor_init"
| sv_heard: "supervisor_reachable ops s \<Longrightarrow> honest p \<Longrightarrow> supervisor_reachable ops (sv_observe p now s)"
| sv_serviced: "supervisor_reachable ops s \<Longrightarrow> sv_service ops now s nd w = (s', nd', w') \<Longrightarrow>
    supervisor_reachable ops s'"
| sv_requires: "supervisor_reachable ops s \<Longrightarrow> supervisor_reachable ops (snd (sv_set_required a r s))"
| sv_discovers: "supervisor_reachable ops s \<Longrightarrow> sv_send_discovery ops now s nd w = (ok, s', nd', w') \<Longrightarrow>
    supervisor_reachable ops s'"
| sv_beats: "supervisor_reachable ops s \<Longrightarrow> sv_send_heartbeat ops now s nd w = (ok, s', nd', w') \<Longrightarrow>
    supervisor_reachable ops s'"
| sv_interval: "supervisor_reachable ops s \<Longrightarrow> supervisor_reachable ops (sv_set_heartbeat_interval_ms v s)"
| sv_timeout: "supervisor_reachable ops s \<Longrightarrow> supervisor_reachable ops (sv_set_offline_timeout_ms v s)"
| sv_rediscovery: "supervisor_reachable ops s \<Longrightarrow> supervisor_reachable ops (sv_set_rediscovery_interval_ms v s)"

lemma sv_inv_cong: "sv_nodes s' = sv_nodes s \<Longrightarrow> sv_inv s' = sv_inv s"
  by (simp add: sv_inv_def)

lemma supervisor_reachable_inv: "supervisor_reachable ops s \<Longrightarrow> sv_inv s"
proof (induction rule: supervisor_reachable.induct)
  case (sv_discovers s now nd w ok s' nd' w')
  with sv_inv_cong [OF sv_send_sel(1) [OF disjI1 [OF sv_discovers(2)]]] show ?case by simp
next
  case (sv_beats s now nd w ok s' nd' w')
  with sv_inv_cong [OF sv_send_sel(1) [OF disjI2 [OF sv_beats(2)]]] show ?case by simp
next
  case (sv_interval s v)
  then show ?case using sv_inv_cong by (simp add: sv_set_heartbeat_interval_ms_def sv_inv_def)
next
  case (sv_timeout s v)
  then show ?case by (simp add: sv_set_offline_timeout_ms_def sv_inv_def)
next
  case (sv_rediscovery s v)
  then show ?case by (simp add: sv_set_rediscovery_interval_ms_def sv_inv_def)
qed (auto intro: sv_inv_init sv_inv_observe sv_inv_service sv_inv_set_required)

lemma supervisor_reachable_filled: "supervisor_reachable ops s \<Longrightarrow> sv_filled s"
proof (induction rule: supervisor_reachable.induct)
  case (sv_discovers s now nd w ok s' nd' w')
  with sv_filled_cong [OF sv_send_sel(1) [OF disjI1 [OF sv_discovers(2)]]] show ?case by simp
next
  case (sv_beats s now nd w ok s' nd' w')
  with sv_filled_cong [OF sv_send_sel(1) [OF disjI2 [OF sv_beats(2)]]] show ?case by simp
next
  case (sv_interval s v)
  then show ?case using sv_filled_cong [of "sv_set_heartbeat_interval_ms v s" s] by (simp add: sv_set_heartbeat_interval_ms_def)
next
  case (sv_timeout s v)
  then show ?case using sv_filled_cong [of "sv_set_offline_timeout_ms v s" s] by (simp add: sv_set_offline_timeout_ms_def)
next
  case (sv_rediscovery s v)
  then show ?case using sv_filled_cong [of "sv_set_rediscovery_interval_ms v s" s] by (simp add: sv_set_rediscovery_interval_ms_def)
qed (auto intro: sv_filled_init sv_filled_observe sv_filled_service sv_filled_set_required)

section \<open>Properties\<close>

text \<open>C35: The node table is consistent. In every reachable state of a supervisor that hears honest
  packets (an identity names its sender's own address) the table has its sixteen entries, those in use
  are the first ones, as many as it knows nodes, the three nodes required from the start (northbridge,
  lighting, security) are among them, no address has two of them, the health of every known node is what
  its online, identity and fault state determine, and free entries are blank.\<close>

theorem supervisor_table_consistent:
  assumes "supervisor_reachable ops s"
  shows "length (sv_nodes s) = 16 \<and> known_node_count s \<le> 16
    \<and> (\<forall>i<16. ns_discovered (sv_nodes s ! i) \<longleftrightarrow> i < known_node_count s)
    \<and> (\<forall>a\<in>{addr_Northbridge, addr_Lighting, addr_Security}. sv_status s a \<noteq> None)
    \<and> distinct (map ns_address (filter ns_discovered (sv_nodes s)))
    \<and> (\<forall>e\<in>set (sv_nodes s). if ns_discovered e then update_health e = e else e = default_status)"
  using supervisor_reachable_inv [OF assms] supervisor_reachable_filled [OF assms] length_filter_le [of ns_discovered "sv_nodes s"]
    in_front_count [of ns_discovered "sv_nodes s"]
  by (simp add: sv_inv_def sv_filled_def known_node_count_def)

theorem supervisor_table_consistent_witness:
  "distinct (map ns_address (filter ns_discovered (sv_nodes
     (sv_observe (default_packet\<lparr>pkt_type := msg_Fault, pkt_source := addr_Lighting\<rparr>) 5 supervisor_init))))"
proof -
  have "honest (default_packet\<lparr>pkt_type := msg_Fault, pkt_source := addr_Lighting\<rparr>)"
    by (simp add: honest_def carries_identity_def)
  from supervisor_table_consistent [OF sv_heard [OF sv_boot this, where ops = bench_transport]]
  show ?thesis by simp
qed

text \<open>C15: Losing a node is noticed. After a service every node that is still online was heard of less
  than the timeout ago, every node heard of less than the timeout ago that was online still is,
  and the required-node fault is raised exactly if some required node is offline or
  incompatible.\<close>

theorem supervisor_watchdog:
  assumes "sv_service ops now s nd w = (s', nd', w')"
  shows "(\<forall>a e. sv_status s a = Some e \<longrightarrow> (\<exists>e'. sv_status s' a = Some e'
        \<and> ns_online e' = (ns_online e \<and> now - ns_last_seen_ms e < sv_offline_timeout_ms s)
        \<and> update_health e' = e' \<and> ns_required e' = ns_required e))
    \<and> (sv_required_node_fault s' \<longleftrightarrow> (\<exists>e\<in>set (sv_nodes s'). ns_discovered e \<and> ns_required e
        \<and> (\<not> ns_online e \<or> ns_health e = Health_Incompatible)))"
proof (intro conjI allI impI)
  fix a e assume e: "sv_status s a = Some e"
  then have d: "ns_discovered e"
    using find_index_SomeD(2) [of "is_entry a" "sv_nodes s"] by (auto simp: sv_status_def is_entry_def)
  have st: "sv_status s' a = Some (service_entry now (sv_offline_timeout_ms s) e)"
    by (simp add: sv_service_status [OF assms] e)
  have "update_health (service_entry now (sv_offline_timeout_ms s) e) = service_entry now (sv_offline_timeout_ms s) e"
    using d by (simp add: service_entry_def)
  with st service_entry_fresh [OF d] show "\<exists>e'. sv_status s' a = Some e'
        \<and> ns_online e' = (ns_online e \<and> now - ns_last_seen_ms e < sv_offline_timeout_ms s)
        \<and> update_health e' = e' \<and> ns_required e' = ns_required e" by auto
qed (use sv_service_nodes(2) [OF assms] in \<open>simp add: missing_entry_def\<close>)

theorem supervisor_watchdog_witness:
  "sv_required_node_fault (fst (sv_service bench_transport 3100 supervisor_init (node_init addr_MainComputer 0) quiet_world))"
proof -
  obtain s' nd' w' where sv: "sv_service bench_transport 3100 supervisor_init (node_init addr_MainComputer 0)
      quiet_world = (s', nd', w')" by (metis prod_cases3)
  have "sv_status supervisor_init addr_Lighting = Some (update_health (default_status
      \<lparr>ns_address := addr_Lighting, ns_discovered := True, ns_required := True\<rparr>))" by code_simp
  with supervisor_watchdog [OF sv, THEN conjunct1, THEN spec, THEN spec, THEN mp] obtain e' where
    e': "sv_status s' addr_Lighting = Some e'" "\<not> ns_online e'" "ns_required e'"
    by (fastforce simp: default_status_def)
  then have "e' \<in> set (sv_nodes s') \<and> ns_discovered e'"
    using find_index_SomeD(1,2) [of "is_entry addr_Lighting" "sv_nodes s'"]
    by (auto simp: sv_status_def is_entry_def)
  with supervisor_watchdog [OF sv] e' have "sv_required_node_fault s'" by blast
  then show ?thesis unfolding sv by simp
qed

end
