(* ===== verification/SecurityServer.thy ===== *)
theory SecurityServer
  imports NodeLink DeviceInfo
begin

text \<open>
  The security controller's core (\<open>library/src/security_server.cpp\<close>): the lock state machine
  with its engine-stop confirmation, the filtered shock inputs, the time-limited alarm, the
  persisted armed intent, the commands it serves and the states and events it publishes; and the
  client that commands it (\<open>library/src/security.cpp\<close>).

  The hardware and the persistence of the server are abstract classes: records of functions
  over a state of their own (\<open>'h\<close> and \<open>'p\<close>), part of the server's state; their contracts are the
  locales \<open>security_hardware\<close> and \<open>security_persistence\<close>.
\<close>

section \<open>Commands, modes and events\<close>

type_synonym security_command = u8

definition cmd_Lock :: security_command where [simp]: "cmd_Lock = 0x01"
definition cmd_Unlock :: security_command where [simp]: "cmd_Unlock = 0x02"
definition cmd_SilenceAlarm :: security_command where [simp]: "cmd_SilenceAlarm = 0x03"
definition cmd_RequestState :: security_command where [simp]: "cmd_RequestState = 0x04"

datatype security_mode = Mode_Unlocked | Mode_Locked | Mode_Alarm | Mode_LockPending

fun mode_code :: "security_mode \<Rightarrow> u8" where
  "mode_code Mode_Unlocked = 0x00"
| "mode_code Mode_Locked = 0x01"
| "mode_code Mode_Alarm = 0x02"
| "mode_code Mode_LockPending = 0x03"

datatype security_event =
  Event_ShockWarning | Event_ShockTrigger | Event_AlarmStarted | Event_AlarmStopped
  | Event_Locked | Event_Unlocked | Event_LockPending

fun event_code :: "security_event \<Rightarrow> u8" where
  "event_code Event_ShockWarning = 0x01"
| "event_code Event_ShockTrigger = 0x02"
| "event_code Event_AlarmStarted = 0x03"
| "event_code Event_AlarmStopped = 0x04"
| "event_code Event_Locked = 0x05"
| "event_code Event_Unlocked = 0x06"
| "event_code Event_LockPending = 0x07"

section \<open>Interfaces\<close>

record 'h security_hw_ops =
  hw_set_alarm_output :: "bool \<Rightarrow> 'h \<Rightarrow> bool \<times> 'h"
  hw_set_start_inhibit :: "bool \<Rightarrow> 'h \<Rightarrow> bool \<times> 'h"
  hw_shock_warning_active :: "'h \<Rightarrow> bool"
  hw_shock_trigger_active :: "'h \<Rightarrow> bool"
  hw_engine_running :: "'h \<Rightarrow> bool"
  hw_alarm_output_active :: "'h \<Rightarrow> bool"
  hw_start_inhibit_active :: "'h \<Rightarrow> bool"

text \<open>\<open>load_armed\<close> answers success, the value left in its argument, and the state.\<close>

record 'p security_store_ops =
  st_load_armed :: "bool \<Rightarrow> 'p \<Rightarrow> bool \<times> bool \<times> 'p"
  st_save_armed :: "bool \<Rightarrow> 'p \<Rightarrow> bool \<times> 'p"

text \<open>
  What the server relies on: an output that could be switched reads back as switched, an output
  that could not be switched is unchanged, releasing an output always works, and the two outputs
  are independent.
\<close>

locale security_hardware =
  fixes hw :: "'h security_hw_ops"
  assumes alarm_set: "hw_set_alarm_output hw b h = (True, h') \<Longrightarrow> hw_alarm_output_active hw h' = b"
    and alarm_refused: "hw_set_alarm_output hw b h = (False, h') \<Longrightarrow>
      hw_alarm_output_active hw h' = hw_alarm_output_active hw h"
    and alarm_release: "fst (hw_set_alarm_output hw False h)"
    and alarm_keeps_inhibit: "hw_set_alarm_output hw b h = (r, h') \<Longrightarrow>
      hw_start_inhibit_active hw h' = hw_start_inhibit_active hw h"
    and inhibit_set: "hw_set_start_inhibit hw b h = (True, h') \<Longrightarrow> hw_start_inhibit_active hw h' = b"
    and inhibit_refused: "hw_set_start_inhibit hw b h = (False, h') \<Longrightarrow>
      hw_start_inhibit_active hw h' = hw_start_inhibit_active hw h"
    and inhibit_release: "fst (hw_set_start_inhibit hw False h)"
    and inhibit_keeps_alarm: "hw_set_start_inhibit hw b h = (r, h') \<Longrightarrow>
      hw_alarm_output_active hw h' = hw_alarm_output_active hw h"
begin

lemma release_alarm:
  "hw_alarm_output_active hw (snd (hw_set_alarm_output hw False h)) = False"
  using alarm_set [of False h] alarm_release [of h] by (metis prod.collapse)

lemma release_inhibit:
  "hw_start_inhibit_active hw (snd (hw_set_start_inhibit hw False h)) = False"
  using inhibit_set [of False h] inhibit_release [of h] by (metis prod.collapse)

lemma inhibit_only_if_asked:
  "hw_start_inhibit_active hw (snd (hw_set_start_inhibit hw b h)) \<Longrightarrow>
    b"
  using release_inhibit [of h] by (cases b) auto

lemma other_output [simp]:
  "hw_start_inhibit_active hw (snd (hw_set_alarm_output hw b h)) = hw_start_inhibit_active hw h"
  "hw_alarm_output_active hw (snd (hw_set_start_inhibit hw b h)) = hw_alarm_output_active hw h"
  using alarm_keeps_inhibit [of b h] inhibit_keeps_alarm [of b h] by (metis prod.collapse)+

end

text \<open>What was saved is what is loaded, and loading changes nothing.\<close>

locale security_persistence =
  fixes st :: "'p security_store_ops"
  assumes load_saved: "st_save_armed st b p = (True, p') \<Longrightarrow> fst (st_load_armed st a p') \<and>
      fst (snd (st_load_armed st a p')) = b"
    and load_keeps: "snd (snd (st_load_armed st a p)) = p"
begin

lemma load_after_save:
  assumes "st_save_armed st b p = (True, p')"
  shows "st_load_armed st a p' = (True, b, p')"
  using load_saved [OF assms, of a] load_keeps [of a p'] by (simp add: prod_eq_iff)

end

section \<open>State\<close>

record ('h, 'p) security_server =
  ss_hardware :: 'h
  ss_persistence :: 'p
  ss_mode :: security_mode
  ss_last_controller :: node_address
  ss_engine_running :: bool
  ss_engine_initialized :: bool
  ss_stop_pending :: bool
  ss_stop_started_ms :: u32
  ss_recovery_requires_stop :: bool
  ss_warning :: bool
  ss_warning_pending :: bool
  ss_warning_changed_ms :: u32
  ss_trigger :: bool
  ss_trigger_pending :: bool
  ss_trigger_changed_ms :: u32
  ss_previous_warning :: bool
  ss_previous_trigger :: bool
  ss_alarm_started_ms :: u32
  ss_alarm_timer_active :: bool
  ss_engine_stop_confirm_ms :: u32
  ss_warning_confirm_ms :: u32
  ss_trigger_confirm_ms :: u32
  ss_alarm_duration_ms :: u32

definition security_server_init :: "'h \<Rightarrow> 'p \<Rightarrow> ('h, 'p) security_server" where
  "security_server_init h p = \<lparr>ss_hardware = h, ss_persistence = p, ss_mode = Mode_Unlocked,
     ss_last_controller = addr_MainComputer, ss_engine_running = False,
     ss_engine_initialized = False, ss_stop_pending = False, ss_stop_started_ms = 0,
     ss_recovery_requires_stop = False, ss_warning = False, ss_warning_pending = False,
     ss_warning_changed_ms = 0, ss_trigger = False, ss_trigger_pending = False,
     ss_trigger_changed_ms = 0, ss_previous_warning = False, ss_previous_trigger = False,
     ss_alarm_started_ms = 0, ss_alarm_timer_active = False, ss_engine_stop_confirm_ms = 250,
     ss_warning_confirm_ms = 50, ss_trigger_confirm_ms = 100, ss_alarm_duration_ms = 30000\<rparr>"

record security_snapshot =
  sn_mode :: security_mode
  sn_start_inhibit :: bool
  sn_alarm_active :: bool
  sn_shock_warning :: bool
  sn_shock_trigger :: bool
  sn_engine_running :: bool

text \<open>The objects a server is constructed on; a null persistence pointer is \<open>None\<close>.\<close>

record ('h, 'p, 'w) security_env =
  se_hw :: "'h security_hw_ops"
  se_store :: "'p security_store_ops option"
  se_net :: "'w transport_ops"

definition ss_set_engine_stop_confirm_ms :: "u32 \<Rightarrow> ('h, 'p) security_server \<Rightarrow> ('h, 'p) security_server" where
  "ss_set_engine_stop_confirm_ms v s = s\<lparr>ss_engine_stop_confirm_ms := v\<rparr>"

definition ss_set_shock_warning_confirm_ms :: "u32 \<Rightarrow> ('h, 'p) security_server \<Rightarrow> ('h, 'p) security_server" where
  "ss_set_shock_warning_confirm_ms v s = s\<lparr>ss_warning_confirm_ms := v\<rparr>"

definition ss_set_shock_trigger_confirm_ms :: "u32 \<Rightarrow> ('h, 'p) security_server \<Rightarrow> ('h, 'p) security_server" where
  "ss_set_shock_trigger_confirm_ms v s = s\<lparr>ss_trigger_confirm_ms := v\<rparr>"

definition ss_set_alarm_duration_ms :: "u32 \<Rightarrow> ('h, 'p) security_server \<Rightarrow> ('h, 'p) security_server" where
  "ss_set_alarm_duration_ms v s = s\<lparr>ss_alarm_duration_ms := v\<rparr>"

section \<open>Operations\<close>

definition engine_view :: "('h, 'p, 'w) security_env \<Rightarrow> ('h, 'p) security_server \<Rightarrow> bool" where
  "engine_view env s =
    (if ss_engine_initialized s then ss_engine_running s
     else hw_engine_running (se_hw env) (ss_hardware s))"

definition security_state :: "('h, 'p, 'w) security_env \<Rightarrow> ('h, 'p) security_server \<Rightarrow> security_snapshot" where
  "security_state env s = \<lparr>sn_mode = ss_mode s,
     sn_start_inhibit = hw_start_inhibit_active (se_hw env) (ss_hardware s),
     sn_alarm_active = hw_alarm_output_active (se_hw env) (ss_hardware s),
     sn_shock_warning = ss_warning s, sn_shock_trigger = ss_trigger s,
     sn_engine_running = engine_view env s\<rparr>"

definition set_alarm_output :: "('h, 'p, 'w) security_env \<Rightarrow> bool \<Rightarrow> ('h, 'p) security_server
    \<Rightarrow> bool \<times> ('h, 'p) security_server" where
  "set_alarm_output env b s =
    (case hw_set_alarm_output (se_hw env) b (ss_hardware s) of (ok, h) \<Rightarrow> (ok, s\<lparr>ss_hardware := h\<rparr>))"

definition set_start_inhibit :: "('h, 'p, 'w) security_env \<Rightarrow> bool \<Rightarrow> ('h, 'p) security_server
    \<Rightarrow> ('h, 'p) security_server" where
  "set_start_inhibit env b s =
    s\<lparr>ss_hardware := snd (hw_set_start_inhibit (se_hw env) b (ss_hardware s))\<rparr>"

definition persist_armed :: "('h, 'p, 'w) security_env \<Rightarrow> bool \<Rightarrow> ('h, 'p) security_server
    \<Rightarrow> ('h, 'p) security_server" where
  "persist_armed env b s =
    (case se_store env of None \<Rightarrow> s
     | Some st \<Rightarrow> s\<lparr>ss_persistence := snd (st_save_armed st b (ss_persistence s))\<rparr>)"

definition restore_persisted_state :: "('h, 'p, 'w) security_env \<Rightarrow> u32 \<Rightarrow> ('h, 'p) security_server
    \<Rightarrow> bool \<times> ('h, 'p) security_server" where
  "restore_persisted_state env now s =
    (let s1 = snd (set_alarm_output env False s);
         s2 = set_start_inhibit env False s1;
         s3 = s2\<lparr>ss_alarm_timer_active := False\<rparr>;
         (ok, armed, s4) =
           (case se_store env of None \<Rightarrow> (False, False, s3)
            | Some st \<Rightarrow> (case st_load_armed st False (ss_persistence s3) of
                (ok, armed, p) \<Rightarrow> (ok, armed, s3\<lparr>ss_persistence := p\<rparr>)))
     in if \<not> ok \<or> \<not> armed
        then (False, s4\<lparr>ss_mode := Mode_Unlocked, ss_recovery_requires_stop := False\<rparr>)
        else (True, s4\<lparr>ss_mode := Mode_LockPending, ss_engine_running := True,
                ss_engine_initialized := True, ss_stop_pending := False,
                ss_stop_started_ms := now, ss_recovery_requires_stop := True,
                ss_previous_warning := False, ss_previous_trigger := False\<rparr>))"

text \<open>Answers the returned flag and the three variables passed by reference.\<close>

definition update_filtered_assert ::
  "bool \<Rightarrow> bool \<Rightarrow> bool \<Rightarrow> u32 \<Rightarrow> u32 \<Rightarrow> u32 \<Rightarrow> bool \<times> bool \<times> bool \<times> u32" where
  "update_filtered_assert raw steady pending changed_at confirm_ms now =
    (if \<not> raw then (steady, False, False, changed_at)
     else if steady then (False, True, False, changed_at)
     else
       let (pending1, changed1) = (if \<not> pending then (True, now) else (pending, changed_at))
       in if \<not> pending \<and> confirm_ms \<noteq> 0 then (False, steady, pending1, changed1)
          else if now - changed1 < confirm_ms then (False, steady, pending1, changed1)
          else (True, True, False, changed1))"

definition sample_engine :: "('h, 'p, 'w) security_env \<Rightarrow> u32 \<Rightarrow> ('h, 'p) security_server
    \<Rightarrow> ('h, 'p) security_server" where
  "sample_engine env now s =
    (let raw_engine = hw_engine_running (se_hw env) (ss_hardware s) in
     if \<not> ss_engine_initialized s
     then s\<lparr>ss_engine_running := raw_engine, ss_engine_initialized := True\<rparr>
     else if raw_engine then s\<lparr>ss_engine_running := True, ss_stop_pending := False\<rparr>
     else if ss_engine_running s then
       (let s1 = (if \<not> ss_stop_pending s
                  then s\<lparr>ss_stop_pending := True, ss_stop_started_ms := now\<rparr> else s)
        in if now - ss_stop_started_ms s1 \<ge> ss_engine_stop_confirm_ms s1
           then s1\<lparr>ss_engine_running := False, ss_stop_pending := False\<rparr> else s1)
     else s\<lparr>ss_stop_pending := False\<rparr>)"

definition sample_inputs :: "('h, 'p, 'w) security_env \<Rightarrow> u32 \<Rightarrow> ('h, 'p) security_server
    \<Rightarrow> ('h, 'p) security_server" where
  "sample_inputs env now s =
    (let s1 = sample_engine env now s;
         s2 = (case update_filtered_assert (hw_shock_warning_active (se_hw env) (ss_hardware s1))
                 (ss_warning s1) (ss_warning_pending s1) (ss_warning_changed_ms s1)
                 (ss_warning_confirm_ms s1) now of
                 (_, steady, pending, changed) \<Rightarrow> s1\<lparr>ss_warning := steady,
                    ss_warning_pending := pending, ss_warning_changed_ms := changed\<rparr>)
     in case update_filtered_assert (hw_shock_trigger_active (se_hw env) (ss_hardware s2))
              (ss_trigger s2) (ss_trigger_pending s2) (ss_trigger_changed_ms s2)
              (ss_trigger_confirm_ms s2) now of
          (_, steady, pending, changed) \<Rightarrow> s2\<lparr>ss_trigger := steady,
             ss_trigger_pending := pending, ss_trigger_changed_ms := changed\<rparr>)"

definition update_start_inhibit :: "('h, 'p, 'w) security_env \<Rightarrow> ('h, 'p) security_server
    \<Rightarrow> ('h, 'p) security_server" where
  "update_start_inhibit env s =
    set_start_inhibit env
      ((ss_mode s = Mode_Locked \<or> ss_mode s = Mode_Alarm) \<and> \<not> engine_view env s) s"

definition security_event_packet :: "security_event \<Rightarrow> node_address \<Rightarrow> packet" where
  "security_event_packet event destination =
    set_payload 0 (event_code event)
      (default_packet\<lparr>pkt_destination := destination, pkt_type := msg_SecurityEvent, pkt_length := 1\<rparr>)"

definition publish_event :: "('h, 'p, 'w) security_env \<Rightarrow> security_event \<Rightarrow> node_address \<Rightarrow> u32
    \<Rightarrow> bike_node \<Rightarrow> 'w \<Rightarrow> bool \<times> bike_node \<times> 'w" where
  "publish_event env event destination now nd w =
    node_send (se_net env) nd (security_event_packet event destination) now False w"

definition flag_byte :: "bool \<Rightarrow> u8" where
  "flag_byte b = (if b then 1 else 0)"

definition security_state_packet :: "security_snapshot \<Rightarrow> node_address \<Rightarrow> packet" where
  "security_state_packet sn destination =
    (let p = default_packet\<lparr>pkt_destination := destination, pkt_type := msg_SecurityState,
               pkt_flags := FlagResponse, pkt_length := 6\<rparr>;
         p1 = set_payload 0 (mode_code (sn_mode sn)) p;
         p2 = set_payload 1 (flag_byte (sn_start_inhibit sn)) p1;
         p3 = set_payload 2 (flag_byte (sn_alarm_active sn)) p2;
         p4 = set_payload 3 (flag_byte (sn_shock_warning sn)) p3;
         p5 = set_payload 4 (flag_byte (sn_shock_trigger sn)) p4
     in set_payload 5 (flag_byte (sn_engine_running sn)) p5)"

definition publish_security_state :: "('h, 'p, 'w) security_env \<Rightarrow> node_address \<Rightarrow> u32
    \<Rightarrow> ('h, 'p) security_server \<Rightarrow> bike_node \<Rightarrow> 'w \<Rightarrow> bool \<times> bike_node \<times> 'w" where
  "publish_security_state env destination now s nd w =
    node_send (se_net env) nd (security_state_packet (security_state env s) destination) now False w"

definition set_locked :: "('h, 'p, 'w) security_env \<Rightarrow> bool \<Rightarrow> u32 \<Rightarrow> ('h, 'p) security_server
    \<Rightarrow> bike_node \<Rightarrow> 'w \<Rightarrow> bool \<times> ('h, 'p) security_server \<times> bike_node \<times> 'w" where
  "set_locked env locked now s nd w =
    (let s1 = sample_inputs env now s in
     if \<not> locked then
       (let s2 = snd (set_alarm_output env False (s1\<lparr>ss_mode := Mode_Unlocked\<rparr>));
            s3 = set_start_inhibit env False s2;
            s4 = s3\<lparr>ss_alarm_timer_active := False, ss_recovery_requires_stop := False\<rparr>;
            s5 = persist_armed env False s4;
            (_, nd', w') = publish_event env Event_Unlocked (ss_last_controller s5) now nd w
        in (True, s5, nd', w'))
     else
       (let s2 = snd (set_alarm_output env False s1);
            s3 = s2\<lparr>ss_alarm_timer_active := False, ss_recovery_requires_stop := False\<rparr>;
            s4 = persist_armed env True s3;
            (s5, event) = (if ss_engine_running s4 then (s4\<lparr>ss_mode := Mode_LockPending\<rparr>, Event_LockPending)
                           else (s4\<lparr>ss_mode := Mode_Locked\<rparr>, Event_Locked));
            (_, nd', w') = publish_event env event (ss_last_controller s5) now nd w
        in (True, update_start_inhibit env s5, nd', w')))"

definition start_alarm :: "('h, 'p, 'w) security_env \<Rightarrow> node_address \<Rightarrow> u32 \<Rightarrow> ('h, 'p) security_server
    \<Rightarrow> bike_node \<Rightarrow> 'w \<Rightarrow> bool \<times> ('h, 'p) security_server \<times> bike_node \<times> 'w" where
  "start_alarm env report_to now s nd w =
    (if ss_mode s \<noteq> Mode_Locked then (False, s, nd, w)
     else case set_alarm_output env True s of
       (ok, s1) \<Rightarrow>
         if \<not> ok then (False, s1, nd, w)
         else
           let s2 = update_start_inhibit env (s1\<lparr>ss_mode := Mode_Alarm, ss_alarm_started_ms := now,
                       ss_alarm_timer_active := True\<rparr>);
               (_, nd', w') = publish_event env Event_AlarmStarted report_to now nd w
           in (True, s2, nd', w'))"

definition stop_alarm :: "('h, 'p, 'w) security_env \<Rightarrow> node_address \<Rightarrow> u32 \<Rightarrow> ('h, 'p) security_server
    \<Rightarrow> bike_node \<Rightarrow> 'w \<Rightarrow> bool \<times> ('h, 'p) security_server \<times> bike_node \<times> 'w" where
  "stop_alarm env report_to now s nd w =
    (case set_alarm_output env False s of
       (ok, s1) \<Rightarrow>
         if \<not> ok then (False, s1, nd, w)
         else
           let s2 = s1\<lparr>ss_alarm_timer_active := False\<rparr>;
               s3 = (if ss_mode s2 = Mode_Alarm then s2\<lparr>ss_mode := Mode_Locked\<rparr> else s2);
               s4 = update_start_inhibit env s3;
               (_, nd', w') = publish_event env Event_AlarmStopped report_to now nd w
           in (True, s4, nd', w'))"

definition handle_security_command :: "('h, 'p, 'w) security_env \<Rightarrow> security_command \<Rightarrow> node_address
    \<Rightarrow> u16 \<Rightarrow> bool \<Rightarrow> u32 \<Rightarrow> ('h, 'p) security_server \<Rightarrow> bike_node \<Rightarrow> 'w
    \<Rightarrow> bool \<times> ('h, 'p) security_server \<times> bike_node \<times> 'w" where
  "handle_security_command env command source sequence ack_required now s nd w =
    (let s1 = s\<lparr>ss_last_controller := source\<rparr>;
         (ok, s2, nd2, w2) =
           (if command = cmd_Lock then set_locked env True now s1 nd w
            else if command = cmd_Unlock then set_locked env False now s1 nd w
            else if command = cmd_SilenceAlarm then stop_alarm env source now s1 nd w
            else if command = cmd_RequestState
            then (let s' = update_start_inhibit env (sample_inputs env now s1);
                      (k, nd', w') = publish_security_state env source now s' nd w
                  in (k, s', nd', w'))
            else (False, s1, nd, w));
         w3 = (if ack_required then snd (node_send_ack (se_net env) nd2 source sequence (\<not> ok) w2)
               else w2);
         (nd4, w4) = (if ok \<and> command \<noteq> cmd_RequestState
                      then snd (publish_security_state env source now s2 nd2 w3) else (nd2, w3))
     in (ok, s2, nd4, w4))"

definition security_handle_packet :: "('h, 'p, 'w) security_env \<Rightarrow> packet \<Rightarrow> u32 \<Rightarrow> ('h, 'p) security_server
    \<Rightarrow> bike_node \<Rightarrow> 'w \<Rightarrow> bool \<times> ('h, 'p) security_server \<times> bike_node \<times> 'w" where
  "security_handle_packet env p now s nd w =
    (if pkt_type p \<noteq> msg_SecurityCommand then (False, s, nd, w)
     else if pkt_length p \<noteq> 1
     then (True, s, nd,
           (if pkt_flags p AND FlagAckRequired \<noteq> 0
            then snd (node_send_ack (se_net env) nd (pkt_source p) (pkt_sequence p) True w) else w))
     else handle_security_command env (pkt_payload p ! 0) (pkt_source p) (pkt_sequence p)
            (pkt_flags p AND FlagAckRequired \<noteq> 0) now s nd w)"

text \<open>The steps of \<open>service\<close>, in order.\<close>

definition service_confirm :: "('h, 'p, 'w) security_env \<Rightarrow> u32 \<Rightarrow> ('h, 'p) security_server
    \<Rightarrow> bike_node \<Rightarrow> 'w \<Rightarrow> ('h, 'p) security_server \<times> bike_node \<times> 'w" where
  "service_confirm env now s nd w =
    (if ss_mode s = Mode_LockPending \<and> \<not> ss_engine_running s
     then (let s' = s\<lparr>ss_mode := Mode_Locked, ss_recovery_requires_stop := False\<rparr>;
               (_, nd', w') = publish_event env Event_Locked (ss_last_controller s') now nd w;
               (_, nd'', w'') = publish_security_state env (ss_last_controller s') now s' nd' w'
           in (s', nd'', w''))
     else (s, nd, w))"

definition service_expire :: "('h, 'p, 'w) security_env \<Rightarrow> u32 \<Rightarrow> ('h, 'p) security_server
    \<Rightarrow> bike_node \<Rightarrow> 'w \<Rightarrow> ('h, 'p) security_server \<times> bike_node \<times> 'w" where
  "service_expire env now s nd w =
    (if ss_mode s = Mode_Alarm \<and> ss_alarm_timer_active s
        \<and> now - ss_alarm_started_ms s \<ge> ss_alarm_duration_ms s
     then (let (_, s', nd', w') = stop_alarm env (ss_last_controller s) now s nd w;
               (_, nd'', w'') = publish_security_state env (ss_last_controller s') now s' nd' w'
           in (s', nd'', w''))
     else (s, nd, w))"

definition service_warn :: "('h, 'p, 'w) security_env \<Rightarrow> u32 \<Rightarrow> ('h, 'p) security_server
    \<Rightarrow> bike_node \<Rightarrow> 'w \<Rightarrow> bike_node \<times> 'w" where
  "service_warn env now s nd w =
    (if ss_mode s = Mode_Locked \<and> ss_warning s \<and> \<not> ss_previous_warning s
     then snd (publish_event env Event_ShockWarning (ss_last_controller s) now nd w)
     else (nd, w))"

definition service_trigger :: "('h, 'p, 'w) security_env \<Rightarrow> u32 \<Rightarrow> ('h, 'p) security_server
    \<Rightarrow> bike_node \<Rightarrow> 'w \<Rightarrow> ('h, 'p) security_server \<times> bike_node \<times> 'w" where
  "service_trigger env now s nd w =
    (if ss_mode s = Mode_Locked \<and> ss_trigger s \<and> \<not> ss_previous_trigger s
     then (let (_, nd', w') = publish_event env Event_ShockTrigger (ss_last_controller s) now nd w;
               (ok, s', nd'', w'') = start_alarm env (ss_last_controller s) now s nd' w'
           in if ok then (s', snd (publish_security_state env (ss_last_controller s') now s' nd'' w''))
              else (s', nd'', w''))
     else (s, nd, w))"

definition security_service :: "('h, 'p, 'w) security_env \<Rightarrow> u32 \<Rightarrow> ('h, 'p) security_server
    \<Rightarrow> bike_node \<Rightarrow> 'w \<Rightarrow> ('h, 'p) security_server \<times> bike_node \<times> 'w" where
  "security_service env now s nd w =
    (case service_confirm env now (sample_inputs env now s) nd w of
       (s2, nd2, w2) \<Rightarrow>
         case service_expire env now (update_start_inhibit env s2) nd2 w2 of
           (s4, nd4, w4) \<Rightarrow>
             case service_warn env now s4 nd4 w4 of
               (nd5, w5) \<Rightarrow>
                 case service_trigger env now s4 nd5 w5 of
                   (s6, nd6, w6) \<Rightarrow>
                     (s6\<lparr>ss_previous_warning := ss_warning s6, ss_previous_trigger := ss_trigger s6\<rparr>,
                      nd6, w6))"

section \<open>The client\<close>

definition security_client_command :: "'w transport_ops \<Rightarrow> security_command \<Rightarrow> u32 \<Rightarrow> bool
    \<Rightarrow> bike_node \<Rightarrow> 'w \<Rightarrow> bool \<times> bike_node \<times> 'w" where
  "security_client_command ops command now require_ack nd w =
    node_send ops nd (set_payload 0 command
      (default_packet\<lparr>pkt_destination := addr_Security, pkt_type := msg_SecurityCommand,
         pkt_length := 1\<rparr>)) now require_ack w"

definition security_client_lock :: "'w transport_ops \<Rightarrow> u32 \<Rightarrow> bool \<Rightarrow> bike_node \<Rightarrow> 'w \<Rightarrow> bool \<times> bike_node \<times> 'w" where
  "security_client_lock ops now require_ack nd w = security_client_command ops cmd_Lock now require_ack nd w"

definition security_client_unlock :: "'w transport_ops \<Rightarrow> u32 \<Rightarrow> bool \<Rightarrow> bike_node \<Rightarrow> 'w \<Rightarrow> bool \<times> bike_node \<times> 'w" where
  "security_client_unlock ops now require_ack nd w = security_client_command ops cmd_Unlock now require_ack nd w"

definition security_client_silence :: "'w transport_ops \<Rightarrow> u32 \<Rightarrow> bool \<Rightarrow> bike_node \<Rightarrow> 'w \<Rightarrow> bool \<times> bike_node \<times> 'w" where
  "security_client_silence ops now require_ack nd w = security_client_command ops cmd_SilenceAlarm now require_ack nd w"

definition security_client_request_state :: "'w transport_ops \<Rightarrow> u32 \<Rightarrow> bike_node \<Rightarrow> 'w \<Rightarrow> bool \<times> bike_node \<times> 'w" where
  "security_client_request_state ops now nd w = security_client_command ops cmd_RequestState now False nd w"

end
