(* ===== verification/LightingServer.thy ===== *)
theory LightingServer
  imports NodeLink DeviceInfo
begin

text \<open>
  The lighting controller's core: the outputs it drives, the command server
  (\<open>library/src/lighting_server.cpp\<close>), the service loop around it
  (\<open>library/src/lighting_controller.cpp\<close>) and the client that commands it
  (\<open>library/src/lighting.cpp\<close>).

  The abstract classes \<open>LightingHardware\<close>, \<open>LightingInputs\<close> and \<open>LightingElectricalFeedback\<close>
  are records of functions over the state \<open>'h\<close> of the board. The server, the local control, the
  diagnostics and the fault manager of one firmware refer to the same board: its state is kept
  once, in the server's record.
\<close>

section \<open>Outputs\<close>

datatype lighting_output = LeftIndicator | RightIndicator | BrakeBright | HighBeam

fun output_code :: "lighting_output \<Rightarrow> u8" where
  "output_code LeftIndicator = 0x01"
| "output_code RightIndicator = 0x02"
| "output_code BrakeBright = 0x03"
| "output_code HighBeam = 0x04"

text \<open>\<open>static_cast<LightingOutput>(raw)\<close>, where it names an enumerator.\<close>

definition output_of_code :: "u8 \<Rightarrow> lighting_output option" where
  "output_of_code raw =
    (if raw = 0x01 then Some LeftIndicator else if raw = 0x02 then Some RightIndicator
     else if raw = 0x03 then Some BrakeBright else if raw = 0x04 then Some HighBeam else None)"

definition valid_output :: "u8 \<Rightarrow> bool" where
  "valid_output raw = (output_of_code raw \<noteq> None)"

definition kOutputs :: "lighting_output list" where
  "kOutputs = [LeftIndicator, RightIndicator, BrakeBright, HighBeam]"

text \<open>\<open>index_for\<close>, the cell of an output in the arrays kept per output.\<close>

fun index_for :: "lighting_output \<Rightarrow> nat" where
  "index_for LeftIndicator = 0"
| "index_for RightIndicator = 1"
| "index_for BrakeBright = 2"
| "index_for HighBeam = 3"

lemma output_of_code_inverse [simp]: "output_of_code (output_code o') = Some o'"
  by (cases o') (simp_all add: output_of_code_def)

lemma output_of_code_SomeD: "output_of_code raw = Some o' \<Longrightarrow> raw = output_code o'"
  by (auto simp: output_of_code_def split: if_splits)

lemma valid_output_code: "valid_output raw \<longleftrightarrow> raw \<in> output_code ` UNIV"
  by (auto simp: valid_output_def dest: output_of_code_SomeD)

lemma valid_output_obtain:
  assumes "valid_output raw"
  obtains o' where "output_of_code raw = Some o'" and "raw = output_code o'"
  using assms by (auto simp: valid_output_def dest: output_of_code_SomeD)

lemma output_code_inj [simp]: "output_code a = output_code b \<longleftrightarrow> a = b"
  by (metis option.inject output_of_code_inverse)

lemma set_kOutputs [simp]: "set kOutputs = UNIV" and distinct_kOutputs [simp]: "distinct kOutputs"
proof -
  show "set kOutputs = UNIV" unfolding kOutputs_def
    by (rule set_eqI, rename_tac o', case_tac o') auto
qed (simp add: kOutputs_def)

lemma index_for_less [simp]: "index_for o' < 4"
  by (cases o') simp_all

lemma index_for_inj [simp]: "index_for a = index_for b \<longleftrightarrow> a = b"
  by (cases a; cases b) simp_all

text \<open>Outputs are ordered by their codes, the order in which every scan visits them.\<close>

instantiation lighting_output :: linorder
begin

definition less_eq_lighting_output :: "lighting_output \<Rightarrow> lighting_output \<Rightarrow> bool" where
  "less_eq_lighting_output a b = (output_code a \<le> output_code b)"

definition less_lighting_output :: "lighting_output \<Rightarrow> lighting_output \<Rightarrow> bool" where
  "less_lighting_output a b = (output_code a < output_code b)"

instance
  by standard (auto simp: less_eq_lighting_output_def less_lighting_output_def order.strict_iff_order)

end

lemma sorted_kOutputs: "sorted kOutputs"
  by (simp add: kOutputs_def less_eq_lighting_output_def)

section \<open>Interfaces\<close>

record 'h lighting_hw_ops =
  lh_write_output :: "lighting_output \<Rightarrow> bool \<Rightarrow> 'h \<Rightarrow> bool \<times> 'h"
  lh_read_output :: "lighting_output \<Rightarrow> 'h \<Rightarrow> bool"

record 'h lighting_input_ops =
  in_left_indicator_requested :: "'h \<Rightarrow> bool"
  in_right_indicator_requested :: "'h \<Rightarrow> bool"
  in_front_brake_active :: "'h \<Rightarrow> bool"
  in_rear_brake_active :: "'h \<Rightarrow> bool"
  in_high_beam_requested :: "'h \<Rightarrow> bool"

definition brake_active :: "'h lighting_input_ops \<Rightarrow> 'h \<Rightarrow> bool" where
  "brake_active inp h = (in_front_brake_active inp h \<or> in_rear_brake_active inp h)"

text \<open>\<open>read_current_ma\<close> answers success and the value left in its reference argument.\<close>

record 'h lighting_feedback_ops =
  fb_read_current_ma :: "lighting_output \<Rightarrow> u16 \<Rightarrow> 'h \<Rightarrow> bool \<times> u16"

record ('h, 'w) lighting_env =
  le_hw :: "'h lighting_hw_ops"
  le_inputs :: "'h lighting_input_ops"
  le_feedback :: "'h lighting_feedback_ops"
  le_net :: "'w transport_ops"

text \<open>
  What the controller relies on: an output that could be written reads back as written, an output
  that could not be written is unchanged, and the outputs are independent.
\<close>

locale lighting_hardware =
  fixes hw :: "'h lighting_hw_ops"
  assumes write_read: "lh_write_output hw o1 b h = (True, h') \<Longrightarrow> lh_read_output hw o1 h' = b"
    and write_refused: "lh_write_output hw o1 b h = (False, h') \<Longrightarrow>
      lh_read_output hw o1 h' = lh_read_output hw o1 h"
    and write_other: "lh_write_output hw o1 b h = (r, h') \<Longrightarrow> o2 \<noteq> o1 \<Longrightarrow>
      lh_read_output hw o2 h' = lh_read_output hw o2 h"
begin

lemma read_after_write:
  "lh_read_output hw o2 (snd (lh_write_output hw o1 b h)) =
    (if o2 = o1 \<and> fst (lh_write_output hw o1 b h) then b else lh_read_output hw o2 h)"
  using write_read [of o1 b h] write_refused [of o1 b h] write_other [of o1 b h _ _ o2]
  by (cases "lh_write_output hw o1 b h") auto

end

text \<open>Hardware that never refuses, like plain GPIO pins.\<close>

locale reliable_lighting = lighting_hardware +
  assumes write_works: "fst (lh_write_output hw o1 b h)"
begin

lemma read_written [simp]:
  "lh_read_output hw o2 (snd (lh_write_output hw o1 b h)) = (if o2 = o1 then b else lh_read_output hw o2 h)"
  using read_after_write [of o2 o1 b h] write_works [of o1 b h] by simp

end

section \<open>State\<close>

record lighting_state =
  lst_left_indicator :: bool
  lst_right_indicator :: bool
  lst_brake_bright :: bool
  lst_high_beam :: bool

definition default_lighting_state :: lighting_state where
  "default_lighting_state = \<lparr>lst_left_indicator = False, lst_right_indicator = False,
     lst_brake_bright = False, lst_high_beam = False\<rparr>"

record 'h lighting_server =
  ls_hardware :: 'h
  ls_commanded :: lighting_state

definition lighting_server_init :: "'h \<Rightarrow> 'h lighting_server" where
  "lighting_server_init h = \<lparr>ls_hardware = h, ls_commanded = default_lighting_state\<rparr>"

fun state_value :: "lighting_state \<Rightarrow> lighting_output \<Rightarrow> bool" where
  "state_value st LeftIndicator = lst_left_indicator st"
| "state_value st RightIndicator = lst_right_indicator st"
| "state_value st BrakeBright = lst_brake_bright st"
| "state_value st HighBeam = lst_high_beam st"

section \<open>Operations\<close>

fun set_commanded :: "lighting_output \<Rightarrow> bool \<Rightarrow> 'h lighting_server \<Rightarrow> 'h lighting_server" where
  "set_commanded LeftIndicator b s = s\<lparr>ls_commanded := (ls_commanded s)\<lparr>lst_left_indicator := b\<rparr>\<rparr>"
| "set_commanded RightIndicator b s = s\<lparr>ls_commanded := (ls_commanded s)\<lparr>lst_right_indicator := b\<rparr>\<rparr>"
| "set_commanded BrakeBright b s = s\<lparr>ls_commanded := (ls_commanded s)\<lparr>lst_brake_bright := b\<rparr>\<rparr>"
| "set_commanded HighBeam b s = s\<lparr>ls_commanded := (ls_commanded s)\<lparr>lst_high_beam := b\<rparr>\<rparr>"

definition apply_output :: "('h, 'w) lighting_env \<Rightarrow> lighting_output \<Rightarrow> bool \<Rightarrow> 'h lighting_server
    \<Rightarrow> bool \<times> 'h lighting_server" where
  "apply_output env o1 b s =
    (case lh_write_output (le_hw env) o1 b (ls_hardware s) of
       (ok, h) \<Rightarrow> if \<not> ok then (False, s\<lparr>ls_hardware := h\<rparr>)
                  else (True, set_commanded o1 b (s\<lparr>ls_hardware := h\<rparr>)))"

definition actual_state :: "('h, 'w) lighting_env \<Rightarrow> 'h lighting_server \<Rightarrow> lighting_state" where
  "actual_state env s =
    (let rd = (\<lambda>o1. lh_read_output (le_hw env) o1 (ls_hardware s))
     in \<lparr>lst_left_indicator = rd LeftIndicator, lst_right_indicator = rd RightIndicator,
        lst_brake_bright = rd BrakeBright, lst_high_beam = rd HighBeam\<rparr>)"

text \<open>The loop over the outputs, from index \<open>i\<close> on.\<close>

fun put_output_states :: "lighting_state \<Rightarrow> lighting_output list \<Rightarrow> nat \<Rightarrow> packet \<Rightarrow> packet" where
  "put_output_states st [] i p = p"
| "put_output_states st (o1 # os) i p =
    put_output_states st os (i + 1)
      (set_payload (i * 2 + 1) (if state_value st o1 then 1 else 0) (set_payload (i * 2) (output_code o1) p))"

definition lighting_state_packet :: "lighting_state \<Rightarrow> node_address \<Rightarrow> packet" where
  "lighting_state_packet st destination =
    put_output_states st kOutputs 0
      (default_packet\<lparr>pkt_destination := destination, pkt_type := msg_StateUpdate, pkt_length := 8\<rparr>)"

definition publish_lighting_state :: "('h, 'w) lighting_env \<Rightarrow> node_address \<Rightarrow> u32 \<Rightarrow> 'h lighting_server
    \<Rightarrow> bike_node \<Rightarrow> 'w \<Rightarrow> bool \<times> bike_node \<times> 'w" where
  "publish_lighting_state env destination now s nd w =
    node_send (le_net env) nd (lighting_state_packet (actual_state env s) destination) now False w"

definition lighting_handle_packet :: "('h, 'w) lighting_env \<Rightarrow> packet \<Rightarrow> u32 \<Rightarrow> 'h lighting_server
    \<Rightarrow> bike_node \<Rightarrow> 'w \<Rightarrow> bool \<times> 'h lighting_server \<times> bike_node \<times> 'w" where
  "lighting_handle_packet env p now s nd w =
    (if pkt_type p \<noteq> msg_SetOutput then (False, s, nd, w)
     else if pkt_length p \<noteq> 2 \<or> \<not> valid_output (pkt_payload p ! 0) \<or> pkt_payload p ! 1 > 1
     then (True, s, nd, snd (node_send_ack (le_net env) nd (pkt_source p) (pkt_sequence p) True w))
     else
       case apply_output env (the (output_of_code (pkt_payload p ! 0))) (pkt_payload p ! 1 \<noteq> 0) s of
         (ok, s1) \<Rightarrow>
           if \<not> ok
           then (True, s1, nd, snd (node_send_ack (le_net env) nd (pkt_source p) (pkt_sequence p) True w))
           else
             let w1 = snd (node_send_ack (le_net env) nd (pkt_source p) (pkt_sequence p) False w)
             in (True, s1, snd (publish_lighting_state env (pkt_source p) now s1 nd w1)))"

section \<open>The controller\<close>

definition lighting_identity :: device_identity where
  "lighting_identity = default_identity\<lparr>di_device_class := DeviceClass_LightingController,
     di_firmware_major := 0, di_firmware_minor := 1, di_firmware_patch := 0,
     di_hardware_revision := 1, di_capabilities := CapabilityDiagnostics OR CapabilityLighting\<rparr>"

definition lighting_device_info_packet :: "node_address \<Rightarrow> u32 \<Rightarrow> packet" where
  "lighting_device_info_packet destination now =
    encode_device_info_payload addr_Lighting lighting_identity now
      (default_packet\<lparr>pkt_destination := destination, pkt_type := msg_DeviceInfo,
         pkt_flags := FlagResponse\<rparr>)"

definition lighting_send_device_info :: "('h, 'w) lighting_env \<Rightarrow> node_address \<Rightarrow> u32
    \<Rightarrow> bike_node \<Rightarrow> 'w \<Rightarrow> bool \<times> bike_node \<times> 'w" where
  "lighting_send_device_info env destination now nd w =
    node_send (le_net env) nd (lighting_device_info_packet destination now) now False w"

definition lighting_heartbeat_packet :: "node_address \<Rightarrow> packet" where
  "lighting_heartbeat_packet destination = default_packet\<lparr>pkt_destination := destination,
     pkt_type := msg_Heartbeat, pkt_flags := FlagResponse, pkt_length := 0\<rparr>"

definition lighting_send_heartbeat :: "('h, 'w) lighting_env \<Rightarrow> node_address \<Rightarrow> u32
    \<Rightarrow> bike_node \<Rightarrow> 'w \<Rightarrow> bool \<times> bike_node \<times> 'w" where
  "lighting_send_heartbeat env destination now nd w =
    node_send (le_net env) nd (lighting_heartbeat_packet destination) now False w"

text \<open>\<open>if ((packet.flags & FlagAckRequired) != 0) node_.send_ack(packet.source, packet.sequence, nack)\<close>\<close>

definition ack_if_required :: "('h, 'w) lighting_env \<Rightarrow> packet \<Rightarrow> bool \<Rightarrow> bike_node \<Rightarrow> 'w \<Rightarrow> 'w" where
  "ack_if_required env p nack nd w =
    (if pkt_flags p AND FlagAckRequired \<noteq> 0
     then snd (node_send_ack (le_net env) nd (pkt_source p) (pkt_sequence p) nack w) else w)"

definition lighting_handle_system :: "('h, 'w) lighting_env \<Rightarrow> packet \<Rightarrow> u32 \<Rightarrow> 'h lighting_server
    \<Rightarrow> bike_node \<Rightarrow> 'w \<Rightarrow> bool \<times> bike_node \<times> 'w" where
  "lighting_handle_system env p now s nd w =
    (if pkt_type p = msg_DeviceDiscovery
     then (True, snd (lighting_send_device_info env (pkt_source p) now nd (ack_if_required env p False nd w)))
     else if pkt_type p = msg_Heartbeat
     then (True, snd (lighting_send_heartbeat env (pkt_source p) now nd (ack_if_required env p False nd w)))
     else if pkt_type p = msg_GetState
     then (True, snd (publish_lighting_state env (pkt_source p) now s nd (ack_if_required env p False nd w)))
     else (False, nd, w))"

definition lighting_body :: "('h, 'w) lighting_env \<Rightarrow> u32 \<Rightarrow> packet \<Rightarrow> 'h lighting_server
    \<Rightarrow> bike_node \<Rightarrow> 'w \<Rightarrow> 'h lighting_server \<times> bike_node \<times> 'w" where
  "lighting_body env now p s nd w =
    (case lighting_handle_system env p now s nd w of
       (handled, nd1, w1) \<Rightarrow>
         if handled then (s, nd1, w1)
         else case lighting_handle_packet env p now s nd1 w1 of
           (handled2, s2, nd2, w2) \<Rightarrow>
             if handled2 then (s2, nd2, w2) else (s2, nd2, ack_if_required env p True nd2 w2))"

definition lighting_controller_service :: "('h, 'w) lighting_env \<Rightarrow> u32 \<Rightarrow> 'h lighting_server
    \<Rightarrow> bike_node \<Rightarrow> 'w \<Rightarrow> ('h lighting_server \<times> bike_node \<times> 'w) option" where
  "lighting_controller_service env now s nd w =
    (case node_drain (le_net env) now (lighting_body env now) s nd w of
       None \<Rightarrow> None
     | Some (s1, nd1, w1) \<Rightarrow>
         (case node_service (le_net env) nd1 now w1 of (nd2, w2) \<Rightarrow> Some (s1, nd2, w2)))"

section \<open>The client\<close>

definition lighting_set_output :: "'w transport_ops \<Rightarrow> lighting_output \<Rightarrow> bool \<Rightarrow> u32 \<Rightarrow> bool
    \<Rightarrow> bike_node \<Rightarrow> 'w \<Rightarrow> bool \<times> bike_node \<times> 'w" where
  "lighting_set_output ops o1 b now require_ack nd w =
    node_send ops nd (set_payload 1 (if b then 1 else 0) (set_payload 0 (output_code o1)
      (default_packet\<lparr>pkt_destination := addr_Lighting, pkt_type := msg_SetOutput, pkt_length := 2\<rparr>)))
      now require_ack w"

definition set_left_indicator :: "'w transport_ops \<Rightarrow> bool \<Rightarrow> u32 \<Rightarrow> bool \<Rightarrow> bike_node \<Rightarrow> 'w \<Rightarrow> bool \<times> bike_node \<times> 'w" where
  "set_left_indicator ops b now require_ack nd w = lighting_set_output ops LeftIndicator b now require_ack nd w"

definition set_right_indicator :: "'w transport_ops \<Rightarrow> bool \<Rightarrow> u32 \<Rightarrow> bool \<Rightarrow> bike_node \<Rightarrow> 'w \<Rightarrow> bool \<times> bike_node \<times> 'w" where
  "set_right_indicator ops b now require_ack nd w = lighting_set_output ops RightIndicator b now require_ack nd w"

definition set_brake_bright :: "'w transport_ops \<Rightarrow> bool \<Rightarrow> u32 \<Rightarrow> bool \<Rightarrow> bike_node \<Rightarrow> 'w \<Rightarrow> bool \<times> bike_node \<times> 'w" where
  "set_brake_bright ops b now require_ack nd w = lighting_set_output ops BrakeBright b now require_ack nd w"

definition set_high_beam :: "'w transport_ops \<Rightarrow> bool \<Rightarrow> u32 \<Rightarrow> bool \<Rightarrow> bike_node \<Rightarrow> 'w \<Rightarrow> bool \<times> bike_node \<times> 'w" where
  "set_high_beam ops b now require_ack nd w = lighting_set_output ops HighBeam b now require_ack nd w"

section \<open>What the operations keep\<close>

lemma set_commanded_sel [simp]:
  "ls_hardware (set_commanded o1 b s) = ls_hardware s"
  "state_value (ls_commanded (set_commanded o1 b s)) o2 =
    (if o2 = o1 then b else state_value (ls_commanded s) o2)"
  by (cases o1; simp; cases o2; simp)+

lemma state_value_actual [simp]:
  "state_value (actual_state env s) o1 = lh_read_output (le_hw env) o1 (ls_hardware s)"
  by (cases o1) (simp_all add: actual_state_def)

lemma state_value_ext: "(\<And>o1. state_value a o1 = state_value b o1) \<Longrightarrow> a = b"
  using state_value.simps by (metis lighting_state.equality old.unit.exhaust)

lemma put_output_states_sel [simp]:
  "pkt_destination (put_output_states st os i p) = pkt_destination p"
  "pkt_type (put_output_states st os i p) = pkt_type p"
  "pkt_length (put_output_states st os i p) = pkt_length p"
  "pkt_sequence (put_output_states st os i p) = pkt_sequence p"
  "pkt_flags (put_output_states st os i p) = pkt_flags p"
  "wf_packet (put_output_states st os i p) = wf_packet p"
  by (induction st os i p rule: put_output_states.induct) simp_all

lemma lighting_packet_sel [simp]:
  "wf_packet (lighting_state_packet st d)" "pkt_length (lighting_state_packet st d) = 8"
  "pkt_destination (lighting_state_packet st d) = d"
  "pkt_type (lighting_state_packet st d) = msg_StateUpdate"
  "wf_packet (lighting_device_info_packet d now)" "wf_packet (lighting_heartbeat_packet d)"
  "pkt_length (lighting_heartbeat_packet d) = 0"
  "calm (lighting_device_info_packet d now)" "calm (lighting_heartbeat_packet d)"
  by (simp_all add: lighting_state_packet_def lighting_device_info_packet_def lighting_heartbeat_packet_def)

lemma publish_lighting_talk:
  "publish_lighting_state env d now s nd w = (ok, nd', w') \<Longrightarrow> node_talk (le_net env) (nd, w) (nd', w')"
  by (rule talk_send1 [OF lighting_packet_sel(1)]) (simp_all add: publish_lighting_state_def)

lemma publish_lighting_talk':
  "node_talk (le_net env) (nd, w) (snd (publish_lighting_state env d now s nd w))"
  using publish_lighting_talk [of env d now s nd w] by (metis prod.collapse)

lemma ack_if_required_talk: "node_talk (le_net env) (nd, w) (nd, ack_if_required env p n nd w)"
  by (simp add: ack_if_required_def talk_ack1 talk_refl)

lemma lighting_handle_system_talk:
  assumes "lighting_handle_system env p now s nd w = (h, nd', w')"
  shows "node_talk (le_net env) (nd, w) (nd', w')"
proof -
  let ?w = "ack_if_required env p False nd w"
  have sends: "node_talk (le_net env) (nd, ?w) (snd (lighting_send_device_info env d now nd ?w))"
    "node_talk (le_net env) (nd, ?w) (snd (lighting_send_heartbeat env d now nd ?w))" for d
    unfolding lighting_send_device_info_def lighting_send_heartbeat_def
    by (metis talk_send1 lighting_packet_sel(5,8) prod.collapse, metis talk_send1 lighting_packet_sel(6,9) prod.collapse)
  note steps = talk_trans [OF sends(1) ack_if_required_talk] talk_trans [OF sends(2) ack_if_required_talk]
    talk_trans [OF publish_lighting_talk' ack_if_required_talk]
  have "(nd', w') = snd (lighting_handle_system env p now s nd w)" using assms by simp
  then show ?thesis
    by (simp add: lighting_handle_system_def steps talk_refl split: if_splits)
qed

lemma lighting_handle_packet_talk:
  assumes "lighting_handle_packet env p now s nd w = (h, s', nd', w')"
  shows "node_talk (le_net env) (nd, w) (nd', w')"
proof -
  note publish = talk_trans [OF publish_lighting_talk' talk_ack1]
  have "(nd', w') = snd (snd (lighting_handle_packet env p now s nd w))" using assms by simp
  then show ?thesis
    by (simp add: lighting_handle_packet_def Let_def talk_ack1 publish talk_refl
      split: if_splits prod.splits)
qed

lemma lighting_body_talk:
  assumes "lighting_body env now p s nd w = (s', nd', w')"
  shows "node_talk (le_net env) (nd, w) (nd', w')"
proof -
  obtain h nd1 w1 where h: "lighting_handle_system env p now s nd w = (h, nd1, w1)" by (metis prod_cases3)
  obtain h2 s2 nd2 w2 where h2: "lighting_handle_packet env p now s nd1 w1 = (h2, s2, nd2, w2)"
    by (metis prod_cases4)
  note 1 = lighting_handle_system_talk [OF h]
  note 2 = talk_trans [OF lighting_handle_packet_talk [OF h2] 1]
  note 3 = talk_trans [OF ack_if_required_talk 2]
  show ?thesis using assms h h2 1 2 3 by (auto simp: lighting_body_def split: if_splits)
qed

lemma lighting_handle_packet_server:
  assumes "lighting_handle_packet env p now s nd w = (h, s', nd', w')"
  shows "s' = s \<or> (\<exists>o1 b. s' = snd (apply_output env o1 b s))"
proof -
  let ?a = "apply_output env (the (output_of_code (pkt_payload p ! 0))) (pkt_payload p ! Suc 0 \<noteq> 0) s"
  obtain ok s1 where a: "?a = (ok, s1)" by fastforce
  have "s' = s \<or> s' = snd ?a"
    using assms a by (auto simp: lighting_handle_packet_def Let_def split: if_splits)
  then show ?thesis by blast
qed

lemma lighting_body_server:
  assumes "lighting_body env now p s nd w = (s', nd', w')"
  shows "s' = s \<or> (\<exists>o1 b. s' = snd (apply_output env o1 b s))"
proof -
  obtain h nd1 w1 where h: "lighting_handle_system env p now s nd w = (h, nd1, w1)" by (metis prod_cases3)
  obtain h2 s2 nd2 w2 where h2: "lighting_handle_packet env p now s nd1 w1 = (h2, s2, nd2, w2)"
    by (metis prod_cases4)
  show ?thesis using assms h h2 lighting_handle_packet_server [OF h2]
    by (auto simp: lighting_body_def split: if_splits)
qed

lemma lighting_controller_ends:
  assumes "finite_transport (le_net env) avail"
  shows "\<exists>r. lighting_controller_service env now s nd w = Some r"
proof -
  have "\<exists>r. node_drain (le_net env) now (lighting_body env now) s nd w = Some r"
    by (rule node_drain_talk_ends [OF assms]) (rule lighting_body_talk)
  then obtain s1 nd1 w1 where
    "node_drain (le_net env) now (lighting_body env now) s nd w = Some (s1, nd1, w1)" by auto
  then show ?thesis by (auto simp: lighting_controller_service_def split: prod.split)
qed

end
