(* ===== verification/LightingFaults.thy ===== *)
theory LightingFaults
  imports LightingServer
begin

text \<open>
  Electrical supervision of the lighting outputs: the channel diagnostics and their periodic report
  (\<open>library/src/lighting_diagnostics.cpp\<close>), and the fault manager that confirms, latches and
  reports faults and can switch an overloaded output off (\<open>library/src/lighting_fault_manager.cpp\<close>).
  Arrays of four cells per output are functions from the cell's index, which \<open>index_for\<close> keeps
  below four.
\<close>

section \<open>Data\<close>

datatype electrical_status = ES_Unknown | ES_Off | ES_Ok | ES_OpenLoad | ES_OverCurrent

fun status_code :: "electrical_status \<Rightarrow> u8" where
  "status_code ES_Unknown = 0x00"
| "status_code ES_Off = 0x01"
| "status_code ES_Ok = 0x02"
| "status_code ES_OpenLoad = 0x03"
| "status_code ES_OverCurrent = 0x04"

record current_limits =
  cl_open_load_below_ma :: u16
  cl_over_current_above_ma :: u16

definition default_limits :: current_limits where
  "default_limits = \<lparr>cl_open_load_below_ma = 50, cl_over_current_above_ma = 5000\<rparr>"

record channel_diagnostic =
  cd_output :: lighting_output
  cd_driven :: bool
  cd_feedback_available :: bool
  cd_status :: electrical_status
  cd_current_ma :: u16

record lighting_diagnostics =
  ld_limits :: "nat \<Rightarrow> current_limits"
  ld_publish_interval_ms :: u32
  ld_last_publish_ms :: u32
  ld_published_once :: bool

definition lighting_diagnostics_init :: lighting_diagnostics where
  "lighting_diagnostics_init = \<lparr>ld_limits = (\<lambda>_. default_limits), ld_publish_interval_ms = 1000,
     ld_last_publish_ms = 0, ld_published_once = False\<rparr>"

definition set_limits :: "lighting_output \<Rightarrow> current_limits \<Rightarrow> lighting_diagnostics \<Rightarrow> lighting_diagnostics" where
  "set_limits o1 l d =
    (if index_for o1 < 4 then d\<lparr>ld_limits := (ld_limits d)(index_for o1 := l)\<rparr> else d)"

definition set_publish_interval_ms :: "u32 \<Rightarrow> lighting_diagnostics \<Rightarrow> lighting_diagnostics" where
  "set_publish_interval_ms v d = d\<lparr>ld_publish_interval_ms := v\<rparr>"

section \<open>Diagnostics\<close>

definition evaluate_channel :: "('h, 'w) lighting_env \<Rightarrow> lighting_diagnostics \<Rightarrow> lighting_output \<Rightarrow> 'h
    \<Rightarrow> channel_diagnostic" where
  "evaluate_channel env d o1 h =
    (let driven = lh_read_output (le_hw env) o1 h;
         (available, current) = fb_read_current_ma (le_feedback env) o1 0 h;
         limits = ld_limits d (index_for o1);
         status = (if \<not> driven then ES_Off
                   else if \<not> available then ES_Unknown
                   else if index_for o1 \<ge> 4 then ES_Unknown
                   else if current < cl_open_load_below_ma limits then ES_OpenLoad
                   else if current > cl_over_current_above_ma limits then ES_OverCurrent
                   else ES_Ok)
     in \<lparr>cd_output = o1, cd_driven = driven, cd_feedback_available = available, cd_status = status,
        cd_current_ma = current\<rparr>)"

text \<open>The condition \<open>publish\<close> and the fault manager share: an open load or an over-current.\<close>

definition is_fault :: "electrical_status \<Rightarrow> bool" where
  "is_fault st = (st = ES_OpenLoad \<or> st = ES_OverCurrent)"

definition put_diagnostic :: "channel_diagnostic \<Rightarrow> nat \<Rightarrow> packet \<Rightarrow> packet" where
  "put_diagnostic cd offset p =
    (let p0 = set_payload offset (output_code (cd_output cd)) p;
         p1 = set_payload (offset + 1) (if cd_driven cd then 1 else 0) p0;
         p2 = set_payload (offset + 2) (if cd_feedback_available cd then 1 else 0) p1;
         p3 = set_payload (offset + 3) (status_code (cd_status cd)) p2;
         p4 = set_payload (offset + 4) (hi8 (cd_current_ma cd)) p3
     in set_payload (offset + 5) (lo8 (cd_current_ma cd)) p4)"

fun put_diagnostics :: "('h, 'w) lighting_env \<Rightarrow> lighting_diagnostics \<Rightarrow> 'h \<Rightarrow> lighting_output list \<Rightarrow> nat
    \<Rightarrow> bool \<Rightarrow> packet \<Rightarrow> bool \<times> packet" where
  "put_diagnostics env d h [] i any_fault p = (any_fault, p)"
| "put_diagnostics env d h (o1 # os) i any_fault p =
    (let diagnostic = evaluate_channel env d o1 h
     in put_diagnostics env d h os (i + 1) (any_fault \<or> is_fault (cd_status diagnostic))
          (put_diagnostic diagnostic (i * 6) p))"

definition diagnostics_packet :: "('h, 'w) lighting_env \<Rightarrow> lighting_diagnostics \<Rightarrow> 'h \<Rightarrow> node_address \<Rightarrow> packet" where
  "diagnostics_packet env d h destination =
    (case put_diagnostics env d h kOutputs 0 False
            (default_packet\<lparr>pkt_destination := destination, pkt_type := msg_LightingDiagnostic,
               pkt_flags := FlagResponse, pkt_length := 24\<rparr>) of
       (any_fault, p) \<Rightarrow> if any_fault then p\<lparr>pkt_flags := pkt_flags p OR FlagFault\<rparr> else p)"

definition diagnostics_publish :: "('h, 'w) lighting_env \<Rightarrow> node_address \<Rightarrow> u32 \<Rightarrow> 'h \<Rightarrow> lighting_diagnostics
    \<Rightarrow> bike_node \<Rightarrow> 'w \<Rightarrow> bool \<times> lighting_diagnostics \<times> bike_node \<times> 'w" where
  "diagnostics_publish env destination now h d nd w =
    (case node_send (le_net env) nd (diagnostics_packet env d h destination) now False w of
       (sent, nd1, w1) \<Rightarrow>
         (sent, (if sent then d\<lparr>ld_last_publish_ms := now, ld_published_once := True\<rparr> else d), nd1, w1))"

definition diagnostics_service :: "('h, 'w) lighting_env \<Rightarrow> u32 \<Rightarrow> node_address \<Rightarrow> 'h \<Rightarrow> lighting_diagnostics
    \<Rightarrow> bike_node \<Rightarrow> 'w \<Rightarrow> lighting_diagnostics \<times> bike_node \<times> 'w" where
  "diagnostics_service env now destination h d nd w =
    (if \<not> ld_published_once d \<or> now - ld_last_publish_ms d \<ge> ld_publish_interval_ms d
     then snd (diagnostics_publish env destination now h d nd w) else (d, nd, w))"

section \<open>Fault manager\<close>

datatype fault_policy = ReportOnly | ShutdownOnOverCurrent

record fault_record =
  fr_active_status :: electrical_status
  fr_latched_status :: electrical_status
  fr_first_seen_ms :: u32
  fr_last_seen_ms :: u32
  fr_occurrence_count :: u32
  fr_last_current_ma :: u16
  fr_latched :: bool
  fr_shutdown_applied :: bool

definition default_fault_record :: fault_record where
  "default_fault_record = \<lparr>fr_active_status = ES_Off, fr_latched_status = ES_Off, fr_first_seen_ms = 0,
     fr_last_seen_ms = 0, fr_occurrence_count = 0, fr_last_current_ma = 0, fr_latched = False,
     fr_shutdown_applied = False\<rparr>"

record fault_manager =
  fm_policies :: "nat \<Rightarrow> fault_policy"
  fm_records :: "nat \<Rightarrow> fault_record"
  fm_consecutive :: "nat \<Rightarrow> u8"
  fm_confirm_samples :: u8

definition fault_manager_init :: fault_manager where
  "fault_manager_init = \<lparr>fm_policies = (\<lambda>_. ReportOnly), fm_records = (\<lambda>_. default_fault_record),
     fm_consecutive = (\<lambda>_. 0), fm_confirm_samples = 3\<rparr>"

definition set_policy :: "lighting_output \<Rightarrow> fault_policy \<Rightarrow> fault_manager \<Rightarrow> fault_manager" where
  "set_policy o1 p f =
    (if index_for o1 < 4 then f\<lparr>fm_policies := (fm_policies f)(index_for o1 := p)\<rparr> else f)"

definition set_confirm_samples :: "u8 \<Rightarrow> fault_manager \<Rightarrow> fault_manager" where
  "set_confirm_samples v f = f\<lparr>fm_confirm_samples := (if v = 0 then 1 else v)\<rparr>"

definition fault_record_of :: "fault_manager \<Rightarrow> lighting_output \<Rightarrow> fault_record" where
  "fault_record_of f o1 = (if index_for o1 < 4 then fm_records f (index_for o1) else default_fault_record)"

definition fault_packet :: "lighting_output \<Rightarrow> fault_record \<Rightarrow> message_type \<Rightarrow> packet" where
  "fault_packet o1 r type =
    (let p = default_packet\<lparr>pkt_destination := addr_MainComputer, pkt_type := type,
               pkt_flags := FlagResponse\<rparr>;
         p0 = (if type = msg_Fault then p\<lparr>pkt_flags := pkt_flags p OR FlagFault\<rparr> else p);
         p1 = set_payload 0 0x01 (p0\<lparr>pkt_length := 8\<rparr>);
         p2 = set_payload 1 (output_code o1) p1;
         p3 = set_payload 2 (status_code (fr_latched_status r)) p2;
         p4 = set_payload 3 (if fr_shutdown_applied r then 1 else 0) p3;
         p5 = set_payload 4 (byte32 3 (fr_occurrence_count r)) p4;
         p6 = set_payload 5 (byte32 2 (fr_occurrence_count r)) p5;
         p7 = set_payload 6 (byte32 1 (fr_occurrence_count r)) p6
     in set_payload 7 (byte32 0 (fr_occurrence_count r)) p7)"

definition publish_fault :: "('h, 'w) lighting_env \<Rightarrow> lighting_output \<Rightarrow> fault_record \<Rightarrow> message_type \<Rightarrow> u32
    \<Rightarrow> bike_node \<Rightarrow> 'w \<Rightarrow> bool \<times> bike_node \<times> 'w" where
  "publish_fault env o1 r type now nd w = node_send (le_net env) nd (fault_packet o1 r type) now False w"

definition clear_latch :: "('h, 'w) lighting_env \<Rightarrow> lighting_output \<Rightarrow> u32 \<Rightarrow> fault_manager
    \<Rightarrow> bike_node \<Rightarrow> 'w \<Rightarrow> bool \<times> fault_manager \<times> bike_node \<times> 'w" where
  "clear_latch env o1 now f nd w =
    (let i = index_for o1 in
     if i \<ge> 4 then (False, f, nd, w)
     else
       let previous = fm_records f i;
           f1 = f\<lparr>fm_records := (fm_records f)(i := previous\<lparr>fr_latched := False,
                    fr_latched_status := ES_Off, fr_shutdown_applied := False\<rparr>),
                  fm_consecutive := (fm_consecutive f)(i := 0)\<rparr>
       in (True, f1, if fr_latched previous
                     then snd (publish_fault env o1 previous msg_FaultClear now nd w) else (nd, w)))"

text \<open>Latching a confirmed fault: whether it is new, and the record.\<close>

definition latch_fault :: "electrical_status \<Rightarrow> u32 \<Rightarrow> fault_record \<Rightarrow> bool \<times> fault_record" where
  "latch_fault st now r =
    (let newly_latched = (\<not> fr_latched r \<or> fr_latched_status r \<noteq> st);
         r1 = (if \<not> fr_latched r
               then r\<lparr>fr_first_seen_ms := now, fr_latched := True,
                       fr_occurrence_count := fr_occurrence_count r + 1\<rparr>
               else if fr_latched_status r \<noteq> st
               then r\<lparr>fr_occurrence_count := fr_occurrence_count r + 1\<rparr>
               else r)
     in (newly_latched, r1\<lparr>fr_latched_status := st, fr_last_seen_ms := now\<rparr>))"

definition update_channel :: "('h, 'w) lighting_env \<Rightarrow> lighting_diagnostics \<Rightarrow> lighting_output \<Rightarrow> u32
    \<Rightarrow> fault_manager \<Rightarrow> 'h lighting_server \<Rightarrow> bike_node \<Rightarrow> 'w
    \<Rightarrow> fault_manager \<times> 'h lighting_server \<times> bike_node \<times> 'w" where
  "update_channel env d o1 now f s nd w =
    (let i = index_for o1 in
     if i \<ge> 4 then (f, s, nd, w)
     else
       let diagnostic = evaluate_channel env d o1 (ls_hardware s);
           status = cd_status diagnostic;
           r1 = (fm_records f i)\<lparr>fr_active_status := status, fr_last_current_ma := cd_current_ma diagnostic\<rparr>;
           f1 = f\<lparr>fm_records := (fm_records f)(i := r1)\<rparr>
       in if \<not> is_fault status then (f1\<lparr>fm_consecutive := (fm_consecutive f1)(i := 0)\<rparr>, s, nd, w)
          else
            let n = (if fm_consecutive f1 i < 0xFF then fm_consecutive f1 i + 1 else fm_consecutive f1 i);
                f2 = f1\<lparr>fm_consecutive := (fm_consecutive f1)(i := n)\<rparr>
            in if n < fm_confirm_samples f2 then (f2, s, nd, w)
               else
                 let (newly_latched, r2) = latch_fault status now r1;
                     (r3, s3) =
                       (if status = ES_OverCurrent \<and> fm_policies f2 i = ShutdownOnOverCurrent
                        then case lh_write_output (le_hw env) o1 False (ls_hardware s) of
                          (ok, h) \<Rightarrow> (if ok then r2\<lparr>fr_shutdown_applied := True\<rparr> else r2, s\<lparr>ls_hardware := h\<rparr>)
                        else (r2, s));
                     f3 = f2\<lparr>fm_records := (fm_records f2)(i := r3)\<rparr>;
                     (nd4, w4) = (if newly_latched then snd (publish_fault env o1 r3 msg_Fault now nd w)
                                  else (nd, w))
                 in (f3, s3, nd4, w4))"

fun update_channels :: "('h, 'w) lighting_env \<Rightarrow> lighting_diagnostics \<Rightarrow> lighting_output list \<Rightarrow> u32
    \<Rightarrow> fault_manager \<Rightarrow> 'h lighting_server \<Rightarrow> bike_node \<Rightarrow> 'w
    \<Rightarrow> fault_manager \<times> 'h lighting_server \<times> bike_node \<times> 'w" where
  "update_channels env d [] now f s nd w = (f, s, nd, w)"
| "update_channels env d (o1 # os) now f s nd w =
    (case update_channel env d o1 now f s nd w of
       (f1, s1, nd1, w1) \<Rightarrow> update_channels env d os now f1 s1 nd1 w1)"

definition fault_service :: "('h, 'w) lighting_env \<Rightarrow> lighting_diagnostics \<Rightarrow> u32 \<Rightarrow> fault_manager
    \<Rightarrow> 'h lighting_server \<Rightarrow> bike_node \<Rightarrow> 'w \<Rightarrow> fault_manager \<times> 'h lighting_server \<times> bike_node \<times> 'w" where
  "fault_service env d now f s nd w = update_channels env d kOutputs now f s nd w"

section \<open>One channel\<close>

definition channel_status :: "('h, 'w) lighting_env \<Rightarrow> lighting_diagnostics \<Rightarrow> lighting_output \<Rightarrow> 'h
    \<Rightarrow> electrical_status" where
  "channel_status env d o1 h = cd_status (evaluate_channel env d o1 h)"

definition channel_record :: "fault_manager \<Rightarrow> lighting_output \<Rightarrow> fault_record" where
  "channel_record f o1 = fm_records f (index_for o1)"

definition channel_count :: "fault_manager \<Rightarrow> lighting_output \<Rightarrow> u8" where
  "channel_count f o1 = fm_consecutive f (index_for o1)"

lemma fault_record_of_eq [simp]: "fault_record_of f o1 = channel_record f o1"
  by (simp add: fault_record_of_def channel_record_def)

definition next_count :: "electrical_status \<Rightarrow> u8 \<Rightarrow> u8" where
  "next_count st n = (if is_fault st then (if n < 0xFF then n + 1 else n) else 0)"

text \<open>A sample is confirmed when it completes the required number of consecutive fault samples.\<close>

definition confirmed_sample :: "fault_manager \<Rightarrow> lighting_output \<Rightarrow> electrical_status \<Rightarrow> bool" where
  "confirmed_sample f o1 st \<longleftrightarrow> is_fault st \<and> \<not> next_count st (channel_count f o1) < fm_confirm_samples f"

lemma status_driven: "channel_status env d o1 h \<noteq> ES_Off \<longleftrightarrow> lh_read_output (le_hw env) o1 h"
  by (auto simp: channel_status_def evaluate_channel_def Let_def split: prod.splits)

lemma fault_needs_drive: "is_fault (channel_status env d o1 h) \<Longrightarrow> lh_read_output (le_hw env) o1 h"
  using status_driven [of env d o1 h] by (auto simp: is_fault_def)

lemma wf_fault_packets [simp]:
  "wf_packet (fault_packet o1 r ty)" "pkt_length (fault_packet o1 r ty) = 8" "calm (fault_packet o1 r ty)"
  by (simp_all add: fault_packet_def Let_def)

lemma publish_fault_talk: "node_talk (le_net env) (nd, w) (snd (publish_fault env o1 r ty now nd w))"
  unfolding publish_fault_def by (metis talk_send1 wf_fault_packets(1,3) prod.collapse)

lemma update_channel_unconfirmed:
  assumes "\<not> confirmed_sample f o1 (channel_status env d o1 (ls_hardware s))"
  shows "update_channel env d o1 now f s nd w =
    (f\<lparr>fm_records := (fm_records f)(index_for o1 := (channel_record f o1)\<lparr>
          fr_active_status := channel_status env d o1 (ls_hardware s),
          fr_last_current_ma := cd_current_ma (evaluate_channel env d o1 (ls_hardware s))\<rparr>),
       fm_consecutive := (fm_consecutive f)(index_for o1 :=
          next_count (channel_status env d o1 (ls_hardware s)) (channel_count f o1))\<rparr>, s, nd, w)"
proof -
  have i: "\<not> index_for o1 \<ge> 4" by (simp add: not_le)
  show ?thesis
    using assms i
    by (cases "is_fault (channel_status env d o1 (ls_hardware s))")
      (auto simp: update_channel_def Let_def confirmed_sample_def next_count_def
        channel_record_def channel_count_def simp flip: channel_status_def)
qed

text \<open>What a confirmed sample leaves in the record, on hardware that accepted or refused a shutdown.\<close>

definition confirmed_record :: "electrical_status \<Rightarrow> u16 \<Rightarrow> u32 \<Rightarrow> bool \<Rightarrow> fault_record \<Rightarrow> fault_record" where
  "confirmed_record st current now switched r =
    (let r2 = snd (latch_fault st now (r\<lparr>fr_active_status := st, fr_last_current_ma := current\<rparr>))
     in if switched then r2\<lparr>fr_shutdown_applied := True\<rparr> else r2)"

definition shuts_down :: "fault_manager \<Rightarrow> lighting_output \<Rightarrow> electrical_status \<Rightarrow> bool" where
  "shuts_down f o1 st \<longleftrightarrow> st = ES_OverCurrent \<and> fm_policies f (index_for o1) = ShutdownOnOverCurrent"

lemma confirmed_record_sel [simp]:
  "fr_latched (confirmed_record st c now sw r)"
  "fr_latched_status (confirmed_record st c now sw r) = st"
  "fr_active_status (confirmed_record st c now sw r) = st"
  "fr_last_seen_ms (confirmed_record st c now sw r) = now"
  "fr_shutdown_applied (confirmed_record st c now sw r) = (sw \<or> fr_shutdown_applied r)"
  by (simp_all add: confirmed_record_def latch_fault_def Let_def)

lemma update_channel_confirmed:
  fixes env :: "('h, 'w) lighting_env"
  assumes "confirmed_sample f o1 st" and "st = channel_status env d o1 (ls_hardware s)"
    and "lh_write_output (le_hw env) o1 False (ls_hardware s) = (ok, h)"
    and "r = confirmed_record st (cd_current_ma (evaluate_channel env d o1 (ls_hardware s))) now
      (shuts_down f o1 st \<and> ok) (channel_record f o1)"
  shows "update_channel env d o1 now f s nd w =
    (f\<lparr>fm_records := (fm_records f)(index_for o1 := r),
       fm_consecutive := (fm_consecutive f)(index_for o1 := next_count st (channel_count f o1))\<rparr>,
     if shuts_down f o1 st then s\<lparr>ls_hardware := h\<rparr> else s,
     if \<not> fr_latched (channel_record f o1) \<or> fr_latched_status (channel_record f o1) \<noteq> st
     then snd (publish_fault env o1 r msg_Fault now nd w) else (nd, w))"
proof -
  have i: "\<not> index_for o1 \<ge> 4" by (simp add: not_le)
  obtain r2 where lf: "latch_fault st now ((channel_record f o1)\<lparr>fr_active_status := st,
      fr_last_current_ma := cd_current_ma (evaluate_channel env d o1 (ls_hardware s))\<rparr>) =
      (\<not> fr_latched (channel_record f o1) \<or> fr_latched_status (channel_record f o1) \<noteq> st, r2)"
    by (simp add: latch_fault_def Let_def)
  show ?thesis
    using assms(1,3) i lf unfolding assms(4)
    by (cases "fm_consecutive f (index_for o1) < 0xFF"; cases "shuts_down f o1 st"; cases ok)
      (auto simp: update_channel_def Let_def confirmed_sample_def next_count_def
        channel_record_def channel_count_def confirmed_record_def shuts_down_def
        simp flip: channel_status_def assms(2))
qed

lemma update_channel_step:
  assumes "update_channel env d o1 now f s nd w = (f', s', nd', w')"
    and st: "st = channel_status env d o1 (ls_hardware s)"
  shows "channel_count f' o1 = next_count st (channel_count f o1)"
    and "fr_latched (channel_record f' o1) \<longleftrightarrow> fr_latched (channel_record f o1) \<or> confirmed_sample f o1 st"
    and "fr_active_status (channel_record f' o1) = st"
    and "confirmed_sample f o1 st \<Longrightarrow> fr_latched_status (channel_record f' o1) = st"
    and "fm_confirm_samples f' = fm_confirm_samples f" and "fm_policies f' = fm_policies f"
    and "o2 \<noteq> o1 \<Longrightarrow> channel_record f' o2 = channel_record f o2"
    and "o2 \<noteq> o1 \<Longrightarrow> channel_count f' o2 = channel_count f o2"
    and "ls_commanded s' = ls_commanded s"
    and "\<not> (confirmed_sample f o1 st \<and> shuts_down f o1 st) \<Longrightarrow> s' = s"
    and "node_talk (le_net env) (nd, w) (nd', w')"
proof -
  obtain ok h where h: "lh_write_output (le_hw env) o1 False (ls_hardware s) = (ok, h)" by fastforce
  have "channel_count f' o1 = next_count st (channel_count f o1)
    \<and> (fr_latched (channel_record f' o1) \<longleftrightarrow> fr_latched (channel_record f o1) \<or> confirmed_sample f o1 st)
    \<and> fr_active_status (channel_record f' o1) = st
    \<and> (confirmed_sample f o1 st \<longrightarrow> fr_latched_status (channel_record f' o1) = st)
    \<and> fm_confirm_samples f' = fm_confirm_samples f \<and> fm_policies f' = fm_policies f
    \<and> (o2 \<noteq> o1 \<longrightarrow> channel_record f' o2 = channel_record f o2 \<and> channel_count f' o2 = channel_count f o2)
    \<and> ls_commanded s' = ls_commanded s
    \<and> (\<not> (confirmed_sample f o1 st \<and> shuts_down f o1 st) \<longrightarrow> s' = s)
    \<and> node_talk (le_net env) (nd, w) (nd', w')"
  proof (cases "confirmed_sample f o1 st")
    case False
    with assms show ?thesis
      by (auto simp: update_channel_unconfirmed channel_record_def channel_count_def talk_refl)
  next
    case True
    note eq = update_channel_confirmed [OF True st h refl, of now nd w, unfolded assms(1)]
    note talk = publish_fault_talk [of env nd w o1
        "confirmed_record st (cd_current_ma (evaluate_channel env d o1 (ls_hardware s))) now
          (shuts_down f o1 st \<and> ok) (channel_record f o1)" msg_Fault now]
    from eq True talk show ?thesis
      by (auto simp: channel_record_def channel_count_def talk_refl split: if_splits)
  qed
  then show "channel_count f' o1 = next_count st (channel_count f o1)"
    and "fr_latched (channel_record f' o1) \<longleftrightarrow> fr_latched (channel_record f o1) \<or> confirmed_sample f o1 st"
    and "fr_active_status (channel_record f' o1) = st"
    and "confirmed_sample f o1 st \<Longrightarrow> fr_latched_status (channel_record f' o1) = st"
    and "fm_confirm_samples f' = fm_confirm_samples f" and "fm_policies f' = fm_policies f"
    and "o2 \<noteq> o1 \<Longrightarrow> channel_record f' o2 = channel_record f o2"
    and "o2 \<noteq> o1 \<Longrightarrow> channel_count f' o2 = channel_count f o2"
    and "ls_commanded s' = ls_commanded s"
    and "\<not> (confirmed_sample f o1 st \<and> shuts_down f o1 st) \<Longrightarrow> s' = s"
    and "node_talk (le_net env) (nd, w) (nd', w')"
    by auto
qed

section \<open>Confirmation over time\<close>

text \<open>One channel sampled at successive states of the board and times.\<close>

fun fault_run :: "('h, 'w) lighting_env \<Rightarrow> lighting_diagnostics \<Rightarrow> lighting_output \<Rightarrow> ('h \<times> u32) list
    \<Rightarrow> fault_manager \<Rightarrow> 'h lighting_server \<Rightarrow> bike_node \<Rightarrow> 'w
    \<Rightarrow> fault_manager \<times> 'h lighting_server \<times> bike_node \<times> 'w" where
  "fault_run env d o1 [] f s nd w = (f, s, nd, w)"
| "fault_run env d o1 ((h, now) # xs) f s nd w =
    (case update_channel env d o1 now f (s\<lparr>ls_hardware := h\<rparr>) nd w of
       (f1, s1, nd1, w1) \<Rightarrow> fault_run env d o1 xs f1 s1 nd1 w1)"

definition sampled :: "('h, 'w) lighting_env \<Rightarrow> lighting_diagnostics \<Rightarrow> lighting_output \<Rightarrow> ('h \<times> u32) list
    \<Rightarrow> electrical_status list" where
  "sampled env d o1 xs = map (\<lambda>(h, t). channel_status env d o1 h) xs"

definition streak :: "electrical_status list \<Rightarrow> nat" where
  "streak sts = length (takeWhile is_fault (rev sts))"

definition has_streak :: "nat \<Rightarrow> electrical_status list \<Rightarrow> bool" where
  "has_streak c sts \<longleftrightarrow> (\<exists>ys zs vs. sts = ys @ zs @ vs \<and> length zs = c \<and> (\<forall>z\<in>set zs. is_fault z))"

lemma streak_snoc [simp]:
  "streak [] = 0" "streak (sts @ [st]) = (if is_fault st then Suc (streak sts) else 0)"
  by (simp_all add: streak_def)

lemma streak_ge_iff:
  "c \<le> streak sts \<longleftrightarrow> (\<exists>ys zs. sts = ys @ zs \<and> length zs = c \<and> (\<forall>z\<in>set zs. is_fault z))"
proof (induction sts arbitrary: c rule: rev_induct)
  case Nil
  then show ?case by auto
next
  case (snoc x sts)
  show ?case
  proof (cases c)
    case (Suc n)
    have "(\<exists>ys zs. sts @ [x] = ys @ zs \<and> length zs = Suc n \<and> (\<forall>z\<in>set zs. is_fault z)) \<longleftrightarrow>
        is_fault x \<and> (\<exists>ys zs. sts = ys @ zs \<and> length zs = n \<and> (\<forall>z\<in>set zs. is_fault z))"
    proof (intro iffI; elim exE conjE)
      fix ys zs assume a: "sts @ [x] = ys @ zs" "length zs = Suc n" "\<forall>z\<in>set zs. is_fault z"
      then obtain zs' z where zs: "zs = zs' @ [z]" by (cases zs rule: rev_cases) auto
      with a show "is_fault x \<and> (\<exists>ys zs. sts = ys @ zs \<and> length zs = n \<and> (\<forall>z\<in>set zs. is_fault z))"
        by auto
    next
      fix ys zs assume "is_fault x" "sts = ys @ zs" "length zs = n" "\<forall>z\<in>set zs. is_fault z"
      then show "\<exists>ys zs. sts @ [x] = ys @ zs \<and> length zs = Suc n \<and> (\<forall>z\<in>set zs. is_fault z)"
        by (intro exI [of _ ys] exI [of _ "zs @ [x]"]) auto
    qed
    with snoc.IH [of n] show ?thesis by (simp add: Suc)
  qed simp
qed

lemma has_streak_snoc:
  assumes "0 < c"
  shows "has_streak c (sts @ [st]) \<longleftrightarrow> has_streak c sts \<or> c \<le> streak (sts @ [st])"
proof
  assume "has_streak c (sts @ [st])"
  then obtain ys zs vs where eq: "sts @ [st] = ys @ zs @ vs" "length zs = c" "\<forall>z\<in>set zs. is_fault z"
    by (auto simp: has_streak_def)
  show "has_streak c sts \<or> c \<le> streak (sts @ [st])"
  proof (cases vs rule: rev_cases)
    case Nil
    with eq have "c \<le> streak (sts @ [st])" unfolding streak_ge_iff by auto
    then show ?thesis ..
  next
    case (snoc vs' v)
    with eq show ?thesis by (auto simp: has_streak_def)
  qed
next
  assume "has_streak c sts \<or> c \<le> streak (sts @ [st])"
  then show "has_streak c (sts @ [st])"
  proof
    assume "has_streak c sts"
    then obtain ys zs vs where "sts = ys @ zs @ vs" "length zs = c" "\<forall>z\<in>set zs. is_fault z"
      by (auto simp: has_streak_def)
    then show ?thesis unfolding has_streak_def
      by (intro exI [of _ ys] exI [of _ zs] exI [of _ "vs @ [st]"]) simp
  next
    assume "c \<le> streak (sts @ [st])"
    then show ?thesis unfolding streak_ge_iff has_streak_def by (metis append_Nil2)
  qed
qed

lemma fault_run_append:
  "fault_run env d o1 (xs @ ys) f s nd w =
    (case fault_run env d o1 xs f s nd w of (f1, s1, nd1, w1) \<Rightarrow> fault_run env d o1 ys f1 s1 nd1 w1)"
  by (induction env d o1 xs f s nd w rule: fault_run.induct) (auto split: prod.splits)

lemma next_count_streak:
  assumes "unat n = min 255 (streak sts)"
  shows "unat (next_count st n) = min 255 (streak (sts @ [st]))"
proof (cases "is_fault st \<and> n < 0xFF")
  case True
  then have "unat (n + 1) = Suc (unat n)" by (intro unat_inc_less [of n "0xFF"]) simp
  moreover have "unat n < 255" using True by (simp add: word_less_nat_alt)
  ultimately show ?thesis using True assms by (simp add: next_count_def)
next
  case False
  then have "is_fault st \<Longrightarrow> \<not> unat n < 255" by (simp add: word_less_nat_alt)
  with False assms show ?thesis by (auto simp: next_count_def)
qed

lemma fault_run_latched:
  assumes "fault_run env d o1 xs f s nd w = (f', s', nd', w')"
    and "channel_count f o1 = 0" and "0 < fm_confirm_samples f"
  shows "fm_confirm_samples f' = fm_confirm_samples f \<and>
    unat (channel_count f' o1) = min 255 (streak (sampled env d o1 xs)) \<and>
    (fr_latched (channel_record f' o1) \<longleftrightarrow> fr_latched (channel_record f o1) \<or>
      has_streak (unat (fm_confirm_samples f)) (sampled env d o1 xs))"
  using assms(1)
proof (induction xs arbitrary: f' s' nd' w' rule: rev_induct)
  case Nil
  have "unat (fm_confirm_samples f) \<noteq> 0" using assms(3) by (simp add: word_less_nat_alt)
  then have "\<not> has_streak (unat (fm_confirm_samples f)) []" unfolding has_streak_def by simp
  with Nil assms(2) show ?case by (simp add: sampled_def)
next
  case (snoc x xs)
  obtain h now where x: "x = (h, now)" by fastforce
  obtain f1 s1 nd1 w1 where r: "fault_run env d o1 xs f s nd w = (f1, s1, nd1, w1)" by (metis prod_cases4)
  note IH = snoc.IH [OF r]
  let ?sts = "sampled env d o1 xs" and ?st = "channel_status env d o1 h"
  have u: "update_channel env d o1 now f1 (s1\<lparr>ls_hardware := h\<rparr>) nd1 w1 = (f', s', nd', w')"
    using snoc.prems by (simp add: fault_run_append r x split: prod.splits)
  have sts: "sampled env d o1 (xs @ [x]) = ?sts @ [?st]" by (simp add: sampled_def x)
  note step = update_channel_step [OF u refl, simplified]
  have count: "unat (next_count ?st (channel_count f1 o1)) = min 255 (streak (?sts @ [?st]))"
    using IH by (intro next_count_streak) blast
  have c: "0 < unat (fm_confirm_samples f)" "unat (fm_confirm_samples f) \<le> 255"
    using assms(3) unsigned_less [of "fm_confirm_samples f", where 'a = nat]
    by (simp_all add: word_less_nat_alt)
  have "confirmed_sample f1 o1 ?st \<longleftrightarrow> unat (fm_confirm_samples f) \<le> streak (?sts @ [?st])"
    using count IH c by (auto simp: confirmed_sample_def word_less_nat_alt split: if_splits)
  with step(1,2,5) IH count has_streak_snoc [OF c(1), of ?sts ?st] show ?case
    unfolding sts by auto
qed

section \<open>The service over all channels\<close>

lemma update_channels_talk:
  "update_channels env d os now f s nd w = (f', s', nd', w') \<Longrightarrow> node_talk (le_net env) (nd, w) (nd', w')"
proof (induction env d os now f s nd w rule: update_channels.induct)
  case (2 env d o1 os now f s nd w)
  obtain f1 s1 nd1 w1 where u: "update_channel env d o1 now f s nd w = (f1, s1, nd1, w1)"
    by (metis prod_cases4)
  have "update_channels env d os now f1 s1 nd1 w1 = (f', s', nd', w')" using 2(2) u by simp
  from talk_trans [OF 2(1) [OF u [symmetric] refl refl this] update_channel_step(11) [OF u refl]]
  show ?case .
qed (simp add: talk_refl)

lemma update_channels_commanded:
  "update_channels env d os now f s nd w = (f', s', nd', w') \<Longrightarrow>
    ls_commanded s' = ls_commanded s \<and> fm_policies f' = fm_policies f
    \<and> fm_confirm_samples f' = fm_confirm_samples f"
proof (induction env d os now f s nd w rule: update_channels.induct)
  case (2 env d o1 os now f s nd w)
  obtain f1 s1 nd1 w1 where u: "update_channel env d o1 now f s nd w = (f1, s1, nd1, w1)"
    by (metis prod_cases4)
  from 2 u update_channel_step(5,6,9) [OF u refl] show ?case by simp
qed simp

text \<open>With the default policy supervision only reports: no output is ever switched.\<close>

lemma update_channels_report_only:
  "update_channels env d os now f s nd w = (f', s', nd', w') \<Longrightarrow>
    \<forall>o1\<in>set os. fm_policies f (index_for o1) = ReportOnly \<Longrightarrow> s' = s"
proof (induction env d os now f s nd w rule: update_channels.induct)
  case (2 env d o1 os now f s nd w)
  obtain f1 s1 nd1 w1 where u: "update_channel env d o1 now f s nd w = (f1, s1, nd1, w1)"
    by (metis prod_cases4)
  have "s1 = s" "fm_policies f1 = fm_policies f"
    using update_channel_step(6,10) [OF u refl] 2(3) by (auto simp: shuts_down_def)
  with 2 u show ?case by simp
qed simp

end
