(* ===== verification/MotorcycleComputer.thy ===== *)
theory MotorcycleComputer
  imports Supervisor SecurityServer LightingFaults Router
begin

text \<open>
  The main computer (\<open>library/src/motorcycle_computer.cpp\<close>): it requests the states of the
  controllers, hands every packet its node receives to the supervisor, to an observer and to the
  decoders, and keeps the decoded pictures of lighting, faults, northbridge and security. The
  observer is a function of the owner over a state of its own, with the supervisor and the node at hand.
\<close>

section \<open>Snapshots\<close>

record lighting_snapshot =
  lv_valid :: bool
  lv_left_indicator :: bool
  lv_right_indicator :: bool
  lv_brake_bright :: bool
  lv_high_beam :: bool
  lv_updated_at_ms :: u32

definition default_lighting_snapshot :: lighting_snapshot where
  "default_lighting_snapshot = \<lparr>lv_valid = False, lv_left_indicator = False,
     lv_right_indicator = False, lv_brake_bright = False, lv_high_beam = False, lv_updated_at_ms = 0\<rparr>"

definition default_channel :: channel_diagnostic where
  "default_channel = \<lparr>cd_output = LeftIndicator, cd_driven = False, cd_feedback_available = False,
     cd_status = ES_Unknown, cd_current_ma = 0\<rparr>"

text \<open>Arrays are functions from the index, which the code keeps inside the array.\<close>

record lighting_diagnostic_snapshot =
  dv_valid :: bool
  dv_channels :: "nat \<Rightarrow> channel_diagnostic"
  dv_updated_at_ms :: u32

definition default_diagnostic_snapshot :: lighting_diagnostic_snapshot where
  "default_diagnostic_snapshot =
    \<lparr>dv_valid = False, dv_channels = (\<lambda>_. default_channel), dv_updated_at_ms = 0\<rparr>"

record lighting_fault_snapshot =
  fv_latched :: bool
  fv_status :: electrical_status
  fv_shutdown_applied :: bool
  fv_occurrence_count :: u32
  fv_updated_at_ms :: u32

definition default_fault_snapshot :: lighting_fault_snapshot where
  "default_fault_snapshot = \<lparr>fv_latched = False, fv_status = ES_Off, fv_shutdown_applied = False,
     fv_occurrence_count = 0, fv_updated_at_ms = 0\<rparr>"

record port_snapshot =
  pv_attached :: bool
  pv_rx_packets :: u32
  pv_tx_packets :: u32
  pv_rx_bytes :: u32
  pv_dropped_packets :: u32
  pv_malformed_frames :: u32

definition default_port_snapshot :: port_snapshot where
  "default_port_snapshot = \<lparr>pv_attached = False, pv_rx_packets = 0, pv_tx_packets = 0,
     pv_rx_bytes = 0, pv_dropped_packets = 0, pv_malformed_frames = 0\<rparr>"

record northbridge_snapshot =
  nv_valid :: bool
  nv_forwarded_packets :: u32
  nv_dropped_packets :: u32
  nv_route_movement_events :: u32
  nv_topology_fault_events :: u32
  nv_ports :: "nat \<Rightarrow> port_snapshot"
  nv_topology_fault_active :: bool
  nv_topology_fault_node :: node_address
  nv_expected_port :: u8
  nv_actual_port :: u8
  nv_updated_at_ms :: u32

definition default_northbridge_snapshot :: northbridge_snapshot where
  "default_northbridge_snapshot = \<lparr>nv_valid = False, nv_forwarded_packets = 0,
     nv_dropped_packets = 0, nv_route_movement_events = 0, nv_topology_fault_events = 0,
     nv_ports = (\<lambda>_. default_port_snapshot), nv_topology_fault_active = False,
     nv_topology_fault_node = addr_Broadcast, nv_expected_port = 0, nv_actual_port = 0,
     nv_updated_at_ms = 0\<rparr>"

record security_view =
  xv_valid :: bool
  xv_mode :: security_mode
  xv_start_inhibit :: bool
  xv_alarm_active :: bool
  xv_shock_warning :: bool
  xv_shock_trigger :: bool
  xv_engine_running :: bool
  xv_last_event :: security_event
  xv_has_event :: bool
  xv_updated_at_ms :: u32
  xv_last_event_at_ms :: u32

definition default_security_view :: security_view where
  "default_security_view = \<lparr>xv_valid = False, xv_mode = Mode_Unlocked, xv_start_inhibit = False,
     xv_alarm_active = False, xv_shock_warning = False, xv_shock_trigger = False,
     xv_engine_running = False, xv_last_event = Event_Unlocked, xv_has_event = False,
     xv_updated_at_ms = 0, xv_last_event_at_ms = 0\<rparr>"

record 'o motorcycle_computer =
  mc_supervisor :: supervisor
  mc_lighting :: lighting_snapshot
  mc_diagnostics :: lighting_diagnostic_snapshot
  mc_faults :: "nat \<Rightarrow> lighting_fault_snapshot"
  mc_northbridge :: northbridge_snapshot
  mc_security :: security_view
  mc_observer :: 'o

definition motorcycle_computer_init :: "'o \<Rightarrow> 'o motorcycle_computer" where
  "motorcycle_computer_init obs = \<lparr>mc_supervisor = supervisor_init,
     mc_lighting = default_lighting_snapshot, mc_diagnostics = default_diagnostic_snapshot,
     mc_faults = (\<lambda>_. default_fault_snapshot), mc_northbridge = default_northbridge_snapshot,
     mc_security = default_security_view, mc_observer = obs\<rparr>"

text \<open>\<open>set_packet_observer\<close> takes a function; none is set at first.\<close>

type_synonym ('o, 'w) packet_observer =
  "(packet \<Rightarrow> u32 \<Rightarrow> supervisor \<Rightarrow> 'o \<Rightarrow> bike_node \<Rightarrow> 'w \<Rightarrow> 'o \<times> bike_node \<times> 'w) option"

record motorcycle_snapshot =
  ms_lighting_node :: "node_status option"
  ms_security_node :: "node_status option"
  ms_northbridge_node :: "node_status option"
  ms_lighting :: lighting_snapshot
  ms_lighting_diagnostics :: lighting_diagnostic_snapshot
  ms_lighting_faults :: "nat \<Rightarrow> lighting_fault_snapshot"
  ms_northbridge :: northbridge_snapshot
  ms_security :: security_view
  ms_tx_failures :: u32
  ms_rx_drops :: u32

section \<open>Casts of received bytes to enumerations\<close>

definition status_of_code :: "u8 \<Rightarrow> electrical_status" where
  "status_of_code b = (if b = 0 then ES_Unknown else if b = 1 then ES_Off else if b = 2 then ES_Ok
     else if b = 3 then ES_OpenLoad else ES_OverCurrent)"

definition mode_of_code :: "u8 \<Rightarrow> security_mode" where
  "mode_of_code b = (if b = 0 then Mode_Unlocked else if b = 1 then Mode_Locked
     else if b = 2 then Mode_Alarm else Mode_LockPending)"

definition event_of_code :: "u8 \<Rightarrow> security_event" where
  "event_of_code b = (if b = 1 then Event_ShockWarning else if b = 2 then Event_ShockTrigger
     else if b = 3 then Event_AlarmStarted else if b = 4 then Event_AlarmStopped
     else if b = 5 then Event_Locked else if b = 6 then Event_Unlocked else Event_LockPending)"

lemma status_of_code_inverse [simp]: "status_of_code (status_code st) = st"
  by (cases st) (simp_all add: status_of_code_def)

lemma mode_of_code_inverse [simp]: "mode_of_code (mode_code m) = m"
  by (cases m) (simp_all add: mode_of_code_def)

lemma event_of_code_inverse [simp]: "event_of_code (event_code e) = e"
  by (cases e) (simp_all add: event_of_code_def)

lemma code_bounds [simp]:
  "\<not> status_code ES_OverCurrent < status_code st" "\<not> mode_code Mode_LockPending < mode_code m"
  "\<not> event_code e < event_code Event_ShockWarning" "\<not> event_code Event_LockPending < event_code e"
  by (cases st, simp_all) (cases m, simp_all, (cases e, simp_all)+)

section \<open>Decoders\<close>

definition read_u32 :: "packet \<Rightarrow> nat \<Rightarrow> u32" where
  "read_u32 p offset = read_u32_be (pkt_payload p) offset"

fun set_lighting_view :: "lighting_output \<Rightarrow> bool \<Rightarrow> lighting_snapshot \<Rightarrow> lighting_snapshot" where
  "set_lighting_view LeftIndicator b v = v\<lparr>lv_left_indicator := b\<rparr>"
| "set_lighting_view RightIndicator b v = v\<lparr>lv_right_indicator := b\<rparr>"
| "set_lighting_view BrakeBright b v = v\<lparr>lv_brake_bright := b\<rparr>"
| "set_lighting_view HighBeam b v = v\<lparr>lv_high_beam := b\<rparr>"

text \<open>The loops of the decoders: \<open>None\<close> where they return false.\<close>

fun read_lighting_states :: "u8 list \<Rightarrow> nat list \<Rightarrow> lighting_snapshot \<Rightarrow> lighting_snapshot option" where
  "read_lighting_states bs [] v = Some v"
| "read_lighting_states bs (i # is) v =
    (if bs ! (i * 2 + 1) > 1 then None
     else case output_of_code (bs ! (i * 2)) of
       None \<Rightarrow> None
     | Some o1 \<Rightarrow> read_lighting_states bs is (set_lighting_view o1 (bs ! (i * 2 + 1) \<noteq> 0) v))"

definition decode_lighting_state :: "packet \<Rightarrow> u32 \<Rightarrow> 'o motorcycle_computer \<Rightarrow> bool \<times> 'o motorcycle_computer" where
  "decode_lighting_state p now mc =
    (if pkt_source p \<noteq> addr_Lighting \<or> pkt_type p \<noteq> msg_StateUpdate \<or> pkt_length p \<noteq> 8 then (False, mc)
     else case read_lighting_states (pkt_payload p) [0..<4] (mc_lighting mc) of
       None \<Rightarrow> (False, mc)
     | Some v \<Rightarrow> (True, mc\<lparr>mc_lighting := v\<lparr>lv_valid := True, lv_updated_at_ms := now\<rparr>\<rparr>))"

fun read_lighting_channels :: "u8 list \<Rightarrow> nat list \<Rightarrow> (nat \<Rightarrow> channel_diagnostic)
    \<Rightarrow> (nat \<Rightarrow> channel_diagnostic) option" where
  "read_lighting_channels bs [] cs = Some cs"
| "read_lighting_channels bs (i # is) cs =
    (let offset = i * 6 in
     if bs ! (offset + 1) > 1 \<or> bs ! (offset + 2) > 1 \<or> bs ! (offset + 3) > status_code ES_OverCurrent
     then None
     else case output_of_code (bs ! offset) of
       None \<Rightarrow> None
     | Some o1 \<Rightarrow> read_lighting_channels bs is (cs(i := \<lparr>cd_output = o1,
         cd_driven = (bs ! (offset + 1) \<noteq> 0), cd_feedback_available = (bs ! (offset + 2) \<noteq> 0),
         cd_status = status_of_code (bs ! (offset + 3)),
         cd_current_ma = u16_of_bytes (bs ! (offset + 4)) (bs ! (offset + 5))\<rparr>)))"

definition decode_lighting_diagnostics :: "packet \<Rightarrow> u32 \<Rightarrow> 'o motorcycle_computer
    \<Rightarrow> bool \<times> 'o motorcycle_computer" where
  "decode_lighting_diagnostics p now mc =
    (if pkt_source p \<noteq> addr_Lighting \<or> pkt_type p \<noteq> msg_LightingDiagnostic \<or> pkt_length p \<noteq> 24
     then (False, mc)
     else case read_lighting_channels (pkt_payload p) [0..<4] (dv_channels default_diagnostic_snapshot) of
       None \<Rightarrow> (False, mc)
     | Some cs \<Rightarrow> (True, mc\<lparr>mc_diagnostics :=
         \<lparr>dv_valid = True, dv_channels = cs, dv_updated_at_ms = now\<rparr>\<rparr>))"

definition decode_lighting_fault :: "packet \<Rightarrow> u32 \<Rightarrow> 'o motorcycle_computer \<Rightarrow> bool \<times> 'o motorcycle_computer" where
  "decode_lighting_fault p now mc =
    (let b = pkt_payload p in
     if pkt_source p \<noteq> addr_Lighting \<or> (pkt_type p \<noteq> msg_Fault \<and> pkt_type p \<noteq> msg_FaultClear)
        \<or> pkt_length p \<noteq> 8 \<or> b ! 0 \<noteq> 0x01 then (False, mc)
     else case output_of_code (b ! 1) of
       None \<Rightarrow> (False, mc)
     | Some o1 \<Rightarrow>
         if b ! 2 > status_code ES_OverCurrent \<or> b ! 3 > 1 then (False, mc)
         else
           let latched = (pkt_type p = msg_Fault)
           in (True, mc\<lparr>mc_faults := (mc_faults mc)(index_for o1 :=
                 \<lparr>fv_latched = latched, fv_status = (if latched then status_of_code (b ! 2) else ES_Off),
                  fv_shutdown_applied = (latched \<and> b ! 3 \<noteq> 0), fv_occurrence_count = read_u32 p 4,
                  fv_updated_at_ms = now\<rparr>)\<rparr>))"

fun read_ports :: "packet \<Rightarrow> nat \<Rightarrow> nat \<Rightarrow> (nat \<Rightarrow> port_snapshot) \<Rightarrow> (nat \<Rightarrow> port_snapshot) option" where
  "read_ports p 0 offset ports = Some ports"
| "read_ports p (Suc n) offset ports =
    (let port = unat (pkt_payload p ! offset) in
     if port \<ge> kMaxRouterPorts then None
     else read_ports p n (offset + 21) (ports(port :=
       \<lparr>pv_attached = True, pv_rx_packets = read_u32 p (offset + 1), pv_tx_packets = read_u32 p (offset + 5),
        pv_rx_bytes = read_u32 p (offset + 9), pv_dropped_packets = read_u32 p (offset + 13),
        pv_malformed_frames = read_u32 p (offset + 17)\<rparr>)))"

definition decode_northbridge_diagnostics :: "packet \<Rightarrow> u32 \<Rightarrow> 'o motorcycle_computer
    \<Rightarrow> bool \<times> 'o motorcycle_computer" where
  "decode_northbridge_diagnostics p now mc =
    (if pkt_source p \<noteq> addr_Northbridge \<or> pkt_type p \<noteq> msg_Diagnostic \<or> pkt_length p < 18
        \<or> pkt_payload p ! 0 \<noteq> 0x02 then (False, mc)
     else
       let port_count = unat (pkt_payload p ! 1) in
       if port_count > kMaxRouterPorts \<or> pkt_length p \<noteq> of_nat (18 + port_count * 21) then (False, mc)
       else case read_ports p port_count 18 (\<lambda>_. default_port_snapshot) of
         None \<Rightarrow> (False, mc)
       | Some ports \<Rightarrow> (True, mc\<lparr>mc_northbridge := (mc_northbridge mc)\<lparr>nv_valid := True,
           nv_forwarded_packets := read_u32 p 2, nv_dropped_packets := read_u32 p 6,
           nv_route_movement_events := read_u32 p 10, nv_topology_fault_events := read_u32 p 14,
           nv_ports := ports, nv_updated_at_ms := now\<rparr>\<rparr>))"

definition decode_northbridge_fault :: "packet \<Rightarrow> u32 \<Rightarrow> 'o motorcycle_computer
    \<Rightarrow> bool \<times> 'o motorcycle_computer" where
  "decode_northbridge_fault p now mc =
    (let b = pkt_payload p in
     if pkt_source p \<noteq> addr_Northbridge \<or> pkt_type p \<noteq> msg_Fault \<or> pkt_length p \<noteq> 9
        \<or> b ! 0 \<noteq> 0x02 \<or> b ! 1 \<noteq> 0x01 then (False, mc)
     else (True, mc\<lparr>mc_northbridge := (mc_northbridge mc)\<lparr>nv_topology_fault_active := True,
       nv_topology_fault_node := b ! 2, nv_expected_port := b ! 3, nv_actual_port := b ! 4,
       nv_topology_fault_events := read_u32 p 5, nv_updated_at_ms := now\<rparr>\<rparr>))"

definition decode_security_state :: "packet \<Rightarrow> u32 \<Rightarrow> 'o motorcycle_computer \<Rightarrow> bool \<times> 'o motorcycle_computer" where
  "decode_security_state p now mc =
    (let b = pkt_payload p in
     if pkt_source p \<noteq> addr_Security \<or> pkt_type p \<noteq> msg_SecurityState \<or> pkt_length p \<noteq> 6 then (False, mc)
     else if b ! 0 > mode_code Mode_LockPending then (False, mc)
     else if list_ex (\<lambda>i. b ! i > 1) [1..<6] then (False, mc)
     else (True, mc\<lparr>mc_security := (mc_security mc)\<lparr>xv_mode := mode_of_code (b ! 0),
       xv_start_inhibit := (b ! 1 \<noteq> 0), xv_alarm_active := (b ! 2 \<noteq> 0),
       xv_shock_warning := (b ! 3 \<noteq> 0), xv_shock_trigger := (b ! 4 \<noteq> 0),
       xv_engine_running := (b ! 5 \<noteq> 0), xv_valid := True, xv_updated_at_ms := now\<rparr>\<rparr>))"

definition decode_security_event :: "packet \<Rightarrow> u32 \<Rightarrow> 'o motorcycle_computer \<Rightarrow> bool \<times> 'o motorcycle_computer" where
  "decode_security_event p now mc =
    (let raw = pkt_payload p ! 0 in
     if pkt_source p \<noteq> addr_Security \<or> pkt_type p \<noteq> msg_SecurityEvent \<or> pkt_length p \<noteq> 1 then (False, mc)
     else if raw < event_code Event_ShockWarning \<or> raw > event_code Event_LockPending then (False, mc)
     else (True, mc\<lparr>mc_security := (mc_security mc)\<lparr>xv_last_event := event_of_code raw,
       xv_has_event := True, xv_last_event_at_ms := now\<rparr>\<rparr>))"

section \<open>Dispatch and service\<close>

text \<open>\<open>if (decode(packet, now)) return;\<close> for each decoder in turn.\<close>

fun first_decoder :: "(packet \<Rightarrow> u32 \<Rightarrow> 'o motorcycle_computer \<Rightarrow> bool \<times> 'o motorcycle_computer) list
    \<Rightarrow> packet \<Rightarrow> u32 \<Rightarrow> 'o motorcycle_computer \<Rightarrow> 'o motorcycle_computer" where
  "first_decoder [] p now mc = mc"
| "first_decoder (d # ds) p now mc =
    (case d p now mc of (ok, mc1) \<Rightarrow> if ok then mc1 else first_decoder ds p now mc1)"

text \<open>The observer runs between the supervisor and the decoders, with the node and the supervisor at hand.\<close>

definition mc_observed :: "('o, 'w) packet_observer \<Rightarrow> packet \<Rightarrow> u32 \<Rightarrow> 'o motorcycle_computer \<Rightarrow> bike_node \<Rightarrow> 'w
    \<Rightarrow> 'o motorcycle_computer \<times> bike_node \<times> 'w" where
  "mc_observed obs p now mc nd w =
    (case obs of None \<Rightarrow> (mc, nd, w)
     | Some f \<Rightarrow> (case f p now (mc_supervisor mc) (mc_observer mc) nd w of
         (st, nd1, w1) \<Rightarrow> (mc\<lparr>mc_observer := st\<rparr>, nd1, w1)))"

definition mc_dispatch :: "('o, 'w) packet_observer \<Rightarrow> packet \<Rightarrow> u32 \<Rightarrow> 'o motorcycle_computer \<Rightarrow> bike_node \<Rightarrow> 'w
    \<Rightarrow> 'o motorcycle_computer \<times> bike_node \<times> 'w" where
  "mc_dispatch obs p now mc nd w =
    (let mc1 = mc\<lparr>mc_supervisor := sv_observe p now (mc_supervisor mc)\<rparr>
     in case mc_observed obs p now mc1 nd w of
       (mc2, nd2, w2) \<Rightarrow>
         (first_decoder [decode_lighting_state, decode_lighting_diagnostics, decode_lighting_fault,
            decode_northbridge_diagnostics, decode_northbridge_fault, decode_security_state,
            decode_security_event] p now mc2, nd2, w2))"

definition mc_service :: "'w transport_ops \<Rightarrow> ('o, 'w) packet_observer \<Rightarrow> u32 \<Rightarrow> 'o motorcycle_computer
    \<Rightarrow> bike_node \<Rightarrow> 'w \<Rightarrow> ('o motorcycle_computer \<times> bike_node \<times> 'w) option" where
  "mc_service ops obs now mc nd w =
    (case node_drain ops now (\<lambda>p. mc_dispatch obs p now) mc nd w of
       None \<Rightarrow> None
     | Some (mc1, nd1, w1) \<Rightarrow>
         (case node_service ops nd1 now w1 of
            (nd2, w2) \<Rightarrow>
              case sv_service ops now (mc_supervisor mc1) nd2 w2 of
                (sv, nd3, w3) \<Rightarrow> Some (mc1\<lparr>mc_supervisor := sv\<rparr>, nd3, w3)))"

definition mc_snapshot :: "'o motorcycle_computer \<Rightarrow> bike_node \<Rightarrow> motorcycle_snapshot" where
  "mc_snapshot mc nd = \<lparr>ms_lighting_node = sv_status (mc_supervisor mc) addr_Lighting,
     ms_security_node = sv_status (mc_supervisor mc) addr_Security,
     ms_northbridge_node = sv_status (mc_supervisor mc) addr_Northbridge,
     ms_lighting = mc_lighting mc, ms_lighting_diagnostics = mc_diagnostics mc,
     ms_lighting_faults = mc_faults mc, ms_northbridge = mc_northbridge mc, ms_security = mc_security mc,
     ms_tx_failures = nd_tx_failures nd, ms_rx_drops = nd_rx_drops nd\<rparr>"

definition request_all_states :: "'w transport_ops \<Rightarrow> u32 \<Rightarrow> bike_node \<Rightarrow> 'w \<Rightarrow> bool \<times> bike_node \<times> 'w" where
  "request_all_states ops now nd w =
    (case node_send ops nd (default_packet\<lparr>pkt_destination := addr_Lighting, pkt_type := msg_GetState\<rparr>)
            now False w of
       (lighting_ok, nd1, w1) \<Rightarrow>
         case node_send ops nd1 (default_packet\<lparr>pkt_destination := addr_Northbridge,
                pkt_type := msg_Diagnostic\<rparr>) now False w1 of
           (northbridge_ok, nd2, w2) \<Rightarrow>
             case security_client_request_state ops now nd2 w2 of
               (security_ok, nd3, w3) \<Rightarrow> (lighting_ok \<and> northbridge_ok \<and> security_ok, nd3, w3))"

definition mc_begin :: "'w transport_ops \<Rightarrow> u32 \<Rightarrow> 'o motorcycle_computer \<Rightarrow> bike_node \<Rightarrow> 'w
    \<Rightarrow> 'o motorcycle_computer \<times> bike_node \<times> 'w" where
  "mc_begin ops now mc nd w =
    (case sv_send_discovery ops now (mc_supervisor mc) nd w of
       (_, sv1, nd1, w1) \<Rightarrow>
         case sv_send_heartbeat ops now sv1 nd1 w1 of
           (_, sv2, nd2, w2) \<Rightarrow>
             case request_all_states ops now nd2 w2 of
               (_, nd3, w3) \<Rightarrow> (mc\<lparr>mc_supervisor := sv2\<rparr>, nd3, w3))"

end
