(* ===== verification/Northbridge.thy ===== *)
theory Northbridge
  imports Router DeviceInfo
begin

text \<open>
  The northbridge runtime (\<open>library/src/northbridge.cpp\<close>): per-port receive parsers and
  statistics, topology bindings and their enforcement, the packets it answers itself and the
  ones it forwards.

  A write behind the end of a payload array is undefined behaviour in C++ and is the value
  \<open>None\<close> here; \<open>send_diagnostics\<close> is the only place where it can happen.
\<close>

section \<open>State\<close>

record port_stats =
  ps_rx_bytes :: u32
  ps_rx_packets :: u32
  ps_tx_packets :: u32
  ps_dropped_packets :: u32
  ps_malformed_frames :: u32

definition empty_stats :: port_stats where
  "empty_stats = \<lparr>ps_rx_bytes = 0, ps_rx_packets = 0, ps_tx_packets = 0, ps_dropped_packets = 0,
     ps_malformed_frames = 0\<rparr>"

record topology_binding =
  tb_address :: node_address
  tb_port :: u8
  tb_active :: bool

definition empty_binding :: topology_binding where
  "empty_binding = \<lparr>tb_address = addr_Broadcast, tb_port = 0, tb_active = False\<rparr>"

record northbridge =
  nb_router :: router
  nb_transports :: "nat option list"
  nb_parsers :: "stream_parser list"
  nb_port_stats :: "port_stats list"
  nb_bindings :: "topology_binding list"
  nb_reject_snapshot :: "u32 list"
  nb_forwarded_packets :: u32
  nb_dropped_packets :: u32
  nb_route_movement_events :: u32
  nb_topology_fault_events :: u32
  nb_last_service_ms :: u32
  nb_local_sequence :: u16
  nb_topology_enforced :: bool

definition northbridge_init :: northbridge where
  "northbridge_init = \<lparr>nb_router = router_init, nb_transports = replicate kMaxRouterPorts None,
     nb_parsers = replicate kMaxRouterPorts stream_parser_init,
     nb_port_stats = replicate kMaxRouterPorts empty_stats,
     nb_bindings = replicate kMaxRouterPorts empty_binding,
     nb_reject_snapshot = replicate kMaxRouterPorts 0, nb_forwarded_packets = 0,
     nb_dropped_packets = 0, nb_route_movement_events = 0, nb_topology_fault_events = 0,
     nb_last_service_ms = 0, nb_local_sequence = 1, nb_topology_enforced = False\<rparr>"

definition nb_attach_port :: "u8 \<Rightarrow> nat \<Rightarrow> northbridge \<Rightarrow> bool \<times> northbridge" where
  "nb_attach_port port transport nb =
    (if unat port \<ge> length (nb_transports nb) then (False, nb)
     else case router_attach_port port transport (nb_router nb) of
       (ok, r) \<Rightarrow> (ok, nb\<lparr>nb_transports := (nb_transports nb)[unat port := Some transport],
                         nb_router := r\<rparr>))"

definition nb_set_route :: "node_address \<Rightarrow> u8 \<Rightarrow> northbridge \<Rightarrow> bool \<times> northbridge" where
  "nb_set_route a port nb =
    (case router_set_route a port (nb_router nb) of (ok, r) \<Rightarrow> (ok, nb\<lparr>nb_router := r\<rparr>))"

definition binding_matches :: "node_address \<Rightarrow> topology_binding \<Rightarrow> bool" where
  "binding_matches a b \<longleftrightarrow> tb_active b \<and> tb_address b = a"

definition nb_bind_node :: "node_address \<Rightarrow> u8 \<Rightarrow> northbridge \<Rightarrow> bool \<times> northbridge" where
  "nb_bind_node a port nb =
    (if unat port \<ge> length (nb_transports nb) \<or> nb_transports nb ! unat port = None then (False, nb)
     else case find_index (binding_matches a) (nb_bindings nb) of
       Some i \<Rightarrow> nb_set_route a port
         (nb\<lparr>nb_bindings := (nb_bindings nb)[i := (nb_bindings nb ! i)\<lparr>tb_port := port\<rparr>]\<rparr>)
     | None \<Rightarrow>
         case find_index (\<lambda>b. \<not> tb_active b) (nb_bindings nb) of
           Some i \<Rightarrow> nb_set_route a port
             (nb\<lparr>nb_bindings := (nb_bindings nb)
                  [i := \<lparr>tb_address = a, tb_port = port, tb_active = True\<rparr>]\<rparr>)
         | None \<Rightarrow> (False, nb))"

definition nb_set_topology_enforced :: "bool \<Rightarrow> northbridge \<Rightarrow> northbridge" where
  "nb_set_topology_enforced b nb = nb\<lparr>nb_topology_enforced := b\<rparr>"

definition expected_port_for :: "northbridge \<Rightarrow> node_address \<Rightarrow> int" where
  "expected_port_for nb a =
    (case find_index (binding_matches a) (nb_bindings nb) of
       Some i \<Rightarrow> int (unat (tb_port (nb_bindings nb ! i)))
     | None \<Rightarrow> - 1)"

definition nb_port_stats_of :: "northbridge \<Rightarrow> u8 \<Rightarrow> port_stats" where
  "nb_port_stats_of nb port =
    (if unat port < length (nb_port_stats nb) then nb_port_stats nb ! unat port else empty_stats)"

text \<open>\<open>port_stats_[port].<field> ...\<close> for a port inside the array.\<close>

definition upd_stats :: "u8 \<Rightarrow> (port_stats \<Rightarrow> port_stats) \<Rightarrow> northbridge \<Rightarrow> northbridge" where
  "upd_stats port f nb =
    nb\<lparr>nb_port_stats := (nb_port_stats nb)[unat port := f (nb_port_stats nb ! unat port)]\<rparr>"

definition inc_tx :: "port_stats \<Rightarrow> port_stats" where
  "inc_tx s = s\<lparr>ps_tx_packets := ps_tx_packets s + 1\<rparr>"

definition inc_dropped :: "port_stats \<Rightarrow> port_stats" where
  "inc_dropped s = s\<lparr>ps_dropped_packets := ps_dropped_packets s + 1\<rparr>"

section \<open>Packets of its own\<close>

definition put_u32 :: "nat \<Rightarrow> u32 \<Rightarrow> packet \<Rightarrow> packet" where
  "put_u32 offset v p =
    (let p1 = set_payload offset (byte32 3 v) p;
         p2 = set_payload (offset + 1) (byte32 2 v) p1;
         p3 = set_payload (offset + 2) (byte32 1 v) p2
     in set_payload (offset + 3) (byte32 0 v) p3)"

definition nb_send_local ::
  "'w transport_ops \<Rightarrow> packet \<Rightarrow> u8 \<Rightarrow> northbridge \<Rightarrow> 'w \<Rightarrow> bool \<times> northbridge \<times> 'w" where
  "nb_send_local ops p egress nb w =
    (if unat egress \<ge> length (nb_transports nb) then (False, nb, w)
     else case nb_transports nb ! unat egress of
       None \<Rightarrow> (False, nb, w)
     | Some t \<Rightarrow>
         let p1 = p\<lparr>pkt_source := addr_Northbridge\<rparr>;
             (p2, nb2) =
               (if pkt_sequence p1 = 0
                then (p1\<lparr>pkt_sequence := nb_local_sequence nb\<rparr>,
                      nb\<lparr>nb_local_sequence :=
                        (if nb_local_sequence nb + 1 = 0 then 1 else nb_local_sequence nb + 1)\<rparr>)
                else (p1, nb))
         in case encode_packet p2 (Some (replicate kMaxFrameSize 0)) kMaxFrameSize of
              (True, Some frame, n) \<Rightarrow>
                (case tp_write ops t (take n frame) w of
                   (ok, w') \<Rightarrow> (ok, (if ok then upd_stats egress inc_tx nb2 else nb2), w'))
            | _ \<Rightarrow> (False, nb2, w))"

definition nb_identity :: device_identity where
  "nb_identity = default_identity\<lparr>di_device_class := DeviceClass_NetworkController,
     di_firmware_major := 0, di_firmware_minor := 1, di_firmware_patch := 0,
     di_hardware_revision := 1, di_capabilities := CapabilityRouting OR CapabilityDiagnostics\<rparr>"

definition nb_send_device_info ::
  "'w transport_ops \<Rightarrow> node_address \<Rightarrow> u8 \<Rightarrow> northbridge \<Rightarrow> 'w \<Rightarrow> bool \<times> northbridge \<times> 'w" where
  "nb_send_device_info ops destination egress nb w =
    nb_send_local ops
      (encode_device_info_payload addr_Northbridge nb_identity (nb_last_service_ms nb)
        (default_packet\<lparr>pkt_destination := destination, pkt_type := msg_DeviceInfo,
           pkt_flags := FlagResponse\<rparr>)) egress nb w"

definition nb_send_heartbeat ::
  "'w transport_ops \<Rightarrow> node_address \<Rightarrow> u8 \<Rightarrow> northbridge \<Rightarrow> 'w \<Rightarrow> bool \<times> northbridge \<times> 'w" where
  "nb_send_heartbeat ops destination egress nb w =
    nb_send_local ops
      (default_packet\<lparr>pkt_destination := destination, pkt_type := msg_Heartbeat,
         pkt_flags := FlagResponse\<rparr>) egress nb w"

definition topology_fault_packet :: "node_address \<Rightarrow> u8 \<Rightarrow> u8 \<Rightarrow> u32 \<Rightarrow> packet" where
  "topology_fault_packet a expected actual events =
    (let p = default_packet\<lparr>pkt_destination := addr_MainComputer, pkt_type := msg_Fault,
               pkt_flags := FlagFault, pkt_length := 9\<rparr>;
         p1 = set_payload 0 0x02 p; p2 = set_payload 1 0x01 p1; p3 = set_payload 2 a p2;
         p4 = set_payload 3 expected p3; p5 = set_payload 4 actual p4
     in put_u32 5 events p5)"

definition nb_send_topology_fault ::
  "'w transport_ops \<Rightarrow> node_address \<Rightarrow> u8 \<Rightarrow> u8 \<Rightarrow> northbridge \<Rightarrow> 'w \<Rightarrow> bool \<times> northbridge \<times> 'w" where
  "nb_send_topology_fault ops a expected actual nb w =
    (let pi_port = router_route_for (nb_router nb) addr_MainComputer in
     if pi_port < 0 then (False, nb, w)
     else nb_send_local ops
       (topology_fault_packet a expected actual (nb_topology_fault_events nb))
       (word_of_int pi_port) nb w)"

text \<open>The per-port records of the diagnostic answer: 21 bytes each.\<close>

fun nb_diag_ports :: "northbridge \<Rightarrow> u8 list \<Rightarrow> nat \<Rightarrow> packet \<Rightarrow> (packet \<times> nat) option" where
  "nb_diag_ports nb [] offset p = Some (p, offset)"
| "nb_diag_ports nb (port # ports) offset p =
    (if nb_transports nb ! unat port = None then nb_diag_ports nb ports offset p
     else if offset + 20 \<ge> kMaxPayloadSize then None
     else
       let s = nb_port_stats nb ! unat port;
           p1 = set_payload offset port p;
           p2 = put_u32 (offset + 1) (ps_rx_packets s) p1;
           p3 = put_u32 (offset + 5) (ps_tx_packets s) p2;
           p4 = put_u32 (offset + 9) (ps_rx_bytes s) p3;
           p5 = put_u32 (offset + 13) (ps_dropped_packets s) p4;
           p6 = put_u32 (offset + 17) (ps_malformed_frames s) p5
       in nb_diag_ports nb ports (offset + 21) p6)"

definition attached_count :: "northbridge \<Rightarrow> nat" where
  "attached_count nb = length (filter (\<lambda>t. t \<noteq> None) (nb_transports nb))"

definition nb_diag_head :: "node_address \<Rightarrow> northbridge \<Rightarrow> packet" where
  "nb_diag_head destination nb =
    (let p = default_packet\<lparr>pkt_destination := destination, pkt_type := msg_Diagnostic,
               pkt_flags := FlagResponse\<rparr>;
         p1 = set_payload 0 0x02 p;
         p2 = set_payload 1 (word_of_nat (attached_count nb)) p1;
         p3 = put_u32 2 (nb_forwarded_packets nb) p2;
         p4 = put_u32 6 (nb_dropped_packets nb) p3;
         p5 = put_u32 10 (nb_route_movement_events nb) p4
     in put_u32 14 (nb_topology_fault_events nb) p5)"

definition nb_send_diagnostics ::
  "'w transport_ops \<Rightarrow> node_address \<Rightarrow> u8 \<Rightarrow> northbridge \<Rightarrow> 'w \<Rightarrow> (bool \<times> northbridge \<times> 'w) option" where
  "nb_send_diagnostics ops destination egress nb w =
    (case nb_diag_ports nb port_numbers 18 (nb_diag_head destination nb) of
       None \<Rightarrow> None
     | Some (p, offset) \<Rightarrow>
         Some (nb_send_local ops (p\<lparr>pkt_length := word_of_nat offset\<rparr>) egress nb w))"

section \<open>Receiving and forwarding\<close>

definition nb_handle_local_packet ::
  "'w transport_ops \<Rightarrow> packet \<Rightarrow> u8 \<Rightarrow> u32 \<Rightarrow> northbridge \<Rightarrow> 'w \<Rightarrow> (bool \<times> northbridge \<times> 'w) option" where
  "nb_handle_local_packet ops p ingress now nb w =
    (let nb1 = nb\<lparr>nb_last_service_ms := now\<rparr>;
         (nb2, w2) =
           (if pkt_flags p AND FlagAckRequired \<noteq> 0
            then snd (nb_send_local ops
                   (default_packet\<lparr>pkt_destination := pkt_source p, pkt_type := msg_Ack,
                      pkt_flags := FlagResponse, pkt_sequence := pkt_sequence p\<rparr>) ingress nb1 w)
            else (nb1, w))
     in if pkt_type p = msg_DeviceDiscovery
        then Some (nb_send_device_info ops (pkt_source p) ingress nb2 w2)
        else if pkt_type p = msg_Heartbeat
        then Some (nb_send_heartbeat ops (pkt_source p) ingress nb2 w2)
        else if pkt_type p = msg_Diagnostic \<or> pkt_type p = msg_GetState
        then nb_send_diagnostics ops (pkt_source p) ingress nb2 w2
        else Some (True, nb2, w2))"

fun bump_broadcast_tx :: "u8 \<Rightarrow> u8 list \<Rightarrow> northbridge \<Rightarrow> northbridge" where
  "bump_broadcast_tx ingress [] nb = nb"
| "bump_broadcast_tx ingress (port # ports) nb =
    bump_broadcast_tx ingress ports
      (if port \<noteq> ingress \<and> nb_transports nb ! unat port \<noteq> None then upd_stats port inc_tx nb else nb)"

definition nb_account_forward :: "packet \<Rightarrow> u8 \<Rightarrow> bool \<Rightarrow> northbridge \<Rightarrow> northbridge" where
  "nb_account_forward p ingress success nb =
    (if \<not> success then upd_stats ingress inc_dropped nb
     else if pkt_destination p = addr_Broadcast then bump_broadcast_tx ingress port_numbers nb
     else
       let destination_port = router_route_for (nb_router nb) (pkt_destination p) in
       if destination_port \<ge> 0 \<and> (word_of_int destination_port :: u8) \<noteq> ingress
       then upd_stats (word_of_int destination_port) inc_tx nb else nb)"

text \<open>The body of the receive loop of \<open>service_port\<close> for one completed packet.\<close>

definition nb_receive ::
  "'w transport_ops \<Rightarrow> packet \<Rightarrow> u8 \<Rightarrow> u32 \<Rightarrow> northbridge \<Rightarrow> 'w \<Rightarrow> (northbridge \<times> 'w) option" where
  "nb_receive ops p port now nb w =
    (let nb1 = upd_stats port (\<lambda>s. s\<lparr>ps_rx_packets := ps_rx_packets s + 1\<rparr>) nb;
         expected = expected_port_for nb1 (pkt_source p);
         moved = expected \<ge> 0 \<and> (word_of_int expected :: u8) \<noteq> port;
         nb2 = (if moved then nb1\<lparr>nb_route_movement_events := nb_route_movement_events nb1 + 1\<rparr>
                else nb1)
     in if moved \<and> nb_topology_enforced nb2
        then
          let nb3 = upd_stats port inc_dropped
                (nb2\<lparr>nb_topology_fault_events := nb_topology_fault_events nb2 + 1,
                   nb_dropped_packets := nb_dropped_packets nb2 + 1\<rparr>)
          in Some (snd (nb_send_topology_fault ops (pkt_source p) (word_of_int expected) port nb3 w))
        else if pkt_destination p = addr_Northbridge
        then map_option snd (nb_handle_local_packet ops p port now
               (nb2\<lparr>nb_router := router_mark_seen (pkt_source p) port now (nb_router nb2)\<rparr>) w)
        else
          case router_forward ops p port now (nb_router nb2) w of
            (forwarded, r, w') \<Rightarrow>
              let nb3 = nb_account_forward p port forwarded (nb2\<lparr>nb_router := r\<rparr>)
              in Some (if forwarded
                       then nb3\<lparr>nb_forwarded_packets := nb_forwarded_packets nb3 + 1\<rparr>
                       else nb3\<lparr>nb_dropped_packets := nb_dropped_packets nb3 + 1\<rparr>, w'))"

fun nb_bytes ::
  "'w transport_ops \<Rightarrow> u8 \<Rightarrow> u32 \<Rightarrow> u8 list \<Rightarrow> northbridge \<Rightarrow> 'w \<Rightarrow> (northbridge \<times> 'w) option" where
  "nb_bytes ops port now [] nb w = Some (nb, w)"
| "nb_bytes ops port now (b # bs) nb w =
    (case parser_push (nb_parsers nb ! unat port) b default_packet of
       (ok, ps, p) \<Rightarrow>
         let nb1 = nb\<lparr>nb_parsers := (nb_parsers nb)[unat port := ps]\<rparr> in
         if ok
         then (case nb_receive ops p port now nb1 w of
                 None \<Rightarrow> None
               | Some (nb2, w2) \<Rightarrow> nb_bytes ops port now bs nb2 w2)
         else nb_bytes ops port now bs nb1 w)"

definition nb_note_rejects :: "u8 \<Rightarrow> northbridge \<Rightarrow> northbridge" where
  "nb_note_rejects port nb =
    (let rejected = sp_rejected (nb_parsers nb ! unat port);
         snapshot = nb_reject_snapshot nb ! unat port
     in if rejected > snapshot
        then (upd_stats port (\<lambda>s. s\<lparr>ps_malformed_frames :=
                ps_malformed_frames s + (rejected - snapshot)\<rparr>) nb)
               \<lparr>nb_reject_snapshot := (nb_reject_snapshot nb)[unat port := rejected]\<rparr>
        else nb)"

definition nb_service_port ::
  "'w transport_ops \<Rightarrow> u8 \<Rightarrow> u32 \<Rightarrow> northbridge \<Rightarrow> 'w \<Rightarrow> (northbridge \<times> 'w) option" where
  "nb_service_port ops port now nb w =
    (if unat port \<ge> length (nb_transports nb) then Some (nb, w)
     else case nb_transports nb ! unat port of
       None \<Rightarrow> Some (nb, w)
     | Some t \<Rightarrow>
         (case tp_read ops t 64 w of
            (chunk, w1) \<Rightarrow>
              let nb1 = upd_stats port (\<lambda>s. s\<lparr>ps_rx_bytes :=
                    ps_rx_bytes s + word_of_nat (length chunk)\<rparr>) nb
              in case nb_bytes ops port now chunk nb1 w1 of
                   None \<Rightarrow> None
                 | Some (nb2, w2) \<Rightarrow> Some (nb_note_rejects port nb2, w2)))"

fun nb_service_ports ::
  "'w transport_ops \<Rightarrow> u8 list \<Rightarrow> u32 \<Rightarrow> northbridge \<Rightarrow> 'w \<Rightarrow> (northbridge \<times> 'w) option" where
  "nb_service_ports ops [] now nb w = Some (nb, w)"
| "nb_service_ports ops (port # ports) now nb w =
    (case nb_service_port ops port now nb w of
       None \<Rightarrow> None
     | Some (nb', w') \<Rightarrow> nb_service_ports ops ports now nb' w')"

definition nb_service :: "'w transport_ops \<Rightarrow> u32 \<Rightarrow> northbridge \<Rightarrow> 'w \<Rightarrow> (northbridge \<times> 'w) option" where
  "nb_service ops now nb w =
    nb_service_ports ops port_numbers now (nb\<lparr>nb_last_service_ms := now\<rparr>) w"

section \<open>Invariant\<close>

definition nb_inv :: "northbridge \<Rightarrow> bool" where
  "nb_inv nb \<longleftrightarrow> router_inv (nb_router nb) \<and> rt_ports (nb_router nb) = nb_transports nb
     \<and> length (nb_parsers nb) = kMaxRouterPorts \<and> (\<forall>s\<in>set (nb_parsers nb). parser_inv s)
     \<and> length (nb_port_stats nb) = kMaxRouterPorts \<and> length (nb_bindings nb) = kMaxRouterPorts
     \<and> length (nb_reject_snapshot nb) = kMaxRouterPorts
     \<and> (\<forall>b\<in>set (nb_bindings nb). tb_active b \<longrightarrow> attached (nb_transports nb) (tb_port b))
     \<and> nb_local_sequence nb \<noteq> 0"

lemma nb_inv_transports: "nb_inv nb \<Longrightarrow> length (nb_transports nb) = kMaxRouterPorts"
  unfolding nb_inv_def router_inv_def by auto

lemma upd_stats_sel [simp]:
  "nb_router (upd_stats q f nb) = nb_router nb" "nb_transports (upd_stats q f nb) = nb_transports nb"
  "nb_parsers (upd_stats q f nb) = nb_parsers nb" "nb_bindings (upd_stats q f nb) = nb_bindings nb"
  "nb_reject_snapshot (upd_stats q f nb) = nb_reject_snapshot nb"
  "nb_forwarded_packets (upd_stats q f nb) = nb_forwarded_packets nb"
  "nb_dropped_packets (upd_stats q f nb) = nb_dropped_packets nb"
  "nb_route_movement_events (upd_stats q f nb) = nb_route_movement_events nb"
  "nb_topology_fault_events (upd_stats q f nb) = nb_topology_fault_events nb"
  "nb_last_service_ms (upd_stats q f nb) = nb_last_service_ms nb"
  "nb_local_sequence (upd_stats q f nb) = nb_local_sequence nb"
  "nb_topology_enforced (upd_stats q f nb) = nb_topology_enforced nb"
  "length (nb_port_stats (upd_stats q f nb)) = length (nb_port_stats nb)"
  by (simp_all add: upd_stats_def)

lemma nb_inv_update [simp]:
  "nb_inv (upd_stats q f nb) = nb_inv nb"
  "nb_inv (nb\<lparr>nb_forwarded_packets := n\<rparr>) = nb_inv nb"
  "nb_inv (nb\<lparr>nb_dropped_packets := n\<rparr>) = nb_inv nb"
  "nb_inv (nb\<lparr>nb_route_movement_events := n\<rparr>) = nb_inv nb"
  "nb_inv (nb\<lparr>nb_topology_fault_events := n\<rparr>) = nb_inv nb"
  "nb_inv (nb\<lparr>nb_last_service_ms := n\<rparr>) = nb_inv nb"
  "nb_inv (nb\<lparr>nb_topology_enforced := b\<rparr>) = nb_inv nb"
  "nb_inv (nb\<lparr>nb_reject_snapshot := (nb_reject_snapshot nb)[i := n]\<rparr>) = nb_inv nb"
  by (simp_all add: nb_inv_def)

lemma nb_inv_router:
  "nb_inv nb \<Longrightarrow> router_inv r \<Longrightarrow> rt_ports r = rt_ports (nb_router nb) \<Longrightarrow> nb_inv (nb\<lparr>nb_router := r\<rparr>)"
  by (simp add: nb_inv_def)

lemma nb_inv_init [inv_intros]: "nb_inv northbridge_init"
  using router_inv_init parser_inv_init
  by (simp add: nb_inv_def northbridge_init_def empty_binding_def) (simp add: router_init_def)

lemma nb_attach_port_inv [inv_intros]:
  assumes "nb_inv nb"
  shows "nb_inv (snd (nb_attach_port port t nb))"
proof (cases "unat port < kMaxRouterPorts")
  case True
  have r: "router_inv (snd (router_attach_port port t (nb_router nb)))"
    by (rule router_attach_port_inv) (use assms in \<open>simp add: nb_inv_def\<close>)
  show ?thesis
    using assms True r nb_inv_transports [OF assms] unfolding nb_inv_def
    by (auto simp: nb_attach_port_def router_attach_port_def attached_def nth_list_update)
next
  case False
  with assms nb_inv_transports [OF assms] show ?thesis by (simp add: nb_attach_port_def)
qed

lemma nb_set_route_inv [inv_intros]:
  assumes "nb_inv nb"
  shows "nb_inv (snd (nb_set_route a port nb))"
proof -
  have "router_inv (nb_router nb)" using assms by (simp add: nb_inv_def)
  from router_set_route_wf [OF this] show ?thesis
    by (auto simp: nb_set_route_def split: prod.split intro: nb_inv_router [OF assms])
qed

lemma nb_inv_bindings:
  assumes "nb_inv nb" and "tb_active b \<Longrightarrow> attached (nb_transports nb) (tb_port b)"
  shows "nb_inv (nb\<lparr>nb_bindings := (nb_bindings nb)[i := b]\<rparr>)"
  using assms unfolding nb_inv_def by (auto dest!: set_list_update_subset)

lemma nb_bind_node_inv [inv_intros]:
  assumes "nb_inv nb"
  shows "nb_inv (snd (nb_bind_node a port nb))"
proof (cases "attached (nb_transports nb) port")
  case True
  then show ?thesis
    using assms unfolding nb_bind_node_def
    by (auto split: option.split intro!: nb_set_route_inv nb_inv_bindings)
next
  case False
  then show ?thesis using assms by (auto simp: nb_bind_node_def attached_def)
qed

section \<open>Bindings as a table\<close>

definition binding_lookup :: "northbridge \<Rightarrow> node_address \<Rightarrow> u8 option" where
  "binding_lookup nb a =
    map_option (\<lambda>i. tb_port (nb_bindings nb ! i)) (find_index (binding_matches a) (nb_bindings nb))"

lemma expected_port_lookup:
  "expected_port_for nb a = (case binding_lookup nb a of Some q \<Rightarrow> int (unat q) | None \<Rightarrow> - 1)"
  by (cases "find_index (binding_matches a) (nb_bindings nb)")
    (simp_all add: expected_port_for_def binding_lookup_def del: find_index_None_iff)

lemma binding_lookup_attached:
  assumes "nb_inv nb" and "binding_lookup nb a = Some q"
  shows "attached (nb_transports nb) q"
proof -
  from assms(2) obtain i where "find_index (binding_matches a) (nb_bindings nb) = Some i"
    "q = tb_port (nb_bindings nb ! i)" by (auto simp: binding_lookup_def)
  with find_index_SomeD(1,2) [OF this(1)] assms(1) show ?thesis
    by (auto simp: nb_inv_def binding_matches_def)
qed

lemma binding_lookup_set:
  assumes i: "find_index (binding_matches a) (nb_bindings nb) = Some i \<or>
      (find_index (binding_matches a) (nb_bindings nb) = None
        \<and> find_index (\<lambda>b. \<not> tb_active b) (nb_bindings nb) = Some i)"
    and b: "tb_active b" "tb_address b = a"
  shows "binding_lookup (nb\<lparr>nb_bindings := (nb_bindings nb)[i := b]\<rparr>) =
    (binding_lookup nb)(a \<mapsto> tb_port b)"
proof
  fix c
  have len: "i < length (nb_bindings nb)"
    using i by (auto dest: find_index_SomeD(1) simp del: find_index_None_iff)
  have old: "tb_active (nb_bindings nb ! i) \<Longrightarrow> tb_address (nb_bindings nb ! i) = a"
    using i by (auto simp: binding_matches_def dest!: find_index_SomeD(2) simp del: find_index_None_iff)
  have before: "\<not> binding_matches a (nb_bindings nb ! j)" if "j < i" for j
    using i find_index_SomeD(3) [of _ "nb_bindings nb" i j] that len by auto
  show "binding_lookup (nb\<lparr>nb_bindings := (nb_bindings nb)[i := b]\<rparr>) c =
    ((binding_lookup nb)(a \<mapsto> tb_port b)) c"
  proof (cases "c = a")
    case True
    have "find_index (binding_matches a) ((nb_bindings nb)[i := b]) = Some i"
      using len b before by (intro find_index_eq_SomeI) (auto simp: binding_matches_def)
    with True len show ?thesis by (simp add: binding_lookup_def)
  next
    case False
    have irr: "find_index (binding_matches c) ((nb_bindings nb)[i := b]) =
        find_index (binding_matches c) (nb_bindings nb)"
      using False b old by (intro find_index_update_irrelevant) (auto simp: binding_matches_def)
    have "find_index (binding_matches c) (nb_bindings nb) \<noteq> Some i"
      using False old find_index_SomeD(2) [of "binding_matches c" "nb_bindings nb" i]
      by (auto simp: binding_matches_def)
    with irr False show ?thesis
      by (cases "find_index (binding_matches c) (nb_bindings nb)")
        (simp_all add: binding_lookup_def del: find_index_None_iff)
  qed
qed

text \<open>
  While only \<open>attach_port\<close> and \<open>bind_node\<close> have run, the route table mirrors the bindings slot
  by slot, so that \<open>bind_node\<close> never fails half-way.
\<close>

definition nb_configured :: "northbridge \<Rightarrow> bool" where
  "nb_configured nb \<longleftrightarrow> nb_inv nb \<and>
    map (\<lambda>b. (tb_active b, tb_address b)) (nb_bindings nb) =
    map (\<lambda>e. (re_active e, re_address e)) (rt_routes (nb_router nb))"

lemma nb_configured_find:
  assumes "nb_configured nb"
  shows "find_index (route_matches a) (rt_routes (nb_router nb)) =
      find_index (binding_matches a) (nb_bindings nb)"
    and "find_index (\<lambda>e. \<not> re_active e) (rt_routes (nb_router nb)) =
      find_index (\<lambda>b. \<not> tb_active b) (nb_bindings nb)"
proof -
  let ?bs = "map (\<lambda>b. (tb_active b, tb_address b)) (nb_bindings nb)"
  have eq: "map (\<lambda>e. (re_active e, re_address e)) (rt_routes (nb_router nb)) = ?bs"
    using assms by (simp add: nb_configured_def)
  show "find_index (route_matches a) (rt_routes (nb_router nb)) =
      find_index (binding_matches a) (nb_bindings nb)"
    using arg_cong [OF eq, of "find_index (\<lambda>(x, y). x \<and> y = a)"]
    by (simp add: find_index_map route_matches_def [abs_def] binding_matches_def [abs_def])
  show "find_index (\<lambda>e. \<not> re_active e) (rt_routes (nb_router nb)) =
      find_index (\<lambda>b. \<not> tb_active b) (nb_bindings nb)"
    using arg_cong [OF eq, of "find_index (\<lambda>(x, y). \<not> x)"] by (simp add: find_index_map)
qed

lemma nb_bind_node_cases:
  assumes conf: "nb_configured nb"
  obtains (detached) "nb_bind_node a q nb = (False, nb)" "\<not> attached (nb_transports nb) q"
    | (full) "nb_bind_node a q nb = (False, nb)" "binding_lookup nb a = None"
    | (bound) nb' where "nb_bind_node a q nb = (True, nb')" "attached (nb_transports nb) q"
      "binding_lookup nb' = (binding_lookup nb)(a \<mapsto> q)" "nb_configured nb'"
proof -
  have inv: "nb_inv nb" and zip: "map (\<lambda>b. (tb_active b, tb_address b)) (nb_bindings nb) =
      map (\<lambda>e. (re_active e, re_address e)) (rt_routes (nb_router nb))"
    using conf by (simp_all add: nb_configured_def)
  have inv': "nb_inv (snd (nb_bind_node a q nb))" by (rule nb_bind_node_inv [OF inv])
  have len: "length (nb_bindings nb) = 8" "length (rt_routes (nb_router nb)) = 8"
    using inv by (simp_all add: nb_inv_def router_inv_def)
  note find = nb_configured_find [OF conf]
  show thesis
  proof (cases "attached (nb_transports nb) q")
    case False
    then show thesis by (intro detached) (auto simp: nb_bind_node_def attached_def)
  next
    case att: True
    then have port: "\<not> (unat q \<ge> length (nb_transports nb) \<or> nb_transports nb ! unat q = None)"
      by (auto simp: attached_def)
    have portr: "\<not> (unat q \<ge> length (rt_ports (nb_router nb)) \<or> rt_ports (nb_router nb) ! unat q = None)"
      using port inv by (simp add: nb_inv_def)
    show thesis
    proof (cases "find_index (binding_matches a) (nb_bindings nb)")
      case (Some i)
      let ?b = "(nb_bindings nb ! i)\<lparr>tb_port := q\<rparr>"
        and ?e = "(rt_routes (nb_router nb) ! i)\<lparr>re_port := q\<rparr>"
      let ?nb = "nb\<lparr>nb_bindings := (nb_bindings nb)[i := ?b],
        nb_router := (nb_router nb)\<lparr>rt_routes := (rt_routes (nb_router nb))[i := ?e]\<rparr>\<rparr>"
      have eq: "nb_bind_node a q nb = (True, ?nb)"
        using Some port portr find by (simp add: nb_bind_node_def nb_set_route_def router_set_route_def)
      have m: "i < 8" "tb_active (nb_bindings nb ! i)" "tb_address (nb_bindings nb ! i) = a"
        using find_index_SomeD(1,2) [OF Some] len by (simp_all add: binding_matches_def)
      have "binding_lookup (nb\<lparr>nb_bindings := (nb_bindings nb)[i := ?b]\<rparr>) =
          (binding_lookup nb)(a \<mapsto> tb_port ?b)"
        using Some m by (intro binding_lookup_set) simp_all
      then have "binding_lookup ?nb = (binding_lookup nb)(a \<mapsto> q)"
        by (simp add: binding_lookup_def [abs_def])
      moreover have "nb_configured ?nb"
      proof -
        have "map (\<lambda>b. (tb_active b, tb_address b)) ((nb_bindings nb)[i := ?b]) =
            map (\<lambda>b. (tb_active b, tb_address b)) (nb_bindings nb)"
          using m(1) len by (simp add: map_update list_update_same_conv)
        moreover have "map (\<lambda>e. (re_active e, re_address e)) ((rt_routes (nb_router nb))[i := ?e]) =
            map (\<lambda>e. (re_active e, re_address e)) (rt_routes (nb_router nb))"
          using m(1) len by (simp add: map_update list_update_same_conv)
        ultimately show ?thesis using inv' zip by (simp add: eq nb_configured_def)
      qed
      ultimately show thesis using eq att by (intro bound)
    next
      case none: None
      then have free: "binding_lookup nb a = None"
        by (simp add: binding_lookup_def del: find_index_None_iff)
      show thesis
      proof (cases "find_index (\<lambda>b. \<not> tb_active b) (nb_bindings nb)")
        case None
        with none port free show thesis
          by (intro full) (simp_all add: nb_bind_node_def del: find_index_None_iff)
      next
        case (Some i)
        let ?b = "\<lparr>tb_address = a, tb_port = q, tb_active = True\<rparr>"
          and ?e = "\<lparr>re_address = a, re_port = q, re_active = True, re_last_seen_ms = 0\<rparr>"
        let ?nb = "nb\<lparr>nb_bindings := (nb_bindings nb)[i := ?b],
          nb_router := (nb_router nb)\<lparr>rt_routes := (rt_routes (nb_router nb))[i := ?e]\<rparr>\<rparr>"
        have eq: "nb_bind_node a q nb = (True, ?nb)"
          using Some none port portr find
          by (simp add: nb_bind_node_def nb_set_route_def router_set_route_def del: find_index_None_iff)
        have "binding_lookup (nb\<lparr>nb_bindings := (nb_bindings nb)[i := ?b]\<rparr>) =
            (binding_lookup nb)(a \<mapsto> tb_port ?b)"
          using Some none by (intro binding_lookup_set) (simp_all del: find_index_None_iff)
        then have "binding_lookup ?nb = (binding_lookup nb)(a \<mapsto> q)"
          by (simp add: binding_lookup_def [abs_def])
        moreover have "nb_configured ?nb"
          using inv' zip by (simp add: eq nb_configured_def map_update)
        ultimately show thesis using eq att by (intro bound)
      qed
    qed
  qed
qed

interpretation bindings: address_table binding_lookup nb_bind_node nb_configured
  "\<lambda>nb q. attached (nb_transports nb) q"
proof (unfold_locales, goal_cases)
  case (1 s a p s')
  then show ?case by (cases rule: nb_bind_node_cases [where a = a and q = p]) auto
next
  case (2 s a p s')
  then show ?case by (cases rule: nb_bind_node_cases [where a = a and q = p]) auto
next
  case (3 s p a)
  from 3(1) show ?case
    by (cases rule: nb_bind_node_cases [where a = a and q = p]) (use 3(2,3) in auto)
next
  case (4 s a p)
  then show ?case by (cases rule: nb_bind_node_cases [where a = a and q = p]) auto
next
  case (5 s a p r s')
  from 5(1) show ?case
    by (cases rule: nb_bind_node_cases [where a = a and q = p]) (use 5 in auto)
qed

end
