(* ===== verification/NorthbridgeRuntime.thy ===== *)
theory NorthbridgeRuntime
  imports Northbridge
begin

text \<open>
  What the northbridge runtime (\<open>library/src/northbridge.cpp\<close>) does with what it receives: its
  operations keep the invariant, a packet is answered, forwarded or dropped and counted as such,
  a node on the wrong port is shut out, and the diagnostic answer stays inside its payload array
  for up to five attached ports.
\<close>

section \<open>Sending\<close>

lemma put_u32_eq: "put_u32 = put_device_u32"
  by (rule ext)+ (simp add: put_u32_def put_device_u32_def Let_def)

definition local_packet :: "northbridge \<Rightarrow> packet \<Rightarrow> packet" where
  "local_packet nb p = p\<lparr>pkt_source := addr_Northbridge,
     pkt_sequence := (if pkt_sequence p = 0 then nb_local_sequence nb else pkt_sequence p)\<rparr>"

definition local_bump :: "packet \<Rightarrow> northbridge \<Rightarrow> northbridge" where
  "local_bump p nb = (if pkt_sequence p = 0
     then nb\<lparr>nb_local_sequence := (if nb_local_sequence nb + 1 = 0 then 1 else nb_local_sequence nb + 1)\<rparr>
     else nb)"

lemma local_bump_sel [simp]:
  "nb_router (local_bump p nb) = nb_router nb" "nb_transports (local_bump p nb) = nb_transports nb"
  "nb_parsers (local_bump p nb) = nb_parsers nb" "nb_bindings (local_bump p nb) = nb_bindings nb"
  "nb_reject_snapshot (local_bump p nb) = nb_reject_snapshot nb"
  "nb_port_stats (local_bump p nb) = nb_port_stats nb"
  "nb_forwarded_packets (local_bump p nb) = nb_forwarded_packets nb"
  "nb_dropped_packets (local_bump p nb) = nb_dropped_packets nb"
  "nb_route_movement_events (local_bump p nb) = nb_route_movement_events nb"
  "nb_topology_fault_events (local_bump p nb) = nb_topology_fault_events nb"
  "nb_last_service_ms (local_bump p nb) = nb_last_service_ms nb"
  "nb_topology_enforced (local_bump p nb) = nb_topology_enforced nb"
  by (simp_all add: local_bump_def)

lemma nb_inv_local_bump [simp]: "nb_inv nb \<Longrightarrow> nb_inv (local_bump p nb)"
  by (simp add: nb_inv_def) (simp add: local_bump_def)

lemma wf_local_packet [simp]: "wf_packet (local_packet nb p) = wf_packet p"
  by (simp add: local_packet_def)

lemma nb_send_local_eq:
  assumes "wf_packet p"
  shows "nb_send_local ops p e nb w =
    (if attached (nb_transports nb) e
     then (case transmit ops (the (nb_transports nb ! unat e)) (local_packet nb p) w of
             (ok, w') \<Rightarrow> (ok, (if ok then upd_stats e inc_tx (local_bump p nb) else local_bump p nb), w'))
     else (False, nb, w))"
proof (cases "attached (nb_transports nb) e")
  case True
  then obtain t where t: "unat e < length (nb_transports nb)" "nb_transports nb ! unat e = Some t"
    by (auto simp: attached_def)
  let ?q = "local_packet nb p"
  have wf: "wf_packet ?q" using assms by simp
  have q: "(if pkt_sequence (p\<lparr>pkt_source := addr_Northbridge\<rparr>) = 0
      then (p\<lparr>pkt_source := addr_Northbridge\<rparr>\<lparr>pkt_sequence := nb_local_sequence nb\<rparr>,
            nb\<lparr>nb_local_sequence :=
              (if nb_local_sequence nb + 1 = 0 then 1 else nb_local_sequence nb + 1)\<rparr>)
      else (p\<lparr>pkt_source := addr_Northbridge\<rparr>, nb)) = (?q, local_bump p nb)"
    by (simp add: local_packet_def local_bump_def)
  show ?thesis
  proof (cases "unat (pkt_length ?q) > kMaxPayloadSize")
    case True
    with t \<open>attached _ e\<close> show ?thesis
      unfolding nb_send_local_def q Let_def
      by (simp add: transmit_def encode_packet_too_large)
  next
    case False
    with wf have "length (frame_of ?q) = encoded_size ?q"
      by (intro length_frame_of) (simp add: sendable_def)
    with False t \<open>attached _ e\<close> show ?thesis
      unfolding nb_send_local_def q Let_def
      by (simp add: transmit_def encode_zero_buffer [OF wf, simplified])
  qed
next
  case False
  then show ?thesis by (auto simp: nb_send_local_def attached_def)
qed

text \<open>Sending changes statistics, the local sequence number and the wire, nothing else.\<close>

definition same_network :: "northbridge \<Rightarrow> northbridge \<Rightarrow> bool" where
  "same_network nb nb' \<longleftrightarrow> nb_router nb' = nb_router nb \<and> nb_transports nb' = nb_transports nb
     \<and> nb_parsers nb' = nb_parsers nb \<and> nb_bindings nb' = nb_bindings nb
     \<and> nb_forwarded_packets nb' = nb_forwarded_packets nb
     \<and> nb_dropped_packets nb' = nb_dropped_packets nb
     \<and> nb_route_movement_events nb' = nb_route_movement_events nb
     \<and> nb_topology_fault_events nb' = nb_topology_fault_events nb
     \<and> nb_topology_enforced nb' = nb_topology_enforced nb"

lemma same_network_refl [simp]: "same_network nb nb"
  by (simp add: same_network_def)

lemma same_network_trans: "same_network a b \<Longrightarrow> same_network b c \<Longrightarrow> same_network a c"
  by (simp add: same_network_def)

lemma nb_send_local_keeps:
  assumes "wf_packet p" and "nb_send_local ops p e nb w = (ok, nb', w')"
  shows "same_network nb nb'" and "nb_inv nb \<Longrightarrow> nb_inv nb'"
    and "nb_last_service_ms nb' = nb_last_service_ms nb"
  using assms(2) unfolding nb_send_local_eq [OF assms(1)]
  by (auto simp: same_network_def split: prod.splits if_splits)

lemma nb_diag_ports_None:
  "nb_diag_ports nb ports offset p = None \<longleftrightarrow>
    (let n = length (filter (\<lambda>q. nb_transports nb ! unat q \<noteq> None) ports)
     in n > 0 \<and> offset + 21 * n > kMaxPayloadSize)"
  by (induction ports arbitrary: offset p) (auto simp: Let_def)

lemma nb_diag_ports_Some:
  "nb_diag_ports nb ports offset p = Some (p', offset') \<Longrightarrow>
    wf_packet p' = wf_packet p \<and> pkt_source p' = pkt_source p
    \<and> pkt_destination p' = pkt_destination p \<and> pkt_type p' = pkt_type p
    \<and> pkt_flags p' = pkt_flags p \<and> pkt_sequence p' = pkt_sequence p
    \<and> offset' = offset + 21 * length (filter (\<lambda>q. nb_transports nb ! unat q \<noteq> None) ports)"
proof (induction ports arbitrary: offset p)
  case (Cons q ports)
  from Cons.prems show ?case
    by (auto simp: Let_def put_u32_eq split: if_splits dest!: Cons.IH)
qed simp

lemma unat_port_number: "x < 8 \<Longrightarrow> unat (word_of_nat x :: u8) = x"
  by (simp add: unat_of_nat)

lemma attached_count_ports:
  assumes "length (nb_transports nb) = kMaxRouterPorts"
  shows "length (filter (\<lambda>q. nb_transports nb ! unat q \<noteq> None) port_numbers) = attached_count nb"
proof -
  have "map (\<lambda>q. nb_transports nb ! unat q) port_numbers = nb_transports nb"
    using assms by (intro nth_equalityI) (simp_all add: port_numbers_def unat_port_number)
  then have "attached_count nb =
      length (filter (\<lambda>t. t \<noteq> None) (map (\<lambda>q. nb_transports nb ! unat q) port_numbers))"
    by (simp add: attached_count_def)
  then show ?thesis by (simp add: filter_map comp_def)
qed

lemma nb_send_diagnostics_None:
  assumes "length (nb_transports nb) = kMaxRouterPorts"
  shows "nb_send_diagnostics ops a e nb w = None \<longleftrightarrow> attached_count nb > 5"
proof -
  have "nb_diag_ports nb port_numbers 18 (nb_diag_head a nb) = None \<longleftrightarrow> attached_count nb > 5"
    unfolding nb_diag_ports_None attached_count_ports [OF assms] Let_def by auto
  then show ?thesis by (auto simp: nb_send_diagnostics_def split: option.split)
qed

lemma wf_nb_diag_head [simp]: "wf_packet (nb_diag_head a nb)"
  by (simp add: nb_diag_head_def put_u32_eq Let_def)

lemma nb_send_diagnostics_keeps:
  assumes "nb_send_diagnostics ops a e nb w = Some (ok, nb', w')"
  shows "same_network nb nb'" and "nb_inv nb \<Longrightarrow> nb_inv nb'"
proof -
  from assms obtain p n where "nb_diag_ports nb port_numbers 18 (nb_diag_head a nb) = Some (p, n)"
    and s: "nb_send_local ops (p\<lparr>pkt_length := word_of_nat n\<rparr>) e nb w = (ok, nb', w')"
    by (auto simp: nb_send_diagnostics_def split: option.splits)
  then have "wf_packet (p\<lparr>pkt_length := word_of_nat n\<rparr>)" using nb_diag_ports_Some by simp
  from nb_send_local_keeps [OF this s] show "same_network nb nb'" and "nb_inv nb \<Longrightarrow> nb_inv nb'"
    by simp_all
qed

lemma nb_send_device_info_keeps:
  assumes "nb_send_device_info ops a e nb w = (ok, nb', w')"
  shows "same_network nb nb'" and "nb_inv nb \<Longrightarrow> nb_inv nb'"
  using assms unfolding nb_send_device_info_def
  by (auto dest: nb_send_local_keeps(1,2) [rotated])

lemma nb_send_heartbeat_keeps:
  assumes "nb_send_heartbeat ops a e nb w = (ok, nb', w')"
  shows "same_network nb nb'" and "nb_inv nb \<Longrightarrow> nb_inv nb'"
  using assms unfolding nb_send_heartbeat_def
  by (auto dest: nb_send_local_keeps(1,2) [rotated])

lemma wf_topology_fault_packet [simp]: "wf_packet (topology_fault_packet a e q n)"
  by (simp add: topology_fault_packet_def put_u32_eq Let_def)

lemma nb_send_topology_fault_keeps:
  assumes "nb_send_topology_fault ops a q e nb w = (ok, nb', w')"
  shows "same_network nb nb'" and "nb_inv nb \<Longrightarrow> nb_inv nb'"
  using assms unfolding nb_send_topology_fault_def Let_def
  by (auto dest: nb_send_local_keeps(1,2) [rotated] split: if_splits)

lemma nb_handle_local_keeps:
  assumes "nb_handle_local_packet ops p e now nb w = Some (ok, nb', w')"
  shows "same_network nb nb'" and "nb_inv nb \<Longrightarrow> nb_inv nb'"
proof -
  let ?nb1 = "nb\<lparr>nb_last_service_ms := now\<rparr>"
  let ?ack = "default_packet\<lparr>pkt_destination := pkt_source p, pkt_type := msg_Ack,
                      pkt_flags := FlagResponse, pkt_sequence := pkt_sequence p\<rparr>"
  obtain nb2 w2 where a: "(if pkt_flags p AND FlagAckRequired \<noteq> 0
      then snd (nb_send_local ops ?ack e ?nb1 w) else (?nb1, w)) = (nb2, w2)" by fastforce
  have s: "same_network nb ?nb1" by (simp add: same_network_def)
  have 2: "same_network nb nb2 \<and> (nb_inv nb \<longrightarrow> nb_inv nb2)"
  proof (cases "pkt_flags p AND FlagAckRequired = 0")
    case False
    then obtain k where "nb_send_local ops ?ack e ?nb1 w = (k, nb2, w2)"
      using a by (cases "nb_send_local ops ?ack e ?nb1 w") simp
    from nb_send_local_keeps(1,2) [OF _ this] s show ?thesis
      by (auto intro: same_network_trans)
  qed (use a s in auto)
  have "same_network nb2 nb' \<and> (nb_inv nb2 \<longrightarrow> nb_inv nb')"
    using assms unfolding nb_handle_local_packet_def Let_def a
    by (auto split: if_splits dest: nb_send_device_info_keeps nb_send_heartbeat_keeps
      nb_send_diagnostics_keeps)
  with 2 show "same_network nb nb'" and "nb_inv nb \<Longrightarrow> nb_inv nb'"
    by (auto intro: same_network_trans)
qed

section \<open>One completed packet\<close>

definition misplaced :: "northbridge \<Rightarrow> u8 \<Rightarrow> packet \<Rightarrow> bool" where
  "misplaced nb port p \<longleftrightarrow> (\<exists>q. binding_lookup nb (pkt_source p) = Some q \<and> q \<noteq> port)"

definition nb_counted :: "u8 \<Rightarrow> packet \<Rightarrow> northbridge \<Rightarrow> northbridge" where
  "nb_counted port p nb =
    (let nb1 = upd_stats port (\<lambda>s. s\<lparr>ps_rx_packets := ps_rx_packets s + 1\<rparr>) nb
     in if misplaced nb port p then nb1\<lparr>nb_route_movement_events := nb_route_movement_events nb1 + 1\<rparr>
        else nb1)"

lemma nb_counted_sel [simp]:
  "nb_router (nb_counted q p nb) = nb_router nb" "nb_transports (nb_counted q p nb) = nb_transports nb"
  "nb_parsers (nb_counted q p nb) = nb_parsers nb" "nb_bindings (nb_counted q p nb) = nb_bindings nb"
  "nb_forwarded_packets (nb_counted q p nb) = nb_forwarded_packets nb"
  "nb_dropped_packets (nb_counted q p nb) = nb_dropped_packets nb"
  "nb_topology_fault_events (nb_counted q p nb) = nb_topology_fault_events nb"
  "nb_topology_enforced (nb_counted q p nb) = nb_topology_enforced nb"
  "nb_inv (nb_counted q p nb) = nb_inv nb"
  by (simp_all add: nb_counted_def Let_def)

lemma of_int_unat_u8 [simp]: "(word_of_int (int (unat q)) :: u8) = q"
  by simp

lemma misplaced_iff:
  "misplaced nb port p \<longleftrightarrow>
    expected_port_for nb (pkt_source p) \<ge> 0
    \<and> (word_of_int (expected_port_for nb (pkt_source p)) :: u8) \<noteq> port"
  by (auto simp: misplaced_def expected_port_lookup split: option.splits)

definition nb_shut_out :: "u8 \<Rightarrow> packet \<Rightarrow> northbridge \<Rightarrow> northbridge" where
  "nb_shut_out port p nb = upd_stats port inc_dropped ((nb_counted port p nb)
     \<lparr>nb_topology_fault_events := nb_topology_fault_events nb + 1,
      nb_dropped_packets := nb_dropped_packets nb + 1\<rparr>)"

definition nb_pass :: "u8 \<Rightarrow> packet \<Rightarrow> bool \<Rightarrow> northbridge \<Rightarrow> northbridge" where
  "nb_pass port p forwarded nb =
    (let nb3 = nb_account_forward p port forwarded nb
     in if forwarded then nb3\<lparr>nb_forwarded_packets := nb_forwarded_packets nb3 + 1\<rparr>
        else nb3\<lparr>nb_dropped_packets := nb_dropped_packets nb3 + 1\<rparr>)"

lemma nb_receive_eq:
  "nb_receive ops p port now nb w =
    (if misplaced nb port p \<and> nb_topology_enforced nb
     then Some (snd (nb_send_topology_fault ops (pkt_source p)
            (the (binding_lookup nb (pkt_source p))) port (nb_shut_out port p nb) w))
     else if pkt_destination p = addr_Northbridge
     then map_option snd (nb_handle_local_packet ops p port now ((nb_counted port p nb)
            \<lparr>nb_router := router_mark_seen (pkt_source p) port now (nb_router nb)\<rparr>) w)
     else case router_forward ops p port now (nb_router nb) w of (forwarded, r, w') \<Rightarrow>
            Some (nb_pass port p forwarded ((nb_counted port p nb)\<lparr>nb_router := r\<rparr>), w'))"
proof -
  let ?nb1 = "upd_stats port (\<lambda>s. s\<lparr>ps_rx_packets := ps_rx_packets s + 1\<rparr>) nb"
  have e: "expected_port_for ?nb1 a = expected_port_for nb a" for a
    unfolding expected_port_for_def upd_stats_sel ..
  have m: "expected_port_for nb (pkt_source p) \<ge> 0 \<and>
      (word_of_int (expected_port_for nb (pkt_source p)) :: u8) \<noteq> port \<longleftrightarrow> misplaced nb port p"
    by (simp add: misplaced_iff)
  have c: "(if misplaced nb port p
      then ?nb1\<lparr>nb_route_movement_events := nb_route_movement_events ?nb1 + 1\<rparr> else ?nb1) =
      nb_counted port p nb"
    by (simp add: nb_counted_def Let_def)
  have q: "(word_of_int (expected_port_for nb (pkt_source p)) :: u8) = the (binding_lookup nb (pkt_source p))"
    if "misplaced nb port p"
    using that by (auto simp: misplaced_def expected_port_lookup)
  show ?thesis
    unfolding nb_receive_def Let_def e m c
    by (auto simp: q nb_shut_out_def nb_pass_def Let_def split: prod.split)
qed

lemma bump_broadcast_same: "same_network nb (bump_broadcast_tx e qs nb)"
  "nb_inv nb \<Longrightarrow> nb_inv (bump_broadcast_tx e qs nb)"
proof -
  have "same_network nb (bump_broadcast_tx e qs nb) \<and> (nb_inv nb \<longrightarrow> nb_inv (bump_broadcast_tx e qs nb))"
  proof (induction qs arbitrary: nb)
    case (Cons q qs)
    show ?case
      using Cons.IH [of nb] Cons.IH [of "upd_stats q inc_tx nb"] by (auto simp: same_network_def)
  qed simp
  then show "same_network nb (bump_broadcast_tx e qs nb)"
    "nb_inv nb \<Longrightarrow> nb_inv (bump_broadcast_tx e qs nb)" by auto
qed

lemma account_forward_same: "same_network nb (nb_account_forward p e ok nb)"
  "nb_inv nb \<Longrightarrow> nb_inv (nb_account_forward p e ok nb)"
  using bump_broadcast_same [of nb e port_numbers]
  by (auto simp: nb_account_forward_def Let_def) (auto simp: same_network_def)

text \<open>Packets the northbridge does not answer itself.\<close>

definition nb_transit :: "northbridge \<Rightarrow> u8 \<Rightarrow> packet \<Rightarrow> bool" where
  "nb_transit nb port p \<longleftrightarrow> pkt_destination p \<noteq> addr_Northbridge
     \<or> (misplaced nb port p \<and> nb_topology_enforced nb)"

text \<open>What no packet changes.\<close>

definition same_setup :: "northbridge \<Rightarrow> northbridge \<Rightarrow> bool" where
  "same_setup nb nb' \<longleftrightarrow> nb_transports nb' = nb_transports nb \<and> nb_bindings nb' = nb_bindings nb
     \<and> nb_topology_enforced nb' = nb_topology_enforced nb"

lemma same_setup_trans: "same_setup a b \<Longrightarrow> same_setup b c \<Longrightarrow> same_setup a c"
  by (simp add: same_setup_def)

lemma same_setup_cong:
  assumes "same_setup nb nb'"
  shows "nb_transit nb' = nb_transit nb" "attached_count nb' = attached_count nb"
    "misplaced nb' = misplaced nb"
  using assms
  by (auto simp: same_setup_def nb_transit_def [abs_def] misplaced_def [abs_def] binding_lookup_def attached_count_def)

lemma router_forward_keeps:
  assumes "router_inv r" and "attached (rt_ports r) e" and "wf_packet p"
    and "router_forward ops p e now r w = (ok, r', w')"
  shows "router_inv r'" and "rt_ports r' = rt_ports r"
  using router_forward_eq [OF assms(1-3) refl, of ops now w] router_mark_seen_inv [OF assms(1,2)] assms(4)
  by (auto split: prod.splits)

lemma nb_receive_keeps:
  assumes inv: "nb_inv nb" and att: "attached (nb_transports nb) port" and p: "wf_packet p"
    and run: "nb_receive ops p port now nb w = Some (nb', w')"
  shows "nb_inv nb' \<and> same_setup nb nb' \<and> nb_parsers nb' = nb_parsers nb
    \<and> nb_forwarded_packets nb' + nb_dropped_packets nb' =
      nb_forwarded_packets nb + nb_dropped_packets nb + of_bool (nb_transit nb port p)"
proof -
  have r: "router_inv (nb_router nb)" "attached (rt_ports (nb_router nb)) port"
    using inv att by (simp_all add: nb_inv_def)
  consider (out) "misplaced nb port p" "nb_topology_enforced nb"
    | (mine) "\<not> (misplaced nb port p \<and> nb_topology_enforced nb)" "pkt_destination p = addr_Northbridge"
    | (pass) "\<not> (misplaced nb port p \<and> nb_topology_enforced nb)" "pkt_destination p \<noteq> addr_Northbridge"
    by blast
  then show ?thesis
  proof cases
    case out
    with run obtain k where "nb_send_topology_fault ops (pkt_source p)
        (the (binding_lookup nb (pkt_source p))) port (nb_shut_out port p nb) w = (k, nb', w')"
      by (cases "nb_send_topology_fault ops (pkt_source p)
        (the (binding_lookup nb (pkt_source p))) port (nb_shut_out port p nb) w")
        (simp add: nb_receive_eq)
    from nb_send_topology_fault_keeps [OF this] inv out show ?thesis
      by (auto simp: same_network_def same_setup_def nb_transit_def nb_shut_out_def)
  next
    case mine
    let ?nb = "(nb_counted port p nb)
      \<lparr>nb_router := router_mark_seen (pkt_source p) port now (nb_router nb)\<rparr>"
    have "nb_inv ?nb" using router_mark_seen_inv [OF r] inv by (intro nb_inv_router) simp_all
    moreover obtain k where "nb_handle_local_packet ops p port now ?nb w = Some (k, nb', w')"
      using mine run by (auto simp: nb_receive_eq)
    ultimately show ?thesis
      using nb_handle_local_keeps [of ops p port now ?nb w k nb' w'] mine
      by (auto simp: same_network_def same_setup_def nb_transit_def)
  next
    case pass
    obtain ok r' w1 where f: "router_forward ops p port now (nb_router nb) w = (ok, r', w1)"
      by (metis prod_cases3)
    have "router_inv r'" "rt_ports r' = rt_ports (nb_router nb)"
      by (rule router_forward_keeps [OF r p f])+
    then have i: "nb_inv ((nb_counted port p nb)\<lparr>nb_router := r'\<rparr>)"
      using inv by (intro nb_inv_router) simp_all
    from run pass f have nb': "nb' = nb_pass port p ok ((nb_counted port p nb)\<lparr>nb_router := r'\<rparr>)"
      by (simp add: nb_receive_eq)
    show ?thesis
      using account_forward_same [of "(nb_counted port p nb)\<lparr>nb_router := r'\<rparr>" p port ok] i pass
      by (auto simp: nb' nb_pass_def same_network_def same_setup_def nb_transit_def Let_def)
  qed
qed

lemma nb_handle_local_Some:
  assumes len: "length (nb_transports nb) = kMaxRouterPorts" and n: "attached_count nb \<le> 5"
  shows "\<exists>r. nb_handle_local_packet ops p e now nb w = Some r"
proof -
  let ?nb1 = "nb\<lparr>nb_last_service_ms := now\<rparr>"
  let ?ack = "default_packet\<lparr>pkt_destination := pkt_source p, pkt_type := msg_Ack,
                      pkt_flags := FlagResponse, pkt_sequence := pkt_sequence p\<rparr>"
  obtain nb2 w2 where a: "(if pkt_flags p AND FlagAckRequired \<noteq> 0
      then snd (nb_send_local ops ?ack e ?nb1 w) else (?nb1, w)) = (nb2, w2)" by fastforce
  have "nb_transports nb2 = nb_transports nb"
  proof (cases "pkt_flags p AND FlagAckRequired = 0")
    case False
    then obtain k where "nb_send_local ops ?ack e ?nb1 w = (k, nb2, w2)"
      using a by (cases "nb_send_local ops ?ack e ?nb1 w") simp
    from nb_send_local_keeps(1) [OF _ this] show ?thesis by (simp add: same_network_def)
  qed (use a in auto)
  then have "nb_send_diagnostics ops (pkt_source p) e nb2 w2 \<noteq> None"
    using nb_send_diagnostics_None [of nb2 ops "pkt_source p" e w2] len n
    by (simp add: attached_count_def)
  then show ?thesis
    unfolding nb_handle_local_packet_def Let_def a by (auto simp del: split_paired_Ex)
qed

lemma nb_receive_Some:
  assumes "nb_inv nb" and "attached_count nb \<le> 5"
  shows "\<exists>r. nb_receive ops p port now nb w = Some r"
proof -
  let ?nb = "(nb_counted port p nb)
      \<lparr>nb_router := router_mark_seen (pkt_source p) port now (nb_router nb)\<rparr>"
  have "\<exists>r. nb_handle_local_packet ops p port now ?nb w = Some r"
    using nb_inv_transports [OF assms(1)] assms(2)
    by (intro nb_handle_local_Some) (simp_all add: attached_count_def)
  then show ?thesis
    by (auto simp: nb_receive_eq split: prod.split)
qed

section \<open>Servicing\<close>

lemma nb_bytes_keeps:
  assumes "nb_inv nb" and "attached (nb_transports nb) port"
    and "nb_bytes ops port now bs nb w = Some (nb', w')"
    and "parser_feed (nb_parsers nb ! unat port) bs = (ps, pks)"
  shows "nb_inv nb' \<and> same_setup nb nb' \<and> nb_parsers nb' ! unat port = ps
    \<and> nb_forwarded_packets nb' + nb_dropped_packets nb' =
      nb_forwarded_packets nb + nb_dropped_packets nb
      + of_nat (length (filter (nb_transit nb port) pks))"
  using assms
proof (induction bs arbitrary: nb w ps pks)
  case Nil
  then show ?case by (simp add: same_setup_def)
next
  case (Cons b bs)
  obtain ok s1 p where push: "parser_push (nb_parsers nb ! unat port) b default_packet = (ok, s1, p)"
    by (metis prod_cases3)
  let ?nb1 = "nb\<lparr>nb_parsers := (nb_parsers nb)[unat port := s1]\<rparr>"
  have port: "unat port < kMaxRouterPorts"
    using Cons.prems(1,2) nb_inv_transports by (auto simp: attached_def)
  then have ps: "parser_inv (nb_parsers nb ! unat port)"
    using Cons.prems(1) by (simp add: nb_inv_def)
  from parser_push_inv [OF this] push have s1: "parser_inv s1" by (metis fst_conv snd_conv)
  have inv1: "nb_inv ?nb1"
    using Cons.prems(1) s1 by (auto simp: nb_inv_def dest!: set_list_update_subset)
  have setup1: "same_setup nb ?nb1" by (simp add: same_setup_def)
  have at1: "nb_parsers ?nb1 ! unat port = s1"
    using port Cons.prems(1) by (simp add: nb_inv_def)
  obtain ps2 pks2 where feed: "parser_feed s1 bs = (ps2, pks2)" by fastforce
  show ?case
  proof (cases ok)
    case False
    with push Cons.prems(3,4) feed have "nb_bytes ops port now bs ?nb1 w = Some (nb', w')"
      and [simp]: "ps2 = ps" "pks2 = pks"
      by simp_all
    from Cons.IH [OF inv1 _ this(1), of ps2 pks2] Cons.prems(2) at1 feed
      same_setup_cong [OF setup1] setup1
    show ?thesis by (auto intro: same_setup_trans)
  next
    case True
    obtain nb2 w2 where r: "nb_receive ops p port now ?nb1 w = Some (nb2, w2)"
      and rest: "nb_bytes ops port now bs nb2 w2 = Some (nb', w')"
      using push Cons.prems(3) True by (auto split: option.splits)
    have pk: "pks = p # pks2" "ps = ps2" using push Cons.prems(4) feed True by auto
    have wf: "wf_packet p"
      using push_delivers [OF ps] push True by (simp add: sendable_def)
    note k = nb_receive_keeps [OF inv1 _ wf r]
    with Cons.prems(2) have k: "nb_inv nb2" "same_setup ?nb1 nb2" "nb_parsers nb2 ! unat port = s1"
      "nb_forwarded_packets nb2 + nb_dropped_packets nb2 =
        nb_forwarded_packets nb + nb_dropped_packets nb + of_bool (nb_transit nb port p)"
      using at1 same_setup_cong [OF setup1] by auto
    have "attached (nb_transports nb2) port" using k(2) Cons.prems(2) by (simp add: same_setup_def)
    from Cons.IH [OF k(1) this rest, of ps2 pks2] k feed show ?thesis
      using same_setup_cong [OF same_setup_trans [OF setup1 k(2)]] same_setup_trans [OF setup1 k(2)]
      by (auto simp: pk intro: same_setup_trans)
  qed
qed

lemma nb_bytes_Some:
  assumes "nb_inv nb" and "attached (nb_transports nb) port" and "attached_count nb \<le> 5"
  shows "\<exists>r. nb_bytes ops port now bs nb w = Some r"
  using assms
proof (induction bs arbitrary: nb w)
  case (Cons b bs)
  obtain ok s1 p where push: "parser_push (nb_parsers nb ! unat port) b default_packet = (ok, s1, p)"
    by (metis prod_cases3)
  let ?nb1 = "nb\<lparr>nb_parsers := (nb_parsers nb)[unat port := s1]\<rparr>"
  have "unat port < kMaxRouterPorts"
    using Cons.prems(1,2) nb_inv_transports by (auto simp: attached_def)
  then have ps: "parser_inv (nb_parsers nb ! unat port)"
    using Cons.prems(1) by (simp add: nb_inv_def)
  from parser_push_inv [OF this] push have s1: "parser_inv s1" by (metis fst_conv snd_conv)
  have inv1: "nb_inv ?nb1"
    using Cons.prems(1) s1 by (auto simp: nb_inv_def dest!: set_list_update_subset)
  have n1: "attached_count ?nb1 \<le> 5" using Cons.prems(3) by (simp add: attached_count_def)
  show ?case
  proof (cases ok)
    case True
    obtain nb2 w2 where r: "nb_receive ops p port now ?nb1 w = Some (nb2, w2)"
      using nb_receive_Some [OF inv1 n1] by fast
    have "wf_packet p" using push_delivers [OF ps] push True by (simp add: sendable_def)
    from nb_receive_keeps [OF inv1 _ this r] Cons.prems(2)
    have "nb_inv nb2" "same_setup ?nb1 nb2" by simp_all
    with Cons.IH [of nb2 w2] Cons.prems(2) n1 same_setup_cong(2) [of ?nb1 nb2] push r True
    show ?thesis by (simp add: same_setup_def)
  qed (use Cons push inv1 n1 in simp)
qed simp

lemma nb_note_rejects_keeps [simp]:
  "nb_inv (nb_note_rejects port nb) = nb_inv nb" "same_setup nb (nb_note_rejects port nb)"
  "nb_forwarded_packets (nb_note_rejects port nb) = nb_forwarded_packets nb"
  "nb_dropped_packets (nb_note_rejects port nb) = nb_dropped_packets nb"
  by (simp_all add: nb_note_rejects_def Let_def) (auto simp: nb_inv_def same_setup_def)

lemma nb_service_port_keeps:
  assumes inv: "nb_inv nb" and run: "nb_service_port ops port now nb w = Some (nb', w')"
  shows "nb_inv nb' \<and> same_setup nb nb'"
proof (cases "attached (nb_transports nb) port")
  case True
  then obtain t chunk w1 nb2 where t: "nb_transports nb ! unat port = Some t"
    "tp_read ops t 64 w = (chunk, w1)"
    and b: "nb_bytes ops port now chunk (upd_stats port (\<lambda>s. s\<lparr>ps_rx_bytes :=
        ps_rx_bytes s + word_of_nat (length chunk)\<rparr>) nb) w1 = Some (nb2, w')"
    and nb': "nb' = nb_note_rejects port nb2"
    using run by (auto simp: nb_service_port_def attached_def split: prod.splits option.splits)
  from nb_bytes_keeps [OF _ _ b prod.collapse [symmetric]] inv True
  have "nb_inv nb2" "same_setup nb nb2"
    by (auto simp: same_setup_def)
  then show ?thesis using same_setup_trans by (auto simp: nb')
next
  case False
  with inv run show ?thesis
    by (auto simp: nb_service_port_def attached_def same_setup_def split: option.splits)
qed

lemma nb_service_port_Some:
  assumes inv: "nb_inv nb" and n: "attached_count nb \<le> 5"
  shows "\<exists>r. nb_service_port ops port now nb w = Some r"
proof (cases "attached (nb_transports nb) port")
  case True
  then obtain t chunk w1 where t: "nb_transports nb ! unat port = Some t"
    "tp_read ops t 64 w = (chunk, w1)"
    by (auto simp: attached_def) (metis surj_pair)
  have "\<exists>r. nb_bytes ops port now chunk (upd_stats port (\<lambda>s. s\<lparr>ps_rx_bytes :=
        ps_rx_bytes s + word_of_nat (length chunk)\<rparr>) nb) w1 = Some r"
    using inv n True by (intro nb_bytes_Some) (simp_all add: attached_count_def)
  with t True show ?thesis by (auto simp: nb_service_port_def attached_def)
next
  case False
  then show ?thesis by (auto simp: nb_service_port_def attached_def)
qed

lemma nb_service_ports_keeps:
  "nb_inv nb \<Longrightarrow> nb_service_ports ops ports now nb w = Some (nb', w') \<Longrightarrow>
    nb_inv nb' \<and> same_setup nb nb'"
proof (induction ports arbitrary: nb w)
  case (Cons q ports)
  then obtain nb1 w1 where p: "nb_service_port ops q now nb w = Some (nb1, w1)"
    and rest: "nb_service_ports ops ports now nb1 w1 = Some (nb', w')"
    by (auto split: option.splits)
  from nb_service_port_keeps [OF Cons.prems(1) p] Cons.IH [OF _ rest] show ?case
    by (auto intro: same_setup_trans)
qed (simp add: same_setup_def)

lemma nb_service_ports_Some:
  "nb_inv nb \<Longrightarrow> attached_count nb \<le> 5 \<Longrightarrow> \<exists>r. nb_service_ports ops ports now nb w = Some r"
proof (induction ports arbitrary: nb w)
  case (Cons q ports)
  then obtain nb1 w1 where p: "nb_service_port ops q now nb w = Some (nb1, w1)"
    using nb_service_port_Some by (metis surj_pair)
  from nb_service_port_keeps [OF Cons.prems(1) this] Cons.IH [of nb1 w1] Cons.prems(2) p
  show ?case by (auto simp: same_setup_cong(2))
qed simp

lemma nb_service_total:
  assumes "nb_inv nb" and "attached_count nb \<le> 5"
  shows "\<exists>nb' w'. nb_service ops now nb w = Some (nb', w') \<and> nb_inv nb' \<and> same_setup nb nb'"
proof -
  let ?nb = "nb\<lparr>nb_last_service_ms := now\<rparr>"
  have "nb_inv ?nb" "attached_count ?nb \<le> 5"
    using assms by (simp_all add: attached_count_def)
  from nb_service_ports_Some [OF this, of ops port_numbers now w]
    nb_service_ports_keeps [OF this(1), of ops port_numbers now w]
  show ?thesis by (force simp: nb_service_def same_setup_def)
qed

section \<open>The firmware\<close>

text \<open>\<open>setup()\<close> and \<open>loop()\<close> of \<open>esp32/northbridge/src/main.cpp\<close>: the transports 0, 1 and 2 are its
  three serial adapters.\<close>

definition kPortPi :: u8 where [simp]: "kPortPi = 0"
definition kPortLighting :: u8 where [simp]: "kPortLighting = 1"
definition kPortSecurity :: u8 where [simp]: "kPortSecurity = 2"

definition northbridge_setup :: northbridge where
  "northbridge_setup =
    (let n1 = snd (nb_attach_port kPortPi 0 northbridge_init);
         n2 = snd (nb_attach_port kPortLighting 1 n1);
         n3 = snd (nb_attach_port kPortSecurity 2 n2);
         n4 = snd (nb_bind_node addr_MainComputer kPortPi n3);
         n5 = snd (nb_bind_node addr_DiagnosticComputer kPortPi n4);
         n6 = snd (nb_bind_node addr_Lighting kPortLighting n5);
         n7 = snd (nb_bind_node addr_Security kPortSecurity n6)
     in nb_set_topology_enforced True n7)"

lemma nb_set_topology_enforced_inv [inv_intros]:
  "nb_inv nb \<Longrightarrow> nb_inv (nb_set_topology_enforced b nb)"
  by (simp add: nb_set_topology_enforced_def)

lemma northbridge_setup_inv: "nb_inv northbridge_setup"
  unfolding northbridge_setup_def Let_def by (intro inv_intros)

lemma northbridge_setup_eq:
  "nb_transports northbridge_setup = [Some 0, Some 1, Some 2, None, None, None, None, None]"
  "nb_topology_enforced northbridge_setup"
  "binding_lookup northbridge_setup addr_MainComputer = Some 0"
  "binding_lookup northbridge_setup addr_DiagnosticComputer = Some 0"
  "binding_lookup northbridge_setup addr_Lighting = Some 1"
  "binding_lookup northbridge_setup addr_Security = Some 2"
  "route_lookup (nb_router northbridge_setup) addr_MainComputer = Some 0"
  by code_simp+

lemma nb_receive_shut_out:
  assumes inv: "nb_inv nb" and enf: "nb_topology_enforced nb"
    and b: "binding_lookup nb (pkt_source p) = Some q" "q \<noteq> port"
  shows "\<exists>nb' w'. nb_receive ops p port now nb w = Some (nb', w')
    \<and> nb_router nb' = nb_router nb \<and> nb_bindings nb' = nb_bindings nb
    \<and> nb_forwarded_packets nb' = nb_forwarded_packets nb
    \<and> nb_dropped_packets nb' = nb_dropped_packets nb + 1
    \<and> nb_topology_fault_events nb' = nb_topology_fault_events nb + 1
    \<and> nb_route_movement_events nb' = nb_route_movement_events nb + 1
    \<and> w' = (case route_lookup (nb_router nb) addr_MainComputer of
        None \<Rightarrow> w
      | Some m \<Rightarrow> snd (transmit ops (port_transport (nb_router nb) m)
          (local_packet nb (topology_fault_packet (pkt_source p) q port
             (nb_topology_fault_events nb + 1))) w))"
proof -
  let ?nb = "nb_shut_out port p nb"
  have m: "misplaced nb port p" using b by (simp add: misplaced_def)
  have eq: "nb_receive ops p port now nb w =
      Some (snd (nb_send_topology_fault ops (pkt_source p) q port ?nb w))"
    using m enf b by (simp add: nb_receive_eq)
  obtain k nb' w' where s: "nb_send_topology_fault ops (pkt_source p) q port ?nb w = (k, nb', w')"
    by (metis prod_cases3)
  have same: "same_network ?nb nb'" by (rule nb_send_topology_fault_keeps [OF s])
  have w': "w' = (case route_lookup (nb_router nb) addr_MainComputer of
        None \<Rightarrow> w
      | Some m \<Rightarrow> snd (transmit ops (port_transport (nb_router nb) m)
          (local_packet nb (topology_fault_packet (pkt_source p) q port
             (nb_topology_fault_events nb + 1))) w))"
  proof (cases "route_lookup (nb_router nb) addr_MainComputer")
    case None
    with s show ?thesis
      by (simp add: nb_send_topology_fault_def route_for_lookup nb_shut_out_def)
  next
    case (Some r)
    have "attached (nb_transports nb) r"
      using route_lookup_attached [OF _ Some] inv by (simp add: nb_inv_def)
    moreover have "nb_transports nb = rt_ports (nb_router nb)" using inv by (simp add: nb_inv_def)
    moreover have "local_packet ?nb x = local_packet nb x" for x
      by (simp add: local_packet_def nb_shut_out_def nb_counted_def Let_def)
    ultimately show ?thesis
      using s Some by (auto simp: nb_send_topology_fault_def route_for_lookup nb_shut_out_def
        nb_send_local_eq port_transport_def split: prod.splits)
  qed
  from same have "nb_route_movement_events nb' = nb_route_movement_events nb + 1"
    using m by (simp add: same_network_def nb_shut_out_def nb_counted_def Let_def)
  with same eq s w' show ?thesis by (simp add: same_network_def nb_shut_out_def)
qed

section \<open>Properties of the northbridge\<close>

text \<open>C10: Topology enforcement. With enforcement on, a packet whose source is bound to another port
  than the one it arrived on is shut out, whatever its destination and type: it is neither
  forwarded nor answered, no route and no binding moves, it is counted as dropped, as a movement
  and as a topology fault, and the only frame written is the fault report, with both ports and
  the running count, towards the port of the main computer (none while that is unknown).\<close>

theorem topology_enforced:
  assumes "nb_inv nb" and "nb_topology_enforced nb"
    and "binding_lookup nb (pkt_source p) = Some q" and "q \<noteq> port"
  shows "\<exists>nb' w'. nb_receive ops p port now nb w = Some (nb', w')
    \<and> nb_router nb' = nb_router nb \<and> nb_bindings nb' = nb_bindings nb
    \<and> nb_forwarded_packets nb' = nb_forwarded_packets nb
    \<and> nb_dropped_packets nb' = nb_dropped_packets nb + 1
    \<and> nb_topology_fault_events nb' = nb_topology_fault_events nb + 1
    \<and> nb_route_movement_events nb' = nb_route_movement_events nb + 1
    \<and> w' = (case route_lookup (nb_router nb) addr_MainComputer of
        None \<Rightarrow> w
      | Some m \<Rightarrow> snd (transmit ops (port_transport (nb_router nb) m)
          (local_packet nb (topology_fault_packet (pkt_source p) q port
             (nb_topology_fault_events nb + 1))) w))"
  using assms by (rule nb_receive_shut_out)

theorem topology_enforced_witness:
  "\<exists>nb' w'. nb_receive bench_transport (default_packet\<lparr>pkt_source := addr_Lighting\<rparr>) kPortSecurity 300
      northbridge_setup quiet_world = Some (nb', w')
    \<and> nb_router nb' = nb_router northbridge_setup
    \<and> map fst (sw_tx w') = [0]"
proof -
  have b: "binding_lookup northbridge_setup (pkt_source (default_packet\<lparr>pkt_source := addr_Lighting\<rparr>)) = Some 1"
    using northbridge_setup_eq(5) by simp
  have m: "route_lookup (nb_router northbridge_setup) addr_MainComputer = Some 0"
    by (rule northbridge_setup_eq(7))
  have t: "port_transport (nb_router northbridge_setup) 0 = 0" by code_simp
  have l: "pkt_length (local_packet northbridge_setup (topology_fault_packet 0x20 1 2
      (nb_topology_fault_events northbridge_setup + 1))) = 9"
    by (simp add: local_packet_def topology_fault_packet_def put_u32_eq Let_def)
  show ?thesis
    using topology_enforced [OF northbridge_setup_inv northbridge_setup_eq(2) b, of kPortSecurity
        bench_transport 300 quiet_world] t l m
    by (auto simp: transmit_def)
qed

text \<open>Accounting. Over any chunk of received bytes, the sum of the forwarded and dropped
  counters grows (modulo \<open>2 ^ 32\<close>) by exactly the number of packets in it that the northbridge
  does not answer itself: no packet in transit is lost uncounted or counted twice. The network
  invariant, the attached ports, the bindings and the enforcement flag are preserved.\<close>

theorem transit_accounted:
  assumes "nb_inv nb" and "attached (nb_transports nb) port"
    and "nb_bytes ops port now bs nb w = Some (nb', w')"
    and "parser_feed (nb_parsers nb ! unat port) bs = (ps, pks)"
  shows "nb_inv nb' \<and> same_setup nb nb' \<and> nb_parsers nb' ! unat port = ps
    \<and> nb_forwarded_packets nb' + nb_dropped_packets nb' =
      nb_forwarded_packets nb + nb_dropped_packets nb
      + of_nat (length (filter (nb_transit nb port) pks))"
  using assms by (rule nb_bytes_keeps)

definition to_lighting :: packet where
  "to_lighting = default_packet\<lparr>pkt_destination := addr_Lighting, pkt_type := msg_SetOutput\<rparr>"

theorem transit_accounted_witness:
  "\<exists>nb' w'. nb_bytes bench_transport kPortPi 100 (frame_of to_lighting) northbridge_setup quiet_world
      = Some (nb', w') \<and> nb_forwarded_packets nb' + nb_dropped_packets nb' =
      nb_forwarded_packets northbridge_setup + nb_dropped_packets northbridge_setup + 1"
proof -
  have att: "attached (nb_transports northbridge_setup) kPortPi"
    and n: "attached_count northbridge_setup \<le> 5" by code_simp+
  obtain nb' w' where run: "nb_bytes bench_transport kPortPi 100 (frame_of to_lighting)
      northbridge_setup quiet_world = Some (nb', w')"
    using nb_bytes_Some [OF northbridge_setup_inv att n] by (metis surj_pair)
  have "nb_parsers northbridge_setup ! unat kPortPi = stream_parser_init"
    by (simp add: northbridge_setup_def Let_def) code_simp
  then have "collected 0 [] (nb_parsers northbridge_setup ! unat kPortPi)"
    using parser_inv_init by (simp add: collected_idle) (simp add: stream_parser_init_def)
  moreover have "sendable to_lighting" by (simp add: to_lighting_def sendable_def)
  ultimately obtain ps where feed: "parser_feed (nb_parsers northbridge_setup ! unat kPortPi)
      (frame_of to_lighting) = (ps, [received to_lighting])"
    using feed_frame by blast
  show ?thesis
    using transit_accounted [OF northbridge_setup_inv att run feed] run
    by (simp add: nb_transit_def to_lighting_def)
qed

text \<open>Servicing up to five ports. With at most five ports attached (the firmware attaches
  three), \<open>service\<close> is defined for every input: no array access leaves its bounds, and the
  invariant, the ports, the bindings and the enforcement flag are preserved.\<close>

theorem northbridge_service_safe:
  assumes "nb_inv nb" and "attached_count nb \<le> 5"
  shows "\<exists>nb' w'. nb_service ops now nb w = Some (nb', w') \<and> nb_inv nb' \<and> same_setup nb nb'"
  using assms by (rule nb_service_total)

theorem northbridge_service_safe_witness:
  "\<exists>nb' w'. nb_service bench_transport 100 northbridge_setup quiet_world = Some (nb', w')
     \<and> nb_inv nb' \<and> same_setup northbridge_setup nb'"
proof -
  have "attached_count northbridge_setup \<le> 5" by code_simp
  with northbridge_setup_inv show ?thesis by (rule northbridge_service_safe)
qed

text \<open>C26: The size of the diagnostic answer. Building it stays inside the 128-byte payload exactly
  when at most five ports are attached: with six or more of the eight ports the class offers, a
  diagnostic or state request writes behind the end of the array.\<close>

theorem diagnostics_overflow_iff:
  assumes "length (nb_transports nb) = kMaxRouterPorts"
  shows "nb_send_diagnostics ops destination egress nb w = None \<longleftrightarrow> attached_count nb > 5"
  using assms by (rule nb_send_diagnostics_None)

definition six_ports :: northbridge where
  "six_ports = foldl (\<lambda>nb q. snd (nb_attach_port q (unat q) nb)) northbridge_init [0, 1, 2, 3, 4, 5]"

theorem diagnostics_overflow_iff_witness:
  "nb_send_diagnostics bench_transport addr_MainComputer 0 six_ports quiet_world = None"
proof -
  have "length (nb_transports six_ports) = kMaxRouterPorts" "attached_count six_ports > 5"
    by code_simp+
  then show ?thesis by (simp only: diagnostics_overflow_iff [OF \<open>length _ = _\<close>])
qed

end
