(* ===== verification/LightingControl.thy ===== *)
theory LightingControl
  imports LightingServer
begin

text \<open>
  The rider's own controls (\<open>library/src/lighting_local_control.cpp\<close>): five debounced inputs, the
  blinker, and the four outputs they and the network commands share.
\<close>

section \<open>Debounced inputs\<close>

record debounced_input =
  db_raw :: bool
  db_stable :: bool
  db_initialized :: bool
  db_changed_at_ms :: u32

definition debounced_init :: debounced_input where
  "debounced_init = \<lparr>db_raw = False, db_stable = False, db_initialized = False, db_changed_at_ms = 0\<rparr>"

definition debounced_update :: "bool \<Rightarrow> u32 \<Rightarrow> u32 \<Rightarrow> debounced_input \<Rightarrow> bool \<times> debounced_input" where
  "debounced_update raw now debounce_ms d =
    (if \<not> db_initialized d
     then (False, d\<lparr>db_raw := raw, db_stable := raw, db_changed_at_ms := now, db_initialized := True\<rparr>)
     else
       let d1 = (if raw \<noteq> db_raw d then d\<lparr>db_raw := raw, db_changed_at_ms := now\<rparr> else d)
       in if db_stable d1 \<noteq> db_raw d1 \<and> now - db_changed_at_ms d1 \<ge> debounce_ms
          then (True, d1\<lparr>db_stable := db_raw d1\<rparr>) else (False, d1))"

section \<open>State\<close>

record local_control =
  lc_left :: debounced_input
  lc_right :: debounced_input
  lc_front_brake :: debounced_input
  lc_rear_brake :: debounced_input
  lc_high_beam :: debounced_input
  lc_input_debounce_ms :: u32
  lc_blink_half_period_ms :: u32
  lc_last_blink_toggle_ms :: u32
  lc_blink_on :: bool
  lc_indicator_active_previous :: bool
  lc_initialized :: bool

definition local_control_init :: local_control where
  "local_control_init = \<lparr>lc_left = debounced_init, lc_right = debounced_init,
     lc_front_brake = debounced_init, lc_rear_brake = debounced_init, lc_high_beam = debounced_init,
     lc_input_debounce_ms = 25, lc_blink_half_period_ms = 500, lc_last_blink_toggle_ms = 0,
     lc_blink_on = True, lc_indicator_active_previous = False, lc_initialized = False\<rparr>"

definition set_blink_half_period_ms :: "u32 \<Rightarrow> local_control \<Rightarrow> local_control" where
  "set_blink_half_period_ms v c = c\<lparr>lc_blink_half_period_ms := v\<rparr>"

definition set_input_debounce_ms :: "u32 \<Rightarrow> local_control \<Rightarrow> local_control" where
  "set_input_debounce_ms v c = c\<lparr>lc_input_debounce_ms := v\<rparr>"

section \<open>Operations\<close>

definition lc_sample_inputs :: "('h, 'w) lighting_env \<Rightarrow> u32 \<Rightarrow> 'h \<Rightarrow> local_control \<Rightarrow> local_control" where
  "lc_sample_inputs env now h c =
    (let upd = (\<lambda>raw d. snd (debounced_update raw now (lc_input_debounce_ms c) d)); inp = le_inputs env
     in c\<lparr>lc_left := upd (in_left_indicator_requested inp h) (lc_left c),
          lc_right := upd (in_right_indicator_requested inp h) (lc_right c),
          lc_front_brake := upd (in_front_brake_active inp h) (lc_front_brake c),
          lc_rear_brake := upd (in_rear_brake_active inp h) (lc_rear_brake c),
          lc_high_beam := upd (in_high_beam_requested inp h) (lc_high_beam c)\<rparr>)"

definition local_indicator_active :: "local_control \<Rightarrow> bool" where
  "local_indicator_active c = (db_stable (lc_left c) \<or> db_stable (lc_right c))"

definition write_if_changed :: "('h, 'w) lighting_env \<Rightarrow> lighting_output \<Rightarrow> bool \<Rightarrow> 'h lighting_server
    \<Rightarrow> bool \<times> 'h lighting_server" where
  "write_if_changed env o1 b s =
    (if lh_read_output (le_hw env) o1 (ls_hardware s) = b then (False, s)
     else (True, s\<lparr>ls_hardware := snd (lh_write_output (le_hw env) o1 b (ls_hardware s))\<rparr>))"

text \<open>The blinker's part of \<open>service\<close>, after sampling.\<close>

definition update_blink :: "u32 \<Rightarrow> local_control \<Rightarrow> local_control" where
  "update_blink now c =
    (let indicator_active = local_indicator_active c;
         c1 = (if \<not> lc_initialized c
               then c\<lparr>lc_last_blink_toggle_ms := now, lc_blink_on := True,
                       lc_indicator_active_previous := indicator_active, lc_initialized := True\<rparr>
               else c);
         c2 = (if indicator_active \<and> \<not> lc_indicator_active_previous c1
               then c1\<lparr>lc_blink_on := True, lc_last_blink_toggle_ms := now\<rparr>
               else if indicator_active \<and> now - lc_last_blink_toggle_ms c1 \<ge> lc_blink_half_period_ms c1
               then c1\<lparr>lc_blink_on := \<not> lc_blink_on c1, lc_last_blink_toggle_ms := now\<rparr>
               else c1);
         c3 = (if \<not> indicator_active then c2\<lparr>lc_blink_on := True, lc_last_blink_toggle_ms := now\<rparr> else c2)
     in c3\<lparr>lc_indicator_active_previous := indicator_active\<rparr>)"

text \<open>The value each output is to have: the rider's indicators blink and override the network's,
  brake and high beam are added to it.\<close>

fun effective_output :: "local_control \<Rightarrow> lighting_state \<Rightarrow> lighting_output \<Rightarrow> bool" where
  "effective_output c commanded LeftIndicator =
    (if db_stable (lc_left c) then lc_blink_on c else lst_left_indicator commanded)"
| "effective_output c commanded RightIndicator =
    (if db_stable (lc_right c) then lc_blink_on c else lst_right_indicator commanded)"
| "effective_output c commanded BrakeBright =
    (db_stable (lc_front_brake c) \<or> db_stable (lc_rear_brake c) \<or> lst_brake_bright commanded)"
| "effective_output c commanded HighBeam = (db_stable (lc_high_beam c) \<or> lst_high_beam commanded)"

fun write_outputs :: "('h, 'w) lighting_env \<Rightarrow> local_control \<Rightarrow> lighting_state \<Rightarrow> lighting_output list
    \<Rightarrow> bool \<Rightarrow> 'h lighting_server \<Rightarrow> bool \<times> 'h lighting_server" where
  "write_outputs env c commanded [] changed s = (changed, s)"
| "write_outputs env c commanded (o1 # os) changed s =
    (case write_if_changed env o1 (effective_output c commanded o1) s of
       (b, s1) \<Rightarrow> write_outputs env c commanded os (b \<or> changed) s1)"

definition local_control_service :: "('h, 'w) lighting_env \<Rightarrow> u32 \<Rightarrow> local_control \<Rightarrow> 'h lighting_server
    \<Rightarrow> bike_node \<Rightarrow> 'w \<Rightarrow> local_control \<times> 'h lighting_server \<times> bike_node \<times> 'w" where
  "local_control_service env now c s nd w =
    (let c1 = update_blink now (lc_sample_inputs env now (ls_hardware s) c) in
     case write_outputs env c1 (ls_commanded s) kOutputs False s of
       (changed, s1) \<Rightarrow>
         if changed
         then case publish_lighting_state env addr_MainComputer now s1 nd w of
           (_, nd1, w1) \<Rightarrow> (c1, s1, nd1, w1)
         else (c1, s1, nd, w))"

section \<open>What the debounced value is\<close>

text \<open>The input as sampled so far, oldest sample first: (raw level, time).\<close>

fun debounced_run :: "u32 \<Rightarrow> (bool \<times> u32) list \<Rightarrow> debounced_input \<Rightarrow> debounced_input" where
  "debounced_run ms [] d = d"
| "debounced_run ms ((raw, now) # xs) d = debounced_run ms xs (snd (debounced_update raw now ms d))"

text \<open>
  The specification, on the samples newest first: when the level last changed, and the debounced
  value: the first level seen, then any level once it has lasted.
\<close>

fun level_since :: "(bool \<times> u32) list \<Rightarrow> u32" where
  "level_since [] = 0"
| "level_since [(raw, t)] = t"
| "level_since ((raw, t) # (raw', t') # xs) = (if raw = raw' then level_since ((raw', t') # xs) else t)"

fun debounced_level :: "u32 \<Rightarrow> (bool \<times> u32) list \<Rightarrow> bool" where
  "debounced_level ms [] = False"
| "debounced_level ms [(raw, t)] = raw"
| "debounced_level ms ((raw, t) # x # xs) =
    (if t - level_since ((raw, t) # x # xs) \<ge> ms then raw else debounced_level ms (x # xs))"

lemma debounced_run_append:
  "debounced_run ms (xs @ ys) d = debounced_run ms ys (debounced_run ms xs d)"
  by (induction ms xs d rule: debounced_run.induct) simp_all

lemma debounced_run_spec:
  "xs \<noteq> [] \<Longrightarrow> debounced_run ms (rev xs) debounced_init =
    \<lparr>db_raw = fst (hd xs), db_stable = debounced_level ms xs, db_initialized = True,
     db_changed_at_ms = level_since xs\<rparr>"
proof (induction xs)
  case (Cons y ys)
  note IHl = Cons.IH
  obtain raw t where y: "y = (raw, t)" by fastforce
  show ?case
  proof (cases ys)
    case Nil
    then show ?thesis by (simp add: y debounced_update_def debounced_init_def)
  next
    case (Cons x xs)
    obtain raw' t' where x: "x = (raw', t')" by fastforce
    have IH: "debounced_run ms (rev ys) debounced_init =
      \<lparr>db_raw = raw', db_stable = debounced_level ms ys, db_initialized = True,
       db_changed_at_ms = level_since ys\<rparr>"
      using IHl Cons by (simp add: x)
    have "debounced_run ms (rev (y # ys)) debounced_init =
        snd (debounced_update raw t ms (debounced_run ms (rev ys) debounced_init))"
      by (simp add: debounced_run_append y)
    then show ?thesis unfolding IH by (auto simp: x y Cons debounced_update_def Let_def)
  qed
qed simp

text \<open>A level that has not lasted does not show; one that has, does.\<close>

lemma level_since_run:
  assumes "xs \<noteq> []" and "\<forall>x\<in>set xs. fst x = b" and "ys \<noteq> [] \<longrightarrow> fst (hd ys) \<noteq> b"
  shows "level_since (xs @ ys) = snd (last xs)"
  using assms
proof (induction xs rule: level_since.induct)
  case (2 raw t)
  then show ?case by (cases ys) auto
qed simp_all

lemma debounced_level_glitch:
  assumes "\<forall>x\<in>set xs. fst x \<noteq> b" and "ys \<noteq> []" and "fst (hd ys) = b"
    and "debounced_level ms ys = b"
    and "\<forall>x\<in>set xs. snd x - snd (last xs) < ms"
  shows "debounced_level ms (xs @ ys) = b"
  using assms
proof (induction xs)
  case (Cons x xs)
  have since: "level_since ((x # xs) @ ys) = snd (last (x # xs))"
    using Cons.prems by (intro level_since_run [where b = "\<not> b"]) auto
  have "xs \<noteq> [] \<Longrightarrow> last (x # xs) = last xs" by simp
  with Cons have "debounced_level ms (xs @ ys) = b"
    by (cases "xs = []") auto
  moreover obtain z zs where "xs @ ys = z # zs" using Cons.prems(2) by (cases "xs @ ys") auto
  moreover have "\<not> ms \<le> snd x - snd (last (x # xs))" using Cons.prems(5) by (auto simp: not_le)
  ultimately show ?case using since by (cases x) (simp add: Cons.prems(1))
qed simp

lemma debounced_level_held:
  assumes "\<forall>x\<in>set xs. fst x = b" and "xs \<noteq> []" and "ys \<noteq> [] \<longrightarrow> fst (hd ys) \<noteq> b"
    and "snd (hd xs) - snd (last xs) \<ge> ms"
  shows "debounced_level ms (xs @ ys) = b"
proof -
  obtain x xs' where xs: "xs = x # xs'" using assms(2) by (cases xs) auto
  have since: "level_since ((x # xs') @ ys) = snd (last (x # xs'))"
    using assms by (intro level_since_run [where b = b]) (auto simp: xs)
  show ?thesis
  proof (cases "xs' @ ys")
    case Nil
    then show ?thesis using assms(1) by (cases x) (simp add: xs)
  next
    case (Cons z zs)
    then show ?thesis using since assms(1,4) by (cases x) (simp add: xs)
  qed
qed

section \<open>What the operations keep\<close>

lemma lc_sample_inputs_sel [simp]:
  "lc_input_debounce_ms (lc_sample_inputs env now h c) = lc_input_debounce_ms c"
  "lc_blink_half_period_ms (lc_sample_inputs env now h c) = lc_blink_half_period_ms c"
  "lc_last_blink_toggle_ms (lc_sample_inputs env now h c) = lc_last_blink_toggle_ms c"
  "lc_blink_on (lc_sample_inputs env now h c) = lc_blink_on c"
  "lc_indicator_active_previous (lc_sample_inputs env now h c) = lc_indicator_active_previous c"
  "lc_initialized (lc_sample_inputs env now h c) = lc_initialized c"
  by (simp_all add: lc_sample_inputs_def Let_def)

lemma update_blink_sel [simp]:
  "lc_left (update_blink now c) = lc_left c" "lc_right (update_blink now c) = lc_right c"
  "lc_front_brake (update_blink now c) = lc_front_brake c"
  "lc_rear_brake (update_blink now c) = lc_rear_brake c"
  "lc_high_beam (update_blink now c) = lc_high_beam c"
  "lc_input_debounce_ms (update_blink now c) = lc_input_debounce_ms c"
  "lc_blink_half_period_ms (update_blink now c) = lc_blink_half_period_ms c"
  "lc_initialized (update_blink now c)"
  "lc_indicator_active_previous (update_blink now c) = local_indicator_active c"
  by (simp_all add: update_blink_def Let_def)

lemma write_if_changed_sel [simp]:
  "ls_commanded (snd (write_if_changed env o1 b s)) = ls_commanded s"
  by (simp add: write_if_changed_def)

lemma write_outputs_commanded:
  "write_outputs env c cm os b s = (b', s') \<Longrightarrow> ls_commanded s' = ls_commanded s"
  by (induction env c cm os b s rule: write_outputs.induct)
    (auto split: prod.splits dest!: arg_cong [where f = "\<lambda>x. ls_commanded (snd x)"])

lemma local_control_service_talk:
  assumes "local_control_service env now c s nd w = (c', s', nd', w')"
  shows "node_talk (le_net env) (nd, w) (nd', w')"
  using assms by (auto simp: local_control_service_def Let_def talk_refl split: prod.splits if_splits
    dest: publish_lighting_talk)

lemma local_control_service_local:
  assumes "local_control_service env now c s nd w = (c', s', nd', w')"
  shows "c' = update_blink now (lc_sample_inputs env now (ls_hardware s) c)"
    and "ls_commanded s' = ls_commanded s"
proof -
  let ?c = "update_blink now (lc_sample_inputs env now (ls_hardware s) c)"
  obtain ch s1 where w: "write_outputs env ?c (ls_commanded s) kOutputs False s = (ch, s1)" by fastforce
  have "c' = ?c" "s' = s1" using assms w
    by (auto simp: local_control_service_def Let_def split: prod.splits if_splits)
  with write_outputs_commanded [OF w] show "c' = ?c" "ls_commanded s' = ls_commanded s" by simp_all
qed

context reliable_lighting
begin

lemma write_if_changed_reads:
  assumes "le_hw env = hw"
  shows "lh_read_output hw o2 (ls_hardware (snd (write_if_changed env o1 b s))) =
    (if o2 = o1 then b else lh_read_output hw o2 (ls_hardware s))"
  using assms by (auto simp: write_if_changed_def)

lemma write_outputs_reads:
  assumes "le_hw env = hw" and "distinct os" and "write_outputs env c cm os b s = (b', s')"
  shows "lh_read_output hw o2 (ls_hardware s') =
    (if o2 \<in> set os then effective_output c cm o2 else lh_read_output hw o2 (ls_hardware s))"
  using assms
proof (induction os arbitrary: b s)
  case (Cons o1 os)
  obtain b1 s1 where w: "write_if_changed env o1 (effective_output c cm o1) s = (b1, s1)" by fastforce
  with Cons.prems have "lh_read_output hw o2 (ls_hardware s') =
    (if o2 \<in> set os then effective_output c cm o2 else lh_read_output hw o2 (ls_hardware s1))"
    by (intro Cons.IH) auto
  with write_if_changed_reads [OF Cons.prems(1), of o2 o1 "effective_output c cm o1" s] w Cons.prems(2)
  show ?case by auto
qed simp

text \<open>After a service every output has its effective value.\<close>

lemma service_outputs:
  assumes "le_hw env = hw" and "local_control_service env now c s nd w = (c', s', nd', w')"
  shows "lh_read_output hw o1 (ls_hardware s') = effective_output c' (ls_commanded s') o1"
proof -
  let ?c = "update_blink now (lc_sample_inputs env now (ls_hardware s) c)"
  obtain ch s1 where w: "write_outputs env ?c (ls_commanded s) kOutputs False s = (ch, s1)" by fastforce
  have "c' = ?c" "s' = s1" using assms(2) w
    by (auto simp: local_control_service_def Let_def split: prod.splits if_splits)
  with write_outputs_reads [OF assms(1) distinct_kOutputs w, of o1] write_outputs_commanded [OF w]
  show ?thesis by simp
qed

end

end
