(* ===== verification/Gpio.thy ===== *)
theory Gpio
  imports Prelude
begin

text \<open>
  The Arduino functions the ESP32 firmwares drive their pins and their flash memory with. They
  are not part of the repository: records of functions over the state of the board, and one
  concrete board of each for evaluation.
\<close>

section \<open>Digital pins\<close>

datatype pin_mode = OUTPUT | INPUT | INPUT_PULLUP | INPUT_PULLDOWN

record 'g gpio_ops =
  gp_pin_mode :: "nat \<Rightarrow> pin_mode \<Rightarrow> 'g \<Rightarrow> 'g"
  gp_digital_write :: "nat \<Rightarrow> bool \<Rightarrow> 'g \<Rightarrow> 'g"
  gp_digital_read :: "nat \<Rightarrow> 'g \<Rightarrow> bool"

text \<open>A board: external levels at the inputs, latched levels at the outputs (\<open>True\<close> is HIGH).\<close>

record pin_bank =
  pb_inputs :: "nat \<Rightarrow> bool"
  pb_outputs :: "nat \<Rightarrow> bool"

definition pin_bank_ops :: "pin_bank gpio_ops" where
  "pin_bank_ops = \<lparr>gp_pin_mode = (\<lambda>_ _ g. g),
     gp_digital_write = (\<lambda>pin level g. g\<lparr>pb_outputs := (pb_outputs g)(pin := level)\<rparr>),
     gp_digital_read = (\<lambda>pin g. pb_inputs g pin)\<rparr>"

lemma pin_bank_ops_sel [simp]:
  "gp_digital_write pin_bank_ops pin level g = g\<lparr>pb_outputs := (pb_outputs g)(pin := level)\<rparr>"
  "gp_digital_read pin_bank_ops pin g = pb_inputs g pin"
  "gp_pin_mode pin_bank_ops pin m g = g"
  by (simp_all add: pin_bank_ops_def)

text \<open>The documented behaviour of output pins: switching one does not change the level of another.\<close>

locale independent_pins =
  fixes gp :: "'g gpio_ops"
  assumes read_other: "q \<noteq> pin \<Longrightarrow> gp_digital_read gp q (gp_digital_write gp pin level g) = gp_digital_read gp q g"

interpretation pin_bank: independent_pins pin_bank_ops
  by unfold_locales simp

text \<open>
  The level the board drives on its output pins, which a program cannot read back from its record of
  functions: what was last written, whatever is written elsewhere and however other pins are set up.
\<close>

locale driven_pins =
  fixes gp :: "'g gpio_ops" and driven :: "nat \<Rightarrow> 'g \<Rightarrow> bool"
  assumes driven_write: "driven q (gp_digital_write gp pin level g) = (if q = pin then level else driven q g)"
    and driven_mode: "q \<noteq> pin \<Longrightarrow> driven q (gp_pin_mode gp pin m g) = driven q g"

definition output_level :: "nat \<Rightarrow> pin_bank \<Rightarrow> bool" where
  "output_level pin g = pb_outputs g pin"

interpretation driven_bank: driven_pins pin_bank_ops output_level
  by unfold_locales (simp_all add: output_level_def)

definition idle_board :: pin_bank where
  "idle_board = \<lparr>pb_inputs = (\<lambda>_. False), pb_outputs = (\<lambda>_. False)\<rparr>"

section \<open>Preferences in flash memory\<close>

record 'f preferences_ops =
  pf_begin :: "string \<Rightarrow> bool \<Rightarrow> 'f \<Rightarrow> bool \<times> 'f"
  pf_get_bool :: "string \<Rightarrow> bool \<Rightarrow> 'f \<Rightarrow> bool"
  pf_put_bool :: "string \<Rightarrow> bool \<Rightarrow> 'f \<Rightarrow> nat \<times> 'f"

text \<open>The documented behaviour of \<open>putBool\<close>: it answers the bytes written, one on success, and
  then the key reads back as written.\<close>

locale preferences =
  fixes pf :: "'f preferences_ops"
  assumes put_get: "pf_put_bool pf k b f = (1, f') \<Longrightarrow> pf_get_bool pf k d f' = b"

definition flash_ops :: "(string \<Rightarrow> bool option) preferences_ops" where
  "flash_ops = \<lparr>pf_begin = (\<lambda>_ _ f. (True, f)),
     pf_get_bool = (\<lambda>k d f. case f k of None \<Rightarrow> d | Some b \<Rightarrow> b),
     pf_put_bool = (\<lambda>k b f. (1, f(k \<mapsto> b)))\<rparr>"

interpretation flash: preferences flash_ops
  by unfold_locales (auto simp: flash_ops_def)

end
