(* ===== verification/LightingController.thy ===== *)
theory LightingController
  imports LightingControl LightingFaults Gpio
begin

text \<open>
  The lighting firmware (\<open>esp32/lighting\<close>): the GPIO outputs and inputs as providers of the
  interfaces, \<open>setup\<close> and \<open>loop\<close> over the controller, the rider's controls, the fault manager and
  the diagnostics, and the properties of the whole unit over every run.
\<close>

section \<open>The board\<close>

definition kLeftIndicatorPin :: nat where [simp]: "kLeftIndicatorPin = 25"
definition kRightIndicatorPin :: nat where [simp]: "kRightIndicatorPin = 26"
definition kBrakeBrightPin :: nat where [simp]: "kBrakeBrightPin = 27"
definition kHighBeamPin :: nat where [simp]: "kHighBeamPin = 32"

definition kLeftSwitchPin :: nat where [simp]: "kLeftSwitchPin = 18"
definition kRightSwitchPin :: nat where [simp]: "kRightSwitchPin = 19"
definition kFrontBrakeInputPin :: nat where [simp]: "kFrontBrakeInputPin = 21"
definition kRearBrakeInputPin :: nat where [simp]: "kRearBrakeInputPin = 23"
definition kHighBeamInputPin :: nat where [simp]: "kHighBeamInputPin = 22"

datatype input_polarity = ActiveLow | ActiveHigh

definition kLeftSwitchPolarity :: input_polarity where [simp]: "kLeftSwitchPolarity = ActiveLow"
definition kRightSwitchPolarity :: input_polarity where [simp]: "kRightSwitchPolarity = ActiveLow"
definition kFrontBrakePolarity :: input_polarity where [simp]: "kFrontBrakePolarity = ActiveLow"
definition kRearBrakePolarity :: input_polarity where [simp]: "kRearBrakePolarity = ActiveLow"
definition kHighBeamSwitchPolarity :: input_polarity where [simp]: "kHighBeamSwitchPolarity = ActiveLow"

text \<open>The four cells of \<open>state_\<close> are a function from their index.\<close>

record 'g gpio_lighting =
  gl_pins :: 'g
  gl_state :: "nat \<Rightarrow> bool"

fun pin_for :: "lighting_output \<Rightarrow> nat" where
  "pin_for LeftIndicator = kLeftIndicatorPin"
| "pin_for RightIndicator = kRightIndicatorPin"
| "pin_for BrakeBright = kBrakeBrightPin"
| "pin_for HighBeam = kHighBeamPin"

definition configure_output :: "'g gpio_ops \<Rightarrow> nat \<Rightarrow> 'g \<Rightarrow> 'g" where
  "configure_output gp pin g =
    gp_digital_write gp pin False (gp_pin_mode gp pin OUTPUT (gp_digital_write gp pin False g))"

definition gpio_lighting_begin :: "'g gpio_ops \<Rightarrow> 'g gpio_lighting \<Rightarrow> 'g gpio_lighting" where
  "gpio_lighting_begin gp g =
    g\<lparr>gl_pins := configure_output gp kHighBeamPin (configure_output gp kBrakeBrightPin
       (configure_output gp kRightIndicatorPin (configure_output gp kLeftIndicatorPin (gl_pins g))))\<rparr>"

definition gpio_write_output :: "'g gpio_ops \<Rightarrow> lighting_output \<Rightarrow> bool \<Rightarrow> 'g gpio_lighting
    \<Rightarrow> bool \<times> 'g gpio_lighting" where
  "gpio_write_output gp o1 b g =
    (if index_for o1 \<ge> 4 then (False, g)
     else (True, g\<lparr>gl_pins := gp_digital_write gp (pin_for o1) b (gl_pins g),
                    gl_state := (gl_state g)(index_for o1 := b)\<rparr>))"

definition gpio_read_output :: "lighting_output \<Rightarrow> 'g gpio_lighting \<Rightarrow> bool" where
  "gpio_read_output o1 g = (if index_for o1 < 4 then gl_state g (index_for o1) else False)"

definition gpio_lighting_hw :: "'g gpio_ops \<Rightarrow> 'g gpio_lighting lighting_hw_ops" where
  "gpio_lighting_hw gp =
    \<lparr>lh_write_output = gpio_write_output gp, lh_read_output = gpio_read_output\<rparr>"

definition configure_input :: "'g gpio_ops \<Rightarrow> nat \<Rightarrow> input_polarity \<Rightarrow> 'g \<Rightarrow> 'g" where
  "configure_input gp pin polarity g =
    gp_pin_mode gp pin (if polarity = ActiveLow then INPUT_PULLUP else INPUT_PULLDOWN) g"

definition input_active :: "'g gpio_ops \<Rightarrow> nat \<Rightarrow> input_polarity \<Rightarrow> 'g \<Rightarrow> bool" where
  "input_active gp pin polarity g =
    (let level = gp_digital_read gp pin g in if polarity = ActiveLow then \<not> level else level)"

definition gpio_inputs_begin :: "'g gpio_ops \<Rightarrow> 'g \<Rightarrow> 'g" where
  "gpio_inputs_begin gp g =
    configure_input gp kHighBeamInputPin kHighBeamSwitchPolarity
      (configure_input gp kRearBrakeInputPin kRearBrakePolarity
        (configure_input gp kFrontBrakeInputPin kFrontBrakePolarity
          (configure_input gp kRightSwitchPin kRightSwitchPolarity
            (configure_input gp kLeftSwitchPin kLeftSwitchPolarity g))))"

definition gpio_lighting_inputs :: "'g gpio_ops \<Rightarrow> 'g gpio_lighting lighting_input_ops" where
  "gpio_lighting_inputs gp = \<lparr>
     in_left_indicator_requested = (\<lambda>h. input_active gp kLeftSwitchPin kLeftSwitchPolarity (gl_pins h)),
     in_right_indicator_requested = (\<lambda>h. input_active gp kRightSwitchPin kRightSwitchPolarity (gl_pins h)),
     in_front_brake_active = (\<lambda>h. input_active gp kFrontBrakeInputPin kFrontBrakePolarity (gl_pins h)),
     in_rear_brake_active = (\<lambda>h. input_active gp kRearBrakeInputPin kRearBrakePolarity (gl_pins h)),
     in_high_beam_requested = (\<lambda>h. input_active gp kHighBeamInputPin kHighBeamSwitchPolarity (gl_pins h))\<rparr>"

definition no_electrical_feedback :: "'h lighting_feedback_ops" where
  "no_electrical_feedback = \<lparr>fb_read_current_ma = (\<lambda>_ _ _. (False, 0))\<rparr>"

definition lighting_board :: "'g gpio_ops \<Rightarrow> 'w transport_ops \<Rightarrow> ('g gpio_lighting, 'w) lighting_env" where
  "lighting_board gp net = \<lparr>le_hw = gpio_lighting_hw gp, le_inputs = gpio_lighting_inputs gp,
     le_feedback = no_electrical_feedback, le_net = net\<rparr>"

lemma lighting_board_sel [simp]:
  "le_hw (lighting_board gp net) = gpio_lighting_hw gp"
  "le_inputs (lighting_board gp net) = gpio_lighting_inputs gp"
  "le_feedback (lighting_board gp net) = no_electrical_feedback"
  "le_net (lighting_board gp net) = net"
  by (simp_all add: lighting_board_def)

lemma gpio_lighting_hw_sel [simp]:
  "lh_write_output (gpio_lighting_hw gp) o1 b g =
    (True, g\<lparr>gl_pins := gp_digital_write gp (pin_for o1) b (gl_pins g),
             gl_state := (gl_state g)(index_for o1 := b)\<rparr>)"
  "lh_read_output (gpio_lighting_hw gp) o1 g = gl_state g (index_for o1)"
  by (simp_all add: gpio_lighting_hw_def gpio_write_output_def gpio_read_output_def not_le)

interpretation board_lamps: reliable_lighting "gpio_lighting_hw gp" for gp
  by unfold_locales auto

section \<open>Setup and loop\<close>

record 'h lighting_unit =
  lu_server :: "'h lighting_server"
  lu_local :: local_control
  lu_diagnostics :: lighting_diagnostics
  lu_faults :: fault_manager

definition lighting_setup :: "'g gpio_ops \<Rightarrow> 'g \<Rightarrow> nat \<Rightarrow> 'g gpio_lighting lighting_unit \<times> bike_node" where
  "lighting_setup gp pins transport =
    (let hardware = gpio_lighting_begin gp \<lparr>gl_pins = pins, gl_state = (\<lambda>_. False)\<rparr>;
         hardware1 = hardware\<lparr>gl_pins := gpio_inputs_begin gp (gl_pins hardware)\<rparr>;
         node = node_set_auto_ack False (node_init addr_Lighting transport)
     in (\<lparr>lu_server = lighting_server_init hardware1,
          lu_local = set_input_debounce_ms 25 (set_blink_half_period_ms 500 local_control_init),
          lu_diagnostics = set_publish_interval_ms 1000 lighting_diagnostics_init,
          lu_faults = set_confirm_samples 3 fault_manager_init\<rparr>,
         node_set_max_retries 3 (node_set_ack_timeout_ms 250 node)))"

definition lighting_loop :: "('h, 'w) lighting_env \<Rightarrow> u32 \<Rightarrow> 'h lighting_unit \<Rightarrow> bike_node \<Rightarrow> 'w
    \<Rightarrow> ('h lighting_unit \<times> bike_node \<times> 'w) option" where
  "lighting_loop env now u nd w =
    (case lighting_controller_service env now (lu_server u) nd w of
       None \<Rightarrow> None
     | Some (s1, nd1, w1) \<Rightarrow>
         (case local_control_service env now (lu_local u) s1 nd1 w1 of
            (c, s2, nd2, w2) \<Rightarrow>
              case fault_service env (lu_diagnostics u) now (lu_faults u) s2 nd2 w2 of
                (f, s3, nd3, w3) \<Rightarrow>
                  case diagnostics_service env now addr_MainComputer (ls_hardware s3) (lu_diagnostics u) nd3 w3 of
                    (d, nd4, w4) \<Rightarrow>
                      Some (\<lparr>lu_server = s3, lu_local = c, lu_diagnostics = d, lu_faults = f\<rparr>, nd4, w4)))"

section \<open>Every run\<close>

text \<open>
  A run of the firmware: its setup, then loops at any times, while the pins and the network change
  in any way between them, policies and limits may be set, and latches cleared. The list records,
  newest first, the board and the time of every loop pass.
\<close>

inductive lighting_trace :: "'g gpio_ops \<Rightarrow> 'w transport_ops \<Rightarrow> ('g \<times> u32) list
    \<Rightarrow> 'g gpio_lighting lighting_unit \<times> bike_node \<times> 'w \<Rightarrow> bool" for gp net where
  lt_boot: "lighting_setup gp pins t = (u, nd) \<Longrightarrow> lighting_trace gp net [] (u, nd, w)"
| lt_world: "lighting_trace gp net hs (u, nd, w) \<Longrightarrow>
    lighting_trace gp net hs (u\<lparr>lu_server := (lu_server u)\<lparr>ls_hardware :=
      (ls_hardware (lu_server u))\<lparr>gl_pins := pins\<rparr>\<rparr>\<rparr>, nd, w')"
| lt_loop: "lighting_trace gp net hs (u, nd, w) \<Longrightarrow>
    lighting_loop (lighting_board gp net) now u nd w = Some (u', nd', w') \<Longrightarrow>
    lighting_trace gp net ((gl_pins (ls_hardware (lu_server u)), now) # hs) (u', nd', w')"
| lt_policy: "lighting_trace gp net hs (u, nd, w) \<Longrightarrow>
    lighting_trace gp net hs (u\<lparr>lu_faults := set_policy o1 p (lu_faults u)\<rparr>, nd, w)"
| lt_limits: "lighting_trace gp net hs (u, nd, w) \<Longrightarrow>
    lighting_trace gp net hs (u\<lparr>lu_diagnostics := set_limits o1 l (lu_diagnostics u)\<rparr>, nd, w)"
| lt_clear: "lighting_trace gp net hs (u, nd, w) \<Longrightarrow>
    clear_latch (lighting_board gp net) o1 now (lu_faults u) nd w = (ok, f, nd', w') \<Longrightarrow>
    lighting_trace gp net hs (u\<lparr>lu_faults := f\<rparr>, nd', w')"

text \<open>What the inputs have shown, newest first.\<close>

definition input_history :: "'g gpio_ops \<Rightarrow> nat \<Rightarrow> ('g \<times> u32) list \<Rightarrow> (bool \<times> u32) list" where
  "input_history gp pin hs = map (\<lambda>(g, t). (\<not> gp_digital_read gp pin g, t)) hs"

definition unit_inv :: "'g gpio_ops \<Rightarrow> ('g \<times> u32) list \<Rightarrow> 'g gpio_lighting lighting_unit \<Rightarrow> bool" where
  "unit_inv gp hs u \<longleftrightarrow>
    (\<forall>o1. gl_state (ls_hardware (lu_server u)) (index_for o1) =
       effective_output (lu_local u) (ls_commanded (lu_server u)) o1)
    \<and> lc_input_debounce_ms (lu_local u) = 25 \<and> lc_blink_half_period_ms (lu_local u) = 500
    \<and> (let h = (\<lambda>pin. debounced_run 25 (rev (input_history gp pin hs)) debounced_init) in
       lc_left (lu_local u) = h kLeftSwitchPin \<and> lc_right (lu_local u) = h kRightSwitchPin
       \<and> lc_front_brake (lu_local u) = h kFrontBrakeInputPin
       \<and> lc_rear_brake (lu_local u) = h kRearBrakeInputPin
       \<and> lc_high_beam (lu_local u) = h kHighBeamInputPin)"

text \<open>On this board no current is ever measured, so no fault is ever seen.\<close>

lemma board_never_faults: "\<not> is_fault (channel_status (lighting_board gp net) d o1 h)"
  by (simp add: channel_status_def evaluate_channel_def no_electrical_feedback_def is_fault_def
    Let_def)

lemma board_supervision_keeps:
  "update_channels (lighting_board gp net) d os now f s nd w = (f', s', nd', w') \<Longrightarrow> s' = s"
proof (induction "lighting_board gp net" d os now f s nd w rule: update_channels.induct)
  case (2 d o1 os now f s nd w)
  obtain f1 s1 nd1 w1 where u: "update_channel (lighting_board gp net) d o1 now f s nd w = (f1, s1, nd1, w1)"
    by (metis prod_cases4)
  have "s1 = s" using update_channel_step(10) [OF u refl] board_never_faults [of gp net d o1 "ls_hardware s"]
    by (simp add: confirmed_sample_def)
  with 2 u show ?case by simp
qed simp

lemma publish_diagnostics_wf [simp]:
  "wf_packet (snd (put_diagnostics env d h os i a p)) = wf_packet p"
  "pkt_type (snd (put_diagnostics env d h os i a p)) = pkt_type p"
  by (induction env d h os i a p rule: put_diagnostics.induct) (simp_all add: Let_def put_diagnostic_def)

lemma wf_flags [simp]: "wf_packet (p\<lparr>pkt_flags := x\<rparr>) = wf_packet p"
  by (simp add: wf_packet_def)

lemma wf_diagnostics_packet [simp]:
  "wf_packet (diagnostics_packet env d h a)" "calm (diagnostics_packet env d h a)"
  by (simp_all add: diagnostics_packet_def case_prod_unfold)

lemma diagnostics_service_talk:
  "diagnostics_service env now a h d nd w = (d', nd', w') \<Longrightarrow> node_talk (le_net env) (nd, w) (nd', w')"
  by (auto simp: diagnostics_service_def diagnostics_publish_def talk_refl split: if_splits prod.splits
    intro: talk_send1 [OF wf_diagnostics_packet(1)])

lemma clear_latch_talk:
  "clear_latch env o1 now f nd w = (ok, f', nd', w') \<Longrightarrow> node_talk (le_net env) (nd, w) (nd', w')"
  using publish_fault_talk [of env nd w o1 "fm_records f (index_for o1)" msg_FaultClear now]
  by (auto simp: clear_latch_def Let_def talk_refl split: if_splits)

lemma lighting_loop_parts:
  assumes "lighting_loop env now u nd w = Some (u', nd', w')"
  obtains s1 nd1 w1 c s2 nd2 w2 f s3 nd3 w3 d
  where "lighting_controller_service env now (lu_server u) nd w = Some (s1, nd1, w1)"
    and "local_control_service env now (lu_local u) s1 nd1 w1 = (c, s2, nd2, w2)"
    and "fault_service env (lu_diagnostics u) now (lu_faults u) s2 nd2 w2 = (f, s3, nd3, w3)"
    and "diagnostics_service env now addr_MainComputer (ls_hardware s3) (lu_diagnostics u) nd3 w3 = (d, nd', w')"
    and "u' = \<lparr>lu_server = s3, lu_local = c, lu_diagnostics = d, lu_faults = f\<rparr>"
  using assms by (auto simp: lighting_loop_def split: option.splits prod.splits)

lemma lighting_loop_ends':
  assumes "finite_transport (le_net env) avail"
  shows "\<exists>r. lighting_loop env now u nd w = Some r"
proof -
  obtain s1 nd1 w1 where "lighting_controller_service env now (lu_server u) nd w = Some (s1, nd1, w1)"
    using lighting_controller_ends [OF assms, of now "lu_server u" nd w] by auto
  then show ?thesis by (simp add: lighting_loop_def split: prod.split)
qed

text \<open>The controller's loop writes outputs only: the input pins read the same after it.\<close>

definition same_inputs :: "'g gpio_ops \<Rightarrow> 'g \<Rightarrow> 'g \<Rightarrow> bool" where
  "same_inputs gp g g' \<longleftrightarrow> (\<forall>q. q \<notin> pin_for ` UNIV \<longrightarrow> gp_digital_read gp q g' = gp_digital_read gp q g)"

lemma input_pins [simp]:
  "18 \<notin> range pin_for" "19 \<notin> range pin_for" "21 \<notin> range pin_for" "22 \<notin> range pin_for"
  "23 \<notin> range pin_for"
proof -
  have "pin_for o1 \<in> {25, 26, 27, 32}" for o1 by (cases o1) simp_all
  then have "range pin_for \<subseteq> {25, 26, 27, 32}" by blast
  then have "q \<notin> range pin_for" if "q \<notin> {25, 26, 27, 32}" for q using that by blast
  then show "18 \<notin> range pin_for" "19 \<notin> range pin_for" "21 \<notin> range pin_for" "22 \<notin> range pin_for"
    "23 \<notin> range pin_for" by simp_all
qed

lemma lighting_body_inputs:
  assumes "independent_pins gp" and "lighting_body (lighting_board gp net) now p s nd w = (s', nd', w')"
    and "same_inputs gp g (gl_pins (ls_hardware s))"
  shows "same_inputs gp g (gl_pins (ls_hardware s'))"
  using lighting_body_server [OF assms(2)]
proof
  assume "\<exists>o1 b. s' = snd (apply_output (lighting_board gp net) o1 b s)"
  then obtain o1 b where s': "s' = snd (apply_output (lighting_board gp net) o1 b s)" by blast
  have "gl_pins (ls_hardware s') = gp_digital_write gp (pin_for o1) b (gl_pins (ls_hardware s))"
    unfolding s' by (simp add: apply_output_def)
  moreover have "q \<noteq> pin_for o1" if "q \<notin> range pin_for" for q using that by auto
  ultimately show ?thesis
    using assms(3) independent_pins.read_other [OF assms(1)] by (simp add: same_inputs_def)
qed (use assms(3) in simp)

lemma controller_service_inputs:
  assumes "independent_pins gp"
    and "lighting_controller_service (lighting_board gp net) now s nd w = Some (s', nd', w')" and "node_inv nd"
  shows "same_inputs gp (gl_pins (ls_hardware s)) (gl_pins (ls_hardware s')) \<and> node_inv nd'"
proof -
  obtain s1 nd1 w1 where d: "node_drain net now (lighting_body (lighting_board gp net) now) s nd w = Some (s1, nd1, w1)"
    using assms(2) by (auto simp: lighting_controller_service_def split: option.splits)
  have s': "s' = s1" "node_service net nd1 now w1 = (nd', w')"
    using assms(2) d by (auto simp: lighting_controller_service_def split: prod.splits)
  let ?I = "\<lambda>s'. same_inputs gp (gl_pins (ls_hardware s)) (gl_pins (ls_hardware s'))"
  have "?I s1 \<and> node_inv nd1"
  proof (rule node_drain_talk_inv [where I = ?I, OF d assms(3)])
    show "?I s" by (simp add: same_inputs_def)
    fix p s nd w s' nd' w'
    assume b: "lighting_body (lighting_board gp net) now p s nd w = (s', nd', w')"
    from lighting_body_talk [OF b] show "node_talk net (nd, w) (nd', w')" by simp
    assume "?I s"
    with lighting_body_inputs [OF assms(1) b] show "?I s'" by blast
  qed
  with s'(1) node_service_inv' [OF s'(2)] show ?thesis by simp
qed

lemma debounced_run_snoc:
  "debounced_run ms (rev ((raw, t) # xs)) d = snd (debounced_update raw t ms (debounced_run ms (rev xs) d))"
  by (simp add: debounced_run_append)

lemma sampled_history:
  assumes "same_inputs gp g g'" and "pin \<notin> range pin_for"
  shows "snd (debounced_update (input_active gp pin ActiveLow g') now 25
      (debounced_run 25 (rev (input_history gp pin hs)) debounced_init)) =
    debounced_run 25 (rev (input_history gp pin ((g, now) # hs))) debounced_init"
  using assms by (simp add: input_history_def input_active_def same_inputs_def debounced_run_append)

lemma unit_inv_loop:
  assumes gp: "independent_pins gp" and inv: "unit_inv gp hs u" and nd: "node_inv nd"
    and run: "lighting_loop (lighting_board gp net) now u nd w = Some (u', nd', w')"
  shows "unit_inv gp ((gl_pins (ls_hardware (lu_server u)), now) # hs) u' \<and> node_inv nd'"
proof -
  let ?env = "lighting_board gp net" and ?g = "gl_pins (ls_hardware (lu_server u))"
  obtain s1 nd1 w1 c s2 nd2 w2 f s3 nd3 w3 d where
    ctl: "lighting_controller_service ?env now (lu_server u) nd w = Some (s1, nd1, w1)"
    and loc: "local_control_service ?env now (lu_local u) s1 nd1 w1 = (c, s2, nd2, w2)"
    and flt: "fault_service ?env (lu_diagnostics u) now (lu_faults u) s2 nd2 w2 = (f, s3, nd3, w3)"
    and dia: "diagnostics_service ?env now addr_MainComputer (ls_hardware s3) (lu_diagnostics u) nd3 w3 = (d, nd', w')"
    and u': "u' = \<lparr>lu_server = s3, lu_local = c, lu_diagnostics = d, lu_faults = f\<rparr>"
    by (rule lighting_loop_parts [OF run])
  have same: "same_inputs gp ?g (gl_pins (ls_hardware s1))" and n1: "node_inv nd1"
    using controller_service_inputs [OF gp ctl nd] by simp_all
  have s3: "s3 = s2" using board_supervision_keeps flt by (simp add: fault_service_def)
  have node: "node_inv nd'"
    using talk_keeps(1) [OF local_control_service_talk [OF loc]] n1
      talk_keeps(1) [OF update_channels_talk [OF flt [unfolded fault_service_def]]]
      talk_keeps(1) [OF diagnostics_service_talk [OF dia]] by simp
  have out: "gl_state (ls_hardware s2) (index_for o1) = effective_output c (ls_commanded s2) o1" for o1
    using board_lamps.service_outputs [OF _ loc, of gp o1] by simp
  have c: "c = update_blink now (lc_sample_inputs ?env now (ls_hardware s1) (lu_local u))"
    by (rule local_control_service_local(1) [OF loc])
  have in5: "(18::nat) \<notin> range pin_for" "(19::nat) \<notin> range pin_for" "(21::nat) \<notin> range pin_for"
    "(22::nat) \<notin> range pin_for" "(23::nat) \<notin> range pin_for" by (rule input_pins)+
  note hist = in5 [THEN sampled_history [OF same], of now hs]
  show ?thesis
    using inv node out unfolding unit_inv_def Let_def u' s3 c
    by (simp add: lc_sample_inputs_def gpio_lighting_inputs_def Let_def hist)
qed

lemma unit_inv_setup:
  assumes "lighting_setup gp pins t = (u, nd)"
  shows "unit_inv gp [] u \<and> node_inv nd"
proof -
  have "effective_output (lu_local u) (ls_commanded (lu_server u)) o1 = False" for o1
    using assms by (cases o1) (auto simp: lighting_setup_def Let_def local_control_init_def debounced_init_def
      set_input_debounce_ms_def set_blink_half_period_ms_def lighting_server_init_def default_lighting_state_def)
  moreover have "node_inv nd" using assms
    by (auto simp: lighting_setup_def Let_def intro!: node_inv_setters node_inv_init)
  ultimately show ?thesis using assms
    by (auto simp: unit_inv_def lighting_setup_def Let_def gpio_lighting_begin_def lighting_server_init_def
      set_input_debounce_ms_def set_blink_half_period_ms_def local_control_init_def input_history_def)
qed

lemma lighting_trace_inv:
  assumes "lighting_trace gp net hs x" and "independent_pins gp"
  shows "unit_inv gp hs (fst x) \<and> node_inv (fst (snd x))"
  using assms(1)
proof (induction rule: lighting_trace.induct)
  case (lt_boot pins t u nd w)
  then show ?case using unit_inv_setup by simp
next
  case (lt_loop hs u nd w now u' nd' w')
  with unit_inv_loop [OF assms(2) _ _ lt_loop(2), of hs] show ?case by simp
next
  case (lt_clear hs u nd w o1 now ok f nd' w')
  with talk_keeps(1) [OF clear_latch_talk [OF lt_clear(2)]] show ?case by (simp add: unit_inv_def)
qed (simp_all add: unit_inv_def)

lemma trace_history:
  assumes "lighting_trace gp net hs (u, nd, w)" and "independent_pins gp" and "hs \<noteq> []"
  shows "db_stable (lc_left (lu_local u)) = debounced_level 25 (input_history gp kLeftSwitchPin hs)"
    "db_stable (lc_right (lu_local u)) = debounced_level 25 (input_history gp kRightSwitchPin hs)"
    "db_stable (lc_front_brake (lu_local u)) = debounced_level 25 (input_history gp kFrontBrakeInputPin hs)"
    "db_stable (lc_rear_brake (lu_local u)) = debounced_level 25 (input_history gp kRearBrakeInputPin hs)"
    "db_stable (lc_high_beam (lu_local u)) = debounced_level 25 (input_history gp kHighBeamInputPin hs)"
proof -
  have ne: "input_history gp pin hs \<noteq> []" for pin using assms(3) by (simp add: input_history_def)
  from lighting_trace_inv [OF assms(1,2)] debounced_run_spec [OF ne]
  show "db_stable (lc_left (lu_local u)) = debounced_level 25 (input_history gp kLeftSwitchPin hs)"
    "db_stable (lc_right (lu_local u)) = debounced_level 25 (input_history gp kRightSwitchPin hs)"
    "db_stable (lc_front_brake (lu_local u)) = debounced_level 25 (input_history gp kFrontBrakeInputPin hs)"
    "db_stable (lc_rear_brake (lu_local u)) = debounced_level 25 (input_history gp kRearBrakeInputPin hs)"
    "db_stable (lc_high_beam (lu_local u)) = debounced_level 25 (input_history gp kHighBeamInputPin hs)"
    by (simp_all add: unit_inv_def Let_def)
qed

end
