(* ===== verification/SecurityLogic.thy ===== *)
theory SecurityLogic
  imports SecurityServer
begin

text \<open>
  The lock state machine of \<open>library/src/security_server.cpp\<close> on its own: the messages a server
  publishes do not influence it, so its control state is a function of the commands, the times
  and the inputs. The invariant that ties the two outputs to the mode is proved for any hardware
  that satisfies its contract.
\<close>

section \<open>Input filters\<close>

lemma sample_engine_sel [simp]:
  "ss_hardware (sample_engine env now s) = ss_hardware s"
  "ss_persistence (sample_engine env now s) = ss_persistence s"
  "ss_mode (sample_engine env now s) = ss_mode s"
  "ss_last_controller (sample_engine env now s) = ss_last_controller s"
  "ss_engine_initialized (sample_engine env now s)"
  "ss_recovery_requires_stop (sample_engine env now s) = ss_recovery_requires_stop s"
  "ss_warning (sample_engine env now s) = ss_warning s"
  "ss_warning_pending (sample_engine env now s) = ss_warning_pending s"
  "ss_warning_changed_ms (sample_engine env now s) = ss_warning_changed_ms s"
  "ss_trigger (sample_engine env now s) = ss_trigger s"
  "ss_trigger_pending (sample_engine env now s) = ss_trigger_pending s"
  "ss_trigger_changed_ms (sample_engine env now s) = ss_trigger_changed_ms s"
  "ss_previous_warning (sample_engine env now s) = ss_previous_warning s"
  "ss_previous_trigger (sample_engine env now s) = ss_previous_trigger s"
  "ss_alarm_started_ms (sample_engine env now s) = ss_alarm_started_ms s"
  "ss_alarm_timer_active (sample_engine env now s) = ss_alarm_timer_active s"
  "ss_engine_stop_confirm_ms (sample_engine env now s) = ss_engine_stop_confirm_ms s"
  "ss_warning_confirm_ms (sample_engine env now s) = ss_warning_confirm_ms s"
  "ss_trigger_confirm_ms (sample_engine env now s) = ss_trigger_confirm_ms s"
  "ss_alarm_duration_ms (sample_engine env now s) = ss_alarm_duration_ms s"
  by (simp_all add: sample_engine_def Let_def)

lemma sample_inputs_sel [simp]:
  "ss_hardware (sample_inputs env now s) = ss_hardware s"
  "ss_persistence (sample_inputs env now s) = ss_persistence s"
  "ss_mode (sample_inputs env now s) = ss_mode s"
  "ss_last_controller (sample_inputs env now s) = ss_last_controller s"
  "ss_engine_running (sample_inputs env now s) = ss_engine_running (sample_engine env now s)"
  "ss_engine_initialized (sample_inputs env now s)"
  "ss_stop_pending (sample_inputs env now s) = ss_stop_pending (sample_engine env now s)"
  "ss_stop_started_ms (sample_inputs env now s) = ss_stop_started_ms (sample_engine env now s)"
  "ss_recovery_requires_stop (sample_inputs env now s) = ss_recovery_requires_stop s"
  "ss_previous_warning (sample_inputs env now s) = ss_previous_warning s"
  "ss_previous_trigger (sample_inputs env now s) = ss_previous_trigger s"
  "ss_alarm_started_ms (sample_inputs env now s) = ss_alarm_started_ms s"
  "ss_alarm_timer_active (sample_inputs env now s) = ss_alarm_timer_active s"
  "ss_engine_stop_confirm_ms (sample_inputs env now s) = ss_engine_stop_confirm_ms s"
  "ss_warning_confirm_ms (sample_inputs env now s) = ss_warning_confirm_ms s"
  "ss_trigger_confirm_ms (sample_inputs env now s) = ss_trigger_confirm_ms s"
  "ss_alarm_duration_ms (sample_inputs env now s) = ss_alarm_duration_ms s"
  by (simp_all add: sample_inputs_def Let_def split: prod.splits)

text \<open>The filter over a sequence of samples (value, time).\<close>

fun debounce_run :: "u32 \<Rightarrow> (bool \<times> u32) list \<Rightarrow> bool \<times> bool \<times> u32 \<Rightarrow> bool \<times> bool \<times> u32" where
  "debounce_run confirm_ms [] st = st"
| "debounce_run confirm_ms ((raw, now) # xs) (steady, pending, changed) =
    (case update_filtered_assert raw steady pending changed confirm_ms now of
       (_, st) \<Rightarrow> debounce_run confirm_ms xs st)"

lemma debounce_run_append:
  "debounce_run c (xs @ ys) st = debounce_run c ys (debounce_run c xs st)"
  by (induction c xs st rule: debounce_run.induct) (auto split: prod.splits)

text \<open>An asserted output rests on a run of asserted samples that lasted the confirmation time.\<close>

definition held_for :: "u32 \<Rightarrow> (bool \<times> u32) list \<Rightarrow> bool" where
  "held_for c xs \<longleftrightarrow> (\<exists>ys t0 zs. xs = ys @ (True, t0) # zs \<and> (\<forall>x\<in>set zs. fst x)
     \<and> (\<exists>x\<in>set ((True, t0) # zs). c \<le> snd x - t0))"

lemma held_for_snoc: "held_for c xs \<Longrightarrow> held_for c (xs @ [(True, t)])"
proof -
  assume "held_for c xs"
  then obtain ys t0 zs where "xs = ys @ (True, t0) # zs" "\<forall>x\<in>set zs. fst x"
    "\<exists>x\<in>set ((True, t0) # zs). c \<le> snd x - t0" by (auto simp: held_for_def)
  then show ?thesis
    unfolding held_for_def by (intro exI [of _ ys] exI [of _ t0] exI [of _ "zs @ [(True, t)]"]) auto
qed

lemma debounce_run_sound:
  assumes "debounce_run c xs (False, False, t) = (steady, pending, changed)"
  shows "(steady \<longrightarrow> held_for c xs) \<and>
    (pending \<longrightarrow> \<not> steady \<and> (\<exists>ys zs. xs = ys @ (True, changed) # zs \<and> (\<forall>x\<in>set zs. fst x)))"
  using assms
proof (induction xs arbitrary: steady pending changed rule: rev_induct)
  case (snoc x xs)
  obtain raw now where x: "x = (raw, now)" by fastforce
  obtain s p ch where st: "debounce_run c xs (False, False, t) = (s, p, ch)" by (metis prod_cases3)
  note IH = snoc.IH [OF st]
  have step: "snd (update_filtered_assert raw s p ch c now) = (steady, pending, changed)"
    using snoc.prems by (simp add: debounce_run_append st x split: prod.splits)
  show ?case
  proof (cases "raw \<and> \<not> s")
    case False
    then show ?thesis
      using step IH by (cases raw) (auto simp: x update_filtered_assert_def intro: held_for_snoc)
  next
    case True
    show ?thesis
    proof (cases p)
      case False
      have "held_for c (xs @ [(True, now)])" if "c = 0"
        using that unfolding held_for_def by (intro exI [of _ xs]) auto
      moreover have "\<exists>ys zs. xs @ [(True, now)] = ys @ (True, now) # zs \<and> (\<forall>y\<in>set zs. fst y)"
        by (intro exI [of _ xs] exI [of _ "[]"]) simp
      ultimately show ?thesis
        using True False step
        by (auto simp: x update_filtered_assert_def Let_def split: if_splits)
    next
      case p: True
      with IH obtain ys zs where xs: "xs = ys @ (True, ch) # zs" "\<forall>y\<in>set zs. fst y" by auto
      then have ext: "xs @ [(True, now)] = ys @ (True, ch) # (zs @ [(True, now)])"
        "\<forall>y\<in>set (zs @ [(True, now)]). fst y" by auto
      have held: "held_for c (xs @ [(True, now)])" if "c \<le> now - ch"
        unfolding held_for_def using ext that
        by (intro exI [of _ ys] exI [of _ ch] exI [of _ "zs @ [(True, now)]"]) auto
      show ?thesis
      proof (cases "now - ch < c")
        case less: True
        with True p step have "(steady, pending, changed) = (False, True, ch)"
          by (simp add: update_filtered_assert_def Let_def)
        moreover have "\<exists>ys zs. xs @ [(True, now)] = ys @ (True, ch) # zs \<and> (\<forall>y\<in>set zs. fst y)"
          using ext by blast
        ultimately show ?thesis using True by (simp add: x)
      next
        case False
        with True p step have "(steady, pending, changed) = (True, False, ch)"
          by (simp add: update_filtered_assert_def Let_def)
        with held False True show ?thesis by (auto simp: x not_less)
      qed
    qed
  qed
qed simp

lemma debounce_run_holds:
  "\<forall>x\<in>set xs. fst x \<Longrightarrow> st = (True, False, ch) \<or> st = (False, True, t0) \<Longrightarrow>
    \<exists>ch'. debounce_run c xs st = (True, False, ch') \<or> debounce_run c xs st = (False, True, t0)"
proof (induction xs arbitrary: st ch)
  case (Cons x xs)
  obtain now where x: "x = (True, now)" using Cons.prems(1) by (cases x) auto
  let ?st = "if fst st then st else if now - t0 < c then (False, True, t0) else (True, False, t0)"
  have step: "debounce_run c (x # xs) st = debounce_run c xs ?st"
    using Cons.prems(2) by (auto simp: x update_filtered_assert_def Let_def)
  have "?st = (True, False, if fst st then ch else t0) \<or> ?st = (False, True, t0)"
    using Cons.prems(2) by auto
  from Cons.IH [OF _ this] Cons.prems(1) step show ?case by auto
qed auto

lemma debounce_run_complete:
  assumes "\<forall>x\<in>set xs. fst x" and "c \<le> t - t0"
  shows "fst (debounce_run c ((True, t0) # xs @ [(True, t)]) (False, False, u))"
proof -
  have "\<exists>st ch. debounce_run c [(True, t0)] (False, False, u) = st
    \<and> (st = (True, False, ch) \<or> st = (False, True, t0))"
    by (cases "c = 0") (auto simp: update_filtered_assert_def Let_def)
  then obtain st ch where first: "debounce_run c [(True, t0)] (False, False, u) = st"
    "st = (True, False, ch) \<or> st = (False, True, t0)" by blast
  obtain ch' where mid: "debounce_run c xs st = (True, False, ch') \<or> debounce_run c xs st = (False, True, t0)"
    using debounce_run_holds [OF assms(1) first(2)] by blast
  have "debounce_run c ((True, t0) # xs @ [(True, t)]) (False, False, u) =
      debounce_run c [(True, t)] (debounce_run c xs st)"
  proof -
    have eq: "(True, t0) # xs @ [(True, t)] = [(True, t0)] @ xs @ [(True, t)]" by simp
    show ?thesis unfolding eq debounce_run_append first(1) ..
  qed
  with mid assms(2) show ?thesis by (auto simp: update_filtered_assert_def Let_def not_less)
qed

text \<open>Once initialised, the engine filter is the assertion filter of the inverted input.\<close>

definition engine_filter :: "('h, 'p) security_server \<Rightarrow> bool \<times> bool \<times> u32" where
  "engine_filter s = (\<not> ss_engine_running s, ss_stop_pending s, ss_stop_started_ms s)"

lemma engine_filter_is_debounce:
  assumes "ss_engine_initialized s"
  shows "engine_filter (sample_engine env now s) =
    snd (update_filtered_assert (\<not> hw_engine_running (se_hw env) (ss_hardware s))
       (\<not> ss_engine_running s) (ss_stop_pending s) (ss_stop_started_ms s)
       (ss_engine_stop_confirm_ms s) now)"
  using assms
  by (auto simp: engine_filter_def sample_engine_def update_filtered_assert_def Let_def)

fun engine_run :: "('h, 'p, 'w) security_env \<Rightarrow> ('h \<times> u32) list \<Rightarrow> ('h, 'p) security_server
    \<Rightarrow> ('h, 'p) security_server" where
  "engine_run env [] s = s"
| "engine_run env ((h, now) # xs) s = engine_run env xs (sample_inputs env now (s\<lparr>ss_hardware := h\<rparr>))"

definition stopped_samples :: "('h, 'p, 'w) security_env \<Rightarrow> ('h \<times> u32) list \<Rightarrow> (bool \<times> u32) list" where
  "stopped_samples env xs = map (\<lambda>(h, t). (\<not> hw_engine_running (se_hw env) h, t)) xs"

lemma engine_run_debounce:
  "ss_engine_initialized s \<Longrightarrow> engine_filter (engine_run env xs s) =
    debounce_run (ss_engine_stop_confirm_ms s) (stopped_samples env xs) (engine_filter s)"
proof (induction env xs s rule: engine_run.induct)
  case (2 env h now xs s)
  have "engine_filter (sample_inputs env now (s\<lparr>ss_hardware := h\<rparr>)) =
      snd (update_filtered_assert (\<not> hw_engine_running (se_hw env) h) (\<not> ss_engine_running s)
        (ss_stop_pending s) (ss_stop_started_ms s) (ss_engine_stop_confirm_ms s) now)"
    using engine_filter_is_debounce [of "s\<lparr>ss_hardware := h\<rparr>" env now] 2(2)
    by (simp add: engine_filter_def)
  with 2 show ?case
    by (simp add: stopped_samples_def engine_filter_def split: prod.split)
qed (simp add: stopped_samples_def)

section \<open>The control state machine\<close>

definition locked_state :: "('h, 'p, 'w) security_env \<Rightarrow> bool \<Rightarrow> u32 \<Rightarrow> ('h, 'p) security_server
    \<Rightarrow> ('h, 'p) security_server" where
  "locked_state env locked now s =
    (let s1 = sample_inputs env now s in
     if \<not> locked then
       persist_armed env False
         ((set_start_inhibit env False (snd (set_alarm_output env False (s1\<lparr>ss_mode := Mode_Unlocked\<rparr>))))
            \<lparr>ss_alarm_timer_active := False, ss_recovery_requires_stop := False\<rparr>)
     else
       update_start_inhibit env
         ((persist_armed env True ((snd (set_alarm_output env False s1))
             \<lparr>ss_alarm_timer_active := False, ss_recovery_requires_stop := False\<rparr>))
            \<lparr>ss_mode := (if ss_engine_running s1 then Mode_LockPending else Mode_Locked)\<rparr>))"

definition alarmed_state :: "('h, 'p, 'w) security_env \<Rightarrow> u32 \<Rightarrow> ('h, 'p) security_server
    \<Rightarrow> ('h, 'p) security_server" where
  "alarmed_state env now s =
    (if ss_mode s \<noteq> Mode_Locked then s
     else case set_alarm_output env True s of
       (ok, s1) \<Rightarrow> if ok then update_start_inhibit env (s1\<lparr>ss_mode := Mode_Alarm,
                        ss_alarm_started_ms := now, ss_alarm_timer_active := True\<rparr>) else s1)"

definition silenced_state :: "('h, 'p, 'w) security_env \<Rightarrow> ('h, 'p) security_server
    \<Rightarrow> ('h, 'p) security_server" where
  "silenced_state env s =
    (case set_alarm_output env False s of
       (ok, s1) \<Rightarrow> if ok then update_start_inhibit env (s1\<lparr>ss_alarm_timer_active := False,
                        ss_mode := (if ss_mode s = Mode_Alarm then Mode_Locked else ss_mode s)\<rparr>)
                   else s1)"

definition commanded_state :: "('h, 'p, 'w) security_env \<Rightarrow> security_command \<Rightarrow> node_address \<Rightarrow> u32
    \<Rightarrow> ('h, 'p) security_server \<Rightarrow> ('h, 'p) security_server" where
  "commanded_state env command source now s =
    (let s1 = s\<lparr>ss_last_controller := source\<rparr> in
     if command = cmd_Lock then locked_state env True now s1
     else if command = cmd_Unlock then locked_state env False now s1
     else if command = cmd_SilenceAlarm then silenced_state env s1
     else if command = cmd_RequestState then update_start_inhibit env (sample_inputs env now s1)
     else s1)"

definition packet_state :: "('h, 'p, 'w) security_env \<Rightarrow> packet \<Rightarrow> u32 \<Rightarrow> ('h, 'p) security_server
    \<Rightarrow> ('h, 'p) security_server" where
  "packet_state env p now s =
    (if pkt_type p = msg_SecurityCommand \<and> pkt_length p = 1
     then commanded_state env (pkt_payload p ! 0) (pkt_source p) now s else s)"

definition confirmed_state :: "('h, 'p) security_server \<Rightarrow> ('h, 'p) security_server" where
  "confirmed_state s = (if ss_mode s = Mode_LockPending \<and> \<not> ss_engine_running s
     then s\<lparr>ss_mode := Mode_Locked, ss_recovery_requires_stop := False\<rparr> else s)"

definition expired :: "u32 \<Rightarrow> ('h, 'p) security_server \<Rightarrow> bool" where
  "expired now s \<longleftrightarrow> ss_mode s = Mode_Alarm \<and> ss_alarm_timer_active s
     \<and> now - ss_alarm_started_ms s \<ge> ss_alarm_duration_ms s"

definition serviced_state :: "('h, 'p, 'w) security_env \<Rightarrow> u32 \<Rightarrow> ('h, 'p) security_server
    \<Rightarrow> ('h, 'p) security_server" where
  "serviced_state env now s =
    (let s3 = update_start_inhibit env (confirmed_state (sample_inputs env now s));
         s4 = (if expired now s3 then silenced_state env s3 else s3);
         s6 = (if ss_mode s4 = Mode_Locked \<and> ss_trigger s4 \<and> \<not> ss_previous_trigger s4
               then alarmed_state env now s4 else s4)
     in s6\<lparr>ss_previous_warning := ss_warning s6, ss_previous_trigger := ss_trigger s6\<rparr>)"

text \<open>The detailed operations implement it.\<close>

lemma set_locked_state: "fst (snd (set_locked env b now s nd w)) = locked_state env b now s"
  by (auto simp: set_locked_def locked_state_def Let_def persist_armed_def set_alarm_output_def
    split: prod.splits option.splits)

lemma start_alarm_state: "fst (snd (start_alarm env r now s nd w)) = alarmed_state env now s"
  by (auto simp: start_alarm_def alarmed_state_def Let_def split: prod.splits)

lemma stop_alarm_state: "fst (snd (stop_alarm env r now s nd w)) = silenced_state env s"
  by (auto simp: stop_alarm_def silenced_state_def Let_def set_alarm_output_def split: prod.splits)

lemma set_locked_stateD: "set_locked env b now s nd w = (ok, s', nd', w') \<Longrightarrow> s' = locked_state env b now s"
  using set_locked_state [of env b now s nd w] by simp

lemma start_alarm_stateD: "start_alarm env r now s nd w = (ok, s', nd', w') \<Longrightarrow> s' = alarmed_state env now s"
  using start_alarm_state [of env r now s nd w] by simp

lemma stop_alarm_stateD: "stop_alarm env r now s nd w = (ok, s', nd', w') \<Longrightarrow> s' = silenced_state env s"
  using stop_alarm_state [of env r now s nd w] by simp

lemma handle_security_command_state:
  "fst (snd (handle_security_command env c src sq ack now s nd w)) = commanded_state env c src now s"
proof -
  let ?s1 = "s\<lparr>ss_last_controller := src\<rparr>"
  obtain ok s2 nd2 w2 where a: "(if c = cmd_Lock then set_locked env True now ?s1 nd w
            else if c = cmd_Unlock then set_locked env False now ?s1 nd w
            else if c = cmd_SilenceAlarm then stop_alarm env src now ?s1 nd w
            else if c = cmd_RequestState
            then (let s' = update_start_inhibit env (sample_inputs env now ?s1);
                      (k, nd', w') = publish_security_state env src now s' nd w
                  in (k, s', nd', w'))
            else (False, ?s1, nd, w)) = (ok, s2, nd2, w2)" by (metis prod_cases4)
  have s2: "s2 = commanded_state env c src now s"
  proof (cases "c = cmd_RequestState")
    case True
    with a show ?thesis by (auto simp: commanded_state_def Let_def split: prod.splits)
  next
    case False
    with a show ?thesis
      by (simp add: commanded_state_def Let_def split: if_splits)
        (auto dest: set_locked_stateD stop_alarm_stateD)
  qed
  show ?thesis
    unfolding handle_security_command_def Let_def [of ?s1] a prod.case
    by (simp add: Let_def s2 split: prod.split)
qed

lemma security_handle_packet_state:
  "fst (snd (security_handle_packet env p now s nd w)) = packet_state env p now s"
  by (simp add: security_handle_packet_def packet_state_def handle_security_command_state)

lemma service_confirm_state:
  "service_confirm env now s nd w = (s', nd', w') \<Longrightarrow> s' = confirmed_state s"
  by (auto simp: service_confirm_def confirmed_state_def Let_def split: if_splits prod.splits)

lemma service_expire_state:
  "service_expire env now s nd w = (s', nd', w') \<Longrightarrow>
    s' = (if expired now s then silenced_state env s else s)"
  by (auto simp: service_expire_def expired_def Let_def split: if_splits prod.splits
    dest!: stop_alarm_stateD)

lemma service_trigger_state:
  "service_trigger env now s nd w = (s', nd', w') \<Longrightarrow>
    s' = (if ss_mode s = Mode_Locked \<and> ss_trigger s \<and> \<not> ss_previous_trigger s
          then alarmed_state env now s else s)"
  by (auto simp: service_trigger_def Let_def split: if_splits prod.splits dest!: start_alarm_stateD)

lemma security_service_state:
  "fst (security_service env now s nd w) = serviced_state env now s"
  by (auto simp: security_service_def serviced_state_def Let_def split: prod.splits
    dest!: service_confirm_state service_expire_state service_trigger_state)

section \<open>Outputs and mode\<close>

definition alarm_on :: "('h, 'p, 'w) security_env \<Rightarrow> ('h, 'p) security_server \<Rightarrow> bool" where
  "alarm_on env s = hw_alarm_output_active (se_hw env) (ss_hardware s)"

definition inhibit_on :: "('h, 'p, 'w) security_env \<Rightarrow> ('h, 'p) security_server \<Rightarrow> bool" where
  "inhibit_on env s = hw_start_inhibit_active (se_hw env) (ss_hardware s)"

definition armed_mode :: "security_mode \<Rightarrow> bool" where
  "armed_mode m \<longleftrightarrow> m = Mode_Locked \<or> m = Mode_Alarm"

text \<open>
  The safety invariant: start prevention is on only when the motorcycle is locked and its
  filtered engine signal is off; the alarm output is on exactly in alarm mode, and then its timer
  runs.
\<close>

definition security_inv :: "('h, 'p, 'w) security_env \<Rightarrow> ('h, 'p) security_server \<Rightarrow> bool" where
  "security_inv env s \<longleftrightarrow>
     (inhibit_on env s \<longrightarrow> armed_mode (ss_mode s) \<and> ss_engine_initialized s \<and> \<not> ss_engine_running s)
     \<and> (alarm_on env s \<longleftrightarrow> ss_mode s = Mode_Alarm)
     \<and> (ss_alarm_timer_active s \<longleftrightarrow> ss_mode s = Mode_Alarm)
     \<and> (ss_mode s \<noteq> Mode_Unlocked \<longrightarrow> ss_engine_initialized s)
     \<and> (ss_stop_pending s \<longrightarrow> ss_engine_initialized s \<and> ss_engine_running s)"

text \<open>The same without the claim on start prevention, which is re-established last.\<close>

definition security_core :: "('h, 'p, 'w) security_env \<Rightarrow> ('h, 'p) security_server \<Rightarrow> bool" where
  "security_core env s \<longleftrightarrow>
     (alarm_on env s \<longleftrightarrow> ss_mode s = Mode_Alarm)
     \<and> (ss_alarm_timer_active s \<longleftrightarrow> ss_mode s = Mode_Alarm)
     \<and> (ss_mode s \<noteq> Mode_Unlocked \<longrightarrow> ss_engine_initialized s)
     \<and> (ss_stop_pending s \<longrightarrow> ss_engine_initialized s \<and> ss_engine_running s)"

lemma security_inv_core: "security_inv env s \<Longrightarrow> security_core env s"
  by (simp add: security_inv_def security_core_def)

lemma outputs_update [simp]:
  "alarm_on env (s\<lparr>ss_mode := m\<rparr>) = alarm_on env s"
  "alarm_on env (s\<lparr>ss_alarm_timer_active := b\<rparr>) = alarm_on env s"
  "alarm_on env (s\<lparr>ss_alarm_started_ms := t\<rparr>) = alarm_on env s"
  "alarm_on env (s\<lparr>ss_recovery_requires_stop := b\<rparr>) = alarm_on env s"
  "alarm_on env (s\<lparr>ss_last_controller := a\<rparr>) = alarm_on env s"
  "alarm_on env (s\<lparr>ss_previous_warning := b\<rparr>) = alarm_on env s"
  "alarm_on env (s\<lparr>ss_previous_trigger := b\<rparr>) = alarm_on env s"
  "alarm_on env (persist_armed env b s) = alarm_on env s"
  "alarm_on env (sample_inputs env now s) = alarm_on env s"
  "inhibit_on env (s\<lparr>ss_mode := m\<rparr>) = inhibit_on env s"
  "inhibit_on env (s\<lparr>ss_alarm_timer_active := b\<rparr>) = inhibit_on env s"
  "inhibit_on env (s\<lparr>ss_alarm_started_ms := t\<rparr>) = inhibit_on env s"
  "inhibit_on env (s\<lparr>ss_recovery_requires_stop := b\<rparr>) = inhibit_on env s"
  "inhibit_on env (s\<lparr>ss_last_controller := a\<rparr>) = inhibit_on env s"
  "inhibit_on env (s\<lparr>ss_previous_warning := b\<rparr>) = inhibit_on env s"
  "inhibit_on env (s\<lparr>ss_previous_trigger := b\<rparr>) = inhibit_on env s"
  "inhibit_on env (persist_armed env b s) = inhibit_on env s"
  "inhibit_on env (sample_inputs env now s) = inhibit_on env s"
  by (simp_all add: alarm_on_def inhibit_on_def persist_armed_def split: option.split)

lemma persist_armed_sel [simp]:
  "ss_hardware (persist_armed env b s) = ss_hardware s" "ss_mode (persist_armed env b s) = ss_mode s"
  "ss_last_controller (persist_armed env b s) = ss_last_controller s"
  "ss_engine_running (persist_armed env b s) = ss_engine_running s"
  "ss_engine_initialized (persist_armed env b s) = ss_engine_initialized s"
  "ss_stop_pending (persist_armed env b s) = ss_stop_pending s"
  "ss_alarm_timer_active (persist_armed env b s) = ss_alarm_timer_active s"
  by (simp_all add: persist_armed_def split: option.split)

lemma set_start_inhibit_sel [simp]:
  "ss_mode (set_start_inhibit env b s) = ss_mode s"
  "ss_last_controller (set_start_inhibit env b s) = ss_last_controller s"
  "ss_engine_running (set_start_inhibit env b s) = ss_engine_running s"
  "ss_engine_initialized (set_start_inhibit env b s) = ss_engine_initialized s"
  "ss_stop_pending (set_start_inhibit env b s) = ss_stop_pending s"
  "ss_alarm_timer_active (set_start_inhibit env b s) = ss_alarm_timer_active s"
  "ss_persistence (set_start_inhibit env b s) = ss_persistence s"
  "ss_trigger (set_start_inhibit env b s) = ss_trigger s"
  "ss_warning (set_start_inhibit env b s) = ss_warning s"
  "ss_previous_trigger (set_start_inhibit env b s) = ss_previous_trigger s"
  "ss_alarm_started_ms (set_start_inhibit env b s) = ss_alarm_started_ms s"
  "ss_alarm_duration_ms (set_start_inhibit env b s) = ss_alarm_duration_ms s"
  by (simp_all add: set_start_inhibit_def)

lemma update_start_inhibit_sel [simp]:
  "ss_mode (update_start_inhibit env s) = ss_mode s"
  "ss_last_controller (update_start_inhibit env s) = ss_last_controller s"
  "ss_engine_running (update_start_inhibit env s) = ss_engine_running s"
  "ss_engine_initialized (update_start_inhibit env s) = ss_engine_initialized s"
  "ss_stop_pending (update_start_inhibit env s) = ss_stop_pending s"
  "ss_alarm_timer_active (update_start_inhibit env s) = ss_alarm_timer_active s"
  "ss_persistence (update_start_inhibit env s) = ss_persistence s"
  "ss_trigger (update_start_inhibit env s) = ss_trigger s"
  "ss_warning (update_start_inhibit env s) = ss_warning s"
  "ss_previous_trigger (update_start_inhibit env s) = ss_previous_trigger s"
  "ss_alarm_started_ms (update_start_inhibit env s) = ss_alarm_started_ms s"
  "ss_alarm_duration_ms (update_start_inhibit env s) = ss_alarm_duration_ms s"
  by (simp_all add: update_start_inhibit_def)

lemma set_alarm_output_sel [simp]:
  "ss_mode (snd (set_alarm_output env b s)) = ss_mode s"
  "ss_last_controller (snd (set_alarm_output env b s)) = ss_last_controller s"
  "ss_engine_running (snd (set_alarm_output env b s)) = ss_engine_running s"
  "ss_engine_initialized (snd (set_alarm_output env b s)) = ss_engine_initialized s"
  "ss_stop_pending (snd (set_alarm_output env b s)) = ss_stop_pending s"
  "ss_alarm_timer_active (snd (set_alarm_output env b s)) = ss_alarm_timer_active s"
  "ss_persistence (snd (set_alarm_output env b s)) = ss_persistence s"
  "ss_trigger (snd (set_alarm_output env b s)) = ss_trigger s"
  "ss_warning (snd (set_alarm_output env b s)) = ss_warning s"
  "ss_previous_trigger (snd (set_alarm_output env b s)) = ss_previous_trigger s"
  "ss_alarm_started_ms (snd (set_alarm_output env b s)) = ss_alarm_started_ms s"
  "ss_alarm_duration_ms (snd (set_alarm_output env b s)) = ss_alarm_duration_ms s"
  by (simp_all add: set_alarm_output_def split: prod.split)

text \<open>A server on hardware that satisfies its contract.\<close>

locale security_plant = security_hardware "se_hw env" for env :: "('h, 'p, 'w) security_env"
begin

lemma set_alarm_outputs [simp]:
  "inhibit_on env (snd (set_alarm_output env b s)) = inhibit_on env s"
  "\<not> alarm_on env (snd (set_alarm_output env False s))"
  "fst (set_alarm_output env False s)"
  using release_alarm [of "ss_hardware s"] alarm_release [of "ss_hardware s"]
    other_output(1) [of b "ss_hardware s"]
  by (auto simp: inhibit_on_def alarm_on_def set_alarm_output_def simp del: other_output
    split: prod.split)

lemma set_alarm_true:
  "set_alarm_output env True s = (ok, s') \<Longrightarrow> alarm_on env s' = (if ok then True else alarm_on env s)"
  using alarm_set [of True "ss_hardware s"] alarm_refused [of True "ss_hardware s"]
  by (cases ok) (auto simp: alarm_on_def set_alarm_output_def split: prod.splits)

lemma set_inhibit_outputs [simp]:
  "alarm_on env (set_start_inhibit env b s) = alarm_on env s"
  "\<not> inhibit_on env (set_start_inhibit env False s)"
  "inhibit_on env (set_start_inhibit env b s) \<Longrightarrow> b"
  using release_inhibit [of "ss_hardware s"] other_output(2) [of b "ss_hardware s"]
    inhibit_only_if_asked [of b "ss_hardware s"]
  by (auto simp: inhibit_on_def alarm_on_def set_start_inhibit_def)

lemma update_start_inhibit_outputs [simp]:
  "alarm_on env (update_start_inhibit env s) = alarm_on env s"
  "inhibit_on env (update_start_inhibit env s) \<Longrightarrow> armed_mode (ss_mode s) \<and> \<not> engine_view env s"
  using set_inhibit_outputs(3) [of "(ss_mode s = Mode_Locked \<or> ss_mode s = Mode_Alarm) \<and> \<not> engine_view env s" s]
  by (auto simp: update_start_inhibit_def armed_mode_def)

lemma update_start_inhibit_inv:
  "security_core env s \<Longrightarrow> security_inv env (update_start_inhibit env s)"
  using update_start_inhibit_outputs(2) [of s]
  by (auto simp: security_core_def security_inv_def engine_view_def armed_mode_def split: if_splits)

lemma sample_core: "security_core env s \<Longrightarrow> security_core env (sample_inputs env now s)"
  by (auto simp: security_core_def) (auto simp: sample_engine_def Let_def split: if_splits)

lemma confirmed_core: "security_core env s \<Longrightarrow> security_core env (confirmed_state s)"
  by (auto simp: security_core_def confirmed_state_def)

lemma locked_inv:
  assumes "security_core env s"
  shows "security_inv env (locked_state env b now s)"
proof -
  have c: "security_core env (sample_inputs env now s)" by (rule sample_core [OF assms])
  show ?thesis
  proof (cases b)
    case True
    show ?thesis
      unfolding locked_state_def Let_def if_not_P [OF not_not [THEN iffD2, OF True]]
      by (rule update_start_inhibit_inv)
        (use c in \<open>auto simp: security_core_def\<close>)
  next
    case False
    with c show ?thesis
      by (auto simp: locked_state_def Let_def security_core_def security_inv_def)
  qed
qed

lemma silenced_inv:
  assumes "security_core env s"
  shows "security_inv env (silenced_state env s)"
proof -
  obtain s1 where s1: "set_alarm_output env False s = (True, s1)"
    using set_alarm_outputs(3) [of s] by (metis prod.collapse)
  have "\<not> alarm_on env s1" using set_alarm_outputs(2) [of s] s1 by simp
  with assms s1 set_alarm_output_sel [of env False s] show ?thesis
    unfolding silenced_state_def s1 prod.case if_True
    by (intro update_start_inhibit_inv) (auto simp: security_core_def)
qed

lemma alarmed_inv:
  assumes "security_inv env s"
  shows "security_inv env (alarmed_state env now s)"
proof (cases "ss_mode s = Mode_Locked")
  case True
  obtain ok s1 where s1: "set_alarm_output env True s = (ok, s1)" by fastforce
  show ?thesis
  proof (cases ok)
    case True
    have "security_core env (s1\<lparr>ss_mode := Mode_Alarm, ss_alarm_started_ms := now,
        ss_alarm_timer_active := True\<rparr>)"
      using assms set_alarm_true [OF s1] set_alarm_output_sel [of env True s] s1 True
        \<open>ss_mode s = _\<close>
      by (auto simp: security_core_def security_inv_def)
    with \<open>ss_mode s = _\<close> s1 True show ?thesis
      by (simp add: alarmed_state_def update_start_inhibit_inv)
  next
    case False
    have "inhibit_on env s1 = inhibit_on env s" using set_alarm_outputs(1) [of True s] s1 by simp
    with assms set_alarm_true [OF s1] set_alarm_output_sel [of env True s] s1 False
      \<open>ss_mode s = _\<close> show ?thesis
      by (simp add: alarmed_state_def security_inv_def)
  qed
qed (use assms in \<open>simp add: alarmed_state_def\<close>)

lemma packet_inv:
  assumes "security_inv env s"
  shows "security_inv env (packet_state env p now s)"
proof -
  have "security_core env (s\<lparr>ss_last_controller := a\<rparr>)" "security_inv env (s\<lparr>ss_last_controller := a\<rparr>)"
    for a using assms by (simp_all add: security_core_def security_inv_def)
  with assms show ?thesis
    by (simp add: packet_state_def commanded_state_def Let_def locked_inv silenced_inv
      update_start_inhibit_inv sample_core)
qed

lemma service_inv:
  assumes "security_inv env s"
  shows "security_inv env (serviced_state env now s)"
proof -
  let ?s3 = "update_start_inhibit env (confirmed_state (sample_inputs env now s))"
  have 3: "security_inv env ?s3"
    by (intro update_start_inhibit_inv confirmed_core sample_core security_inv_core assms)
  let ?s4 = "if expired now ?s3 then silenced_state env ?s3 else ?s3"
  have 4: "security_inv env ?s4" using 3 silenced_inv [OF security_inv_core [OF 3]] by simp
  have "security_inv env (if ss_mode ?s4 = Mode_Locked \<and> ss_trigger ?s4 \<and> \<not> ss_previous_trigger ?s4
               then alarmed_state env now ?s4 else ?s4)"
    using 4 alarmed_inv [OF 4] by presburger
  then show ?thesis
    unfolding serviced_state_def Let_def by (simp add: security_inv_def)
qed

lemma restore_inv:
  assumes "ss_stop_pending s \<longrightarrow> ss_engine_initialized s \<and> ss_engine_running s"
  shows "security_inv env (snd (restore_persisted_state env now s))"
    and "\<not> inhibit_on env (snd (restore_persisted_state env now s))"
    and "\<not> alarm_on env (snd (restore_persisted_state env now s))"
proof -
  let ?s = "(set_start_inhibit env False (snd (set_alarm_output env False s)))\<lparr>ss_alarm_timer_active := False\<rparr>"
  have off: "\<not> inhibit_on env ?s" "\<not> alarm_on env ?s" by simp_all
  then have off': "\<not> hw_start_inhibit_active (se_hw env) (ss_hardware ?s)"
    "\<not> hw_alarm_output_active (se_hw env) (ss_hardware ?s)"
    unfolding inhibit_on_def alarm_on_def .
  have "security_inv env (snd (restore_persisted_state env now s))
    \<and> \<not> inhibit_on env (snd (restore_persisted_state env now s))
    \<and> \<not> alarm_on env (snd (restore_persisted_state env now s))"
    using assms off' unfolding restore_persisted_state_def Let_def
    by (auto simp: security_inv_def inhibit_on_def alarm_on_def split: option.splits prod.splits)
  then show "security_inv env (snd (restore_persisted_state env now s))"
    and "\<not> inhibit_on env (snd (restore_persisted_state env now s))"
    and "\<not> alarm_on env (snd (restore_persisted_state env now s))" by simp_all
qed

lemma silenced_sel [simp]:
  "ss_mode (silenced_state env s) = (if ss_mode s = Mode_Alarm then Mode_Locked else ss_mode s)"
  "ss_alarm_timer_active (silenced_state env s) = False"
  "\<not> alarm_on env (silenced_state env s)"
  "ss_trigger (silenced_state env s) = ss_trigger s"
  "ss_warning (silenced_state env s) = ss_warning s"
  "ss_previous_trigger (silenced_state env s) = ss_previous_trigger s"
  "ss_engine_running (silenced_state env s) = ss_engine_running s"
  "ss_engine_initialized (silenced_state env s) = ss_engine_initialized s"
proof -
  obtain s1 where s1: "set_alarm_output env False s = (True, s1)"
    using set_alarm_outputs(3) [of s] by (metis prod.collapse)
  have off: "\<not> alarm_on env s1" using set_alarm_outputs(2) [of s] s1 by simp
  have sel: "ss_trigger s1 = ss_trigger s" "ss_warning s1 = ss_warning s"
    "ss_previous_trigger s1 = ss_previous_trigger s" "ss_engine_running s1 = ss_engine_running s"
    "ss_engine_initialized s1 = ss_engine_initialized s"
    using set_alarm_output_sel [of env False s] s1 by simp_all
  show "ss_mode (silenced_state env s) = (if ss_mode s = Mode_Alarm then Mode_Locked else ss_mode s)"
    "ss_alarm_timer_active (silenced_state env s) = False"
    "\<not> alarm_on env (silenced_state env s)"
    "ss_trigger (silenced_state env s) = ss_trigger s"
    "ss_warning (silenced_state env s) = ss_warning s"
    "ss_previous_trigger (silenced_state env s) = ss_previous_trigger s"
    "ss_engine_running (silenced_state env s) = ss_engine_running s"
    "ss_engine_initialized (silenced_state env s) = ss_engine_initialized s"
    using off sel by (simp_all add: silenced_state_def s1)
qed

lemma silenced_inhibit:
  "inhibit_on env (silenced_state env s) \<Longrightarrow> \<not> engine_view env (silenced_state env s)"
  if "ss_engine_initialized s"
proof -
  assume on: "inhibit_on env (silenced_state env s)"
  obtain s1 where s1: "set_alarm_output env False s = (True, s1)"
    using set_alarm_outputs(3) [of s] by (metis prod.collapse)
  have sel: "ss_engine_running s1 = ss_engine_running s" "ss_engine_initialized s1 = ss_engine_initialized s"
    using set_alarm_output_sel [of env False s] s1 by simp_all
  let ?t = "s1\<lparr>ss_alarm_timer_active := False,
      ss_mode := (if ss_mode s = Mode_Alarm then Mode_Locked else ss_mode s)\<rparr>"
  have "silenced_state env s = update_start_inhibit env ?t" by (simp add: silenced_state_def s1)
  with on update_start_inhibit_outputs(2) [of ?t] sel that show ?thesis by (simp add: engine_view_def)
qed

lemma alarmed_keeps:
  "ss_engine_running (alarmed_state env now s) = ss_engine_running s"
  "ss_trigger (alarmed_state env now s) = ss_trigger s"
  "ss_warning (alarmed_state env now s) = ss_warning s"
  by (auto simp: alarmed_state_def set_alarm_output_def split: prod.splits)

text \<open>An engine seen running at a service releases start prevention in that service.\<close>

lemma service_engine:
  assumes "security_inv env s" and "hw_engine_running (se_hw env) (ss_hardware s)"
  shows "\<not> inhibit_on env (serviced_state env now s) \<and> ss_engine_running (serviced_state env now s)"
proof -
  let ?s1 = "sample_inputs env now s"
  let ?s3 = "update_start_inhibit env (confirmed_state ?s1)"
  have run: "ss_engine_running ?s1"
    using assms(2) by (simp add: sample_engine_def Let_def)
  then have c: "confirmed_state ?s1 = ?s1" by (simp add: confirmed_state_def)
  have inv: "security_inv env (serviced_state env now s)" by (rule service_inv [OF assms(1)])
  have "ss_engine_running (serviced_state env now s)"
    using run unfolding serviced_state_def Let_def c by (simp add: alarmed_keeps)
  with inv show ?thesis by (simp add: security_inv_def)
qed

text \<open>When the alarm's time is up, the service that notices it ends the alarm, unless it also
  sees a new trigger; a trigger that stays asserted starts no second alarm.\<close>

lemma service_alarm_over:
  assumes "security_inv env s" and "ss_mode s = Mode_Alarm"
    and "now - ss_alarm_started_ms s \<ge> ss_alarm_duration_ms s"
    and "ss_previous_trigger s \<or> \<not> ss_trigger (sample_inputs env now s)"
  shows "ss_mode (serviced_state env now s) = Mode_Locked \<and> \<not> alarm_on env (serviced_state env now s)
    \<and> \<not> ss_alarm_timer_active (serviced_state env now s)"
proof -
  let ?s1 = "sample_inputs env now s"
  let ?s3 = "update_start_inhibit env (confirmed_state ?s1)"
  have timer: "ss_alarm_timer_active s" using assms(1,2) by (simp add: security_inv_def)
  have c: "confirmed_state ?s1 = ?s1" using assms(2) by (simp add: confirmed_state_def)
  have e: "expired now ?s3" using assms(2,3) timer by (simp add: expired_def c)
  have t: "\<not> (ss_trigger (silenced_state env ?s3) \<and> \<not> ss_previous_trigger (silenced_state env ?s3))"
    using assms(4) by (auto simp: c)
  have inv: "security_inv env (serviced_state env now s)" by (rule service_inv [OF assms(1)])
  have "ss_mode (serviced_state env now s) = Mode_Locked"
    unfolding serviced_state_def Let_def using e t assms(2) by (auto simp: c)
  with inv show ?thesis by (simp add: security_inv_def)
qed

lemma service_alarm_starts:
  assumes "security_inv env s" and "ss_mode s \<noteq> Mode_Alarm"
    and "ss_mode (serviced_state env now s) = Mode_Alarm"
  shows "armed_mode (ss_mode (confirmed_state (sample_inputs env now s)))
    \<and> ss_trigger (sample_inputs env now s) \<and> \<not> ss_previous_trigger s
    \<and> hw_shock_trigger_active (se_hw env) (ss_hardware s)
    \<and> ss_alarm_started_ms (serviced_state env now s) = now"
proof -
  let ?s1 = "sample_inputs env now s"
  let ?s3 = "update_start_inhibit env (confirmed_state ?s1)"
  have m3: "ss_mode ?s3 \<noteq> Mode_Alarm" using assms(2) by (simp add: confirmed_state_def)
  then have e: "\<not> expired now ?s3" by (simp add: expired_def)
  have s4: "serviced_state env now s = (let s6 = (if ss_mode ?s3 = Mode_Locked \<and> ss_trigger ?s3
      \<and> \<not> ss_previous_trigger ?s3 then alarmed_state env now ?s3 else ?s3)
      in s6\<lparr>ss_previous_warning := ss_warning s6, ss_previous_trigger := ss_trigger s6\<rparr>)"
    using e by (simp add: serviced_state_def Let_def)
  have g: "ss_mode ?s3 = Mode_Locked \<and> ss_trigger ?s3 \<and> \<not> ss_previous_trigger ?s3"
    using assms(3) m3 unfolding s4 Let_def by (auto split: if_splits)
  have tp: "ss_trigger (confirmed_state ?s1) = ss_trigger ?s1"
    "ss_previous_trigger (confirmed_state ?s1) = ss_previous_trigger s"
    by (simp_all add: confirmed_state_def)
  have raw: "ss_trigger ?s1 \<Longrightarrow> hw_shock_trigger_active (se_hw env) (ss_hardware s)"
    by (auto simp: sample_inputs_def update_filtered_assert_def Let_def split: prod.splits if_splits)
  have "ss_alarm_started_ms (alarmed_state env now ?s3) = now"
    using assms(3) g m3 unfolding s4 Let_def
    by (auto simp: alarmed_state_def set_alarm_output_def split: prod.splits if_splits)
  with g tp raw show ?thesis
    unfolding s4 Let_def by (simp add: armed_mode_def)
qed

end

end
