(* ===== verification/SecurityController.thy ===== *)
theory SecurityController
  imports SecurityLogic Gpio
begin

text \<open>
  The security controller (\<open>library/src/security_controller.cpp\<close>) on the board of its firmware
  (\<open>esp32/security\<close>): the GPIO hardware and the persistence in flash as providers of the server's
  interfaces, the service loop, and the properties of the whole controller over every run.
\<close>

section \<open>The board\<close>

definition kShockWarningPin :: nat where [simp]: "kShockWarningPin = 25"
definition kShockTriggerPin :: nat where [simp]: "kShockTriggerPin = 26"
definition kEngineRunningPin :: nat where [simp]: "kEngineRunningPin = 27"
definition kAlarmOutputPin :: nat where [simp]: "kAlarmOutputPin = 32"
definition kStartInhibitPin :: nat where [simp]: "kStartInhibitPin = 33"

record 'g gpio_security =
  gs_pins :: 'g
  gs_alarm :: bool
  gs_inhibit :: bool

definition gpio_security_begin :: "'g gpio_ops \<Rightarrow> 'g gpio_security \<Rightarrow> 'g gpio_security" where
  "gpio_security_begin gp g =
    (let p1 = gp_digital_write gp kAlarmOutputPin False (gs_pins g);
         p2 = gp_digital_write gp kStartInhibitPin False p1;
         p3 = gp_pin_mode gp kAlarmOutputPin OUTPUT p2;
         p4 = gp_pin_mode gp kStartInhibitPin OUTPUT p3;
         p5 = gp_digital_write gp kAlarmOutputPin False p4;
         p6 = gp_digital_write gp kStartInhibitPin False p5;
         p7 = gp_pin_mode gp kShockWarningPin INPUT_PULLDOWN p6;
         p8 = gp_pin_mode gp kShockTriggerPin INPUT_PULLDOWN p7
     in g\<lparr>gs_pins := gp_pin_mode gp kEngineRunningPin INPUT_PULLDOWN p8\<rparr>)"

definition gpio_set_alarm_output :: "'g gpio_ops \<Rightarrow> bool \<Rightarrow> 'g gpio_security \<Rightarrow> bool \<times> 'g gpio_security" where
  "gpio_set_alarm_output gp b g =
    (True, g\<lparr>gs_pins := gp_digital_write gp kAlarmOutputPin b (gs_pins g), gs_alarm := b\<rparr>)"

definition gpio_set_start_inhibit :: "'g gpio_ops \<Rightarrow> bool \<Rightarrow> 'g gpio_security \<Rightarrow> bool \<times> 'g gpio_security" where
  "gpio_set_start_inhibit gp b g =
    (True, g\<lparr>gs_pins := gp_digital_write gp kStartInhibitPin b (gs_pins g), gs_inhibit := b\<rparr>)"

definition gpio_security_hw :: "'g gpio_ops \<Rightarrow> 'g gpio_security security_hw_ops" where
  "gpio_security_hw gp = \<lparr>
     hw_set_alarm_output = gpio_set_alarm_output gp,
     hw_set_start_inhibit = gpio_set_start_inhibit gp,
     hw_shock_warning_active = (\<lambda>g. gp_digital_read gp kShockWarningPin (gs_pins g)),
     hw_shock_trigger_active = (\<lambda>g. gp_digital_read gp kShockTriggerPin (gs_pins g)),
     hw_engine_running = (\<lambda>g. gp_digital_read gp kEngineRunningPin (gs_pins g)),
     hw_alarm_output_active = gs_alarm, hw_start_inhibit_active = gs_inhibit\<rparr>"

lemma gpio_security_hw_sel [simp]:
  "hw_alarm_output_active (gpio_security_hw gp) = gs_alarm"
  "hw_start_inhibit_active (gpio_security_hw gp) = gs_inhibit"
  "hw_engine_running (gpio_security_hw gp) g = gp_digital_read gp kEngineRunningPin (gs_pins g)"
  "hw_shock_trigger_active (gpio_security_hw gp) g = gp_digital_read gp kShockTriggerPin (gs_pins g)"
  by (simp_all add: gpio_security_hw_def)

record 'f flash_persistence =
  pp_preferences :: 'f
  pp_opened :: bool

definition pref_begin :: "'f preferences_ops \<Rightarrow> 'f flash_persistence \<Rightarrow> bool \<times> 'f flash_persistence" where
  "pref_begin pf p =
    (case pf_begin pf ''bike-security'' False (pp_preferences p) of
       (ok, f) \<Rightarrow> (ok, \<lparr>pp_preferences = f, pp_opened = ok\<rparr>))"

definition pref_load_armed :: "'f preferences_ops \<Rightarrow> bool \<Rightarrow> 'f flash_persistence
    \<Rightarrow> bool \<times> bool \<times> 'f flash_persistence" where
  "pref_load_armed pf armed p =
    (if \<not> pp_opened p then (False, armed, p)
     else (True, pf_get_bool pf ''armed'' False (pp_preferences p), p))"

definition pref_save_armed :: "'f preferences_ops \<Rightarrow> bool \<Rightarrow> 'f flash_persistence
    \<Rightarrow> bool \<times> 'f flash_persistence" where
  "pref_save_armed pf armed p =
    (if \<not> pp_opened p then (False, p)
     else case pf_put_bool pf ''armed'' armed (pp_preferences p) of
       (n, f) \<Rightarrow> (n = 1, p\<lparr>pp_preferences := f\<rparr>))"

definition preferences_store :: "'f preferences_ops \<Rightarrow> 'f flash_persistence security_store_ops" where
  "preferences_store pf = \<lparr>st_load_armed = pref_load_armed pf, st_save_armed = pref_save_armed pf\<rparr>"

lemma preferences_store_sel [simp]:
  "st_load_armed (preferences_store pf) = pref_load_armed pf"
  "st_save_armed (preferences_store pf) = pref_save_armed pf"
  by (simp_all add: preferences_store_def)

text \<open>Flash that reads back what was written gives a persistence that does.\<close>

sublocale preferences \<subseteq> store: security_persistence "preferences_store pf"
proof unfold_locales
  fix b a p p'
  show "snd (snd (st_load_armed (preferences_store pf) a p)) = p"
    by (simp add: pref_load_armed_def)
  assume "st_save_armed (preferences_store pf) b p = (True, p')"
  then show "fst (st_load_armed (preferences_store pf) a p') \<and>
      fst (snd (st_load_armed (preferences_store pf) a p')) = b"
    using put_get [of "''armed''" b "pp_preferences p"]
    by (auto simp: pref_save_armed_def pref_load_armed_def split: if_splits prod.splits)
qed

definition security_board :: "'g gpio_ops \<Rightarrow> 'f preferences_ops \<Rightarrow> 'w transport_ops
    \<Rightarrow> ('g gpio_security, 'f flash_persistence, 'w) security_env" where
  "security_board gp pf net = \<lparr>se_hw = gpio_security_hw gp, se_store = Some (preferences_store pf),
     se_net = net\<rparr>"

lemma security_board_sel [simp]:
  "se_hw (security_board gp pf net) = gpio_security_hw gp"
  "se_store (security_board gp pf net) = Some (preferences_store pf)"
  "se_net (security_board gp pf net) = net"
  by (simp_all add: security_board_def)

interpretation board_hw: security_hardware "gpio_security_hw gp" for gp
  by unfold_locales
    (auto simp: gpio_security_hw_def gpio_set_alarm_output_def gpio_set_start_inhibit_def)

interpretation board: security_plant "security_board gp pf net" for gp pf net
  by (intro security_plant.intro) (simp add: board_hw.security_hardware_axioms)

section \<open>The controller\<close>

definition security_identity :: device_identity where
  "security_identity = default_identity\<lparr>di_device_class := DeviceClass_SecurityController,
     di_firmware_major := 0, di_firmware_minor := 1, di_firmware_patch := 0,
     di_hardware_revision := 1, di_capabilities := CapabilityDiagnostics OR CapabilitySecurity OR
       CapabilityPersistentState OR CapabilityAlarm OR CapabilityStartInhibit\<rparr>"

definition security_device_info_packet :: "node_address \<Rightarrow> u32 \<Rightarrow> packet" where
  "security_device_info_packet destination now =
    encode_device_info_payload addr_Security security_identity now
      (default_packet\<lparr>pkt_destination := destination, pkt_type := msg_DeviceInfo,
         pkt_flags := FlagResponse\<rparr>)"

definition security_send_device_info :: "('h, 'p, 'w) security_env \<Rightarrow> node_address \<Rightarrow> u32
    \<Rightarrow> bike_node \<Rightarrow> 'w \<Rightarrow> bool \<times> bike_node \<times> 'w" where
  "security_send_device_info env destination now nd w =
    node_send (se_net env) nd (security_device_info_packet destination now) now False w"

definition heartbeat_packet :: "node_address \<Rightarrow> packet" where
  "heartbeat_packet destination = default_packet\<lparr>pkt_destination := destination,
     pkt_type := msg_Heartbeat, pkt_flags := FlagResponse, pkt_length := 0\<rparr>"

definition security_send_heartbeat :: "('h, 'p, 'w) security_env \<Rightarrow> node_address \<Rightarrow> u32
    \<Rightarrow> bike_node \<Rightarrow> 'w \<Rightarrow> bool \<times> bike_node \<times> 'w" where
  "security_send_heartbeat env destination now nd w =
    node_send (se_net env) nd (heartbeat_packet destination) now False w"

definition security_handle_system :: "('h, 'p, 'w) security_env \<Rightarrow> packet \<Rightarrow> u32 \<Rightarrow> ('h, 'p) security_server
    \<Rightarrow> bike_node \<Rightarrow> 'w \<Rightarrow> bool \<times> bike_node \<times> 'w" where
  "security_handle_system env p now s nd w =
    (if pkt_type p = msg_DeviceDiscovery then security_send_device_info env (pkt_source p) now nd w
     else if pkt_type p = msg_Heartbeat then security_send_heartbeat env (pkt_source p) now nd w
     else if pkt_type p = msg_GetState then publish_security_state env (pkt_source p) now s nd w
     else (False, nd, w))"

definition security_body :: "('h, 'p, 'w) security_env \<Rightarrow> u32 \<Rightarrow> packet \<Rightarrow> ('h, 'p) security_server
    \<Rightarrow> bike_node \<Rightarrow> 'w \<Rightarrow> ('h, 'p) security_server \<times> bike_node \<times> 'w" where
  "security_body env now p s nd w =
    (case security_handle_system env p now s nd w of
       (handled, nd1, w1) \<Rightarrow>
         if handled then (s, nd1, w1) else snd (security_handle_packet env p now s nd1 w1))"

definition security_controller_service :: "('h, 'p, 'w) security_env \<Rightarrow> u32 \<Rightarrow> ('h, 'p) security_server
    \<Rightarrow> bike_node \<Rightarrow> 'w \<Rightarrow> (('h, 'p) security_server \<times> bike_node \<times> 'w) option" where
  "security_controller_service env now s nd w =
    (case node_drain (se_net env) now (security_body env now) s nd w of
       None \<Rightarrow> None
     | Some (s1, nd1, w1) \<Rightarrow>
         (case security_service env now s1 nd1 w1 of
            (s2, nd2, w2) \<Rightarrow>
              (case node_service (se_net env) nd2 now w2 of (nd3, w3) \<Rightarrow> Some (s2, nd3, w3))))"

text \<open>\<open>setup()\<close> of the firmware: the node, the board and the flash as constructed, the controller's
  constructor switching automatic acknowledgements off.\<close>

definition security_setup :: "'g gpio_ops \<Rightarrow> 'f preferences_ops \<Rightarrow> 'w transport_ops \<Rightarrow> 'g \<Rightarrow> 'f \<Rightarrow> nat \<Rightarrow> u32
    \<Rightarrow> ('g gpio_security, 'f flash_persistence) security_server \<times> bike_node" where
  "security_setup gp pf net pins flash transport now =
    (let hardware = gpio_security_begin gp \<lparr>gs_pins = pins, gs_alarm = False, gs_inhibit = False\<rparr>;
         persistence = snd (pref_begin pf \<lparr>pp_preferences = flash, pp_opened = False\<rparr>);
         server = snd (restore_persisted_state (security_board gp pf net) now
                    (security_server_init hardware persistence));
         node = node_set_auto_ack False (node_init addr_Security transport)
     in (server, node_set_max_retries 3 (node_set_ack_timeout_ms 250 node)))"

section \<open>Every handler only talks\<close>

lemma wf_security_packets [simp]:
  "wf_packet (security_event_packet e d)" "wf_packet (security_state_packet sn d)"
  "wf_packet (security_device_info_packet d now)" "wf_packet (heartbeat_packet d)"
  "calm (security_event_packet e d)" "calm (security_state_packet sn d)"
  "calm (security_device_info_packet d now)" "calm (heartbeat_packet d)"
  by (simp_all add: security_event_packet_def security_state_packet_def
    security_device_info_packet_def heartbeat_packet_def Let_def)

lemma publish_event_talk:
  "publish_event env e d now nd w = (ok, nd', w') \<Longrightarrow> node_talk (se_net env) (nd, w) (nd', w')"
  by (rule talk_send1 [OF wf_security_packets(1)]) (simp_all add: publish_event_def)

lemma publish_state_talk:
  "publish_security_state env d now s nd w = (ok, nd', w') \<Longrightarrow> node_talk (se_net env) (nd, w) (nd', w')"
  by (rule talk_send1 [OF wf_security_packets(2)]) (simp_all add: publish_security_state_def)

lemmas publish_talk = publish_event_talk publish_state_talk

lemma set_locked_talk:
  "set_locked env b now s nd w = (ok, s', nd', w') \<Longrightarrow> node_talk (se_net env) (nd, w) (nd', w')"
  by (auto simp: set_locked_def Let_def split: if_splits prod.splits dest: publish_talk)

lemma start_alarm_talk:
  "start_alarm env r now s nd w = (ok, s', nd', w') \<Longrightarrow> node_talk (se_net env) (nd, w) (nd', w')"
  by (auto simp: start_alarm_def Let_def talk_refl split: if_splits prod.splits dest: publish_talk)

lemma stop_alarm_talk:
  "stop_alarm env r now s nd w = (ok, s', nd', w') \<Longrightarrow> node_talk (se_net env) (nd, w) (nd', w')"
  by (auto simp: stop_alarm_def Let_def talk_refl split: if_splits prod.splits dest: publish_talk)

lemma handle_command_talk:
  assumes "handle_security_command env c src sq ack now s nd w = (ok, s', nd', w')"
  shows "node_talk (se_net env) (nd, w) (nd', w')"
proof -
  let ?s1 = "s\<lparr>ss_last_controller := src\<rparr>"
  obtain k s2 nd2 w2 where a: "(if c = cmd_Lock then set_locked env True now ?s1 nd w
            else if c = cmd_Unlock then set_locked env False now ?s1 nd w
            else if c = cmd_SilenceAlarm then stop_alarm env src now ?s1 nd w
            else if c = cmd_RequestState
            then (let s' = update_start_inhibit env (sample_inputs env now ?s1);
                      (k, nd', w') = publish_security_state env src now s' nd w
                  in (k, s', nd', w'))
            else (False, ?s1, nd, w)) = (k, s2, nd2, w2)" by (metis prod_cases4)
  have 1: "node_talk (se_net env) (nd, w) (nd2, w2)"
  proof (cases "c = cmd_RequestState")
    case True
    with a show ?thesis by (auto simp: Let_def split: prod.splits dest: publish_talk)
  next
    case False
    with a show ?thesis
      by (simp split: if_splits) (auto intro: talk_refl dest: set_locked_talk stop_alarm_talk)
  qed
  let ?w3 = "if ack then snd (node_send_ack (se_net env) nd2 src sq (\<not> k) w2) else w2"
  have 2: "node_talk (se_net env) (nd2, w2) (nd2, ?w3)"
    using talk_ack1 [of "se_net env" nd2 w2 src sq "\<not> k"] by (simp add: talk_refl)
  have 3: "node_talk (se_net env) (nd2, ?w3) (nd', w')"
    using assms unfolding handle_security_command_def Let_def [of ?s1] a prod.case
    by (cases "publish_security_state env src now s2 nd2 ?w3")
      (auto simp: Let_def talk_refl dest: publish_talk split: if_splits)
  show ?thesis by (rule talk_trans [OF 3 talk_trans [OF 2 1]])
qed

lemma handle_packet_talk:
  "security_handle_packet env p now s nd w = (ok, s', nd', w') \<Longrightarrow> node_talk (se_net env) (nd, w) (nd', w')"
  using talk_ack1 [of "se_net env" nd w "pkt_source p" "pkt_sequence p" True]
  by (auto simp: security_handle_packet_def talk_refl split: if_splits dest: handle_command_talk)

lemma security_body_talk:
  assumes "security_body env now p s nd w = (s', nd', w')"
  shows "node_talk (se_net env) (nd, w) (nd', w')"
proof -
  obtain h nd1 w1 where h: "security_handle_system env p now s nd w = (h, nd1, w1)" by (metis prod_cases3)
  have 1: "node_talk (se_net env) (nd, w) (nd1, w1)"
    using h by (auto simp: security_handle_system_def security_send_device_info_def talk_refl
      security_send_heartbeat_def split: if_splits dest: publish_talk
      talk_send1 [OF wf_security_packets(3) _ wf_security_packets(7)] talk_send1 [OF wf_security_packets(4) _ wf_security_packets(8)])
  show ?thesis
  proof (cases h)
    case False
    obtain ok where "security_handle_packet env p now s nd1 w1 = (ok, s', nd', w')"
      using assms h False by (cases "security_handle_packet env p now s nd1 w1")
        (simp add: security_body_def)
    from talk_trans [OF handle_packet_talk [OF this] 1] show ?thesis .
  qed (use assms h 1 in \<open>simp add: security_body_def\<close>)
qed

lemma security_body_state:
  assumes "security_body env now p s nd w = (s', nd', w')"
  shows "s' = s \<or> s' = packet_state env p now s"
proof -
  obtain h nd1 w1 where h: "security_handle_system env p now s nd w = (h, nd1, w1)" by (metis prod_cases3)
  with assms security_handle_packet_state [of env p now s nd1 w1] show ?thesis
    by (auto simp: security_body_def split: if_splits)
qed

lemma service_confirm_talk:
  "service_confirm env now s nd w = (s', nd', w') \<Longrightarrow> node_talk (se_net env) (nd, w) (nd', w')"
  by (auto simp: service_confirm_def Let_def talk_refl split: if_splits prod.splits
    dest!: publish_talk intro: talk_trans)

lemma service_expire_talk:
  "service_expire env now s nd w = (s', nd', w') \<Longrightarrow> node_talk (se_net env) (nd, w) (nd', w')"
  by (auto simp: service_expire_def Let_def talk_refl split: if_splits prod.splits
    dest!: publish_talk stop_alarm_talk intro: talk_trans)

lemma service_warn_talk:
  "service_warn env now s nd w = (nd', w') \<Longrightarrow> node_talk (se_net env) (nd, w) (nd', w')"
  by (cases "publish_event env Event_ShockWarning (ss_last_controller s) now nd w")
    (auto simp: service_warn_def talk_refl split: if_splits dest!: publish_talk)

lemma service_trigger_talk:
  assumes "service_trigger env now s nd w = (s', nd', w')"
  shows "node_talk (se_net env) (nd, w) (nd', w')"
proof (cases "ss_mode s = Mode_Locked \<and> ss_trigger s \<and> \<not> ss_previous_trigger s")
  case True
  obtain k nd1 w1 where e: "publish_event env Event_ShockTrigger (ss_last_controller s) now nd w = (k, nd1, w1)"
    by (metis prod_cases3)
  obtain ok s2 nd2 w2 where a: "start_alarm env (ss_last_controller s) now s nd1 w1 = (ok, s2, nd2, w2)"
    by (metis prod_cases4)
  obtain k' nd3 w3 where p: "publish_security_state env (ss_last_controller s2) now s2 nd2 w2 = (k', nd3, w3)"
    by (metis prod_cases3)
  have "(nd', w') = (if ok then (nd3, w3) else (nd2, w2))"
    using assms True by (auto simp: service_trigger_def e a p split: if_splits)
  with talk_trans [OF start_alarm_talk [OF a] publish_talk(1) [OF e]] publish_talk(2) [OF p]
  show ?thesis by (auto split: if_splits intro: talk_trans)
qed (use assms in \<open>auto simp: service_trigger_def talk_refl\<close>)

lemma security_service_talk:
  "security_service env now s nd w = (s', nd', w') \<Longrightarrow> node_talk (se_net env) (nd, w) (nd', w')"
  by (auto simp: security_service_def split: prod.splits
    dest!: service_confirm_talk service_expire_talk service_warn_talk service_trigger_talk
    intro: talk_trans)

section \<open>Runs of the controller\<close>

lemma security_controller_ends:
  assumes "finite_transport (se_net env) avail"
  shows "\<exists>r. security_controller_service env now s nd w = Some r"
proof -
  have "\<exists>r. node_drain (se_net env) now (security_body env now) s nd w = Some r"
    by (rule node_drain_talk_ends [OF assms]) (rule security_body_talk)
  then obtain s1 nd1 w1 where
    "node_drain (se_net env) now (security_body env now) s nd w = Some (s1, nd1, w1)" by auto
  then show ?thesis by (auto simp: security_controller_service_def split: prod.split)
qed

lemma security_controller_inv:
  assumes "security_plant env" and "security_controller_service env now s nd w = Some (s', nd', w')"
    and "security_inv env s" and "node_inv nd"
  shows "security_inv env s' \<and> node_inv nd'"
proof -
  obtain s1 nd1 w1 where d: "node_drain (se_net env) now (security_body env now) s nd w = Some (s1, nd1, w1)"
    using assms(2) by (auto simp: security_controller_service_def split: option.splits)
  obtain nd2 w2 where sv: "security_service env now s1 nd1 w1 = (s', nd2, w2)"
    and ns: "node_service (se_net env) nd2 now w2 = (nd', w')"
    using assms(2) d by (auto simp: security_controller_service_def split: prod.splits)
  have "security_inv env s1 \<and> node_inv nd1"
  proof (rule node_drain_talk_inv [where I = "security_inv env", OF d assms(4) assms(3)])
    fix p s nd w s' nd' w'
    assume "security_body env now p s nd w = (s', nd', w')"
    then show "node_talk (se_net env) (nd, w) (nd', w')" by (rule security_body_talk)
  next
    fix p s nd w s' nd' w'
    assume "security_body env now p s nd w = (s', nd', w')" and "security_inv env s"
    with security_body_state [of env now p s nd w] security_plant.packet_inv [OF assms(1)]
    show "security_inv env s'" by auto
  qed
  moreover from this have "security_inv env s'"
    using security_service_state [of env now s1 nd1 w1] security_plant.service_inv [OF assms(1)] sv
    by simp
  moreover have "node_inv nd2"
    using talk_keeps(1) [OF security_service_talk [OF sv]] calculation by simp
  ultimately show ?thesis using node_service_inv' [OF ns] by blast
qed

text \<open>
  Every run: the firmware's setup, then loops at any times, while the input pins and the rest of
  the world change in any way between them and the settings may be changed.
\<close>

inductive security_reachable ::
  "'g gpio_ops \<Rightarrow> 'f preferences_ops \<Rightarrow> 'w transport_ops \<Rightarrow>
    (('g gpio_security, 'f flash_persistence) security_server \<times> bike_node \<times> 'w) \<Rightarrow> bool"
  for gp pf net where
  sec_boot: "security_setup gp pf net pins flash t now = (s, nd) \<Longrightarrow>
    security_reachable gp pf net (s, nd, w)"
| sec_loop: "security_reachable gp pf net (s, nd, w) \<Longrightarrow>
    security_controller_service (security_board gp pf net) now s nd w = Some (s', nd', w') \<Longrightarrow>
    security_reachable gp pf net (s', nd', w')"
| sec_world: "security_reachable gp pf net (s, nd, w) \<Longrightarrow>
    security_reachable gp pf net (s\<lparr>ss_hardware := (ss_hardware s)\<lparr>gs_pins := pins\<rparr>\<rparr>, nd, w')"
| sec_engine_confirm: "security_reachable gp pf net (s, nd, w) \<Longrightarrow>
    security_reachable gp pf net (ss_set_engine_stop_confirm_ms v s, nd, w)"
| sec_warning_confirm: "security_reachable gp pf net (s, nd, w) \<Longrightarrow>
    security_reachable gp pf net (ss_set_shock_warning_confirm_ms v s, nd, w)"
| sec_trigger_confirm: "security_reachable gp pf net (s, nd, w) \<Longrightarrow>
    security_reachable gp pf net (ss_set_shock_trigger_confirm_ms v s, nd, w)"
| sec_alarm_duration: "security_reachable gp pf net (s, nd, w) \<Longrightarrow>
    security_reachable gp pf net (ss_set_alarm_duration_ms v s, nd, w)"

lemma security_inv_settings [simp]:
  "security_inv env (ss_set_engine_stop_confirm_ms v s) = security_inv env s"
  "security_inv env (ss_set_shock_warning_confirm_ms v s) = security_inv env s"
  "security_inv env (ss_set_shock_trigger_confirm_ms v s) = security_inv env s"
  "security_inv env (ss_set_alarm_duration_ms v s) = security_inv env s"
  by (simp_all add: security_inv_def inhibit_on_def alarm_on_def ss_set_engine_stop_confirm_ms_def
    ss_set_shock_warning_confirm_ms_def ss_set_shock_trigger_confirm_ms_def ss_set_alarm_duration_ms_def)

lemma security_setup_inv:
  assumes "security_setup gp pf net pins flash t now = (s, nd)"
  shows "security_inv (security_board gp pf net) s \<and> node_inv nd"
proof -
  have "node_inv nd" using assms
    by (auto simp: security_setup_def Let_def intro!: node_inv_setters node_inv_init)
  moreover have "security_inv (security_board gp pf net) s"
    using assms unfolding security_setup_def Let_def
    by (auto simp: security_server_init_def intro!: board.restore_inv)
  ultimately show ?thesis by simp
qed

lemma security_reachable_inv:
  "security_reachable gp pf net x \<Longrightarrow> security_inv (security_board gp pf net) (fst x) \<and> node_inv (fst (snd x))"
proof (induction rule: security_reachable.induct)
  case (sec_boot pins flash t now s nd w)
  then show ?case using security_setup_inv by simp
next
  case (sec_loop s nd w now s' nd' w')
  with security_controller_inv [OF board.security_plant_axioms sec_loop(2)] show ?case by simp
next
  case (sec_world s nd w pins w')
  then show ?case by (simp add: security_inv_def inhibit_on_def alarm_on_def)
qed simp_all

section \<open>The dialogue of a lock command\<close>

lemma security_packet_lengths [simp]:
  "pkt_length (security_event_packet e d) = 1" "pkt_length (security_state_packet sn d) = 6"
  by (simp_all add: security_event_packet_def security_state_packet_def Let_def)

definition lock_event :: "('h, 'p) security_server \<Rightarrow> security_event" where
  "lock_event s = (if ss_mode s = Mode_LockPending then Event_LockPending else Event_Locked)"

lemma lock_dialogue:
  assumes net: "se_net env = bench_transport"
    and p: "pkt_type p = msg_SecurityCommand" "pkt_length p = 1" "pkt_payload p ! 0 = cmd_Lock"
      "pkt_flags p AND FlagAckRequired \<noteq> 0"
    and s': "s' = locked_state env True now (s\<lparr>ss_last_controller := pkt_source p\<rparr>)"
    and nd1: "nd1 = bump_sequence nd (security_event_packet (lock_event s') (pkt_source p))"
  shows "security_handle_packet env p now s nd w =
    (True, s', bump_sequence nd1 (security_state_packet (security_state env s') (pkt_source p)),
     w\<lparr>sw_tx := sw_tx w @
       [(nd_transport nd, frame_of (stamped nd (security_event_packet (lock_event s') (pkt_source p)) False)),
        (nd_transport nd, frame_of (ack_packet (nd_address nd) (pkt_source p) (pkt_sequence p) False)),
        (nd_transport nd, frame_of (stamped nd1 (security_state_packet (security_state env s') (pkt_source p)) False))]\<rparr>)"
proof -
  let ?s1 = "s\<lparr>ss_last_controller := pkt_source p\<rparr>"
  have ev: "node_send bench_transport nd (security_event_packet e (pkt_source p)) now False w =
      (True, bump_sequence nd (security_event_packet e (pkt_source p)),
       w\<lparr>sw_tx := sw_tx w @ [(nd_transport nd, frame_of (stamped nd (security_event_packet e (pkt_source p)) False))]\<rparr>)"
    for e by (rule bench_send) simp_all
  have lc: "ss_last_controller s' = pkt_source p" "lock_event s' =
      (if ss_engine_running (sample_inputs env now ?s1) then Event_LockPending else Event_Locked)"
    by (simp_all add: s' locked_state_def Let_def lock_event_def)
  obtain nd' w' where lk: "set_locked env True now ?s1 nd w = (True, s', nd', w')"
    and nw: "(nd', w') = snd (publish_event env (lock_event s') (pkt_source p) now nd w)"
  proof -
    obtain k nd' w' where pe: "publish_event env (lock_event s') (pkt_source p) now nd w = (k, nd', w')"
      by (metis prod_cases3)
    have "set_locked env True now ?s1 nd w = (True, s', nd', w')"
      using pe lc(2) set_locked_state [of env True now ?s1 nd w, folded s']
      by (auto simp: set_locked_def Let_def split: prod.splits if_splits)
    with pe that show thesis by simp
  qed
  have nd': "nd' = nd1" and w': "w' = w\<lparr>sw_tx := sw_tx w @ [(nd_transport nd,
      frame_of (stamped nd (security_event_packet (lock_event s') (pkt_source p)) False))]\<rparr>"
    using nw by (simp_all add: publish_event_def net ev nd1)
  have t: "nd_transport nd1 = nd_transport nd" "nd_address nd1 = nd_address nd" by (simp_all add: nd1)
  show ?thesis
    using p by (simp add: security_handle_packet_def handle_security_command_def Let_def lk nd' w' t net
      node_send_ack_eq publish_security_state_def bench_send)
qed

section \<open>A concrete run\<close>

text \<open>
  The firmware on an idle board, a flash that remembers an armed intent, and queue ports: set up,
  confirmed locked after 250 ms, then triggered into alarm at 400 ms.
\<close>

definition demo_board :: "(pin_bank gpio_security, (string \<Rightarrow> bool option) flash_persistence, serial_world)
    security_env" where
  "demo_board = security_board pin_bank_ops flash_ops bench_transport"

definition demo_boot :: "(pin_bank gpio_security, (string \<Rightarrow> bool option) flash_persistence) security_server" where
  "demo_boot = fst (security_setup pin_bank_ops flash_ops bench_transport idle_board
     (\<lambda>k. if k = ''armed'' then Some True else None) 0 0)"

definition demo_locked :: "(pin_bank gpio_security, (string \<Rightarrow> bool option) flash_persistence) security_server" where
  "demo_locked = serviced_state demo_board 250 (serviced_state demo_board 0 demo_boot)"

definition shaken_board :: pin_bank where
  "shaken_board = idle_board\<lparr>pb_inputs := (\<lambda>pin. pin = kShockTriggerPin)\<rparr>"

definition running_board :: pin_bank where
  "running_board = idle_board\<lparr>pb_inputs := (\<lambda>pin. pin = kEngineRunningPin)\<rparr>"

definition with_pins :: "'g \<Rightarrow> ('g gpio_security, 'p) security_server \<Rightarrow> ('g gpio_security, 'p) security_server" where
  "with_pins pins s = s\<lparr>ss_hardware := (ss_hardware s)\<lparr>gs_pins := pins\<rparr>\<rparr>"

definition demo_shaken :: "(pin_bank gpio_security, (string \<Rightarrow> bool option) flash_persistence) security_server" where
  "demo_shaken = serviced_state demo_board 300 (with_pins shaken_board demo_locked)"

definition demo_alarm :: "(pin_bank gpio_security, (string \<Rightarrow> bool option) flash_persistence) security_server" where
  "demo_alarm = serviced_state demo_board 400 demo_shaken"

lemma demo_facts:
  "ss_mode demo_locked = Mode_Locked" "gs_inhibit (ss_hardware demo_locked)"
  "ss_mode demo_shaken = Mode_Locked" "ss_mode demo_alarm = Mode_Alarm" "ss_previous_trigger demo_alarm"
  "ss_alarm_duration_ms demo_alarm \<le> 30400 - ss_alarm_started_ms demo_alarm"
  by code_simp+

definition idle_node :: "bike_node \<Rightarrow> bool" where
  "idle_node nd \<longleftrightarrow> nd_rx_count nd = 0"

lemma idle_poll:
  assumes "idle_node nd"
  shows "node_poll bench_transport nd out now quiet_world = (False, out, nd, quiet_world)"
proof -
  have "quiet_world\<lparr>sw_rx := (sw_rx quiet_world)(t := [])\<rparr> = quiet_world" for t
    by (simp add: quiet_world_def fun_eq_iff)
  then show ?thesis
    using assms by (simp add: node_poll_cases idle_node_def node_dequeue_rx_def)
qed

lemma demo_quiet: "security_reachable gp pf net (s, nd, w) \<Longrightarrow> security_reachable gp pf net (s, nd, w')"
  using sec_world [of gp pf net s nd w "gs_pins (ss_hardware s)" w'] by simp

lemma demo_loop:
  assumes "security_reachable pin_bank_ops flash_ops bench_transport (s, nd, w)" and "idle_node nd"
  shows "\<exists>nd' w'. security_reachable pin_bank_ops flash_ops bench_transport
    (serviced_state demo_board now s, nd', w') \<and> idle_node nd'"
proof -
  have "node_drain bench_transport now (security_body demo_board now) s nd quiet_world =
      Some (s, nd, quiet_world)"
    by (subst node_drain.simps) (simp add: idle_poll [OF assms(2)])
  moreover obtain s2 nd2 w2 where sv: "security_service demo_board now s nd quiet_world = (s2, nd2, w2)"
    by (metis prod_cases3)
  moreover obtain nd3 w3 where ns: "node_service bench_transport nd2 now w2 = (nd3, w3)" by fastforce
  ultimately have "security_controller_service demo_board now s nd quiet_world = Some (s2, nd3, w3)"
    by (simp add: security_controller_service_def demo_board_def)
  moreover have "s2 = serviced_state demo_board now s"
    using security_service_state [of demo_board now s nd quiet_world] sv by simp
  moreover have "idle_node nd3"
    using talk_keeps(4) [OF security_service_talk [OF sv]] assms(2) ns
      node_service_keeps(2) [OF bench.finite_transport_axioms, of nd2 now w2]
    by (simp add: idle_node_def)
  ultimately show ?thesis
    using sec_loop [OF demo_quiet [OF assms(1), of quiet_world]] unfolding demo_board_def by blast
qed

lemma demo_reach:
  "\<exists>nd w. security_reachable pin_bank_ops flash_ops bench_transport (demo_locked, nd, w) \<and> idle_node nd"
  "\<exists>nd w. security_reachable pin_bank_ops flash_ops bench_transport (demo_shaken, nd, w) \<and> idle_node nd"
  "\<exists>nd w. security_reachable pin_bank_ops flash_ops bench_transport (demo_alarm, nd, w) \<and> idle_node nd"
proof -
  obtain nd where boot: "security_setup pin_bank_ops flash_ops bench_transport idle_board
     (\<lambda>k. if k = ''armed'' then Some True else None) 0 0 = (demo_boot, nd)"
    and n: "nd = node_set_max_retries 3 (node_set_ack_timeout_ms 250
      (node_set_auto_ack False (node_init addr_Security 0)))"
    by (simp add: demo_boot_def security_setup_def Let_def)
  from boot have "security_reachable pin_bank_ops flash_ops bench_transport (demo_boot, nd, quiet_world)"
    by (rule sec_boot)
  moreover have "idle_node nd"
    by (simp add: n idle_node_def node_set_max_retries_def node_set_ack_timeout_ms_def
      node_set_auto_ack_def)
  ultimately obtain nd1 w1 where 1: "security_reachable pin_bank_ops flash_ops bench_transport
      (serviced_state demo_board 0 demo_boot, nd1, w1)" "idle_node nd1"
    using demo_loop by blast
  from demo_loop [OF this, of 250] obtain nd2 w2 where
    2: "security_reachable pin_bank_ops flash_ops bench_transport (demo_locked, nd2, w2)" "idle_node nd2"
    unfolding demo_locked_def by blast
  have "security_reachable pin_bank_ops flash_ops bench_transport (with_pins shaken_board demo_locked, nd2, w2)"
    unfolding with_pins_def by (rule sec_world [OF 2(1)])
  from demo_loop [OF this 2(2), of 300] obtain nd3 w3 where
    3: "security_reachable pin_bank_ops flash_ops bench_transport (demo_shaken, nd3, w3)" "idle_node nd3"
    unfolding demo_shaken_def by blast
  from demo_loop [OF this, of 400] have
    "\<exists>nd w. security_reachable pin_bank_ops flash_ops bench_transport (demo_alarm, nd, w) \<and> idle_node nd"
    unfolding demo_alarm_def .
  with 2 3 show "\<exists>nd w. security_reachable pin_bank_ops flash_ops bench_transport (demo_locked, nd, w) \<and> idle_node nd"
    "\<exists>nd w. security_reachable pin_bank_ops flash_ops bench_transport (demo_shaken, nd, w) \<and> idle_node nd"
    "\<exists>nd w. security_reachable pin_bank_ops flash_ops bench_transport (demo_alarm, nd, w) \<and> idle_node nd"
    by blast+
qed

section \<open>Properties of the security controller\<close>

text \<open>C3: Start prevention is safe. In every reachable state of the firmware, whatever the inputs,
  the commands and their timing, the start-prevention output is on only while the mode is
  locked or alarm and the filtered engine signal is off: never unlocked, never while a lock is
  still pending, never with an engine believed to be running.\<close>

theorem start_inhibit_safe:
  assumes "security_reachable gp pf net (s, nd, w)" and "gs_inhibit (ss_hardware s)"
  shows "(ss_mode s = Mode_Locked \<or> ss_mode s = Mode_Alarm) \<and> ss_engine_initialized s
    \<and> \<not> ss_engine_running s"
  using security_reachable_inv [OF assms(1)] assms(2)
  by (simp add: security_inv_def inhibit_on_def armed_mode_def)

theorem start_inhibit_safe_witness:
  "(ss_mode demo_locked = Mode_Locked \<or> ss_mode demo_locked = Mode_Alarm)
    \<and> ss_engine_initialized demo_locked \<and> \<not> ss_engine_running demo_locked"
proof -
  obtain nd w where "security_reachable pin_bank_ops flash_ops bench_transport (demo_locked, nd, w)"
    using demo_reach(1) by blast
  then show ?thesis using demo_facts(2) by (rule start_inhibit_safe)
qed

text \<open>The alarm output follows the mode. In every reachable state the alarm output is on exactly
  in alarm mode, and exactly then the timer that bounds it is running.\<close>

theorem alarm_follows_mode:
  assumes "security_reachable gp pf net (s, nd, w)"
  shows "(gs_alarm (ss_hardware s) \<longleftrightarrow> ss_mode s = Mode_Alarm)
    \<and> (ss_alarm_timer_active s \<longleftrightarrow> ss_mode s = Mode_Alarm)"
  using security_reachable_inv [OF assms]
  by (simp add: security_inv_def alarm_on_def)

theorem alarm_follows_mode_witness:
  "gs_alarm (ss_hardware demo_alarm) \<and> ss_alarm_timer_active demo_alarm"
proof -
  obtain nd w where "security_reachable pin_bank_ops flash_ops bench_transport (demo_alarm, nd, w)"
    using demo_reach(3) by blast
  from alarm_follows_mode [OF this] demo_facts(4) show ?thesis by simp
qed

text \<open>C18: A running engine is never cut. When the engine input reads running at a service, start
  prevention is off at the end of that service, in whatever mode, and the engine counts as
  running.\<close>

theorem running_engine_releases_inhibit:
  assumes "security_reachable gp pf net (s, nd, w)"
    and "gp_digital_read gp kEngineRunningPin (gs_pins (ss_hardware s))"
    and "security_service (security_board gp pf net') now s nd' v = (s', nd'', w')"
  shows "\<not> gs_inhibit (ss_hardware s') \<and> ss_engine_running s'"
proof -
  have "security_inv (security_board gp pf net') s"
    using security_reachable_inv [OF assms(1)] by (simp add: security_inv_def inhibit_on_def alarm_on_def)
  from board.service_engine [OF this, of now] assms(2,3)
    security_service_state [of "security_board gp pf net'" now s nd' v]
  show ?thesis by (simp add: inhibit_on_def)
qed

theorem running_engine_releases_inhibit_witness:
  "gs_inhibit (ss_hardware demo_locked)
    \<and> \<not> gs_inhibit (ss_hardware (serviced_state demo_board 260 (with_pins running_board demo_locked)))"
proof -
  let ?s = "with_pins running_board demo_locked"
  obtain nd w where "security_reachable pin_bank_ops flash_ops bench_transport (demo_locked, nd, w)"
    using demo_reach(1) by blast
  then have r: "security_reachable pin_bank_ops flash_ops bench_transport (?s, nd, w)"
    unfolding with_pins_def by (rule sec_world)
  have on: "gp_digital_read pin_bank_ops kEngineRunningPin (gs_pins (ss_hardware ?s))"
    by (simp add: with_pins_def running_board_def)
  obtain s' nd' w' where sv: "security_service demo_board 260 ?s nd w = (s', nd', w')"
    by (metis prod_cases3)
  have "s' = serviced_state demo_board 260 ?s"
    using security_service_state [of demo_board 260 ?s nd w] sv by simp
  with running_engine_releases_inhibit [OF r on sv [unfolded demo_board_def]] demo_facts(2)
  show ?thesis by simp
qed

text \<open>C28: The engine counts as stopped only after a confirmed stop. Sampled at any times from a
  state in which it counts as running, the engine signal turns off only if the input was read
  stopped at every sample of some final stretch that lasted at least the confirmation time; and
  it does turn off when the input is read stopped throughout such a stretch.\<close>

theorem engine_stop_confirmed:
  assumes "ss_engine_initialized s" and "ss_engine_running s" and "\<not> ss_stop_pending s"
  shows "(\<not> ss_engine_running (engine_run env xs s) \<longrightarrow>
      held_for (ss_engine_stop_confirm_ms s) (stopped_samples env xs))
    \<and> (\<forall>h0 t0 ys h t. xs = (h0, t0) # ys @ [(h, t)] \<longrightarrow>
        (\<forall>x\<in>set xs. \<not> hw_engine_running (se_hw env) (fst x)) \<longrightarrow>
        ss_engine_stop_confirm_ms s \<le> t - t0 \<longrightarrow> \<not> ss_engine_running (engine_run env xs s))"
proof -
  let ?c = "ss_engine_stop_confirm_ms s"
  have run: "engine_filter (engine_run env xs s) =
      debounce_run ?c (stopped_samples env xs) (False, False, ss_stop_started_ms s)"
    using engine_run_debounce [OF assms(1), of env xs] assms(2,3) by (simp add: engine_filter_def)
  obtain st p ch where r: "debounce_run ?c (stopped_samples env xs) (False, False, ss_stop_started_ms s) =
      (st, p, ch)" by (metis prod_cases3)
  have "\<not> ss_engine_running (engine_run env xs s) \<longleftrightarrow> st"
    using run r by (auto simp: engine_filter_def)
  moreover have "st" if xs: "xs = (h0, t0) # ys @ [(h, t)]"
    and off: "\<forall>x\<in>set xs. \<not> hw_engine_running (se_hw env) (fst x)" and c: "?c \<le> t - t0" for h0 t0 ys h t
  proof -
    have eq: "stopped_samples env xs = (True, t0) # stopped_samples env ys @ [(True, t)]"
      and all: "\<forall>x\<in>set (stopped_samples env ys). fst x"
      using off by (auto simp: xs stopped_samples_def)
    have "fst (debounce_run ?c (stopped_samples env xs) (False, False, ss_stop_started_ms s))"
      unfolding eq by (rule debounce_run_complete [OF all c])
    with r show ?thesis by simp
  qed
  ultimately show ?thesis using debounce_run_sound [OF r] by blast
qed

definition engine_on_server :: "(pin_bank gpio_security, (string \<Rightarrow> bool option) flash_persistence) security_server" where
  "engine_on_server = demo_boot\<lparr>ss_engine_stop_confirm_ms := 200\<rparr>"

theorem engine_stop_confirmed_witness:
  "\<not> ss_engine_running (engine_run demo_board
     [(ss_hardware demo_boot, 4294967200), (ss_hardware demo_boot, 50), (ss_hardware demo_boot, 104)] engine_on_server)"
proof -
  let ?h = "ss_hardware demo_boot"
  have s: "ss_engine_initialized engine_on_server" "ss_engine_running engine_on_server"
    "\<not> ss_stop_pending engine_on_server" "ss_engine_stop_confirm_ms engine_on_server = 200"
    "\<not> hw_engine_running (se_hw demo_board) ?h"
    by code_simp+
  let ?xs = "[(?h, 4294967200), (?h, 50), (?h, 104)]"
  note stop = engine_stop_confirmed [OF s(1-3), of demo_board ?xs, THEN conjunct2, THEN spec, THEN spec,
      THEN spec, THEN spec, THEN spec, of ?h 4294967200 "[(?h, 50)]" ?h 104]
  have off: "\<forall>x\<in>set ?xs. \<not> hw_engine_running (se_hw demo_board) (fst x)" using s(5) by simp
  have len: "ss_engine_stop_confirm_ms engine_on_server \<le> 104 - 4294967200" unfolding s(4) by simp
  have eq: "?xs = (?h, 4294967200) # [(?h, 50)] @ [(?h, 104)]" by simp
  show ?thesis by (rule stop [THEN mp, OF eq, THEN mp, OF off, THEN mp, OF len])
qed

text \<open>The alarm is bounded. In a reachable alarm state whose time is up, a service that does not
  see a new trigger edge returns to locked and switches the output off; a trigger input that
  merely stays asserted does not restart it.\<close>

theorem alarm_ends_in_time:
  assumes "security_reachable gp pf net (s, nd, w)" and "ss_mode s = Mode_Alarm"
    and "now - ss_alarm_started_ms s \<ge> ss_alarm_duration_ms s"
    and "ss_previous_trigger s \<or> \<not> ss_trigger (sample_inputs (security_board gp pf net) now s)"
    and "security_service (security_board gp pf net) now s nd' v = (s', nd'', w')"
  shows "ss_mode s' = Mode_Locked \<and> \<not> gs_alarm (ss_hardware s') \<and> \<not> ss_alarm_timer_active s'"
proof -
  have inv: "security_inv (security_board gp pf net) s" using security_reachable_inv [OF assms(1)] by simp
  from board.service_alarm_over [OF inv assms(2-4)] assms(5)
    security_service_state [of "security_board gp pf net" now s nd' v]
  show ?thesis by (simp add: alarm_on_def)
qed

theorem alarm_ends_in_time_witness:
  "ss_mode demo_alarm = Mode_Alarm \<and> ss_mode (serviced_state demo_board 30400 demo_alarm) = Mode_Locked"
proof -
  obtain nd w where r: "security_reachable pin_bank_ops flash_ops bench_transport (demo_alarm, nd, w)"
    using demo_reach(3) by blast
  obtain s' nd' w' where sv: "security_service demo_board 30400 demo_alarm nd w = (s', nd', w')"
    by (metis prod_cases3)
  have "s' = serviced_state demo_board 30400 demo_alarm"
    using security_service_state [of demo_board 30400 demo_alarm nd w] sv by simp
  with alarm_ends_in_time [OF r demo_facts(4,6) disjI1 [OF demo_facts(5)] sv [unfolded demo_board_def]]
    demo_facts(4)
  show ?thesis by simp
qed

text \<open>What starts the alarm. A service enters alarm mode only from locked (or from a lock it
  confirms itself), on the filtered trigger's rising edge, with the trigger input asserted at that
  moment, and then the alarm's time starts at that service.\<close>

theorem alarm_starts_on_trigger_edge:
  assumes "security_reachable gp pf net (s, nd, w)" and "ss_mode s \<noteq> Mode_Alarm"
    and "security_service (security_board gp pf net) now s nd' v = (s', nd'', w')"
    and "ss_mode s' = Mode_Alarm"
  shows "(ss_mode s = Mode_Locked \<or> ss_mode s = Mode_LockPending)
    \<and> gp_digital_read gp kShockTriggerPin (gs_pins (ss_hardware s)) \<and> \<not> ss_previous_trigger s
    \<and> ss_trigger (sample_inputs (security_board gp pf net) now s) \<and> ss_alarm_started_ms s' = now"
proof -
  have inv: "security_inv (security_board gp pf net) s" using security_reachable_inv [OF assms(1)] by simp
  have s': "s' = serviced_state (security_board gp pf net) now s"
    using assms(3) security_service_state [of "security_board gp pf net" now s nd' v] by simp
  from board.service_alarm_starts [OF inv assms(2), of now] assms(2,4) show ?thesis
    by (auto simp: s' armed_mode_def confirmed_state_def split: if_splits)
qed

theorem alarm_starts_on_trigger_edge_witness:
  "ss_mode demo_alarm = Mode_Alarm \<and> ss_alarm_started_ms demo_alarm = 400 \<and> \<not> ss_previous_trigger demo_shaken"
proof -
  obtain nd w where r: "security_reachable pin_bank_ops flash_ops bench_transport (demo_shaken, nd, w)"
    using demo_reach(2) by blast
  obtain nd' w' where sv: "security_service demo_board 400 demo_shaken nd w = (demo_alarm, nd', w')"
    using security_service_state [of demo_board 400 demo_shaken nd w]
    by (cases "security_service demo_board 400 demo_shaken nd w") (simp add: demo_alarm_def)
  have "ss_mode demo_shaken \<noteq> Mode_Alarm" using demo_facts(3) by simp
  from alarm_starts_on_trigger_edge [OF r this sv [unfolded demo_board_def] demo_facts(4)] demo_facts(4)
  show ?thesis by simp
qed

text \<open>C29: The armed intent survives a power cycle. When the flash takes the write, a controller
  that executed a lock or unlock command and is set up again from that flash, at any later
  time, starts with both outputs off, pending a confirmed engine stop after a lock, and unlocked
  after an unlock.\<close>

theorem armed_intent_survives:
  assumes "preferences pf" and "pp_opened (ss_persistence s)"
    and "set_locked (security_board gp pf net) b now s nd w = (ok, s', nd', w')"
    and "pf_put_bool pf ''armed'' b (pp_preferences (ss_persistence s)) = (1, f)"
    and "pf_begin pf ''bike-security'' False f = (True, f)"
    and "security_setup gp pf net pins (pp_preferences (ss_persistence s')) t later = (s2, nd2)"
  shows "ss_mode s2 = (if b then Mode_LockPending else Mode_Unlocked)
    \<and> \<not> gs_inhibit (ss_hardware s2) \<and> \<not> gs_alarm (ss_hardware s2) \<and> ss_engine_running s2 = b"
proof -
  have f: "pf_get_bool pf ''armed'' d f = b" for d
    using preferences.put_get [OF assms(1,4)] .
  have p: "pp_preferences (ss_persistence s') = f"
    using set_locked_stateD [OF assms(3)] assms(2,4)
    by (auto simp: locked_state_def Let_def persist_armed_def pref_save_armed_def)
  let ?s0 = "security_server_init (gpio_security_begin gp \<lparr>gs_pins = pins, gs_alarm = False, gs_inhibit = False\<rparr>)
      \<lparr>pp_preferences = f, pp_opened = True\<rparr>"
  have s2: "s2 = snd (restore_persisted_state (security_board gp pf net) later ?s0)"
    using assms(5,6) by (simp add: security_setup_def Let_def p pref_begin_def)
  have st: "ss_persistence ?s0 = \<lparr>pp_preferences = f, pp_opened = True\<rparr>" "\<not> ss_engine_running ?s0"
    by (simp_all add: security_server_init_def)
  have "\<not> inhibit_on (security_board gp pf net) s2" "\<not> alarm_on (security_board gp pf net) s2"
    unfolding s2 by (rule board.restore_inv, simp add: security_server_init_def)+
  moreover have "ss_mode s2 = (if b then Mode_LockPending else Mode_Unlocked) \<and> ss_engine_running s2 = b"
    unfolding s2 restore_persisted_state_def Let_def
    using f st by (auto simp: pref_load_armed_def)
  ultimately show ?thesis by (simp add: inhibit_on_def alarm_on_def)
qed

theorem armed_intent_survives_witness:
  "ss_mode (fst (security_setup pin_bank_ops flash_ops bench_transport idle_board
     (pp_preferences (ss_persistence (fst (snd (set_locked demo_board False 9 demo_boot
        (node_init addr_Security 0) quiet_world))))) 0 10)) = Mode_Unlocked"
proof -
  have op: "pp_opened (ss_persistence demo_boot)" by code_simp
  let ?f = "(pp_preferences (ss_persistence demo_boot))(''armed'' \<mapsto> False)"
  have put: "pf_put_bool flash_ops ''armed'' False (pp_preferences (ss_persistence demo_boot)) = (1, ?f)"
    and beg: "pf_begin flash_ops ''bike-security'' False ?f = (True, ?f)"
    by (simp_all add: flash_ops_def)
  obtain ok s' nd' w' where l: "set_locked demo_board False 9 demo_boot (node_init addr_Security 0)
      quiet_world = (ok, s', nd', w')" by (metis prod_cases4)
  obtain s2 nd2 where su: "security_setup pin_bank_ops flash_ops bench_transport idle_board
      (pp_preferences (ss_persistence s')) 0 10 = (s2, nd2)" by fastforce
  from armed_intent_survives [OF flash.preferences_axioms op l [unfolded demo_board_def] put beg su] l su
  show ?thesis by simp
qed

text \<open>C30: Rejected commands, exactly. A security command of the wrong length changes nothing. One of the
  right length with an unknown code changes only who later events are reported to, which becomes its
  sender: the mode, the outputs, the filters, the timers and the persistent intent stay as they were. If it
  asked for an acknowledgement either gets exactly a negative one, otherwise nothing is sent.\<close>

theorem bad_command_rejected:
  assumes "pkt_type p = msg_SecurityCommand"
    and "pkt_length p \<noteq> 1 \<or> pkt_payload p ! 0 \<notin> {cmd_Lock, cmd_Unlock, cmd_SilenceAlarm, cmd_RequestState}"
    and "se_net env = bench_transport"
  shows "security_handle_packet env p now s nd w =
    (pkt_length p \<noteq> 1, if pkt_length p = 1 then s\<lparr>ss_last_controller := pkt_source p\<rparr> else s, nd,
     if pkt_flags p AND FlagAckRequired \<noteq> 0
     then w\<lparr>sw_tx := sw_tx w @ [(nd_transport nd,
        frame_of (ack_packet (nd_address nd) (pkt_source p) (pkt_sequence p) True))]\<rparr>
     else w)"
  using assms
  by (auto simp: security_handle_packet_def handle_security_command_def Let_def node_send_ack_eq)

theorem bad_command_rejected_witness:
  "security_handle_packet demo_board (default_packet\<lparr>pkt_type := msg_SecurityCommand,
      pkt_source := addr_DiagnosticComputer, pkt_flags := FlagAckRequired, pkt_length := 1, pkt_sequence := 7\<rparr>) 5 demo_boot
      (node_init addr_Security 3) quiet_world =
    (False, demo_boot\<lparr>ss_last_controller := addr_DiagnosticComputer\<rparr>, node_init addr_Security 3,
     quiet_world\<lparr>sw_tx := [(3, frame_of (ack_packet addr_Security addr_DiagnosticComputer 7 True))]\<rparr>)"
  using bad_command_rejected [of "default_packet\<lparr>pkt_type := msg_SecurityCommand,
      pkt_source := addr_DiagnosticComputer, pkt_flags := FlagAckRequired, pkt_length := 1, pkt_sequence := 7\<rparr>"
      demo_board 5 demo_boot "node_init addr_Security 3" quiet_world]
  by (simp add: demo_board_def)

text \<open>The dialogue of a lock command. A lock command that asks for an acknowledgement is executed:
  the mode becomes pending with the engine running and locked without, and exactly three frames
  are written, in this order: the event that says which, the positive acknowledgement with the
  command's sequence number, and the resulting state.\<close>

theorem lock_command_dialogue:
  assumes "se_net env = bench_transport"
    and "pkt_type p = msg_SecurityCommand" and "pkt_length p = 1" and "pkt_payload p ! 0 = cmd_Lock"
    and "pkt_flags p AND FlagAckRequired \<noteq> 0"
    and "s' = locked_state env True now (s\<lparr>ss_last_controller := pkt_source p\<rparr>)"
    and "nd1 = bump_sequence nd (security_event_packet (lock_event s') (pkt_source p))"
  shows "security_handle_packet env p now s nd w =
    (True, s', bump_sequence nd1 (security_state_packet (security_state env s') (pkt_source p)),
     w\<lparr>sw_tx := sw_tx w @
       [(nd_transport nd, frame_of (stamped nd (security_event_packet (lock_event s') (pkt_source p)) False)),
        (nd_transport nd, frame_of (ack_packet (nd_address nd) (pkt_source p) (pkt_sequence p) False)),
        (nd_transport nd, frame_of (stamped nd1 (security_state_packet (security_state env s') (pkt_source p)) False))]\<rparr>)
    \<and> ss_mode s' = (if ss_engine_running (sample_inputs env now s) then Mode_LockPending else Mode_Locked)"
proof -
  have "ss_engine_running (sample_inputs env now (s\<lparr>ss_last_controller := a\<rparr>)) =
      ss_engine_running (sample_inputs env now s)" for a
    by (simp add: sample_engine_def Let_def)
  then have "ss_mode s' = (if ss_engine_running (sample_inputs env now s) then Mode_LockPending else Mode_Locked)"
    using assms(6) by (simp add: locked_state_def Let_def)
  with lock_dialogue [OF assms] show ?thesis by blast
qed

theorem lock_command_dialogue_witness:
  "length (sw_tx (snd (snd (snd (security_handle_packet demo_board (set_payload 0 cmd_Lock (default_packet
      \<lparr>pkt_type := msg_SecurityCommand, pkt_flags := FlagAckRequired, pkt_length := 1\<rparr>)) 5 demo_boot
      (node_init addr_Security 3) quiet_world))))) = 3"
proof -
  have net: "se_net demo_board = bench_transport" by (simp add: demo_board_def)
  let ?p = "set_payload 0 cmd_Lock (default_packet
      \<lparr>pkt_type := msg_SecurityCommand, pkt_flags := FlagAckRequired, pkt_length := 1\<rparr>)"
  have "pkt_type ?p = msg_SecurityCommand" "pkt_length ?p = 1" "pkt_payload ?p ! 0 = cmd_Lock"
    "pkt_flags ?p AND FlagAckRequired \<noteq> 0" by simp_all
  from lock_command_dialogue [OF net this refl refl, of 5 demo_boot "node_init addr_Security 3" quiet_world]
  show ?thesis by simp
qed

text \<open>The controller's loop ends. On a transport with finite input, one pass of the security
  controller's service loop, with any packets waiting, returns.\<close>

theorem security_loop_ends:
  assumes "finite_transport (se_net env) avail"
  shows "\<exists>s' nd' w'. security_controller_service env now s nd w = Some (s', nd', w')"
  using security_controller_ends [OF assms, of now s nd w] by auto

theorem security_loop_ends_witness:
  "\<exists>s' nd' w'. security_controller_service demo_board 0 demo_boot (node_init addr_Security 0)
     (quiet_world\<lparr>sw_rx := (\<lambda>_. frame_of default_packet)\<rparr>) = Some (s', nd', w')"
  by (rule security_loop_ends [where avail = "\<lambda>t w. length (sw_rx w t)"])
    (simp add: demo_board_def bench.finite_transport_axioms)

end
