(* ===== verification/Dashboard.thy ===== *)
theory Dashboard
  imports MotorcycleComputer NorthbridgeRuntime LightingController SecurityController
begin

text \<open>
  What the main computer sees: the packets the controllers send, received through its node and
  dispatched, give back the states they were sent from; and a packet changes no picture but that
  of its sender.
\<close>

section \<open>Received packets\<close>

lemma received_nth:
  assumes "sendable p" and "i < unat (pkt_length p)"
  shows "pkt_payload (received p) ! i = pkt_payload p ! i"
  using assms by (simp add: received_def sendable_def wf_packet_def nth_append)

lemma stamped_payload [simp]: "pkt_payload (stamped nd p r) = pkt_payload p"
  by (simp add: stamped_def)

text \<open>Decoders ignore packets of other senders and types.\<close>

lemma decode_ignores [simp]:
  "pkt_source p \<noteq> addr_Lighting \<Longrightarrow> decode_lighting_state p now mc = (False, mc)"
  "pkt_source p \<noteq> addr_Lighting \<Longrightarrow> decode_lighting_diagnostics p now mc = (False, mc)"
  "pkt_source p \<noteq> addr_Lighting \<Longrightarrow> decode_lighting_fault p now mc = (False, mc)"
  "pkt_source p \<noteq> addr_Northbridge \<Longrightarrow> decode_northbridge_diagnostics p now mc = (False, mc)"
  "pkt_source p \<noteq> addr_Northbridge \<Longrightarrow> decode_northbridge_fault p now mc = (False, mc)"
  "pkt_source p \<noteq> addr_Security \<Longrightarrow> decode_security_state p now mc = (False, mc)"
  "pkt_source p \<noteq> addr_Security \<Longrightarrow> decode_security_event p now mc = (False, mc)"
  "pkt_type p \<noteq> msg_StateUpdate \<Longrightarrow> decode_lighting_state p now mc = (False, mc)"
  "pkt_type p \<noteq> msg_LightingDiagnostic \<Longrightarrow> decode_lighting_diagnostics p now mc = (False, mc)"
  "pkt_type p \<noteq> msg_Diagnostic \<Longrightarrow> decode_northbridge_diagnostics p now mc = (False, mc)"
  "pkt_type p \<noteq> msg_SecurityState \<Longrightarrow> decode_security_state p now mc = (False, mc)"
  "pkt_type p \<noteq> msg_SecurityEvent \<Longrightarrow> decode_security_event p now mc = (False, mc)"
  by (simp_all add: decode_lighting_state_def decode_lighting_diagnostics_def decode_lighting_fault_def
    decode_northbridge_diagnostics_def decode_northbridge_fault_def decode_security_state_def
    decode_security_event_def Let_def)

text \<open>What the supervisor and the observer make of a packet, before any decoder.\<close>

definition noted :: "('o, 'w) packet_observer \<Rightarrow> packet \<Rightarrow> u32 \<Rightarrow> 'o motorcycle_computer \<Rightarrow> bike_node \<Rightarrow> 'w
    \<Rightarrow> 'o motorcycle_computer" where
  "noted obs p now mc nd w =
    fst (mc_observed obs p now (mc\<lparr>mc_supervisor := sv_observe p now (mc_supervisor mc)\<rparr>) nd w)"

lemma noted_sel [simp]:
  "mc_lighting (noted obs p now mc nd w) = mc_lighting mc"
  "mc_diagnostics (noted obs p now mc nd w) = mc_diagnostics mc"
  "mc_faults (noted obs p now mc nd w) = mc_faults mc"
  "mc_northbridge (noted obs p now mc nd w) = mc_northbridge mc"
  "mc_security (noted obs p now mc nd w) = mc_security mc"
  "mc_supervisor (noted obs p now mc nd w) = sv_observe p now (mc_supervisor mc)"
  by (simp_all add: noted_def mc_observed_def split: option.split prod.split)

lemma mc_dispatch_noted:
  "fst (mc_dispatch obs p now mc nd w) = first_decoder [decode_lighting_state, decode_lighting_diagnostics,
     decode_lighting_fault, decode_northbridge_diagnostics, decode_northbridge_fault,
     decode_security_state, decode_security_event] p now (noted obs p now mc nd w)"
  by (simp add: mc_dispatch_def noted_def Let_def split: prod.split)

text \<open>
  The observer may use the node while it looks at a packet. What the service loop needs of it is
  that it only talks; then the loop ends on finite input, whatever arrives.
\<close>

locale talking_observer =
  fixes ops :: "'w transport_ops" and obs :: "('o, 'w) packet_observer"
  assumes observer_talks: "obs = Some f \<Longrightarrow> f p t sv st nd w = (st', nd', w') \<Longrightarrow> node_talk ops (nd, w) (nd', w')"
begin

lemma dispatch_talks:
  assumes "mc_dispatch obs p t mc nd w = (mc', nd', w')"
  shows "node_talk ops (nd, w) (nd', w')"
proof (cases obs)
  case None
  with assms show ?thesis by (simp add: mc_dispatch_def mc_observed_def talk_refl)
next
  case (Some f)
  obtain st nd1 w1 where f: "f p t (sv_observe p t (mc_supervisor mc)) (mc_observer mc) nd w = (st, nd1, w1)"
    by (metis prod_cases3)
  with assms have "nd' = nd1" "w' = w1" by (simp_all add: mc_dispatch_def mc_observed_def Some)
  with observer_talks [OF Some f] show ?thesis by simp
qed

lemma service_ends:
  assumes "finite_transport ops avail"
  shows "\<exists>r. mc_service ops obs t mc nd w = Some r"
proof -
  have "\<exists>r. node_drain ops t (\<lambda>p. mc_dispatch obs p t) mc nd w = Some r"
    by (rule node_drain_talk_ends [OF assms dispatch_talks])
  then obtain mc1 nd1 w1 where
    "node_drain ops t (\<lambda>p. mc_dispatch obs p t) mc nd w = Some (mc1, nd1, w1)" by auto
  then show ?thesis by (simp add: mc_service_def split: prod.split)
qed

end

interpretation no_observer: talking_observer ops None
  by unfold_locales simp

section \<open>Lighting\<close>

definition view_of_lighting :: "lighting_state \<Rightarrow> u32 \<Rightarrow> lighting_snapshot" where
  "view_of_lighting st now = \<lparr>lv_valid = True, lv_left_indicator = lst_left_indicator st,
     lv_right_indicator = lst_right_indicator st, lv_brake_bright = lst_brake_bright st,
     lv_high_beam = lst_high_beam st, lv_updated_at_ms = now\<rparr>"

lemma lighting_state_payload:
  "take 8 (pkt_payload (lighting_state_packet st d)) =
    [1, if lst_left_indicator st then 1 else 0, 2, if lst_right_indicator st then 1 else 0,
     3, if lst_brake_bright st then 1 else 0, 4, if lst_high_beam st then 1 else 0]"
  by (simp add: lighting_state_packet_def kOutputs_def default_packet_def eval_nat_numeral)

lemma take_nth_cong: "take n xs = ys \<Longrightarrow> i < n \<Longrightarrow> i < length ys \<Longrightarrow> xs ! i = ys ! i"
  by (metis nth_take)

lemma lighting_state_decoded:
  assumes "pkt_source q = addr_Lighting" and "pkt_type q = msg_StateUpdate" and "pkt_length q = 8"
    and "\<And>i. i < 8 \<Longrightarrow> pkt_payload q ! i = pkt_payload (lighting_state_packet st d) ! i"
  shows "decode_lighting_state q now mc = (True, mc\<lparr>mc_lighting := view_of_lighting st now\<rparr>)"
proof -
  have b: "pkt_payload q ! i = [1, if lst_left_indicator st then 1 else 0, 2,
      if lst_right_indicator st then 1 else 0, 3, if lst_brake_bright st then 1 else 0, 4,
      if lst_high_beam st then 1 else 0] ! i" if "i < 8" for i
    using take_nth_cong [OF lighting_state_payload that] assms(4) [OF that] that by simp
  have r: "[0..<4] = [0, 1, 2, 3::nat]" by (simp add: upt_conv_Cons)
  have "read_lighting_states (pkt_payload q) [0..<4] v = Some (v\<lparr>lv_left_indicator := lst_left_indicator st,
      lv_right_indicator := lst_right_indicator st, lv_brake_bright := lst_brake_bright st,
      lv_high_beam := lst_high_beam st\<rparr>)" for v
    using b [of 0] b [of 1] b [of 2] b [of 3] b [of 4] b [of 5] b [of 6] b [of 7]
    by (simp add: r output_of_code_def)
  then show ?thesis using assms(1-3) by (simp add: decode_lighting_state_def view_of_lighting_def)
qed

section \<open>Security\<close>

definition view_of_security :: "security_snapshot \<Rightarrow> u32 \<Rightarrow> security_view \<Rightarrow> security_view" where
  "view_of_security sn now x = x\<lparr>xv_mode := sn_mode sn, xv_start_inhibit := sn_start_inhibit sn,
     xv_alarm_active := sn_alarm_active sn, xv_shock_warning := sn_shock_warning sn,
     xv_shock_trigger := sn_shock_trigger sn, xv_engine_running := sn_engine_running sn,
     xv_valid := True, xv_updated_at_ms := now\<rparr>"

lemma security_state_payload:
  "take 6 (pkt_payload (security_state_packet sn d)) =
    [mode_code (sn_mode sn), flag_byte (sn_start_inhibit sn), flag_byte (sn_alarm_active sn),
     flag_byte (sn_shock_warning sn), flag_byte (sn_shock_trigger sn), flag_byte (sn_engine_running sn)]"
  by (simp add: security_state_packet_def default_packet_def eval_nat_numeral Let_def)

lemma flag_byte_simps [simp]: "\<not> flag_byte b > 1" "(flag_byte b \<noteq> 0) = b" "(flag_byte b = 0) = (\<not> b)"
  by (simp_all add: flag_byte_def)

lemma security_state_decoded:
  assumes "pkt_source q = addr_Security" and "pkt_type q = msg_SecurityState" and "pkt_length q = 6"
    and "\<And>i. i < 6 \<Longrightarrow> pkt_payload q ! i = pkt_payload (security_state_packet sn d) ! i"
  shows "decode_security_state q now mc =
    (True, mc\<lparr>mc_security := view_of_security sn now (mc_security mc)\<rparr>)"
proof -
  have b: "pkt_payload q ! i = [mode_code (sn_mode sn), flag_byte (sn_start_inhibit sn), flag_byte (sn_alarm_active sn),
     flag_byte (sn_shock_warning sn), flag_byte (sn_shock_trigger sn), flag_byte (sn_engine_running sn)] ! i"
    if "i < 6" for i
    using take_nth_cong [OF security_state_payload that] assms(4) [OF that] that by simp
  have r: "[Suc 0..<6] = [1, 2, 3, 4, 5::nat]" by (simp add: upt_conv_Cons)
  show ?thesis
    using assms(1-3) b [of 0] b [of 1] b [of 2] b [of 3] b [of 4] b [of 5] code_bounds(2) [of "sn_mode sn"]
    by (simp add: decode_security_state_def Let_def view_of_security_def r del: mode_code.simps)
qed

section \<open>Electrical diagnostics and faults\<close>

lemma evaluate_output [simp]: "cd_output (evaluate_channel env d o1 h) = o1"
  by (simp add: evaluate_channel_def Let_def split: prod.split)

definition diagnostic_bytes :: "channel_diagnostic \<Rightarrow> u8 list" where
  "diagnostic_bytes cd = [output_code (cd_output cd), if cd_driven cd then 1 else 0,
     if cd_feedback_available cd then 1 else 0, status_code (cd_status cd), hi8 (cd_current_ma cd),
     lo8 (cd_current_ma cd)]"

lemma put_diagnostic_payload:
  assumes "length (pkt_payload p) = 128" and "i < 4"
  shows "pkt_payload (put_diagnostic cd (i * 6) p) ! j =
    (if i * 6 \<le> j \<and> j < i * 6 + 6 then diagnostic_bytes cd ! (j - i * 6) else pkt_payload p ! j)"
proof -
  consider "j < i * 6" | "j = i * 6" | "j = i * 6 + 1" | "j = i * 6 + 2" | "j = i * 6 + 3" | "j = i * 6 + 4"
    | "j = i * 6 + 5" | "j \<ge> i * 6 + 6" by linarith
  then show ?thesis using assms
    by cases (simp_all add: put_diagnostic_def Let_def diagnostic_bytes_def nth_list_update)
qed

lemma put_diagnostic_length [simp]: "length (pkt_payload (put_diagnostic cd i p)) = length (pkt_payload p)"
  by (simp add: put_diagnostic_def Let_def)

lemma diagnostics_payload:
  assumes "i < 4" and "k < 6"
  shows "pkt_payload (diagnostics_packet env d h a) ! (i * 6 + k) =
    diagnostic_bytes (evaluate_channel env d (kOutputs ! i) h) ! k"
proof -
  have len: "length (pkt_payload default_packet) = 128" by (simp add: default_packet_def)
  have flags: "pkt_payload (case x of (b, p) \<Rightarrow> if b then p\<lparr>pkt_flags := f p\<rparr> else p) = pkt_payload (snd x)" for x f
    by (cases x) simp
  have i: "i = 0 \<or> i = 1 \<or> i = 2 \<or> i = 3" using assms(1) by auto
  show ?thesis
    unfolding diagnostics_packet_def flags kOutputs_def
    using i assms(2) put_diagnostic_payload [of _ 0] put_diagnostic_payload [of _ 1]
      put_diagnostic_payload [of _ 2] put_diagnostic_payload [of _ 3]
    by (auto simp: Let_def len)
qed

lemma diagnostics_packet_sel [simp]:
  "pkt_type (diagnostics_packet env d h a) = msg_LightingDiagnostic"
  "pkt_length (diagnostics_packet env d h a) = 24"
  "pkt_destination (diagnostics_packet env d h a) = a"
proof -
  have p: "pkt_type (put_diagnostic cd i p) = pkt_type p" "pkt_length (put_diagnostic cd i p) = pkt_length p"
    "pkt_destination (put_diagnostic cd i p) = pkt_destination p" for cd i p
    by (simp_all add: put_diagnostic_def Let_def)
  show "pkt_type (diagnostics_packet env d h a) = msg_LightingDiagnostic"
    "pkt_length (diagnostics_packet env d h a) = 24"
    "pkt_destination (diagnostics_packet env d h a) = a"
    by (simp_all add: diagnostics_packet_def kOutputs_def Let_def p)
qed

lemma lighting_diagnostics_decoded:
  assumes "pkt_source q = addr_Lighting" and "pkt_type q = msg_LightingDiagnostic" and "pkt_length q = 24"
    and "\<And>i. i < 24 \<Longrightarrow> pkt_payload q ! i = pkt_payload (diagnostics_packet env d h a) ! i"
  shows "\<exists>cs. decode_lighting_diagnostics q now mc =
      (True, mc\<lparr>mc_diagnostics := \<lparr>dv_valid = True, dv_channels = cs, dv_updated_at_ms = now\<rparr>\<rparr>)
    \<and> (\<forall>o1. cs (index_for o1) = evaluate_channel env d o1 h)"
proof -
  let ?e = "\<lambda>o1. evaluate_channel env d o1 h"
  have b: "pkt_payload q ! (i * 6 + k) = diagnostic_bytes (?e (kOutputs ! i)) ! k" if "i < 4" "k < 6" for i k
    using assms(4) [of "i * 6 + k"] diagnostics_payload [OF that, of env d h a] that by simp
  have r: "[0..<4] = [0, 1, 2, 3::nat]" by (simp add: upt_conv_Cons)
  have cell: "read_lighting_channels (pkt_payload q) (i # is) cs =
      read_lighting_channels (pkt_payload q) is (cs(i := ?e (kOutputs ! i)))" if "i < 4" for i is' cs "is"
  proof -
    obtain dr fb st cu where X: "?e (kOutputs ! i) = \<lparr>cd_output = kOutputs ! i, cd_driven = dr,
        cd_feedback_available = fb, cd_status = st, cd_current_ma = cu\<rparr>"
      using evaluate_output [of env d "kOutputs ! i" h] by (cases "?e (kOutputs ! i)") auto
    show ?thesis
      using b [OF that, of 0] b [OF that, of 1] b [OF that, of 2] b [OF that, of 3] b [OF that, of 4]
        b [OF that, of 5] code_bounds(1) [of st]
      by (simp add: diagnostic_bytes_def X del: status_code.simps)
  qed
  let ?cs = "(dv_channels default_diagnostic_snapshot)(0 := ?e LeftIndicator, 1 := ?e RightIndicator,
      2 := ?e BrakeBright, 3 := ?e HighBeam)"
  have "read_lighting_channels (pkt_payload q) [0..<4] (dv_channels default_diagnostic_snapshot) = Some ?cs"
    unfolding r by (simp add: cell kOutputs_def del: read_lighting_channels.simps(2))
  moreover have "?cs (index_for o1) = ?e o1" for o1 by (cases o1) simp_all
  ultimately show ?thesis using assms(1-3)
    by (intro exI [of _ ?cs]) (simp add: decode_lighting_diagnostics_def del: fun_upd_apply)
qed

lemma fault_packet_payload:
  "take 8 (pkt_payload (fault_packet o1 r ty)) = [1, output_code o1, status_code (fr_latched_status r),
     if fr_shutdown_applied r then 1 else 0, byte32 3 (fr_occurrence_count r),
     byte32 2 (fr_occurrence_count r), byte32 1 (fr_occurrence_count r), byte32 0 (fr_occurrence_count r)]"
  by (simp add: fault_packet_def default_packet_def eval_nat_numeral Let_def)

lemma lighting_fault_decoded:
  assumes "pkt_source q = addr_Lighting" and "pkt_type q = ty" and "ty = msg_Fault \<or> ty = msg_FaultClear"
    and "pkt_length q = 8" and "\<And>i. i < 8 \<Longrightarrow> pkt_payload q ! i = pkt_payload (fault_packet o1 r ty) ! i"
  shows "decode_lighting_fault q now mc = (True, mc\<lparr>mc_faults := (mc_faults mc)(index_for o1 :=
     \<lparr>fv_latched = (ty = msg_Fault), fv_status = (if ty = msg_Fault then fr_latched_status r else ES_Off),
      fv_shutdown_applied = (ty = msg_Fault \<and> fr_shutdown_applied r),
      fv_occurrence_count = fr_occurrence_count r, fv_updated_at_ms = now\<rparr>)\<rparr>)"
proof -
  have b: "pkt_payload q ! i = [1, output_code o1, status_code (fr_latched_status r),
     if fr_shutdown_applied r then 1 else 0, byte32 3 (fr_occurrence_count r),
     byte32 2 (fr_occurrence_count r), byte32 1 (fr_occurrence_count r), byte32 0 (fr_occurrence_count r)] ! i"
    if "i < 8" for i
    using take_nth_cong [OF fault_packet_payload that] assms(5) [OF that] that by simp
  show ?thesis
    using assms(1-4) b [of 0] b [of 1] b [of 2] b [of 3] b [of 4] b [of 5] b [of 6] b [of 7]
      code_bounds(1) [of "fr_latched_status r"]
    by (auto simp: decode_lighting_fault_def Let_def read_u32_def read_u32_be_def
      simp del: status_code.simps)
qed

section \<open>Northbridge diagnostics\<close>

definition view_of_port :: "port_stats \<Rightarrow> port_snapshot" where
  "view_of_port s = \<lparr>pv_attached = True, pv_rx_packets = ps_rx_packets s, pv_tx_packets = ps_tx_packets s,
     pv_rx_bytes = ps_rx_bytes s, pv_dropped_packets = ps_dropped_packets s,
     pv_malformed_frames = ps_malformed_frames s\<rparr>"

definition view_of_ports :: "northbridge \<Rightarrow> u8 list \<Rightarrow> (nat \<Rightarrow> port_snapshot) \<Rightarrow> nat \<Rightarrow> port_snapshot" where
  "view_of_ports nb ps acc = fold (\<lambda>q acc. if nb_transports nb ! unat q \<noteq> None
     then acc(unat q := view_of_port (nb_port_stats nb ! unat q)) else acc) ps acc"

lemma view_of_ports_at:
  "view_of_ports nb ps acc i = (if \<exists>q\<in>set ps. unat q = i \<and> nb_transports nb ! i \<noteq> None
     then view_of_port (nb_port_stats nb ! i) else acc i)"
  by (induction ps arbitrary: acc) (auto simp: view_of_ports_def)

text \<open>What the port loop writes for one port.\<close>

definition port_packet :: "northbridge \<Rightarrow> u8 \<Rightarrow> nat \<Rightarrow> packet \<Rightarrow> packet" where
  "port_packet nb q offset p =
    (let s = nb_port_stats nb ! unat q
     in put_u32 (offset + 17) (ps_malformed_frames s) (put_u32 (offset + 13) (ps_dropped_packets s)
       (put_u32 (offset + 9) (ps_rx_bytes s) (put_u32 (offset + 5) (ps_tx_packets s)
         (put_u32 (offset + 1) (ps_rx_packets s) (set_payload offset q p))))))"

lemma nb_diag_ports_Cons:
  "nb_diag_ports nb (q # qs) offset p =
    (if nb_transports nb ! unat q = None then nb_diag_ports nb qs offset p
     else if offset + 20 \<ge> kMaxPayloadSize then None
     else nb_diag_ports nb qs (offset + 21) (port_packet nb q offset p))"
  by (simp add: port_packet_def Let_def)

lemma port_packet_wf [simp]: "wf_packet (port_packet nb q off p) = wf_packet p"
  by (simp add: port_packet_def put_u32_eq Let_def)

lemma port_packet_other: "j < off \<Longrightarrow> pkt_payload (port_packet nb q off p) ! j = pkt_payload p ! j"
  by (simp add: port_packet_def put_u32_eq Let_def)

lemma port_packet_bytes:
  fixes nb :: northbridge and q :: u8
  assumes "wf_packet p" and "off + 20 < kMaxPayloadSize"
  defines "s \<equiv> nb_port_stats nb ! unat q" and "b \<equiv> pkt_payload (port_packet nb q off p)"
  shows "b ! off = q" "read_u32_be b (off + 1) = ps_rx_packets s" "read_u32_be b (off + 5) = ps_tx_packets s"
    "read_u32_be b (off + 9) = ps_rx_bytes s" "read_u32_be b (off + 13) = ps_dropped_packets s"
    "read_u32_be b (off + 17) = ps_malformed_frames s"
  using assms(1,2) unfolding s_def b_def
  by (simp_all add: port_packet_def put_u32_eq Let_def read_u32_be_def wf_packet_def nth_list_update)

lemma nb_diag_ports_prefix:
  "nb_diag_ports nb qs off p = Some (p', off') \<Longrightarrow> j < off \<Longrightarrow> pkt_payload p' ! j = pkt_payload p ! j"
proof (induction qs arbitrary: off p)
  case (Cons q qs)
  then show ?case
    by (fastforce simp: nb_diag_ports_Cons port_packet_other simp del: nb_diag_ports.simps split: if_splits)
qed simp

lemma read_ports_diag:
  assumes "nb_diag_ports nb qs off p = Some (p', off')" and "wf_packet p"
    and "\<forall>q\<in>set qs. unat q < kMaxRouterPorts"
    and "\<And>j. off \<le> j \<Longrightarrow> j < off' \<Longrightarrow> pkt_payload r ! j = pkt_payload p' ! j"
  shows "read_ports r (length (filter (\<lambda>q. nb_transports nb ! unat q \<noteq> None) qs)) off acc =
    Some (view_of_ports nb qs acc)"
  using assms
proof (induction qs arbitrary: off p acc)
  case (Cons q qs)
  show ?case
  proof (cases "nb_transports nb ! unat q = None")
    case True
    with Cons show ?thesis by (simp add: nb_diag_ports_Cons view_of_ports_def del: nb_diag_ports.simps)
  next
    case False
    have off: "off + 20 < kMaxPayloadSize"
      and rec: "nb_diag_ports nb qs (off + 21) (port_packet nb q off p) = Some (p', off')"
      using Cons.prems(1) False by (auto simp: nb_diag_ports_Cons simp del: nb_diag_ports.simps split: if_splits)
    have off': "off + 21 \<le> off'" using nb_diag_ports_Some [OF rec] by simp
    have b: "pkt_payload r ! j = pkt_payload (port_packet nb q off p) ! j" if "off \<le> j" "j < off + 21" for j
      using Cons.prems(4) [of j] nb_diag_ports_prefix [OF rec that(2)] that off' by simp
    have u: "read_u32 r k = read_u32_be (pkt_payload (port_packet nb q off p)) k"
      if "off \<le> k" "k + 3 < off + 21" for k
      using that b by (simp add: read_u32_def read_u32_be_def)
    have port: "pkt_payload r ! off = q" using b [of off] port_packet_bytes(1) [OF Cons.prems(2) off] by simp
    have IH: "read_ports r (length (filter (\<lambda>q. nb_transports nb ! unat q \<noteq> None) qs)) (off + 21) acc' =
        Some (view_of_ports nb qs acc')" for acc'
      using Cons.prems by (intro Cons.IH [OF rec]) auto
    have view: "\<lparr>pv_attached = True, pv_rx_packets = read_u32 r (off + 1), pv_tx_packets = read_u32 r (off + 5),
        pv_rx_bytes = read_u32 r (off + 9), pv_dropped_packets = read_u32 r (off + 13),
        pv_malformed_frames = read_u32 r (off + 17)\<rparr> = view_of_port (nb_port_stats nb ! unat q)"
      using u [of "off + 1"] u [of "off + 5"] u [of "off + 9"] u [of "off + 13"] u [of "off + 17"]
        port_packet_bytes [OF Cons.prems(2) off, of nb q]
      by (simp add: view_of_port_def)
    have "\<not> unat q \<ge> kMaxRouterPorts" using Cons.prems(3) by simp
    with False view IH port show ?thesis by (simp add: view_of_ports_def Let_def)
  qed
qed (simp add: view_of_ports_def)

lemma northbridge_diagnostics_decoded:
  assumes "nb_inv nb" and "nb_diag_ports nb port_numbers 18 (nb_diag_head a nb) = Some (p, off)"
    and "pkt_source q = addr_Northbridge" and "pkt_type q = msg_Diagnostic" and "pkt_length q = word_of_nat off"
    and "\<And>i. i < off \<Longrightarrow> pkt_payload q ! i = pkt_payload p ! i"
  shows "decode_northbridge_diagnostics q now mc = (True, mc\<lparr>mc_northbridge := (mc_northbridge mc)
    \<lparr>nv_valid := True, nv_forwarded_packets := nb_forwarded_packets nb,
     nv_dropped_packets := nb_dropped_packets nb, nv_route_movement_events := nb_route_movement_events nb,
     nv_topology_fault_events := nb_topology_fault_events nb,
     nv_ports := (\<lambda>i. if i < kMaxRouterPorts \<and> nb_transports nb ! i \<noteq> None
        then view_of_port (nb_port_stats nb ! i) else default_port_snapshot),
     nv_updated_at_ms := now\<rparr>\<rparr>)"
proof -
  let ?n = "length (filter (\<lambda>q. nb_transports nb ! unat q \<noteq> None) port_numbers)"
  have off: "off = 18 + 21 * attached_count nb"
    using nb_diag_ports_Some [OF assms(2)] attached_count_ports [OF nb_inv_transports [OF assms(1)]] by simp
  have "nb_diag_ports nb port_numbers 18 (nb_diag_head a nb) \<noteq> None" using assms(2) by simp
  then have n5: "attached_count nb \<le> 5"
    unfolding nb_diag_ports_None attached_count_ports [OF nb_inv_transports [OF assms(1)]] Let_def by auto
  have pre: "pkt_payload q ! i = pkt_payload (nb_diag_head a nb) ! i" if "i < 18" for i
    using assms(6) [of i] nb_diag_ports_prefix [OF assms(2) that] that off by simp
  have len: "length (pkt_payload default_packet) = 128" by (simp add: default_packet_def)
  have head: "pkt_payload (nb_diag_head a nb) ! 0 = 2"
    "pkt_payload (nb_diag_head a nb) ! 1 = word_of_nat (attached_count nb)"
    "read_u32_be (pkt_payload (nb_diag_head a nb)) 2 = nb_forwarded_packets nb"
    "read_u32_be (pkt_payload (nb_diag_head a nb)) 6 = nb_dropped_packets nb"
    "read_u32_be (pkt_payload (nb_diag_head a nb)) 10 = nb_route_movement_events nb"
    "read_u32_be (pkt_payload (nb_diag_head a nb)) 14 = nb_topology_fault_events nb"
    by (simp_all add: nb_diag_head_def put_u32_eq Let_def read_u32_be_def len)
  have rd: "read_u32 q k = read_u32_be (pkt_payload (nb_diag_head a nb)) k" if "k + 3 < 18" for k
    using pre that by (simp add: read_u32_def read_u32_be_def)
  have cnt: "unat (word_of_nat (attached_count nb) :: u8) = attached_count nb"
    using n5 by (simp add: unat_of_nat)
  have l: "unat (word_of_nat (18 + attached_count nb * 21) :: u16) = 18 + attached_count nb * 21"
    using n5 by (simp only: unat_of_nat) simp
  have len8: "pkt_length q = word_of_nat (18 + attached_count nb * 21)"
    using assms(5) by (simp only: off mult.commute)
  have l18: "unat (pkt_length q) = 18 + attached_count nb * 21" unfolding len8 by (rule l)
  then have "\<not> unat (pkt_length q) < unat (18 :: u16)" by simp
  then have lens: "\<not> pkt_length q < 18" "pkt_length q = of_nat (18 + attached_count nb * 21)"
    unfolding word_less_nat_alt using len8 by blast+
  have "\<forall>x\<in>set port_numbers. unat x < kMaxRouterPorts" by (auto simp: port_numbers_def unat_of_nat)
  then have ports: "read_ports q ?n 18 acc = Some (view_of_ports nb port_numbers acc)" for acc
    using assms(6) by (intro read_ports_diag [OF assms(2)]) simp_all
  have views: "view_of_ports nb port_numbers (\<lambda>_. default_port_snapshot) =
      (\<lambda>i. if i < kMaxRouterPorts \<and> nb_transports nb ! i \<noteq> None
        then view_of_port (nb_port_stats nb ! i) else default_port_snapshot)"
    by (rule ext) (auto simp: view_of_ports_at port_numbers_def unat_of_nat image_iff)
  show ?thesis
    using assms(3,4) pre [of 0] pre [of 1] head cnt lens n5 ports rd [of 2] rd [of 6] rd [of 10] rd [of 14]
      attached_count_ports [OF nb_inv_transports [OF assms(1)]]
    by (simp add: decode_northbridge_diagnostics_def Let_def views)
qed

end
