(* ===== verification/NetProperties.thy ===== *)
theory NetProperties
  imports NetRouter Dashboard
begin

text \<open>
  What the stand-alone northbridge does: it speaks the library's protocol, what it writes while it
  serves a port bears its own address or one bound to that port, it delivers frames unchanged,
  and the main computer reads its diagnostics.
\<close>

section \<open>UARTs\<close>

text \<open>The documented contract: a write that fits into the free transmit buffer takes every byte.\<close>

locale buffered_uart =
  fixes ops :: "'w uart_ops"
  assumes write_fits: "int (length bs) \<le> ua_available_for_write ops u w \<Longrightarrow> fst (hs_write ops u bs w) = length bs"
begin

lemma send_fits:
  assumes "pt_serial pt ! unat port = Some u" and "unat port < NET_PORTS" and "net_sendable p"
    and "int (encoded_size (host_packet p)) \<le> ua_available_for_write ops u w"
  shows "ports_send ops port p pt w =
    (True, pt\<lparr>pt_tx := (pt_tx pt)[unat port := pt_tx pt ! unat port + 1]\<rparr>,
     snd (hs_write ops u (frame_of (host_packet p)) w))"
proof -
  have s: "sendable (host_packet p)" using assms(3) by (rule net_sendable_host)
  have e: "net_encode p (replicate 140 0) 140 =
      (True, frame_of (host_packet p) @ drop (encoded_size (host_packet p)) (replicate 140 0),
       encoded_size (host_packet p))"
    using encode_packet_frame [OF s, of 140 "replicate 140 0"] encoded_size_bounds [OF s]
    by (simp add: net_encode_eq)
  have "fst (hs_write ops u (frame_of (host_packet p)) w) = encoded_size (host_packet p)"
    using write_fits [of "frame_of (host_packet p)" u w] assms(4) length_frame_of [OF s] by simp
  then show ?thesis using assms length_frame_of [OF s]
    by (cases "hs_write ops u (frame_of (host_packet p)) w") (simp add: ports_send_def e)
qed

end

text \<open>UARTs that behave as queues, with \<open>room u\<close> bytes of transmit buffer free.\<close>

definition bench_uart :: "(nat \<Rightarrow> int) \<Rightarrow> serial_world uart_ops" where
  "bench_uart room = \<lparr>hs_available = hs_available queue_serial, hs_read = hs_read queue_serial,
     hs_write = hs_write queue_serial, ua_available_for_write = (\<lambda>u w. room u),
     ua_begin = (\<lambda>u baud rx tx w. w)\<rparr>"

lemma bench_uart_sel [simp]:
  "hs_available (bench_uart room) u w = int (length (sw_rx w u))"
  "hs_read (bench_uart room) u w = (case sw_rx w u of [] \<Rightarrow> (- 1, w)
     | b # bs \<Rightarrow> (uint b, w\<lparr>sw_rx := (sw_rx w)(u := bs)\<rparr>))"
  "hs_write (bench_uart room) u bs w = (length bs, w\<lparr>sw_tx := sw_tx w @ [(u, bs)]\<rparr>)"
  "ua_available_for_write (bench_uart room) u w = room u" "ua_begin (bench_uart room) u bd rx tx w = w"
  by (simp_all add: bench_uart_def)

interpretation bench_uart: buffered_uart "bench_uart room" for room
  by unfold_locales simp

lemma net_setup_eq:
  "net_setup (bench_uart room) w = (net_router_init, net_ports_init\<lparr>pt_serial := [Some 1, Some 2, Some 0]\<rparr>, w)"
  by (simp add: net_setup_def ports_begin_def net_ports_init_def Let_def numeral_eq_Suc)

section \<open>State of the ports\<close>

definition net_ports_inv :: "net_ports \<Rightarrow> bool" where
  "net_ports_inv pt \<longleftrightarrow> pt_serial pt = [Some 1, Some 2, Some 0] \<and> length (pt_parsers pt) = NET_PORTS
     \<and> length (pt_rx pt) = NET_PORTS \<and> length (pt_tx pt) = NET_PORTS \<and> (\<forall>s\<in>set (pt_parsers pt). net_parser_inv s)"

lemma net_ports_inv_setup: "net_ports_inv (net_ports_init\<lparr>pt_serial := [Some 1, Some 2, Some 0]\<rparr>)"
  using net_parser_inv_init by (simp add: net_ports_inv_def net_ports_init_def)

lemma net_ports_inv_sel:
  assumes "net_ports_inv pt"
  shows "pt_serial pt ! 0 = Some 1" "pt_serial pt ! Suc 0 = Some 2" "pt_serial pt ! 2 = Some 0"
    "length (pt_parsers pt) = 3" "length (pt_rx pt) = 3" "length (pt_tx pt) = 3"
  using assms by (simp_all add: net_ports_inv_def)

lemma net_ports_inv_parser: "net_ports_inv pt \<Longrightarrow> i < 3 \<Longrightarrow> net_parser_inv (pt_parsers pt ! i)"
  by (simp add: net_ports_inv_def)

lemma net_ports_inv_update [simp]:
  "net_ports_inv (pt\<lparr>pt_tx := (pt_tx pt)[i := n]\<rparr>) = net_ports_inv pt"
  "net_ports_inv (pt\<lparr>pt_rx := (pt_rx pt)[i := n]\<rparr>) = net_ports_inv pt"
  by (simp_all add: net_ports_inv_def)

lemma net_ports_inv_parsers:
  "net_ports_inv pt \<Longrightarrow> net_parser_inv s \<Longrightarrow> net_ports_inv (pt\<lparr>pt_parsers := (pt_parsers pt)[i := s]\<rparr>)"
  by (auto simp: net_ports_inv_def dest: set_list_update_subset)

text \<open>Packets that come out of a parser can be sent on.\<close>

lemma net_push_sendable:
  assumes "net_parser_inv s" and "net_push s b p = (ok, s', q)" and "length (np_payload p) = NET_MAX_PAYLOAD"
  shows "length (np_payload q) = NET_MAX_PAYLOAD" and "ok \<Longrightarrow> net_sendable q"
proof -
  show l: "length (np_payload q) = NET_MAX_PAYLOAD"
    using assms(2,3) by (auto simp: net_push_def Let_def split: if_splits)
  show "net_sendable q" if ok
  proof -
    have "\<not> foreign_header s" using net_push_foreign [OF assms(1), of b p] assms(2) that by auto
    from net_push_host [OF assms(1) this assms(2)] that
    have h: "parser_push (host_parser s) b (host_packet p) = (True, host_parser s', host_packet q)" by simp
    have inv: "parser_inv (host_parser s)" using assms(1) by (simp add: net_parser_inv_def)
    have "unat (np_len q) \<le> 128"
      using inv
    proof (cases "host_parser s" rule: push_cases)
      case complete
      with h have "\<exists>st. decode_packet (Some ((nq_buffer s)[nq_used s := b])) (nq_expected s) (host_packet p) =
          (st, host_packet q) \<and> st = Ok"
        by (auto simp: push_complete [OF inv] split: prod.splits if_splits)
      then show ?thesis
        by (auto simp: decode_packet_def Let_def host_packet_def not_less split: if_splits)
    qed (use h inv in \<open>auto simp: push_idle push_sync push_collect push_header split: if_splits\<close>)
    with l show ?thesis by (simp add: net_sendable_def)
  qed
qed

section \<open>Receiving\<close>

text \<open>From a queue the receive loop takes the bytes up to the next packet.\<close>

lemma receive_bytes_bench:
  assumes "net_until (pt_parsers pt ! i) p bs = (True, s, q, rest)" and "length bs \<le> n" and "sw_rx w u = bs @ later"
    and "net_ports_inv pt" and "i < 3"
  shows "receive_bytes (bench_uart room) i u n p pt w =
    (True, q, pt\<lparr>pt_parsers := (pt_parsers pt)[i := s], pt_rx := (pt_rx pt)[i := pt_rx pt ! i + 1]\<rparr>,
     w\<lparr>sw_rx := (sw_rx w)(u := rest @ later)\<rparr>)"
  using assms
proof (induction n arbitrary: bs p pt w)
  case (Suc n)
  from Suc.prems(1) obtain b bs' where bs: "bs = b # bs'" by (cases bs) auto
  obtain ok s1 q1 where push: "net_push (pt_parsers pt ! i) b p = (ok, s1, q1)" by (metis prod_cases3)
  have len: "length (pt_parsers pt) = 3" using Suc.prems(4) by (simp add: net_ports_inv_def)
  let ?pt = "pt\<lparr>pt_parsers := (pt_parsers pt)[i := s1]\<rparr>" and ?w = "w\<lparr>sw_rx := (sw_rx w)(u := bs' @ later)\<rparr>"
  show ?case
  proof (cases ok)
    case True
    then show ?thesis using Suc.prems push by (simp add: bs fun_upd_def)
  next
    case False
    then have u: "net_until (pt_parsers ?pt ! i) q1 bs' = (True, s, q, rest)"
      using Suc.prems(1,5) push len by (simp add: bs)
    have "net_parser_inv s1"
      using net_parser_inv_push [OF net_ports_inv_parser [OF Suc.prems(4,5)] push] .
    then have inv: "net_ports_inv ?pt" by (rule net_ports_inv_parsers [OF Suc.prems(4)])
    have "sw_rx ?w u = bs' @ later" "length bs' \<le> n" using Suc.prems(2) by (simp_all add: bs)
    from Suc.IH [OF u this(2,1) inv Suc.prems(5)] show ?thesis
      using Suc.prems(3) push False by (simp add: bs fun_upd_def cong: if_cong)
  qed
qed simp

lemma receive_bytes_empty:
  "sw_rx w u = [] \<Longrightarrow> receive_bytes (bench_uart room) i u n p pt w = (False, p, pt, w)"
  by (cases n) simp_all

text \<open>The bytes of one frame fit the budget of one call.\<close>

lemma ports_receive_frame:
  assumes "net_ports_inv pt" and "nq_used (pt_parsers pt ! unat i) = 0" and "sendable h"
    and "pt_serial pt ! unat i = Some u" and "unat i < NET_PORTS" and "sw_rx w u = frame_of h @ later"
  shows "\<exists>s q. ports_receive (bench_uart room) i default_net_packet pt w =
      (True, q, pt\<lparr>pt_parsers := (pt_parsers pt)[unat i := s],
                   pt_rx := (pt_rx pt)[unat i := pt_rx pt ! unat i + 1]\<rparr>,
       w\<lparr>sw_rx := (sw_rx w)(u := later)\<rparr>)
    \<and> net_parser_inv s \<and> nq_used s = 0 \<and> host_packet q = received h"
proof -
  have c: "net_collected (nq_rejected (pt_parsers pt ! unat i)) (take 0 (frame_of h)) (pt_parsers pt ! unat i)"
    using assms(1,2,5) net_ports_inv_parser by (simp add: net_collected_idle)
  have l: "0 < length (frame_of h)" "length (frame_of h) \<le> 256"
    using length_frame_of [OF assms(3)] encoded_size_bounds [OF assms(3)] by simp_all
  from net_until_frame [OF c l(1) assms(3), of default_net_packet "[]"] obtain s q where
    n: "net_until (pt_parsers pt ! unat i) default_net_packet (frame_of h) = (True, s, q, [])"
    and s: "net_collected (nq_rejected (pt_parsers pt ! unat i)) [] s"
    and q: "host_packet q = received h"
    by (auto simp: received_def default_net_packet_def)
  from receive_bytes_bench [OF n l(2) assms(6,1)] assms(4,5) s q
  show ?thesis by (auto simp: ports_receive_def net_collected_idle)
qed

section \<open>Sending\<close>

definition uart_of :: "u8 \<Rightarrow> nat" where
  "uart_of port = (if port = 0 then 1 else if port = 1 then 2 else 0)"

lemma port_cases: "unat (port :: u8) < 3 \<Longrightarrow> port = 0 \<or> port = 1 \<or> port = 2"
proof -
  assume "unat port < 3"
  then have "unat port = unat (0 :: u8) \<or> unat port = unat (1 :: u8) \<or> unat port = unat (2 :: u8)" by auto
  then show ?thesis by (simp only: word_unat_eq_iff)
qed

lemma serial_uart: "net_ports_inv pt \<Longrightarrow> unat port < 3 \<Longrightarrow> pt_serial pt ! unat port = Some (uart_of port)"
  using port_cases [of port] by (auto simp: net_ports_inv_def uart_of_def)

lemma ports_send_bench:
  assumes "net_ports_inv pt" and "net_sendable q" and "unat port < 3"
  shows "ports_send (bench_uart room) port q pt w =
    (if int (encoded_size (host_packet q)) \<le> room (uart_of port)
     then (True, pt\<lparr>pt_tx := (pt_tx pt)[unat port := pt_tx pt ! unat port + 1]\<rparr>,
           w\<lparr>sw_tx := sw_tx w @ [(uart_of port, frame_of (host_packet q))]\<rparr>)
     else (False, pt, w))"
proof (cases "int (encoded_size (host_packet q)) \<le> room (uart_of port)")
  case True
  have "unat port < NET_PORTS" using assms(3) by simp
  from bench_uart.send_fits [OF serial_uart [OF assms(1,3)] this assms(2), of room w] True
  show ?thesis by simp
next
  case False
  have s: "sendable (host_packet q)" using assms(2) by (rule net_sendable_host)
  have "net_encode q (replicate 140 0) 140 =
      (True, frame_of (host_packet q) @ drop (encoded_size (host_packet q)) (replicate 140 0),
       encoded_size (host_packet q))"
    using encode_packet_frame [OF s, of 140 "replicate 140 0"] encoded_size_bounds [OF s]
    by (simp add: net_encode_eq)
  with False assms show ?thesis by (simp add: ports_send_def serial_uart)
qed

text \<open>Log entries added, all of one kind.\<close>

definition wrote :: "(nat \<times> u8 list \<Rightarrow> bool) \<Rightarrow> serial_world \<Rightarrow> serial_world \<Rightarrow> bool" where
  "wrote P w w' \<longleftrightarrow> (\<exists>xs. sw_tx w' = sw_tx w @ xs \<and> (\<forall>x\<in>set xs. P x))"

lemma wrote_refl [simp]: "wrote P w w"
  by (simp add: wrote_def)

lemma wrote_trans: "wrote P u v \<Longrightarrow> wrote P v w \<Longrightarrow> wrote P u w"
  by (fastforce simp: wrote_def)

lemma wrote_one: "P x \<Longrightarrow> wrote P w (w\<lparr>sw_tx := sw_tx w @ [x]\<rparr>)"
  by (simp add: wrote_def)

lemma wrote_same: "sw_tx w' = sw_tx w \<Longrightarrow> wrote P w w'"
  by (simp add: wrote_def)

text \<open>
  A frame of the sketch's own, or one whose source address is bound to the port being served and
  which leaves through another UART.
\<close>

definition genuine :: "u8 \<Rightarrow> nat \<times> u8 list \<Rightarrow> bool" where
  "genuine port x \<longleftrightarrow> (\<exists>q. net_sendable q \<and> snd x = frame_of (host_packet q) \<and>
     (np_src q = NET_NORTH \<or> net_port_of (np_src q) = port \<and> fst x \<noteq> uart_of port))"

lemma ports_send_genuine:
  assumes "net_ports_inv pt" and "net_sendable q" and "unat e < 3"
    and "np_src q = NET_NORTH \<or> net_port_of (np_src q) = port \<and> uart_of e \<noteq> uart_of port"
    and "ports_send (bench_uart room) e q pt w = (ok, pt', w')"
  shows "net_ports_inv pt' \<and> wrote (genuine port) w w'"
proof -
  have "genuine port (uart_of e, frame_of (host_packet q))" using assms(2,4) by (auto simp: genuine_def)
  then show ?thesis using assms(1,5) ports_send_bench [OF assms(1-3), of room w]
    by (auto intro: wrote_one split: if_splits)
qed

lemma net_set_sel [simp]:
  "np_src (net_set i b p) = np_src p" "np_dst (net_set i b p) = np_dst p" "np_type (net_set i b p) = np_type p"
  "np_flags (net_set i b p) = np_flags p" "np_seq (net_set i b p) = np_seq p" "np_len (net_set i b p) = np_len p"
  "np_payload (net_set i b p) = (np_payload p)[i := b]"
  by (simp_all add: net_set_def)

lemma net_put32_sel [simp]:
  "np_src (net_put32 i v p) = np_src p" "np_dst (net_put32 i v p) = np_dst p" "np_type (net_put32 i v p) = np_type p"
  "np_flags (net_put32 i v p) = np_flags p" "np_seq (net_put32 i v p) = np_seq p" "np_len (net_put32 i v p) = np_len p"
  "length (np_payload (net_put32 i v p)) = length (np_payload p)"
  by (simp_all add: net_put32_def)

lemma net_diag_ports_sel [simp]:
  "np_src (net_diag_ports pt is p) = np_src p" "np_dst (net_diag_ports pt is p) = np_dst p"
  "np_type (net_diag_ports pt is p) = np_type p" "np_flags (net_diag_ports pt is p) = np_flags p"
  "np_seq (net_diag_ports pt is p) = np_seq p" "length (np_payload (net_diag_ports pt is p)) = length (np_payload p)"
  by (induction "is" arbitrary: p) (simp_all add: Let_def)

lemma net_diag_packet_sel [simp]:
  "np_src (net_diag_packet r pt d) = NET_NORTH" "np_dst (net_diag_packet r pt d) = d"
  "np_type (net_diag_packet r pt d) = NET_DIAGNOSTIC" "np_len (net_diag_packet r pt d) = 81"
  "net_sendable (net_diag_packet r pt d)"
  by (simp_all add: net_diag_packet_def net_sendable_def default_net_packet_def Let_def)

lemma net_reply_genuine:
  assumes "net_ports_inv pt" and "unat e < 3" and "net_reply (bench_uart room) e d t sq r pt w = (r', pt', w')"
  shows "net_ports_inv pt' \<and> wrote (genuine port) w w'"
proof -
  let ?p = "default_net_packet\<lparr>np_src := NET_NORTH, np_dst := d, np_type := t, np_flags := 0x02,
      np_seq := if sq \<noteq> 0 then sq else nr_sequence r\<rparr>"
  have "net_sendable ?p" by (simp add: net_sendable_def default_net_packet_def)
  from ports_send_genuine [OF assms(1) this assms(2), of port room w] assms(3)
  show ?thesis by (auto simp: net_reply_def Let_def split: prod.splits if_splits)
qed

lemma net_local_genuine:
  assumes "net_ports_inv pt" and "unat i < 3" and "net_local (bench_uart room) i p r pt w = (r', pt', w')"
  shows "net_ports_inv pt' \<and> wrote (genuine port) w w'"
proof -
  obtain r1 pt1 w1 where a: "(if np_flags p AND 0x01 \<noteq> 0
      then net_reply (bench_uart room) i (np_src p) NET_ACK (np_seq p) r pt w else (r, pt, w)) = (r1, pt1, w1)"
    by (metis prod_cases3)
  have 1: "net_ports_inv pt1" "wrote (genuine port) w w1"
    using a assms(1) net_reply_genuine [OF assms(1,2), of room "np_src p" NET_ACK "np_seq p" r w r1 pt1 w1 port]
    by (auto split: if_splits)
  have "net_ports_inv pt' \<and> wrote (genuine port) w1 w'"
    using assms(3) 1(1) net_reply_genuine [OF 1(1) assms(2), of room "np_src p" NET_HEARTBEAT 0 r1 w1 r' pt' w' port]
      ports_send_genuine [OF 1(1) net_diag_packet_sel(5) assms(2), of r1 pt1 "np_src p" port room w1]
    unfolding net_local_def a by (auto simp: Let_def split: prod.splits if_splits)
  then show ?thesis using wrote_trans [OF 1(2)] by blast
qed

lemma uart_of_inj: "unat (a :: u8) < 3 \<Longrightarrow> unat b < 3 \<Longrightarrow> uart_of a = uart_of b \<longleftrightarrow> a = b"
  using port_cases [of a] port_cases [of b] by (auto simp: uart_of_def)

lemma net_transmit_genuine:
  assumes "net_ports_inv pt" and "net_sendable p" and "unat e < 3" and "unat i < 3" and "e \<noteq> i"
    and "net_port_of (np_src p) = i" and "net_transmit (bench_uart room) e p r pt w = (r', pt', w')"
  shows "net_ports_inv pt' \<and> wrote (genuine i) w w'"
  using assms ports_send_genuine [OF assms(1,2,3), of i room w] uart_of_inj [OF assms(3,4)]
  by (auto simp: net_transmit_def split: prod.splits)

lemma net_broadcast_genuine:
  assumes "net_ports_inv pt" and "net_sendable p" and "unat i < 3" and "\<forall>e\<in>set es. unat e < 3"
    and "net_port_of (np_src p) = i" and "net_broadcast (bench_uart room) i es p r pt w = (r', pt', w')"
  shows "net_ports_inv pt' \<and> wrote (genuine i) w w'"
  using assms(1,4,6)
proof (induction es arbitrary: r pt w)
  case (Cons e es)
  show ?case
  proof (cases "e = i")
    case False
    obtain r1 pt1 w1 where t: "net_transmit (bench_uart room) e p r pt w = (r1, pt1, w1)" by (metis prod_cases3)
    have 1: "net_ports_inv pt1 \<and> wrote (genuine i) w w1"
      using Cons.prems(2) by (intro net_transmit_genuine [OF Cons.prems(1) assms(2) _ assms(3) False assms(5) t]) simp
    from Cons.IH [of pt1 r1 w1] 1 Cons.prems(2,3) False t wrote_trans [of "genuine i" w w1 w']
    show ?thesis by simp
  qed (use Cons in simp)
qed simp

lemma net_route_genuine:
  assumes "net_ports_inv pt" and "net_sendable p" and "unat i < 3"
    and "net_route (bench_uart room) i p r pt w = (r', pt', w')"
  shows "net_ports_inv pt' \<and> wrote (genuine i) w w'"
proof (cases "np_src p = NET_NORTH \<or> np_src p = NET_BROADCAST \<or> net_port_of (np_src p) \<noteq> i")
  case True
  with assms(1,4) show ?thesis by (auto simp: net_route_def split: if_splits)
next
  case False
  then have bound: "net_port_of (np_src p) = i" by simp
  let ?t = "net_port_of (np_dst p)"
  consider "np_dst p = NET_NORTH" | "np_dst p = NET_BROADCAST"
    | "np_dst p \<noteq> NET_NORTH" "np_dst p \<noteq> NET_BROADCAST" "?t = 255 \<or> ?t = i"
    | "np_dst p \<noteq> NET_NORTH" "np_dst p \<noteq> NET_BROADCAST" "?t \<noteq> 255" "?t \<noteq> i" by blast
  then show ?thesis
  proof cases
    case 1
    with False assms(4) net_local_genuine [OF assms(1,3)] show ?thesis by (simp add: net_route_def)
  next
    case 2
    obtain r1 pt1 w1 where l: "net_local (bench_uart room) i p r pt w = (r1, pt1, w1)" by (metis prod_cases3)
    have 1: "net_ports_inv pt1 \<and> wrote (genuine i) w w1" by (rule net_local_genuine [OF assms(1,3) l])
    have "\<forall>e\<in>set [0, 1, 2 :: u8]. unat e < 3" by simp
    from net_broadcast_genuine [OF conjunct1 [OF 1] assms(2,3) this bound, of room r1 w1 r' pt' w'] 1
      wrote_trans [of "genuine i" w w1 w'] 2 False assms(4) l
    show ?thesis by (simp add: net_route_def)
  next
    case 3
    with False assms(1,4) show ?thesis by (auto simp: net_route_def Let_def)
  next
    case 4
    then have "unat ?t < 3" by (auto simp: net_port_of_def split: if_splits)
    with 4 False assms net_transmit_genuine [OF assms(1,2) this assms(3) _ bound, of room r w r' pt' w']
    show ?thesis by (simp add: net_route_def Let_def)
  qed
qed

text \<open>The receive loop keeps the ports and the log, and hands out sendable packets.\<close>

lemma receive_bytes_keeps:
  assumes "net_ports_inv pt" and "i < 3" and "length (np_payload p) = NET_MAX_PAYLOAD"
    and "receive_bytes (bench_uart room) i u n p pt w = (ok, q, pt', w')"
  shows "net_ports_inv pt' \<and> sw_tx w' = sw_tx w \<and> length (np_payload q) = NET_MAX_PAYLOAD \<and> (ok \<longrightarrow> net_sendable q)"
  using assms(1,3,4)
proof (induction n arbitrary: p pt w)
  case (Suc n)
  show ?case
  proof (cases "sw_rx w u")
    case (Cons b bs)
    obtain ok1 s1 q1 where push: "net_push (pt_parsers pt ! i) b p = (ok1, s1, q1)" by (metis prod_cases3)
    have inv: "net_parser_inv (pt_parsers pt ! i)" by (rule net_ports_inv_parser [OF Suc.prems(1) assms(2)])
    have pt1: "net_ports_inv (pt\<lparr>pt_parsers := (pt_parsers pt)[i := s1]\<rparr>)"
      by (rule net_ports_inv_parsers [OF Suc.prems(1) net_parser_inv_push [OF inv push]])
    note q1 = net_push_sendable [OF inv push Suc.prems(2)]
    show ?thesis
    proof (cases ok1)
      case True
      with Suc.prems(3) push Cons pt1 q1 show ?thesis
        by (auto simp: net_ports_inv_def)
    next
      case False
      with Suc.prems(3) push Cons have "receive_bytes (bench_uart room) i u n q1
          (pt\<lparr>pt_parsers := (pt_parsers pt)[i := s1]\<rparr>) (w\<lparr>sw_rx := (sw_rx w)(u := bs)\<rparr>) = (ok, q, pt', w')"
        by simp
      from Suc.IH [OF pt1 q1(1) this] show ?thesis by simp
    qed
  qed (use Suc.prems in auto)
qed simp

lemma net_service_port_genuine:
  assumes "net_ports_inv pt" and "unat i < 3" and "length (np_payload p) = NET_MAX_PAYLOAD"
    and "net_service_port (bench_uart room) i n p r pt w = (r', pt', w')"
  shows "net_ports_inv pt' \<and> wrote (genuine i) w w'"
  using assms(1,3,4)
proof (induction n arbitrary: p r pt w)
  case (Suc n)
  obtain ok q pt1 w1 where rc: "ports_receive (bench_uart room) i p pt w = (ok, q, pt1, w1)" by (metis prod_cases4)
  have rb: "receive_bytes (bench_uart room) (unat i) (uart_of i) 256 p pt w = (ok, q, pt1, w1)"
    using rc assms(2) serial_uart [OF Suc.prems(1) assms(2)] by (simp add: ports_receive_def)
  have k: "net_ports_inv pt1" "wrote (genuine i) w w1" "length (np_payload q) = NET_MAX_PAYLOAD" "ok \<longrightarrow> net_sendable q"
    using receive_bytes_keeps [OF Suc.prems(1) assms(2) Suc.prems(2) rb] by (simp_all add: wrote_same)
  show ?case
  proof (cases ok)
    case False
    with Suc.prems(3) rc k show ?thesis by simp
  next
    case True
    obtain r1 pt2 w2 where rt: "net_route (bench_uart room) i q r pt1 w1 = (r1, pt2, w2)" by (metis prod_cases3)
    have 2: "net_ports_inv pt2" "wrote (genuine i) w1 w2"
      using net_route_genuine [OF k(1) _ assms(2) rt] k(4) True by auto
    have "net_service_port (bench_uart room) i n q r1 pt2 w2 = (r', pt', w')"
      using Suc.prems(3) rc rt True by simp
    from Suc.IH [OF 2(1) k(3) this] wrote_trans [OF k(2) wrote_trans [OF 2(2)]] show ?thesis by blast
  qed
qed simp

section \<open>Serving one frame\<close>

lemma net_service_port_idle:
  assumes "net_ports_inv pt" and "unat i < 3" and "sw_rx w (uart_of i) = []"
  shows "net_service_port (bench_uart room) i n p r pt w = (r, pt, w)"
  using assms serial_uart [OF assms(1,2)]
  by (cases n) (simp_all add: ports_receive_def receive_bytes_empty)

text \<open>What serving a port does with one waiting frame: it routes the packet and stops.\<close>

lemma net_service_port_one:
  assumes "net_ports_inv pt" and "unat i < 3" and "nq_used (pt_parsers pt ! unat i) = 0" and "sendable h"
    and "sw_rx w (uart_of i) = frame_of h"
    and "\<And>q pt1. host_packet q = received h \<Longrightarrow> net_ports_inv pt1 \<Longrightarrow>
      \<exists>pt2. net_route (bench_uart room) i q r pt1 (w\<lparr>sw_rx := (sw_rx w)(uart_of i := [])\<rparr>) =
        (r', pt2, w\<lparr>sw_rx := (sw_rx w)(uart_of i := []), sw_tx := tx\<rparr>) \<and> net_ports_inv pt2"
  shows "\<exists>pt'. net_service_port (bench_uart room) i 8 default_net_packet r pt w =
      (r', pt', w\<lparr>sw_rx := (sw_rx w)(uart_of i := []), sw_tx := tx\<rparr>) \<and> net_ports_inv pt'"
proof -
  have "unat i < NET_PORTS" "sw_rx w (uart_of i) = frame_of h @ []" using assms(2,5) by simp_all
  from ports_receive_frame [OF assms(1,3,4) serial_uart [OF assms(1,2)] this, of room] obtain st q where
    rc: "ports_receive (bench_uart room) i default_net_packet pt w =
      (True, q, pt\<lparr>pt_parsers := (pt_parsers pt)[unat i := st],
                   pt_rx := (pt_rx pt)[unat i := pt_rx pt ! unat i + 1]\<rparr>,
       w\<lparr>sw_rx := (sw_rx w)(uart_of i := [])\<rparr>)" and st: "net_parser_inv st" and q: "host_packet q = received h"
    by auto
  let ?pt = "pt\<lparr>pt_parsers := (pt_parsers pt)[unat i := st], pt_rx := (pt_rx pt)[unat i := pt_rx pt ! unat i + 1]\<rparr>"
  have "net_ports_inv ?pt"
    using net_ports_inv_parsers [OF assms(1) st, of "unat i"] by (simp add: net_ports_inv_def)
  from assms(6) [OF q this] obtain pt2 where
    rt: "net_route (bench_uart room) i q r ?pt (w\<lparr>sw_rx := (sw_rx w)(uart_of i := [])\<rparr>) =
        (r', pt2, w\<lparr>sw_rx := (sw_rx w)(uart_of i := []), sw_tx := tx\<rparr>)" and inv: "net_ports_inv pt2" by blast
  have "net_service_port (bench_uart room) i 7 q r' pt2 (w\<lparr>sw_rx := (sw_rx w)(uart_of i := []), sw_tx := tx\<rparr>) =
      (r', pt2, w\<lparr>sw_rx := (sw_rx w)(uart_of i := []), sw_tx := tx\<rparr>)"
    by (rule net_service_port_idle [OF inv assms(2)]) simp
  moreover have "(8 :: nat) = Suc 7" by simp
  ultimately show ?thesis using rc rt inv
    by (intro exI [of _ pt2] conjI) (simp only: net_service_port.simps(2) prod.case if_True)
qed

lemma net_service_one:
  assumes "net_ports_inv pt" and "unat i < 3" and "nq_used (pt_parsers pt ! unat i) = 0" and "sendable h"
    and "sw_rx w (uart_of i) = frame_of h" and "\<And>u. u \<noteq> uart_of i \<Longrightarrow> sw_rx w u = []"
    and "\<And>q pt1. host_packet q = received h \<Longrightarrow> net_ports_inv pt1 \<Longrightarrow>
      \<exists>pt2. net_route (bench_uart room) i q r pt1 (w\<lparr>sw_rx := (sw_rx w)(uart_of i := [])\<rparr>) =
        (r', pt2, w\<lparr>sw_rx := (sw_rx w)(uart_of i := []), sw_tx := tx\<rparr>) \<and> net_ports_inv pt2"
  shows "\<exists>pt'. net_service (bench_uart room) r pt w =
      (r', pt', w\<lparr>sw_rx := (sw_rx w)(uart_of i := []), sw_tx := tx\<rparr>) \<and> net_ports_inv pt'"
proof -
  from net_service_port_one [OF assms(1-5,7)] obtain pt' where
    one: "net_service_port (bench_uart room) i 8 default_net_packet r pt w =
      (r', pt', w\<lparr>sw_rx := (sw_rx w)(uart_of i := []), sw_tx := tx\<rparr>)" and inv: "net_ports_inv pt'" by blast
  have before: "net_service_port (bench_uart room) e 8 default_net_packet r pt w = (r, pt, w)"
    if "unat e < 3" "e \<noteq> i" for e
    using that assms(6) uart_of_inj [OF that(1) assms(2)] by (intro net_service_port_idle [OF assms(1)]) simp_all
  let ?w = "w\<lparr>sw_rx := (sw_rx w)(uart_of i := []), sw_tx := tx\<rparr>"
  have after: "net_service_port (bench_uart room) e 8 default_net_packet r' pt' ?w = (r', pt', ?w)"
    if "unat e < 3" "e \<noteq> i" for e
    using that assms(6) uart_of_inj [OF that(1) assms(2)] by (intro net_service_port_idle [OF inv]) simp_all
  from port_cases [OF assms(2)] show ?thesis
    using one inv before [of 0] before [of 1] after [of 1] after [of 2]
    by (auto simp: net_service_def simp del: net_service_port.simps fun_upd_apply)
qed

section \<open>A started sketch\<close>

definition waiting_world :: serial_world where
  "waiting_world = quiet_world\<lparr>sw_rx := (\<lambda>u. if u = 1 then frame_of to_lighting else [])\<rparr>"

definition started_ports :: net_ports where
  "started_ports = fst (snd (net_setup (bench_uart (\<lambda>_. 200)) quiet_world))"

lemma started_ports_inv: "net_ports_inv started_ports"
  using net_ports_inv_setup by (simp add: started_ports_def net_setup_eq)

section \<open>Properties\<close>

text \<open>C20: One protocol, two implementations. The sketch's checksum and encoder compute what the protocol
  library's compute, on every packet and buffer, and every byte pushed into its parser has the
  result, the successor state and the packet of the library's parser, unless that byte completes
  a header of another protocol version: then the sketch rejects the frame at once, where the
  library goes on collecting it.\<close>

theorem sketch_speaks_protocol:
  assumes "net_parser_inv s" and "net_push s b p = (ok, s', q)"
  shows "net_crc16 = crc16_ccitt_false
    \<and> net_encode x f cap = (case encode_packet (host_packet x) (Some f) cap of (k, g, n) \<Rightarrow> (k, the g, n))
    \<and> net_parser_inv s'
    \<and> (if foreign_header s
       then \<not> ok \<and> q = p \<and> nq_used s' = 0 \<and> nq_rejected s' = nq_rejected s + 1
       else parser_push (host_parser s) b (host_packet p) = (ok, host_parser s', host_packet q))"
  using net_push_foreign [OF assms(1), of b p] net_push_host [OF assms(1) _ assms(2)] assms(2)
    net_parser_inv_push [OF assms]
  by (auto simp: net_crc16_eq net_encode_eq net_reject_def net_reset_def)

theorem sketch_speaks_protocol_witness:
  "parser_push (host_parser net_parser_init) NET_SYNC1 (host_packet default_net_packet) =
    (False, host_parser (net_store net_parser_init NET_SYNC1), host_packet default_net_packet)"
proof -
  have n: "net_push net_parser_init NET_SYNC1 default_net_packet =
      (False, net_store net_parser_init NET_SYNC1, default_net_packet)"
    by (simp add: net_push_def net_parser_init_def)
  have "\<not> foreign_header net_parser_init" by (simp add: foreign_header_def net_parser_init_def)
  with sketch_speaks_protocol [OF net_parser_inv_init n] show ?thesis by simp
qed

text \<open>C13: No forged senders. Whatever bytes wait at the UARTs and however full the transmit buffers are,
  every frame one service pass writes is the frame of a packet; while port i is served, it bears
  the northbridge's own address, or an address bound to port i and then leaves through another
  UART. So nothing a peripheral sends comes out under the main computer's address. The parsers
  and counters of the ports stay well-formed.\<close>

theorem sketch_sources_authentic:
  assumes "net_ports_inv pt" and "net_service (bench_uart room) r pt w = (r', pt', w')"
  shows "net_ports_inv pt' \<and> (\<exists>xs0 xs1 xs2. sw_tx w' = sw_tx w @ xs0 @ xs1 @ xs2
    \<and> (\<forall>x\<in>set xs0. genuine 0 x) \<and> (\<forall>x\<in>set xs1. genuine 1 x) \<and> (\<forall>x\<in>set xs2. genuine 2 x))"
proof -
  have p: "length (np_payload default_net_packet) = NET_MAX_PAYLOAD" by (simp add: default_net_packet_def)
  obtain r1 pt1 w1 r2 pt2 w2 where
    s: "net_service_port (bench_uart room) 0 8 default_net_packet r pt w = (r1, pt1, w1)"
      "net_service_port (bench_uart room) 1 8 default_net_packet r1 pt1 w1 = (r2, pt2, w2)"
    by (metis prod_cases3)
  with assms(2) have s3: "net_service_port (bench_uart room) 2 8 default_net_packet r2 pt2 w2 = (r', pt', w')"
    by (simp add: net_service_def)
  have 1: "net_ports_inv pt1 \<and> wrote (genuine 0) w w1"
    by (rule net_service_port_genuine [OF assms(1) _ p s(1)]) simp
  have 2: "net_ports_inv pt2 \<and> wrote (genuine 1) w1 w2"
    by (rule net_service_port_genuine [OF conjunct1 [OF 1] _ p s(2)]) simp
  have 3: "net_ports_inv pt' \<and> wrote (genuine 2) w2 w'"
    by (rule net_service_port_genuine [OF conjunct1 [OF 2] _ p s3]) simp
  from 1 2 3 obtain xs0 xs1 xs2 where "sw_tx w1 = sw_tx w @ xs0" "sw_tx w2 = sw_tx w1 @ xs1" "sw_tx w' = sw_tx w2 @ xs2"
    and g: "\<forall>x\<in>set xs0. genuine 0 x" "\<forall>x\<in>set xs1. genuine 1 x" "\<forall>x\<in>set xs2. genuine 2 x"
    unfolding wrote_def by blast
  then have "sw_tx w' = sw_tx w @ xs0 @ xs1 @ xs2" by simp
  with 3 g show ?thesis by blast
qed

theorem sketch_sources_authentic_witness:
  "\<exists>r' pt' w'. net_service (bench_uart (\<lambda>_. 200)) net_router_init started_ports waiting_world = (r', pt', w')
    \<and> net_ports_inv pt'"
proof -
  obtain r' pt' w' where "net_service (bench_uart (\<lambda>_. 200)) net_router_init started_ports waiting_world = (r', pt', w')"
    by (metis prod_cases3)
  with sketch_sources_authentic [OF started_ports_inv this] show ?thesis by blast
qed

text \<open>C37: Transit. A frame waiting alone at an idle port, neither for the northbridge nor a broadcast, is
  forwarded in one service pass exactly if its source address is bound to that port, its
  destination is a known controller on another port and that UART has room: then the very same
  bytes are written there and counted as forwarded; otherwise nothing is written and the packet is
  counted as dropped.\<close>

theorem sketch_transit:
  assumes "net_ports_inv pt" and "unat i < 3" and "nq_used (pt_parsers pt ! unat i) = 0" and "sendable h"
    and "sw_rx w (uart_of i) = frame_of h" and "\<forall>u. u \<noteq> uart_of i \<longrightarrow> sw_rx w u = []"
    and "pkt_destination h \<noteq> NET_NORTH" and "pkt_destination h \<noteq> NET_BROADCAST"
  shows "let target = net_port_of (pkt_destination h);
      forwards = (net_port_of (pkt_source h) = i \<and> target \<noteq> 255 \<and> target \<noteq> i
        \<and> int (encoded_size h) \<le> room (uart_of target))
    in \<exists>pt'. net_service (bench_uart room) r pt w =
      (if forwards then count_forwarded r else count_dropped r, pt',
       w\<lparr>sw_rx := (sw_rx w)(uart_of i := []),
         sw_tx := (if forwards then sw_tx w @ [(uart_of target, frame_of h)] else sw_tx w)\<rparr>) \<and> net_ports_inv pt'"
proof -
  let ?t = "net_port_of (pkt_destination h)"
  let ?f = "net_port_of (pkt_source h) = i \<and> ?t \<noteq> 255 \<and> ?t \<noteq> i \<and> int (encoded_size h) \<le> room (uart_of ?t)"
  let ?w = "w\<lparr>sw_rx := (sw_rx w)(uart_of i := [])\<rparr>"
  have "\<exists>pt2. net_route (bench_uart room) i q r pt1 ?w =
      (if ?f then count_forwarded r else count_dropped r, pt2,
       w\<lparr>sw_rx := (sw_rx w)(uart_of i := []), sw_tx := if ?f then sw_tx w @ [(uart_of ?t, frame_of h)] else sw_tx w\<rparr>)
      \<and> net_ports_inv pt2" if q: "host_packet q = received h" and inv: "net_ports_inv pt1" for q pt1
  proof -
    have sel: "np_src q = pkt_source h" "np_dst q = pkt_destination h"
      using arg_cong [OF q, of pkt_source] arg_cong [OF q, of pkt_destination] by simp_all
    have sq: "net_sendable q"
      using sendable_received [OF assms(4)] unfolding q [symmetric]
      by (simp add: sendable_def wf_packet_def net_sendable_def)
    have fr: "frame_of (host_packet q) = frame_of h" "encoded_size (host_packet q) = encoded_size h"
      using assms(4) by (simp_all add: q encoded_size_def)
    have no: "net_port_of NET_NORTH = 255" "net_port_of NET_BROADCAST = 255" "i \<noteq> 255"
      using port_cases [OF assms(2)] by (auto simp: net_port_of_def)
    show ?thesis
    proof (cases "net_port_of (np_src q) = i \<and> ?t \<noteq> 255 \<and> ?t \<noteq> i")
      case True
      then have t: "unat ?t < 3" by (auto simp: net_port_of_def split: if_splits)
      from ports_send_bench [OF inv sq t, of room ?w] True assms(7,8) sel no inv fr show ?thesis
        by (auto simp: net_route_def net_transmit_def Let_def)
    next
      case False
      with assms(7,8) sel inv show ?thesis by (auto simp: net_route_def Let_def)
    qed
  qed
  from net_service_one [OF assms(1-5) _ this] assms(6) show ?thesis by (simp only: Let_def) blast
qed

theorem sketch_transit_witness:
  "\<exists>pt' w'. net_service (bench_uart (\<lambda>_. 200)) net_router_init started_ports waiting_world =
      (count_forwarded net_router_init, pt', w') \<and> sw_tx w' = [(2, frame_of to_lighting)]"
proof -
  have h: "sendable to_lighting" by (simp add: to_lighting_def sendable_def)
  have "nq_used (pt_parsers started_ports ! unat (0 :: u8)) = 0"
    by (simp add: started_ports_def net_setup_eq net_ports_init_def net_parser_init_def)
  from sketch_transit [OF started_ports_inv _ this h, of waiting_world "\<lambda>_. 200" net_router_init]
  show ?thesis
    by (auto simp: waiting_world_def uart_of_def net_port_of_def to_lighting_def encoded_size_def Let_def)
qed

section \<open>Diagnostics of the sketch\<close>

lemma read_net_put32:
  assumes "k + 3 < length (np_payload p)"
  shows "read_u32_be (np_payload (net_put32 k v p)) j =
    (if j = k then v else if j + 4 \<le> k \<or> k + 4 \<le> j then read_u32_be (np_payload p) j
     else read_u32_be (np_payload (net_put32 k v p)) j)"
  using assms by (simp add: net_put32_def read_u32_be_def nth_list_update)

lemma read_net_set:
  "i < j \<or> j + 4 \<le> i \<Longrightarrow> read_u32_be ((np_payload p)[i := b]) j = read_u32_be (np_payload p) j"
  by (auto simp: read_u32_be_def)

lemma net_put32_nth:
  "i < k \<or> k + 4 \<le> i \<Longrightarrow> np_payload (net_put32 k v p) ! i = np_payload p ! i"
  by (auto simp: net_put32_def)

lemma net_diag_payload:
  fixes r pt d
  defines "b \<equiv> np_payload (net_diag_packet r pt d)"
  shows "b ! 0 = 2" "b ! 1 = 3" "b ! 18 = 0" "b ! 39 = 1" "b ! 60 = 2"
    "read_u32_be b 2 = nr_forwarded r" "read_u32_be b 6 = nr_dropped r" "read_u32_be b 10 = 0" "read_u32_be b 14 = 0"
    "read_u32_be b 19 = ports_rx pt 0" "read_u32_be b 23 = ports_tx pt 0" "read_u32_be b 27 = 0"
    "read_u32_be b 31 = 0" "read_u32_be b 35 = ports_malformed pt 0"
    "read_u32_be b 40 = ports_rx pt 1" "read_u32_be b 44 = ports_tx pt 1" "read_u32_be b 48 = 0"
    "read_u32_be b 52 = 0" "read_u32_be b 56 = ports_malformed pt 1"
    "read_u32_be b 61 = ports_rx pt 2" "read_u32_be b 65 = ports_tx pt 2" "read_u32_be b 69 = 0"
    "read_u32_be b 73 = 0" "read_u32_be b 77 = ports_malformed pt 2"
  unfolding b_def
  by (simp_all add: net_diag_packet_def default_net_packet_def Let_def read_net_put32 read_net_set net_put32_nth)

definition view_of_sketch_port :: "net_ports \<Rightarrow> u8 \<Rightarrow> port_snapshot" where
  "view_of_sketch_port pt i = \<lparr>pv_attached = True, pv_rx_packets = ports_rx pt i, pv_tx_packets = ports_tx pt i,
     pv_rx_bytes = 0, pv_dropped_packets = 0, pv_malformed_frames = ports_malformed pt i\<rparr>"

definition view_of_sketch :: "net_router \<Rightarrow> net_ports \<Rightarrow> u32 \<Rightarrow> northbridge_snapshot \<Rightarrow> northbridge_snapshot" where
  "view_of_sketch r pt now x = x\<lparr>nv_valid := True, nv_forwarded_packets := nr_forwarded r,
     nv_dropped_packets := nr_dropped r, nv_route_movement_events := 0, nv_topology_fault_events := 0,
     nv_ports := (\<lambda>_. default_port_snapshot)(0 := view_of_sketch_port pt 0, 1 := view_of_sketch_port pt 1,
       2 := view_of_sketch_port pt 2), nv_updated_at_ms := now\<rparr>"

lemma dispatch_sketch_diagnostics:
  "mc_northbridge (fst (mc_dispatch obs (received (host_packet (net_diag_packet r pt d))) now mc nd v)) =
    view_of_sketch r pt now (mc_northbridge mc)"
proof -
  let ?h = "host_packet (net_diag_packet r pt d)"
  have s: "sendable ?h" by (rule net_sendable_host) simp
  have b: "pkt_payload (received ?h) ! i = np_payload (net_diag_packet r pt d) ! i" if "i < 81" for i
    using received_nth [OF s, of i] that by simp
  have u: "read_u32 (received ?h) k = read_u32_be (np_payload (net_diag_packet r pt d)) k" if "k + 3 < 81" for k
    using b that by (simp add: read_u32_def read_u32_be_def)
  have three: "(3 :: nat) = Suc (Suc (Suc 0))" by simp
  have "read_ports (received ?h) 3 18 acc = Some (acc(0 := view_of_sketch_port pt 0,
      1 := view_of_sketch_port pt 1, 2 := view_of_sketch_port pt 2))" for acc
    unfolding three using b [of 18] b [of 39] b [of 60]
    by (simp add: u net_diag_payload view_of_sketch_port_def Let_def)
  then have "decode_northbridge_diagnostics (received ?h) now m =
      (True, m\<lparr>mc_northbridge := view_of_sketch r pt now (mc_northbridge m)\<rparr>)" for m :: "'a motorcycle_computer"
    using b [of 0] b [of 1]
    by (simp add: decode_northbridge_diagnostics_def net_diag_payload [simplified] Let_def u view_of_sketch_def
      del: read_ports.simps fun_upd_apply)
  then show ?thesis by (simp add: mc_dispatch_noted)
qed

text \<open>C38: The sketch's diagnostics are read by the main computer. A diagnostics or state request of the main
  computer to the northbridge is answered by exactly one frame on its UART, if it has room for the
  93 bytes; the main computer, dispatching what its parser makes of that frame, shows the
  forwarded and dropped counters and the packet and error counts of exactly the three ports.\<close>

theorem sketch_diagnostics_shown:
  assumes "net_ports_inv pt" and "np_src q = NET_MAIN" and "np_dst q = NET_NORTH"
    and "np_type q = NET_DIAGNOSTIC \<or> np_type q = NET_GET_STATE" and "np_flags q AND 1 = 0" and "93 \<le> room 1"
  shows "\<exists>h r' pt'. net_route (bench_uart room) 0 q r pt w = (r', pt', w\<lparr>sw_tx := sw_tx w @ [(1, frame_of h)]\<rparr>)
    \<and> sendable h \<and> nr_dropped r' = nr_dropped r
    \<and> mc_northbridge (fst (mc_dispatch obs (received h) now mc nd v)) = view_of_sketch r pt now (mc_northbridge mc)"
proof -
  let ?d = "net_diag_packet r pt NET_MAIN"
  have e: "encoded_size (host_packet ?d) = 93" "unat (0 :: u8) < 3" by (simp_all add: encoded_size_def)
  from ports_send_bench [OF assms(1) net_diag_packet_sel(5) e(2), where room = room and w = w] e assms
  have "net_route (bench_uart room) 0 q r pt w = (r\<lparr>nr_sequence := nr_sequence r + 1\<rparr>,
      pt\<lparr>pt_tx := (pt_tx pt)[0 := pt_tx pt ! 0 + 1]\<rparr>, w\<lparr>sw_tx := sw_tx w @ [(1, frame_of (host_packet ?d))]\<rparr>)"
    by (auto simp: net_route_def net_local_def net_port_of_def uart_of_def Let_def)
  moreover have "sendable (host_packet ?d)" by (rule net_sendable_host) simp
  ultimately show ?thesis using dispatch_sketch_diagnostics by fastforce
qed

theorem sketch_diagnostics_shown_witness:
  "\<exists>h r' pt'. net_route (bench_uart (\<lambda>_. 200)) 0 (default_net_packet\<lparr>np_src := NET_MAIN, np_dst := NET_NORTH,
      np_type := NET_GET_STATE\<rparr>) (count_dropped net_router_init) started_ports quiet_world =
      (r', pt', quiet_world\<lparr>sw_tx := [(1, frame_of h)]\<rparr>)
    \<and> nv_dropped_packets (mc_northbridge (fst (mc_dispatch None (received h) 5 (motorcycle_computer_init ())
        (node_init addr_MainComputer 0) quiet_world))) = 1"
proof -
  have "np_flags (default_net_packet\<lparr>np_src := NET_MAIN, np_dst := NET_NORTH, np_type := NET_GET_STATE\<rparr>) AND 1 = 0"
    by (simp add: default_net_packet_def)
  from sketch_diagnostics_shown [OF started_ports_inv _ _ _ this, of "\<lambda>_. 200" "count_dropped net_router_init"
      quiet_world None 5 "motorcycle_computer_init ()" "node_init addr_MainComputer 0" quiet_world]
  obtain h r' pt' where "net_route (bench_uart (\<lambda>_. 200)) 0 (default_net_packet\<lparr>np_src := NET_MAIN, np_dst := NET_NORTH,
      np_type := NET_GET_STATE\<rparr>) (count_dropped net_router_init) started_ports quiet_world =
      (r', pt', quiet_world\<lparr>sw_tx := [(1, frame_of h)]\<rparr>)"
    and v: "mc_northbridge (fst (mc_dispatch None (received h) 5 (motorcycle_computer_init ()) (node_init addr_MainComputer 0) quiet_world)) =
      view_of_sketch (count_dropped net_router_init) started_ports 5 (mc_northbridge (motorcycle_computer_init ()))"
    by auto
  moreover have "nv_dropped_packets (view_of_sketch (count_dropped net_router_init) pt 5 x) = 1" for pt x
    by (simp add: view_of_sketch_def count_dropped_def net_router_init_def)
  ultimately show ?thesis by metis
qed

end
