(* ===== verification/SelfTest.thy ===== *)
theory SelfTest
  imports Supervisor
begin

text \<open>
  The self-test of the host programs (\<open>raspberry-pi/diagnostic-computer/src/self_test_runner.cpp\<close>): it
  asks the three controllers in turn, waits for each answer or its timeout, and reports. The node
  and the supervisor are passed as the code passes them.
\<close>

section \<open>State\<close>

datatype test_result = Test_Pending | Test_Pass | Test_Warn | Test_Fail

record test_item =
  ti_node :: node_address
  ti_request :: message_type
  ti_response :: message_type
  ti_result :: test_result
  ti_started :: u32
  ti_elapsed :: u32
  ti_detail :: string

record self_test =
  sf_active :: bool
  sf_report_ready :: bool
  sf_index :: nat
  sf_started :: u32
  sf_total_elapsed :: u32
  sf_items :: "test_item list"

definition self_test_init :: self_test where
  "self_test_init =
    (let item = (\<lambda>a request response. \<lparr>ti_node = a, ti_request = request, ti_response = response,
       ti_result = Test_Pending, ti_started = 0, ti_elapsed = 0, ti_detail = ''''\<rparr>)
     in \<lparr>sf_active = False, sf_report_ready = False, sf_index = 0, sf_started = 0, sf_total_elapsed = 0,
         sf_items = [item addr_Northbridge msg_Diagnostic msg_Diagnostic,
                     item addr_Lighting msg_GetState msg_StateUpdate,
                     item addr_Security msg_GetState msg_SecurityState]\<rparr>)"

definition consume_report :: "self_test \<Rightarrow> self_test" where
  "consume_report t = t\<lparr>sf_report_ready := False\<rparr>"

section \<open>Operations\<close>

definition test_send :: "'w transport_ops \<Rightarrow> node_address \<Rightarrow> message_type \<Rightarrow> u32 \<Rightarrow> bike_node \<Rightarrow> 'w
    \<Rightarrow> bool \<times> bike_node \<times> 'w" where
  "test_send ops dst type now nd w =
    node_send ops nd (default_packet\<lparr>pkt_destination := dst, pkt_type := type\<rparr>) now False w"

definition finish_test :: "u32 \<Rightarrow> self_test \<Rightarrow> self_test" where
  "finish_test now t = t\<lparr>sf_active := False, sf_report_ready := True, sf_total_elapsed := now - sf_started t\<rparr>"

text \<open>\<open>auto& i = items_[index_]; ... ++index_;\<close>\<close>

definition put_item :: "test_item \<Rightarrow> self_test \<Rightarrow> self_test" where
  "put_item i t = t\<lparr>sf_items := (sf_items t)[sf_index t := i]\<rparr>"

definition item_done :: "test_item \<Rightarrow> self_test \<Rightarrow> self_test" where
  "item_done i t = (put_item i t)\<lparr>sf_index := sf_index t + 1\<rparr>"

definition failed :: "string \<Rightarrow> test_item \<Rightarrow> test_item" where
  "failed detail i = i\<lparr>ti_result := Test_Fail, ti_detail := detail\<rparr>"

function start_next :: "'w transport_ops \<Rightarrow> supervisor \<Rightarrow> u32 \<Rightarrow> self_test \<Rightarrow> bike_node \<Rightarrow> 'w
    \<Rightarrow> self_test \<times> bike_node \<times> 'w" where
  "start_next ops sv now t nd w =
    (if sf_index t \<ge> length (sf_items t) then (finish_test now t, nd, w)
     else
       let i = sf_items t ! sf_index t in
       case sv_status sv (ti_node i) of
         None \<Rightarrow> start_next ops sv now (item_done (failed ''offline'' i) t) nd w
       | Some st \<Rightarrow>
           if \<not> ns_online st then start_next ops sv now (item_done (failed ''offline'' i) t) nd w
           else if ns_health st = Health_Incompatible
           then start_next ops sv now (item_done (failed ''protocol incompatible'' i) t) nd w
           else
             let i1 = i\<lparr>ti_started := now\<rparr> in
             case test_send ops (ti_node i) (ti_request i) now nd w of
               (ok, nd1, w1) \<Rightarrow>
                 if \<not> ok then start_next ops sv now (item_done (failed ''request send failed'' i1) t) nd1 w1
                 else (put_item i1 t, nd1, w1))"
  by pat_completeness auto
termination
  by (relation "measure (\<lambda>(ops, sv, now, t, nd, w). length (sf_items t) - sf_index t)")
    (auto simp: item_done_def put_item_def)

declare start_next.simps [simp del]

definition begin_test :: "'w transport_ops \<Rightarrow> supervisor \<Rightarrow> u32 \<Rightarrow> self_test \<Rightarrow> bike_node \<Rightarrow> 'w
    \<Rightarrow> self_test \<times> bike_node \<times> 'w" where
  "begin_test ops sv now t nd w =
    (if sf_active t then (t, nd, w)
     else start_next ops sv now
       (t\<lparr>sf_index := 0, sf_started := now, sf_total_elapsed := 0, sf_report_ready := False, sf_active := True,
          sf_items := map (\<lambda>i. i\<lparr>ti_result := Test_Pending, ti_started := 0, ti_elapsed := 0, ti_detail := ''''\<rparr>)
            (sf_items t)\<rparr>) nd w)"

text \<open>The verdict over a response: the item after the checks of \<open>observe\<close>.\<close>

definition judge :: "supervisor \<Rightarrow> packet \<Rightarrow> test_item \<Rightarrow> test_item" where
  "judge sv p i =
    (let (valid, i1) =
       (if ti_node i = addr_Northbridge
        then (let valid = unat (pkt_length p) \<ge> 18
              in (valid, if valid \<and> read_u32_be (pkt_payload p) 6 > 0
                         then i\<lparr>ti_result := Test_Warn, ti_detail := ''dropped packets recorded''\<rparr>
                         else i\<lparr>ti_detail := ''routing diagnostics valid''\<rparr>))
        else if ti_node i = addr_Lighting
        then (unat (pkt_length p) \<ge> 8, i\<lparr>ti_detail := ''lighting state received''\<rparr>)
        else (unat (pkt_length p) \<ge> 6, i\<lparr>ti_detail := ''security state received''\<rparr>))
     in if \<not> valid then failed ''malformed response'' i1
        else if ti_result i1 \<noteq> Test_Warn
        then (let degraded = (case sv_status sv (ti_node i1) of None \<Rightarrow> False
                              | Some st \<Rightarrow> ns_health st = Health_Degraded)
              in if degraded then i1\<lparr>ti_result := Test_Warn, ti_detail := ''response valid, node degraded''\<rparr>
                 else i1\<lparr>ti_result := Test_Pass\<rparr>)
        else i1)"

definition test_observe :: "'w transport_ops \<Rightarrow> packet \<Rightarrow> supervisor \<Rightarrow> u32 \<Rightarrow> self_test \<Rightarrow> bike_node \<Rightarrow> 'w
    \<Rightarrow> self_test \<times> bike_node \<times> 'w" where
  "test_observe ops p sv now t nd w =
    (if \<not> sf_active t \<or> sf_index t \<ge> length (sf_items t) then (t, nd, w)
     else
       let i = sf_items t ! sf_index t in
       if pkt_source p \<noteq> ti_node i \<or> pkt_type p \<noteq> ti_response i then (t, nd, w)
       else start_next ops sv now (item_done (judge sv p (i\<lparr>ti_elapsed := now - ti_started i\<rparr>)) t) nd w)"

definition test_service :: "'w transport_ops \<Rightarrow> supervisor \<Rightarrow> u32 \<Rightarrow> self_test \<Rightarrow> bike_node \<Rightarrow> 'w
    \<Rightarrow> self_test \<times> bike_node \<times> 'w" where
  "test_service ops sv now t nd w =
    (if \<not> sf_active t \<or> sf_index t \<ge> length (sf_items t) then (t, nd, w)
     else
       let i = sf_items t ! sf_index t in
       if now - ti_started i \<le> 1000 then (t, nd, w)
       else start_next ops sv now
         (item_done (i\<lparr>ti_result := Test_Fail, ti_elapsed := now - ti_started i,
            ti_detail := ''response timeout''\<rparr>) t) nd w)"

section \<open>Progress\<close>

text \<open>The items before the current one have their verdicts.\<close>

definition judged :: "self_test \<Rightarrow> bool" where
  "judged t \<longleftrightarrow> length (sf_items t) = 3 \<and> sf_index t \<le> 3
     \<and> (\<forall>k < sf_index t. ti_result (sf_items t ! k) \<noteq> Test_Pending)"

text \<open>A test is running at an item it has asked for at \<open>now\<close>, or it has ended with a report.\<close>

definition settled :: "u32 \<Rightarrow> nat \<Rightarrow> self_test \<Rightarrow> bool" where
  "settled now n t \<longleftrightarrow> judged t \<and> n \<le> sf_index t \<and>
     (sf_active t \<and> \<not> sf_report_ready t \<and> sf_index t < 3 \<and> ti_started (sf_items t ! sf_index t) = now
      \<or> \<not> sf_active t \<and> sf_report_ready t \<and> sf_index t = 3)"

lemma item_done_sel [simp]:
  "sf_active (item_done i t) = sf_active t" "sf_report_ready (item_done i t) = sf_report_ready t"
  "sf_index (item_done i t) = Suc (sf_index t)" "sf_items (item_done i t) = (sf_items t)[sf_index t := i]"
  by (simp_all add: item_done_def put_item_def)

lemma judged_item_done:
  "judged t \<Longrightarrow> sf_index t < 3 \<Longrightarrow> ti_result i \<noteq> Test_Pending \<Longrightarrow> judged (item_done i t)"
  by (auto simp: judged_def nth_list_update less_Suc_eq)

lemma failed_result [simp]: "ti_result (failed d i) = Test_Fail"
  by (simp add: failed_def)

lemma settled_mono: "settled now n t \<Longrightarrow> m \<le> n \<Longrightarrow> settled now m t"
  by (auto simp: settled_def)

text \<open>One round: the next item gets its verdict at once, or it is asked for.\<close>

lemma start_next_round:
  assumes "start_next ops sv now t nd w = (t', nd', w')" and "sf_index t < length (sf_items t)"
  obtains (next_item) i nd1 w1 where "ti_result i \<noteq> Test_Pending"
      "start_next ops sv now (item_done i t) nd1 w1 = (t', nd', w')"
    | (asked) "t' = put_item ((sf_items t ! sf_index t)\<lparr>ti_started := now\<rparr>) t"
  using assms
  by (auto simp: start_next.simps [of ops sv now t nd w] Let_def split: option.splits if_splits prod.splits)
    (metis failed_result test_result.distinct(5))+

lemma start_next_settled:
  assumes "judged t" and "sf_active t" and "\<not> sf_report_ready t" and "start_next ops sv now t nd w = (t', nd', w')"
  shows "settled now (sf_index t) t'"
  using assms
proof (induction "3 - sf_index t" arbitrary: t nd w rule: less_induct)
  case less
  show ?case
  proof (cases "sf_index t < 3")
    case False
    then have "t' = finish_test now t"
      using less.prems(1,4) by (simp add: start_next.simps [of ops sv now t] judged_def)
    with False less.prems show ?thesis by (auto simp: settled_def judged_def finish_test_def)
  next
    case True
    with less.prems(1) have "sf_index t < length (sf_items t)" by (simp add: judged_def)
    from less.prems(4) this show ?thesis
    proof (cases rule: start_next_round)
      case (next_item i nd1 w1)
      have "settled now (sf_index (item_done i t)) t'"
        using True less.prems next_item by (intro less.hyps [OF _ judged_item_done]) simp_all
      then show ?thesis by (rule settled_mono) simp
    next
      case asked
      with True less.prems show ?thesis
        by (auto simp: settled_def judged_def put_item_def nth_list_update)
    qed
  qed
qed

section \<open>Use of the node\<close>

text \<open>Whatever the self-test does, to its node it only talks.\<close>

lemma test_send_talk: "test_send ops dst type now nd w = (ok, nd', w') \<Longrightarrow> node_talk ops (nd, w) (nd', w')"
  unfolding test_send_def by (erule talk_send1 [rotated]) simp_all

lemma start_next_talk:
  "start_next ops sv now t nd w = (t', nd', w') \<Longrightarrow> node_talk ops (nd, w) (nd', w')"
proof (induction ops sv now t nd w rule: start_next.induct)
  case (1 ops sv now t nd w)
  let ?i = "sf_items t ! sf_index t"
  note start_next.simps [of ops sv now t nd w, simp]
  show ?case
  proof (cases "sf_index t \<ge> length (sf_items t)")
    case True
    with "1.prems" show ?thesis by (simp add: talk_refl)
  next
    case False
    show ?thesis
    proof (cases "sv_status sv (ti_node ?i)")
      case None
      with False "1.prems" "1.IH"(1) [OF False refl None] show ?thesis by (simp add: Let_def)
    next
      case (Some st)
      show ?thesis
      proof (cases "ns_online st \<and> ns_health st \<noteq> Health_Incompatible")
        case bad: False
        with False Some "1.prems" "1.IH"(2) [OF False refl Some] "1.IH"(3) [OF False refl Some]
        show ?thesis by (simp add: Let_def split: if_splits)
      next
        case online: True
        obtain ok nd1 w1 where send: "test_send ops (ti_node ?i) (ti_request ?i) now nd w = (ok, nd1, w1)"
          by (metis prod_cases3)
        have "node_talk ops (nd1, w1) (nd', w')"
        proof (cases ok)
          case True
          with False Some online send "1.prems" show ?thesis by (simp add: Let_def talk_refl)
        next
          case failed: False
          with False Some online send "1.prems" "1.IH"(4) [OF False refl Some, of "?i\<lparr>ti_started := now\<rparr>" ]
          show ?thesis by (simp add: Let_def)
        qed
        then show ?thesis using test_send_talk [OF send] by (rule talk_trans)
      qed
    qed
  qed
qed

lemma begin_test_talk: "begin_test ops sv now t nd w = (t', nd', w') \<Longrightarrow> node_talk ops (nd, w) (nd', w')"
  by (auto simp: begin_test_def talk_refl intro: start_next_talk split: if_splits)

lemma test_observe_talk: "test_observe ops p sv now t nd w = (t', nd', w') \<Longrightarrow> node_talk ops (nd, w) (nd', w')"
  by (auto simp: test_observe_def Let_def talk_refl intro: start_next_talk split: if_splits)

lemma test_service_talk: "test_service ops sv now t nd w = (t', nd', w') \<Longrightarrow> node_talk ops (nd, w) (nd', w')"
  by (auto simp: test_service_def Let_def talk_refl intro: start_next_talk split: if_splits)

section \<open>Runs\<close>

text \<open>
  The host programs start, observe, service and consume in any order, with any node, world and
  supervisor at any time.
\<close>

inductive test_reachable :: "'w transport_ops \<Rightarrow> self_test \<Rightarrow> bool" for ops :: "'w transport_ops" where
  test_start: "test_reachable ops self_test_init"
| test_begin: "test_reachable ops t \<Longrightarrow> begin_test ops sv now t nd w = (t', nd', w') \<Longrightarrow> test_reachable ops t'"
| test_packet: "test_reachable ops t \<Longrightarrow> test_observe ops p sv now t nd w = (t', nd', w') \<Longrightarrow> test_reachable ops t'"
| test_tick: "test_reachable ops t \<Longrightarrow> test_service ops sv now t nd w = (t', nd', w') \<Longrightarrow> test_reachable ops t'"
| test_consume: "test_reachable ops t \<Longrightarrow> test_reachable ops (consume_report t)"

definition test_inv :: "self_test \<Rightarrow> bool" where
  "test_inv t \<longleftrightarrow> judged t \<and> (sf_active t \<longrightarrow> \<not> sf_report_ready t \<and> sf_index t < 3)
     \<and> (sf_report_ready t \<longrightarrow> sf_index t = 3)"

lemma settled_inv: "settled now n t \<Longrightarrow> test_inv t"
  by (auto simp: settled_def test_inv_def)

lemma judge_result [simp]: "ti_result (judge sv p i) \<noteq> Test_Pending"
  by (auto simp: judge_def Let_def split: prod.splits if_splits)

lemma begin_test_settled:
  assumes "judged t" and "\<not> sf_active t" and "begin_test ops sv now t nd w = (t', nd', w')"
  shows "settled now 0 t'"
  using assms start_next_settled [of "t\<lparr>sf_index := 0, sf_started := now, sf_total_elapsed := 0,
      sf_report_ready := False, sf_active := True, sf_items := map (\<lambda>i. i\<lparr>ti_result := Test_Pending,
      ti_started := 0, ti_elapsed := 0, ti_detail := ''''\<rparr>) (sf_items t)\<rparr>" ops sv now nd w t' nd' w']
  by (simp add: begin_test_def judged_def)

lemma test_observe_inv:
  assumes "test_inv t" and "test_observe ops p sv now t nd w = (t', nd', w')"
  shows "test_inv t'"
proof (cases "sf_active t \<and> pkt_source p = ti_node (sf_items t ! sf_index t) \<and> pkt_type p = ti_response (sf_items t ! sf_index t)")
  case True
  let ?i = "judge sv p ((sf_items t ! sf_index t)\<lparr>ti_elapsed := now - ti_started (sf_items t ! sf_index t)\<rparr>)"
  have "judged (item_done ?i t)" using assms(1) True by (intro judged_item_done) (simp_all add: test_inv_def)
  moreover have "start_next ops sv now (item_done ?i t) nd w = (t', nd', w')"
    using assms True by (auto simp: test_observe_def test_inv_def judged_def Let_def)
  ultimately show ?thesis using assms(1) True
    by (intro settled_inv [OF start_next_settled]) (simp_all add: test_inv_def)
next
  case False
  with assms show ?thesis by (auto simp: test_observe_def Let_def split: if_splits)
qed

text \<open>A service after the timeout moves on.\<close>

lemma test_service_timeout:
  assumes "judged t" and "sf_active t" and "\<not> sf_report_ready t" and "sf_index t < 3"
    and "now - ti_started (sf_items t ! sf_index t) > 1000"
    and "test_service ops sv now t nd w = (t', nd', w')"
  shows "settled now (Suc (sf_index t)) t'"
proof -
  let ?i = "(sf_items t ! sf_index t)\<lparr>ti_result := Test_Fail, ti_elapsed := now - ti_started (sf_items t ! sf_index t),
      ti_detail := ''response timeout''\<rparr>"
  have j: "judged (item_done ?i t)" using assms(1,4) by (intro judged_item_done) simp_all
  have "start_next ops sv now (item_done ?i t) nd w = (t', nd', w')"
    using assms by (simp add: test_service_def Let_def judged_def not_le split: if_splits)
  from start_next_settled [OF j _ _ this] assms(2,3) show ?thesis by simp
qed

lemma begin_test_inv:
  assumes "test_inv t" and "begin_test ops sv now t nd w = (t', nd', w')"
  shows "test_inv t'"
proof (cases "sf_active t")
  case True
  with assms show ?thesis by (simp add: begin_test_def)
next
  case False
  with assms show ?thesis by (intro settled_inv [OF begin_test_settled [OF _ _ assms(2)]]) (simp_all add: test_inv_def)
qed

lemma consume_report_inv: "test_inv t \<Longrightarrow> test_inv (consume_report t)"
  by (simp add: test_inv_def consume_report_def judged_def)

lemma test_service_inv:
  assumes "test_inv t" and "test_service ops sv now t nd w = (t', nd', w')"
  shows "test_inv t'"
proof (cases "sf_active t \<and> now - ti_started (sf_items t ! sf_index t) > 1000")
  case True
  with assms show ?thesis
    by (intro settled_inv [OF test_service_timeout]) (auto simp: test_inv_def)
next
  case False
  with assms show ?thesis by (auto simp: test_service_def Let_def split: if_splits)
qed

lemma test_reachable_inv: "test_reachable ops t \<Longrightarrow> test_inv t"
proof (induction rule: test_reachable.induct)
  case test_start
  show ?case by (simp add: test_inv_def judged_def self_test_init_def)
next
  case (test_begin t sv now nd w t' nd' w')
  show ?case
  proof (cases "sf_active t")
    case True
    with test_begin show ?thesis by (simp add: begin_test_def)
  next
    case False
    with test_begin show ?thesis by (intro settled_inv [OF begin_test_settled]) (auto simp: test_inv_def)
  qed
next
  case (test_consume t)
  then show ?case by (auto simp: test_inv_def judged_def consume_report_def)
qed (blast intro: test_observe_inv test_service_inv)+

section \<open>Properties\<close>

fun test_services :: "'w transport_ops \<Rightarrow> (supervisor \<times> u32) list \<Rightarrow> self_test \<Rightarrow> bike_node \<Rightarrow> 'w
    \<Rightarrow> self_test \<times> bike_node \<times> 'w" where
  "test_services ops [] t nd w = (t, nd, w)"
| "test_services ops ((sv, now) # xs) t nd w =
    (case test_service ops sv now t nd w of (t1, nd1, w1) \<Rightarrow> test_services ops xs t1 nd1 w1)"

text \<open>Every time more than the timeout after the one before it.\<close>

fun spaced :: "u32 \<Rightarrow> u32 list \<Rightarrow> bool" where
  "spaced s [] = True"
| "spaced s (x # xs) = (x - s > 1000 \<and> spaced x xs)"

definition reported :: "self_test \<Rightarrow> bool" where
  "reported t \<longleftrightarrow> \<not> sf_active t \<and> sf_report_ready t \<and> (\<forall>i\<in>set (sf_items t). ti_result i \<noteq> Test_Pending)"

lemma judged_all: "judged t \<Longrightarrow> sf_index t = 3 \<Longrightarrow> i \<in> set (sf_items t) \<Longrightarrow> ti_result i \<noteq> Test_Pending"
  by (auto simp: judged_def in_set_conv_nth)

lemma test_services_done: "\<not> sf_active t \<Longrightarrow> test_services ops xs t nd w = (t, nd, w)"
  by (induction xs) (auto simp: test_service_def)

lemma test_services_report:
  assumes "judged t" and "sf_active t" and "\<not> sf_report_ready t" and "sf_index t < 3"
    and "spaced (ti_started (sf_items t ! sf_index t)) (map snd xs)" and "3 - sf_index t \<le> length xs"
    and "test_services ops xs t nd w = (t', nd', w')"
  shows "reported t'"
  using assms
proof (induction xs arbitrary: t nd w)
  case (Cons x xs)
  obtain sv now where x: "x = (sv, now)" by fastforce
  obtain t1 nd1 w1 where sv: "test_service ops sv now t nd w = (t1, nd1, w1)" by (metis prod_cases3)
  have st: "settled now (Suc (sf_index t)) t1"
    using Cons.prems(5) by (intro test_service_timeout [OF Cons.prems(1-4) _ sv]) (simp add: x)
  have run: "test_services ops xs t1 nd1 w1 = (t', nd', w')" using Cons.prems(7) by (simp add: x sv)
  show ?case
  proof (cases "sf_active t1")
    case True
    then have a: "judged t1" "\<not> sf_report_ready t1" "sf_index t1 < 3" "ti_started (sf_items t1 ! sf_index t1) = now"
      "Suc (sf_index t) \<le> sf_index t1"
      using st by (auto simp: settled_def)
    have "spaced (ti_started (sf_items t1 ! sf_index t1)) (map snd xs)" "3 - sf_index t1 \<le> length xs"
      using Cons.prems(5,6) a(4,5) by (simp_all add: x)
    from Cons.IH [OF a(1) True a(2,3) this run] show ?thesis .
  next
    case False
    then have "judged t1" "sf_report_ready t1" "sf_index t1 = 3" using st by (auto simp: settled_def)
    with False judged_all [of t1] run test_services_done [OF False, of ops xs nd1 w1] show ?thesis
      by (simp add: reported_def)
  qed
qed simp

text \<open>C21: A self-test comes to an end. From any state the host programs can reach with a test running, as
  many services as there are items left, each more than the timeout of one second after the one
  before, end in a report with a verdict for every item, whatever the controllers, the network
  and the supervisor do meanwhile.\<close>

theorem self_test_ends:
  assumes "test_reachable ops t" and "sf_active t"
    and "spaced (ti_started (sf_items t ! sf_index t)) (map snd xs)" and "3 - sf_index t \<le> length xs"
    and "test_services ops xs t nd w = (t', nd', w')"
  shows "reported t'"
  using test_reachable_inv [OF assms(1)] assms(2-)
  by (intro test_services_report [of t xs ops nd w t' nd' w']) (simp_all add: test_inv_def)

theorem self_test_ends_witness:
  "\<exists>t' nd' w'. test_services bench_transport [(supervisor_init, 1500), (supervisor_init, 2501), (supervisor_init, 3600)]
     (fst (begin_test bench_transport
        (sv_observe (default_packet\<lparr>pkt_source := addr_Northbridge\<rparr>) 90 supervisor_init) 100 self_test_init
        (node_init addr_MainComputer 0) quiet_world)) (node_init addr_MainComputer 0) quiet_world = (t', nd', w')
   \<and> reported t'"
proof -
  let ?sv = "sv_observe (default_packet\<lparr>pkt_source := addr_Northbridge\<rparr>) 90 supervisor_init"
  let ?nd = "node_init addr_MainComputer 0"
  obtain t nd w where b: "begin_test bench_transport ?sv 100 self_test_init ?nd quiet_world = (t, nd, w)"
    by (metis prod_cases3)
  have r: "test_reachable bench_transport t" by (rule test_begin [OF test_start b])
  have st: "settled 100 0 t" by (rule begin_test_settled [OF _ _ b]) (simp_all add: judged_def self_test_init_def)
  have on: "case sv_status ?sv addr_Northbridge of None \<Rightarrow> False
      | Some st \<Rightarrow> ns_online st \<and> ns_health st = Health_Online" by code_simp
  then have a: "sf_active t"
    using b
    by (auto simp: begin_test_def self_test_init_def start_next.simps test_send_def bench_send put_item_def Let_def
      split: prod.splits if_splits option.splits)
  then have s: "ti_started (sf_items t ! sf_index t) = 100" using st by (auto simp: settled_def)
  obtain t' nd' w' where run: "test_services bench_transport [(supervisor_init, 1500), (supervisor_init, 2501),
      (supervisor_init, 3600)] t ?nd quiet_world = (t', nd', w')" by (metis prod_cases3)
  have "spaced (ti_started (sf_items t ! sf_index t)) (map snd [(supervisor_init, 1500 :: u32),
      (supervisor_init, 2501), (supervisor_init, 3600)])" by (simp add: s)
  from self_test_ends [OF r a this _ run] run show ?thesis unfolding b by simp
qed

text \<open>Reports are complete. In every state the host programs can reach, a ready report belongs to a
  test that has ended and has a verdict for each of its three items, and a running test has no
  report and a current item.\<close>

theorem self_test_report_complete:
  assumes "test_reachable ops t"
  shows "(sf_report_ready t \<longrightarrow> reported t) \<and> (sf_active t \<longrightarrow> \<not> sf_report_ready t \<and> sf_index t < length (sf_items t))"
  using test_reachable_inv [OF assms] judged_all [of t]
  by (auto simp: test_inv_def reported_def judged_def)

theorem self_test_report_complete_witness:
  "reported (fst (begin_test bench_transport supervisor_init 100 self_test_init (node_init addr_MainComputer 0) quiet_world))"
proof -
  obtain t nd w where b: "begin_test bench_transport supervisor_init 100 self_test_init (node_init addr_MainComputer 0)
      quiet_world = (t, nd, w)" by (metis prod_cases3)
  have "sf_report_ready (fst (begin_test bench_transport supervisor_init 100 self_test_init
      (node_init addr_MainComputer 0) quiet_world))" by code_simp
  with self_test_report_complete [OF test_begin [OF test_start b]] show ?thesis unfolding b by simp
qed

end
