(* ===== verification/DiagnosticLog.thy ===== *)
theory DiagnosticLog
  imports Protocol
begin

text \<open>
  The event log of the host programs (\<open>raspberry-pi/diagnostic-computer/src/diagnostic_logger.cpp\<close>): a
  bounded queue of events and a CSV file. The file is its contents while the stream is good, and
  \<open>None\<close> otherwise.
\<close>

section \<open>Events and file\<close>

record event =
  ev_time_ms :: u32
  ev_source :: node_address
  ev_destination :: node_address
  ev_type :: message_type
  ev_text :: string

record diagnostic_logger =
  lg_limit :: nat
  lg_events :: "event list"
  lg_file :: "string option"

definition diagnostic_logger_init :: "nat \<Rightarrow> diagnostic_logger" where
  "diagnostic_logger_init limit = \<lparr>lg_limit = limit, lg_events = [], lg_file = None\<rparr>"

definition node_name :: "node_address \<Rightarrow> string" where
  "node_name a =
    (if a = addr_MainComputer then ''MAIN'' else if a = addr_DiagnosticComputer then ''DIAG''
     else if a = addr_Northbridge then ''NORTHBRIDGE'' else if a = addr_Lighting then ''LIGHTING''
     else if a = addr_Security then ''SECURITY'' else if a = addr_Broadcast then ''BROADCAST''
     else ''UNKNOWN'')"

text \<open>Opening for append: \<open>found\<close> is what the file held, \<open>None\<close> if it cannot be opened.\<close>

definition logger_open :: "string option \<Rightarrow> diagnostic_logger \<Rightarrow> bool \<times> diagnostic_logger" where
  "logger_open found l =
    (case found of
       None \<Rightarrow> (False, l\<lparr>lg_file := None\<rparr>)
     | Some text \<Rightarrow>
         (True, l\<lparr>lg_file := Some (if text = '''' then ''time_ms,source,destination,type,decoded'' @ [CHR 0x0A]
                                  else text)\<rparr>))"

definition logger_clear :: "diagnostic_logger \<Rightarrow> diagnostic_logger" where
  "logger_clear l = l\<lparr>lg_events := []\<rparr>"

section \<open>Recording\<close>

text \<open>\<open>while (events_.size() > limit_) events_.pop_front();\<close>\<close>

fun trim_front :: "nat \<Rightarrow> 'a list \<Rightarrow> 'a list" where
  "trim_front limit [] = []"
| "trim_front limit (e # es) = (if length (e # es) > limit then trim_front limit es else e # es)"

text \<open>The loop that doubles quotes: \<open>find\<close> from a position, insert, skip both.\<close>

definition find_quote :: "string \<Rightarrow> nat \<Rightarrow> nat option" where
  "find_quote s pos = map_option (\<lambda>i. pos + i) (find_index (\<lambda>c. c = CHR 0x22) (drop pos s))"

lemma find_quote_SomeD: "find_quote s pos = Some i \<Longrightarrow> pos \<le> i \<and> i < length s \<and> s ! i = CHR 0x22"
proof -
  assume "find_quote s pos = Some i"
  then obtain k where "i = pos + k" "find_index (\<lambda>c. c = CHR 0x22) (drop pos s) = Some k"
    by (auto simp: find_quote_def)
  with find_index_SomeD(1,2) [OF this(2)] show ?thesis by simp
qed

function escape_from :: "string \<Rightarrow> nat \<Rightarrow> string" where
  "escape_from s pos =
    (case find_quote s pos of
       None \<Rightarrow> s
     | Some i \<Rightarrow> escape_from (take i s @ [CHR 0x22] @ drop i s) (i + 2))"
  by pat_completeness auto

termination
  by (relation "measure (\<lambda>(s, pos). length s - pos)") (auto dest: find_quote_SomeD)

declare escape_from.simps [simp del]

definition csv_escape :: "string \<Rightarrow> string" where
  "csv_escape s = escape_from s 0"

text \<open>Decimal output of an unsigned number.\<close>

fun decimal :: "nat \<Rightarrow> string" where
  "decimal n = (if n < 10 then [char_of (48 + n)] else decimal (n div 10) @ [char_of (48 + n mod 10)])"

declare decimal.simps [simp del]

definition csv_line :: "u32 \<Rightarrow> packet \<Rightarrow> string \<Rightarrow> string" where
  "csv_line now p decoded =
    decimal (unat now) @ '','' @ node_name (pkt_source p) @ '','' @ node_name (pkt_destination p) @ '','' @
    decimal (unat (pkt_type p)) @ '','' @ [CHR 0x22] @ csv_escape decoded @ [CHR 0x22, CHR 0x0A]"

definition logger_record :: "u32 \<Rightarrow> packet \<Rightarrow> string \<Rightarrow> diagnostic_logger \<Rightarrow> diagnostic_logger" where
  "logger_record now p decoded l =
    (let e = \<lparr>ev_time_ms = now, ev_source = pkt_source p, ev_destination = pkt_destination p,
              ev_type = pkt_type p, ev_text = decoded\<rparr>
     in l\<lparr>lg_events := trim_front (lg_limit l) (lg_events l @ [e]),
          lg_file := map_option (\<lambda>text. text @ csv_line now p decoded) (lg_file l)\<rparr>)"

section \<open>What is kept\<close>

lemma trim_front_eq: "trim_front n xs = drop (length xs - n) xs"
  by (induction xs) (auto simp: Suc_diff_le not_less)

lemma logger_record_bound:
  "lg_limit (logger_record now p d l) = lg_limit l"
  "length (lg_events (logger_record now p d l)) \<le> lg_limit l"
  by (simp_all add: logger_record_def Let_def trim_front_eq)

definition event_of :: "u32 \<times> packet \<times> string \<Rightarrow> event" where
  "event_of x = (case x of (now, p, decoded) \<Rightarrow> \<lparr>ev_time_ms = now, ev_source = pkt_source p,
     ev_destination = pkt_destination p, ev_type = pkt_type p, ev_text = decoded\<rparr>)"

fun record_all :: "(u32 \<times> packet \<times> string) list \<Rightarrow> diagnostic_logger \<Rightarrow> diagnostic_logger" where
  "record_all [] l = l"
| "record_all ((now, p, decoded) # xs) l = record_all xs (logger_record now p decoded l)"

lemma latest_latest:
  "drop (length (drop (length xs - n) xs @ ys) - n) (drop (length xs - n) xs @ ys) =
    drop (length (xs @ ys) - n) (xs @ ys)"
  by (cases "length xs \<le> n") (auto simp: add.commute)

lemma record_all_events:
  assumes "length (lg_events l) \<le> lg_limit l"
  shows "lg_events (record_all xs l) =
      drop (length (lg_events l @ map event_of xs) - lg_limit l) (lg_events l @ map event_of xs)
    \<and> lg_limit (record_all xs l) = lg_limit l"
  using assms
proof (induction xs arbitrary: l)
  case (Cons x xs)
  obtain now p d where x: "x = (now, p, d)" by (metis prod_cases3)
  let ?l = "logger_record now p d l" and ?es = "lg_events l @ [event_of x]"
  have l: "lg_events ?l = drop (length ?es - lg_limit l) ?es" "lg_limit ?l = lg_limit l"
    by (simp_all add: logger_record_def trim_front_eq event_of_def x)
  have "length (lg_events ?l) \<le> lg_limit ?l" unfolding l by simp
  note IH = Cons.IH [OF this]
  have "record_all (x # xs) l = record_all xs ?l" by (simp add: x)
  with IH show ?case unfolding l latest_latest [of ?es "lg_limit l"] by simp
qed simp

lemma record_all_file:
  "lg_file (record_all xs l) = map_option (\<lambda>text. text @ concat (map (\<lambda>(now, p, d). csv_line now p d) xs)) (lg_file l)"
proof (induction xs arbitrary: l)
  case Nil
  show ?case by (cases "lg_file l") simp_all
next
  case (Cons x xs)
  obtain now p d where "x = (now, p, d)" by (metis prod_cases3)
  with Cons show ?case by (cases "lg_file l") (simp_all add: logger_record_def Let_def)
qed

section \<open>Quoting\<close>

definition doubled :: "string \<Rightarrow> string" where
  "doubled s = concat (map (\<lambda>c. if c = CHR 0x22 then [c, c] else [c]) s)"

lemma doubled_plain: "CHR 0x22 \<notin> set s \<Longrightarrow> doubled s = s"
  by (induction s) (auto simp: doubled_def)

lemma doubled_append: "doubled (s @ t) = doubled s @ doubled t"
  by (simp add: doubled_def)

lemma escape_from_eq: "escape_from s pos = take pos s @ doubled (drop pos s)"
proof (induction s pos rule: escape_from.induct)
  case (1 s pos)
  show ?case
  proof (cases "find_quote s pos")
    case None
    then have "CHR 0x22 \<notin> set (drop pos s)" by (auto simp: find_quote_def)
    with None show ?thesis by (simp add: escape_from.simps [of s pos] doubled_plain)
  next
    case (Some i)
    then obtain k where k: "i = pos + k" "find_index (\<lambda>c. c = CHR 0x22) (drop pos s) = Some k"
      by (auto simp: find_quote_def)
    let ?d = "drop pos s"
    have kl: "k < length ?d" "?d ! k = CHR 0x22" "CHR 0x22 \<notin> set (take k ?d)"
      using find_index_SomeD [OF k(2)] by (auto simp: in_set_conv_nth)
    have d: "?d = take k ?d @ CHR 0x22 # drop (Suc k) ?d"
      using kl(1,2) id_take_nth_drop [of k ?d] by simp
    have s: "s = take pos s @ take k ?d @ CHR 0x22 # drop (Suc k) ?d"
      using d by (metis append_take_drop_id)
    have i: "take i s = take pos s @ take k ?d" "drop i s = CHR 0x22 # drop (Suc k) ?d"
      using kl(1) d by (simp_all add: k(1) take_add) (metis add.commute drop_drop append_take_drop_id same_append_eq)
    have len: "length (take i s) = i" using kl(1) by (simp add: k(1))
    have "escape_from s pos = take (i + 2) (take i s @ [CHR 0x22] @ drop i s) @
        doubled (drop (i + 2) (take i s @ [CHR 0x22] @ drop i s))"
      using 1 [OF Some] Some by (simp add: escape_from.simps [of s pos])
    also have "\<dots> = take i s @ [CHR 0x22, CHR 0x22] @ doubled (drop (Suc k) ?d)"
      using len by (simp add: i(2))
    also have "\<dots> = take pos s @ doubled ?d"
      by (subst (2) d) (simp add: doubled_append doubled_plain [OF kl(3)] i(1), simp add: doubled_def)
    finally show ?thesis .
  qed
qed

text \<open>A reader of quoted fields, behind the opening quote: the field and the rest.\<close>

fun csv_read :: "string \<Rightarrow> string \<times> string" where
  "csv_read [] = ([], [])"
| "csv_read [c] = (if c = CHR 0x22 then [] else [c], [])"
| "csv_read (c # d # s) =
    (if c \<noteq> CHR 0x22 then (case csv_read (d # s) of (f, r) \<Rightarrow> (c # f, r))
     else if d = CHR 0x22 then (case csv_read s of (f, r) \<Rightarrow> (c # f, r))
     else ([], d # s))"

lemma csv_read_doubled: "csv_read (doubled s @ [CHR 0x22, CHR 0x0A] @ rest) = (s, CHR 0x0A # rest)"
proof (induction s)
  case (Cons c s)
  have "doubled s @ [CHR 0x22, CHR 0x0A] @ rest \<noteq> []" by simp
  then obtain d ds where "doubled s @ [CHR 0x22, CHR 0x0A] @ rest = d # ds" by (meson neq_Nil_conv)
  with Cons show ?case by (auto simp: doubled_def split: prod.splits)
qed (simp add: doubled_def)

text \<open>C40: The log is complete. After any packets recorded in a row the queue holds exactly the latest events, as
  many as its limit allows, in order; the file has grown by exactly one line per packet; and in
  each line the quoted text field reads back as the text recorded, quotes included.\<close>

theorem log_complete:
  assumes "length (lg_events l) \<le> lg_limit l"
  shows "lg_events (record_all xs l) =
      drop (length (lg_events l @ map event_of xs) - lg_limit l) (lg_events l @ map event_of xs)
    \<and> lg_file (record_all xs l) = map_option (\<lambda>text. text @ concat (map (\<lambda>(now, p, d). csv_line now p d) xs)) (lg_file l)
    \<and> (\<exists>pre. csv_line now p d = pre @ CHR 0x22 # csv_escape d @ [CHR 0x22, CHR 0x0A]
        \<and> csv_read (csv_escape d @ [CHR 0x22, CHR 0x0A] @ rest) = (d, CHR 0x0A # rest))"
proof -
  have e: "csv_escape d = doubled d" by (simp add: csv_escape_def escape_from_eq)
  have "\<exists>pre. csv_line now p d = pre @ CHR 0x22 # csv_escape d @ [CHR 0x22, CHR 0x0A]" by (auto simp: csv_line_def)
  with record_all_events [OF assms, of xs] record_all_file [of xs l] csv_read_doubled [of d rest]
  show ?thesis unfolding e by blast
qed

theorem log_complete_witness:
  "map ev_time_ms (lg_events (record_all [(1, default_packet, ''a''), (2, default_packet, ''b''), (3, default_packet, ''c'')]
     (diagnostic_logger_init 2))) = [2, 3]"
proof -
  have "length (lg_events (diagnostic_logger_init 2)) \<le> lg_limit (diagnostic_logger_init 2)"
    by (simp add: diagnostic_logger_init_def)
  from log_complete [OF this, of "[(1, default_packet, ''a''), (2, default_packet, ''b''), (3, default_packet, ''c'')]"]
  show ?thesis by (simp add: diagnostic_logger_init_def event_of_def)
qed

end
