(* ===== verification/ConsoleText.thy ===== *)
theory ConsoleText
  imports MotorcycleComputer SelfTest DiagnosticLog
begin

text \<open>
  What the two host programs print (\<open>raspberry-pi/main-computer/src/main.cpp\<close>,
  \<open>raspberry-pi/diagnostic-computer/src/main.cpp\<close>): numbers, names, the status and inventory pages, the
  packet texts and the report of the self-test. A page is the string it writes to \<open>std::cout\<close>.
\<close>

section \<open>Numbers and names\<close>

abbreviation newline :: string where
  "newline \<equiv> [CHR 0x0A]"

text \<open>Numbers after \<open>std::hex\<close>.\<close>

definition hex_digit :: "nat \<Rightarrow> char" where
  "hex_digit d = char_of (if d < 10 then 48 + d else 87 + d)"

fun hexadecimal :: "nat \<Rightarrow> string" where
  "hexadecimal n = (if n < 16 then [hex_digit n] else hexadecimal (n div 16) @ [hex_digit (n mod 16)])"

declare hexadecimal.simps [simp del]

definition dec :: "'a::len word \<Rightarrow> string" where
  "dec x = decimal (unat x)"

definition hexa :: "'a::len word \<Rightarrow> string" where
  "hexa x = hexadecimal (unat x)"

definition online_text :: "node_status option \<Rightarrow> string" where
  "online_text s =
    (case s of None \<Rightarrow> ''UNKNOWN''
     | Some e \<Rightarrow> if \<not> ns_discovered e then ''UNKNOWN'' else if ns_online e then ''ONLINE'' else ''OFFLINE'')"

definition on_off :: "bool \<Rightarrow> string" where
  "on_off v = (if v then ''ON'' else ''OFF'')"

definition yes_no :: "bool \<Rightarrow> string" where
  "yes_no v = (if v then ''YES'' else ''NO'')"

fun health_text :: "node_health \<Rightarrow> string" where
  "health_text Health_Unknown = ''UNKNOWN''"
| "health_text Health_Online = ''ONLINE''"
| "health_text Health_Degraded = ''DEGRADED''"
| "health_text Health_Offline = ''OFFLINE''"
| "health_text Health_Incompatible = ''INCOMPATIBLE''"

fun security_mode_text :: "security_mode \<Rightarrow> string" where
  "security_mode_text Mode_Unlocked = ''UNLOCKED''"
| "security_mode_text Mode_Locked = ''LOCKED''"
| "security_mode_text Mode_Alarm = ''ALARM''"
| "security_mode_text Mode_LockPending = ''LOCK_PENDING''"

definition device_class_text :: "device_class \<Rightarrow> string" where
  "device_class_text c =
    (if c = DeviceClass_MainComputer then ''MAIN_COMPUTER''
     else if c = DeviceClass_DiagnosticComputer then ''DIAGNOSTIC_COMPUTER''
     else if c = DeviceClass_NetworkController then ''NETWORK_CONTROLLER''
     else if c = DeviceClass_LightingController then ''LIGHTING_CONTROLLER''
     else if c = DeviceClass_SecurityController then ''SECURITY_CONTROLLER''
     else ''UNKNOWN'')"

section \<open>Pages of the main computer\<close>

definition inventory_line :: "node_status \<Rightarrow> string" where
  "inventory_line n =
    (if \<not> ns_discovered n then []
     else ''  node=0x'' @ hexa (ns_address n) @ '' health='' @ health_text (ns_health n) @
       '' required='' @ yes_no (ns_required n) @
       (if \<not> ns_identity_valid n then '' identity=UNKNOWN'' @ newline
        else '' class='' @ device_class_text (ns_device_class n) @
          '' fw='' @ dec (ns_firmware_major n) @ ''.'' @ dec (ns_firmware_minor n) @ ''.'' @ dec (ns_firmware_patch n) @
          '' protocol='' @ dec (ns_protocol_version n) @
          (if ns_protocol_compatible n then ''(OK)'' else ''(INCOMPATIBLE)'') @
          '' hw='' @ dec (ns_hardware_revision n) @ '' uptime_ms='' @ dec (ns_uptime_ms n) @
          '' reboots='' @ dec (ns_reboot_count n) @ '' capabilities=0x'' @ hexa (ns_capabilities n) @
          '' faults='' @ dec (ns_fault_count n) @ newline))"

definition print_inventory :: "supervisor \<Rightarrow> string" where
  "print_inventory s = ''device-inventory required-fault='' @ yes_no (sv_required_node_fault s) @ '':'' @ newline @
     concat (map inventory_line (sv_nodes s))"

definition northbridge_line :: "northbridge_snapshot \<Rightarrow> string" where
  "northbridge_line x =
    (if \<not> nv_valid x then []
     else ''northbridge-network: forwarded='' @ dec (nv_forwarded_packets x) @ '' dropped='' @ dec (nv_dropped_packets x) @
       '' route-movements='' @ dec (nv_route_movement_events x) @
       '' topology-faults='' @ dec (nv_topology_fault_events x) @ newline)"

definition lighting_line :: "lighting_snapshot \<Rightarrow> string" where
  "lighting_line x =
    (if \<not> lv_valid x then []
     else ''lighting: left='' @ on_off (lv_left_indicator x) @ '' right='' @ on_off (lv_right_indicator x) @
       '' brake='' @ on_off (lv_brake_bright x) @ '' high='' @ on_off (lv_high_beam x) @ newline)"

definition security_line :: "security_view \<Rightarrow> string" where
  "security_line x =
    (if \<not> xv_valid x then []
     else ''security: mode='' @ security_mode_text (xv_mode x) @ '' inhibit='' @ on_off (xv_start_inhibit x) @
       '' alarm='' @ on_off (xv_alarm_active x) @ '' engine-running='' @ on_off (xv_engine_running x) @ newline)"

definition print_status :: "motorcycle_snapshot \<Rightarrow> string" where
  "print_status s = ''northbridge='' @ online_text (ms_northbridge_node s) @
     '' lighting-node='' @ online_text (ms_lighting_node s) @ '' security-node='' @ online_text (ms_security_node s) @
     '' tx_failures='' @ dec (ms_tx_failures s) @ '' rx_drops='' @ dec (ms_rx_drops s) @ newline @
     northbridge_line (ms_northbridge s) @ lighting_line (ms_lighting s) @ security_line (ms_security s)"

text \<open>The event list of the main program, with numbers for the senders.\<close>

definition event_line :: "event \<Rightarrow> string" where
  "event_line e = ''['' @ dec (ev_time_ms e) @ ''] '' @ dec (ev_source e) @ '' '' @ ev_text e @ newline"

definition is_fault_event :: "event \<Rightarrow> bool" where
  "is_fault_event e \<longleftrightarrow> ev_type e = msg_Fault \<or> ev_type e = msg_FaultClear"

definition verdict_text :: "test_result \<Rightarrow> string" where
  "verdict_text r = (if r = Test_Pass then ''PASS'' else if r = Test_Warn then ''WARN'' else ''FAIL'')"

definition report_line :: "test_item \<Rightarrow> string" where
  "report_line i = dec (ti_node i) @ '' '' @ verdict_text (ti_result i) @ '' '' @ dec (ti_elapsed i) @ ''ms '' @
     ti_detail i @ newline"

text \<open>The text the observer of the main program logs for a packet.\<close>

definition observed_text :: "packet \<Rightarrow> string" where
  "observed_text p = ''type='' @ dec (pkt_type p) @ '' length='' @ dec (pkt_length p) @ '' sequence='' @ dec (pkt_sequence p)"

section \<open>Pages of the diagnostic computer\<close>

definition diag_name :: "node_address \<Rightarrow> string" where
  "diag_name a =
    (if a = addr_MainComputer then ''MAIN'' else if a = addr_DiagnosticComputer then ''DIAG''
     else if a = addr_Northbridge then ''NORTHBRIDGE'' else if a = addr_Lighting then ''LIGHTING''
     else if a = addr_Security then ''SECURITY'' else if a = addr_Broadcast then ''BROADCAST''
     else ''UNKNOWN'')"

fun result_text :: "test_result \<Rightarrow> string" where
  "result_text Test_Pass = ''PASS''"
| "result_text Test_Warn = ''WARN''"
| "result_text Test_Fail = ''FAIL''"
| "result_text Test_Pending = ''PENDING''"

definition decode_text :: "packet \<Rightarrow> string" where
  "decode_text p = ''type=0x'' @ hexa (pkt_type p) @ '' seq='' @ dec (pkt_sequence p) @ '' len='' @ dec (pkt_length p) @
    (if pkt_type p = msg_SecurityState \<and> pkt_length p \<ge> 6
     then '' mode='' @ dec (pkt_payload p ! 0) @ '' inhibit='' @ dec (pkt_payload p ! 1) @
       '' alarm='' @ dec (pkt_payload p ! 2) @ '' engine='' @ dec (pkt_payload p ! 5)
     else if pkt_type p = msg_StateUpdate \<and> pkt_length p \<ge> 8
     then '' left='' @ dec (pkt_payload p ! 1) @ '' right='' @ dec (pkt_payload p ! 3) @
       '' brake='' @ dec (pkt_payload p ! 5) @ '' high='' @ dec (pkt_payload p ! 7)
     else [])"

definition count_results :: "test_result \<Rightarrow> test_item list \<Rightarrow> nat" where
  "count_results r items = length (filter (\<lambda>i. ti_result i = r) items)"

definition test_report :: "self_test \<Rightarrow> string \<times> self_test" where
  "test_report t =
    (if \<not> sf_report_ready t then ([], t)
     else (let items = sf_items t; passed = count_results Test_Pass items; warned = count_results Test_Warn items
       in (''SELF-TEST REPORT'' @ newline @
         concat (map (\<lambda>i. ''  '' @ diag_name (ti_node i) @ '': '' @ result_text (ti_result i) @ '' '' @
           dec (ti_elapsed i) @ ''ms '' @ ti_detail i @ newline) items) @
         ''SUMMARY pass='' @ decimal passed @ '' warn='' @ decimal warned @
         '' fail='' @ decimal (length items - passed - warned) @ '' total='' @ dec (sf_total_elapsed t) @ ''ms'' @ newline,
         consume_report t)))"

definition parse_node :: "string \<Rightarrow> node_address option" where
  "parse_node s =
    (if s = ''northbridge'' then Some addr_Northbridge else if s = ''lighting'' then Some addr_Lighting
     else if s = ''security'' then Some addr_Security else None)"

text \<open>One line of the monitor, of the event list and of the inventory.\<close>

definition monitor_line :: "u32 \<Rightarrow> packet \<Rightarrow> string" where
  "monitor_line now p = ''['' @ dec now @ ''] '' @ diag_name (pkt_source p) @ '' -> '' @ diag_name (pkt_destination p) @ '' '' @
     decode_text p @ newline"

definition diag_event_line :: "event \<Rightarrow> string" where
  "diag_event_line e = ''['' @ dec (ev_time_ms e) @ ''] '' @ diag_name (ev_source e) @ '' '' @ ev_text e @ newline"

definition diag_inventory_line :: "node_status \<Rightarrow> string" where
  "diag_inventory_line s =
    (if \<not> ns_discovered s then []
     else diag_name (ns_address s) @ '' online='' @ (if ns_online s then ''1'' else ''0'') @
       '' faults='' @ dec (ns_fault_count s) @ '' reboots='' @ dec (ns_reboot_count s) @ newline)"

end
