(* ===== verification/PosixSerial.thy ===== *)
theory PosixSerial
  imports Prelude
begin

text \<open>
  The serial transport of the host programs
  (\<open>raspberry-pi/main-computer/src/posix_serial_transport.cpp\<close>). The system calls are parameters on a
  world \<open>'w\<close>; terminal settings are an opaque \<open>'t\<close>. The write loop retries for as long as the
  device is busy, so it may never return: that is \<open>None\<close>.
\<close>

section \<open>System calls\<close>

datatype errno = EAGAIN | EINTR | EOTHER

text \<open>
  \<open>px_raw_8n1\<close> stands for \<open>cfmakeraw\<close>, the two \<open>cfset..speed\<close> calls and the flags set after them;
  \<open>px_write\<close> and \<open>px_read\<close> return a count, negative for an error.
\<close>

record ('t, 'w) posix_ops =
  px_open :: "string \<Rightarrow> 'w \<Rightarrow> int \<times> 'w"
  px_close :: "int \<Rightarrow> 'w \<Rightarrow> 'w"
  px_tcgetattr :: "int \<Rightarrow> 'w \<Rightarrow> bool \<times> 't \<times> 'w"
  px_raw_8n1 :: "u32 \<Rightarrow> 't \<Rightarrow> 't"
  px_tcsetattr :: "int \<Rightarrow> 't \<Rightarrow> 'w \<Rightarrow> bool \<times> 'w"
  px_tcflush :: "int \<Rightarrow> 'w \<Rightarrow> 'w"
  px_write :: "int \<Rightarrow> u8 list \<Rightarrow> 'w \<Rightarrow> int \<times> errno \<times> 'w"
  px_read :: "int \<Rightarrow> nat \<Rightarrow> 'w \<Rightarrow> int \<times> u8 list \<times> 'w"

section \<open>The transport\<close>

text \<open>Its one member is the descriptor. A speed is named by its rate.\<close>

record posix_serial =
  ps_fd :: int

definition posix_serial_init :: posix_serial where
  "posix_serial_init = \<lparr>ps_fd = - 1\<rparr>"

definition posix_is_open :: "posix_serial \<Rightarrow> bool" where
  "posix_is_open s \<longleftrightarrow> ps_fd s \<ge> 0"

definition baud_to_termios :: "u32 \<Rightarrow> u32 option" where
  "baud_to_termios baud =
    (if baud = 9600 \<or> baud = 19200 \<or> baud = 38400 \<or> baud = 57600 \<or> baud = 115200 \<or> baud = 230400
     then Some baud else None)"

definition close_device :: "('t, 'w) posix_ops \<Rightarrow> posix_serial \<Rightarrow> 'w \<Rightarrow> posix_serial \<times> 'w" where
  "close_device ops s w = (if ps_fd s \<ge> 0 then (s\<lparr>ps_fd := - 1\<rparr>, px_close ops (ps_fd s) w) else (s, w))"

definition open_device :: "('t, 'w) posix_ops \<Rightarrow> string \<Rightarrow> u32 \<Rightarrow> posix_serial \<Rightarrow> 'w
    \<Rightarrow> bool \<times> posix_serial \<times> 'w" where
  "open_device ops path baud s w =
    (case close_device ops s w of (s0, w0) \<Rightarrow>
       case baud_to_termios baud of
         None \<Rightarrow> (False, s0, w0)
       | Some speed \<Rightarrow>
           case px_open ops path w0 of (fd, w1) \<Rightarrow>
             let s1 = s0\<lparr>ps_fd := fd\<rparr> in
             if fd < 0 then (False, s1, w1)
             else case px_tcgetattr ops fd w1 of (ok, tty, w2) \<Rightarrow>
               if \<not> ok then (case close_device ops s1 w2 of (s2, w3) \<Rightarrow> (False, s2, w3))
               else case px_tcsetattr ops fd (px_raw_8n1 ops speed tty) w2 of (ok, w3) \<Rightarrow>
                 if \<not> ok then (case close_device ops s1 w3 of (s2, w4) \<Rightarrow> (False, s2, w4))
                 else (True, s1, px_tcflush ops fd w3))"

text \<open>The loop over what is left to write.\<close>

partial_function (option) write_rest :: "('t, 'w) posix_ops \<Rightarrow> int \<Rightarrow> u8 list \<Rightarrow> 'w \<Rightarrow> (bool \<times> 'w) option" where
  "write_rest ops fd bs w =
    (if bs = [] then Some (True, w)
     else case px_write ops fd bs w of (result, err, w1) \<Rightarrow>
       if result > 0 then write_rest ops fd (drop (nat result) bs) w1
       else if result < 0 \<and> (err = EAGAIN \<or> err = EINTR) then write_rest ops fd bs w1
       else Some (False, w1))"

definition posix_write :: "('t, 'w) posix_ops \<Rightarrow> posix_serial \<Rightarrow> u8 list option \<Rightarrow> 'w \<Rightarrow> (bool \<times> 'w) option" where
  "posix_write ops s data w =
    (if ps_fd s < 0 then Some (False, w)
     else case data of None \<Rightarrow> Some (False, w) | Some bs \<Rightarrow> write_rest ops (ps_fd s) bs w)"

definition posix_read :: "('t, 'w) posix_ops \<Rightarrow> posix_serial \<Rightarrow> nat \<Rightarrow> 'w \<Rightarrow> u8 list \<times> 'w" where
  "posix_read ops s capacity w =
    (if ps_fd s < 0 \<or> capacity = 0 then ([], w)
     else case px_read ops (ps_fd s) capacity w of (result, bs, w1) \<Rightarrow>
       if result \<le> 0 then ([], w1) else (take (nat result) bs, w1))"

section \<open>Writing to a device\<close>

text \<open>
  What \<open>write\<close> documents: a positive count is at most the length, that many leading bytes are taken,
  and otherwise none.
\<close>

locale posix_file =
  fixes ops :: "('t, 'w) posix_ops" and sent :: "int \<Rightarrow> 'w \<Rightarrow> u8 list"
  assumes write_takes: "px_write ops fd bs w = (r, e, w') \<Longrightarrow> r \<le> int (length bs) \<and>
    sent fd w' = sent fd w @ take (nat r) bs"
begin

lemma write_rest_sent:
  assumes "write_rest ops fd bs w = Some (ok, w')"
  shows "\<exists>n \<le> length bs. sent fd w' = sent fd w @ take n bs \<and> (ok \<longrightarrow> n = length bs)"
proof -
  have "\<exists>n \<le> length bs. sent fd (snd r) = sent fd w @ take n bs \<and> (fst r \<longrightarrow> n = length bs)"
    if "write_rest ops fd bs w = Some r" for r
  proof (rule write_rest.raw_induct [OF _ that, where P = "\<lambda>ops' fd bs w r. ops' = ops \<longrightarrow>
      (\<exists>n \<le> length bs. sent fd (snd r) = sent fd w @ take n bs \<and> (fst r \<longrightarrow> n = length bs))",
      THEN mp, OF _ refl])
    fix loop ops' fd bs w r
    assume IH: "\<And>ops' fd bs w r. loop ops' fd bs w = Some r \<Longrightarrow> ops' = ops \<longrightarrow>
        (\<exists>n \<le> length bs. sent fd (snd r) = sent fd w @ take n bs \<and> (fst r \<longrightarrow> n = length bs))"
      and eq: "(if bs = [] then Some (True, w)
        else case px_write ops' fd bs w of (result, err, w1) \<Rightarrow>
          if result > 0 then loop ops' fd (drop (nat result) bs) w1
          else if result < 0 \<and> (err = EAGAIN \<or> err = EINTR) then loop ops' fd bs w1
          else Some (False, w1)) = Some r"
    show "ops' = ops \<longrightarrow> (\<exists>n \<le> length bs. sent fd (snd r) = sent fd w @ take n bs \<and> (fst r \<longrightarrow> n = length bs))"
    proof
      assume o: "ops' = ops"
      obtain k e w1 where wr: "px_write ops fd bs w = (k, e, w1)" by (metis prod_cases3)
      note t = write_takes [OF wr]
      consider "bs = []" | "bs \<noteq> []" "k > 0" | "bs \<noteq> []" "k < 0" "e = EAGAIN \<or> e = EINTR"
        | "bs \<noteq> []" "\<not> k > 0" "\<not> (k < 0 \<and> (e = EAGAIN \<or> e = EINTR))" by blast
      then show "\<exists>n \<le> length bs. sent fd (snd r) = sent fd w @ take n bs \<and> (fst r \<longrightarrow> n = length bs)"
      proof cases
        case 1
        with eq show ?thesis by auto
      next
        case 2
        with eq o wr have "loop ops fd (drop (nat k) bs) w1 = Some r" by simp
        from IH [OF this] obtain n where n: "n \<le> length bs - nat k"
          "sent fd (snd r) = sent fd w1 @ take n (drop (nat k) bs)" "fst r \<longrightarrow> n = length bs - nat k" by auto
        have k: "nat k \<le> length bs" using t by (simp add: nat_le_iff)
        with n t show ?thesis
          by (intro exI [of _ "nat k + n"]) (auto simp: take_add)
      next
        case 3
        with eq o wr have "loop ops fd bs w1 = Some r" by simp
        from IH [OF this] t 3 show ?thesis by simp
      next
        case 4
        with eq o wr have "r = (False, w1)" by (auto split: if_splits)
        with t 4 show ?thesis by (intro exI [of _ 0]) simp
      qed
    qed
  qed
  with assms show ?thesis by fastforce
qed

text \<open>A device that goes busy only finitely often lets the loop end.\<close>

lemma write_rest_ends:
  assumes "\<And>bs w r e w'. bs \<noteq> [] \<Longrightarrow> px_write ops fd bs w = (r, e, w') \<Longrightarrow> r < 0 \<Longrightarrow> patience w' < (patience w :: nat)"
    and "\<And>bs w r e w'. px_write ops fd bs w = (r, e, w') \<Longrightarrow> patience w' \<le> patience w"
  shows "\<exists>r. write_rest ops fd bs w = Some r"
proof (induction "length bs + patience w" arbitrary: bs w rule: less_induct)
  case less
  obtain k e w1 where wr: "px_write ops fd bs w = (k, e, w1)" by (metis prod_cases3)
  show ?case
  proof (cases "bs = []")
    case True
    then show ?thesis by (subst write_rest.simps) auto
  next
    case False
    have 1: "\<exists>r. write_rest ops fd (drop (nat k) bs) w1 = Some r" if "k > 0"
      using that False assms(2) [OF wr] by (intro less) (cases bs, auto)
    have 2: "\<exists>r. write_rest ops fd bs w1 = Some r" if "k < 0"
      using assms(1) [OF False wr that] by (intro less) simp
    show ?thesis using 1 2 False wr by (subst write_rest.simps) auto
  qed
qed

end

text \<open>A line that stays busy: the loop never returns.\<close>

lemma write_rest_stuck:
  assumes "bs \<noteq> []" and "px_write ops fd bs w = (- 1, EAGAIN, w)"
  shows "write_rest ops fd bs w = None"
proof (rule ccontr)
  assume "write_rest ops fd bs w \<noteq> None"
  then obtain r where "write_rest ops fd bs w = Some r" by blast
  have "\<not> (ops = ops \<and> fd = fd \<and> bs = bs \<and> w = w)"
  proof (rule write_rest.raw_induct [OF _ \<open>write_rest ops fd bs w = Some r\<close>, where
      P = "\<lambda>ops' fd' bs' w' r. \<not> (ops' = ops \<and> fd' = fd \<and> bs' = bs \<and> w' = w)"])
    fix loop ops' fd' bs' w' r'
    assume IH: "\<And>ops' fd' bs' w' r. loop ops' fd' bs' w' = Some r \<Longrightarrow> \<not> (ops' = ops \<and> fd' = fd \<and> bs' = bs \<and> w' = w)"
      and eq: "(if bs' = [] then Some (True, w')
        else case px_write ops' fd' bs' w' of (result, err, w1) \<Rightarrow>
          if result > 0 then loop ops' fd' (drop (nat result) bs') w1
          else if result < 0 \<and> (err = EAGAIN \<or> err = EINTR) then loop ops' fd' bs' w1
          else Some (False, w1)) = Some r'"
    show "\<not> (ops' = ops \<and> fd' = fd \<and> bs' = bs \<and> w' = w)"
    proof
      assume "ops' = ops \<and> fd' = fd \<and> bs' = bs \<and> w' = w"
      with eq assms IH [of ops fd bs w r'] show False by simp
    qed
  qed
  then show False by simp
qed

section \<open>A serial line\<close>

text \<open>
  A line that takes, call by call, what its schedule says: zero is busy, and after the schedule it
  stays busy.
\<close>

record line_world =
  li_sent :: "u8 list"
  li_schedule :: "nat list"

definition line_write :: "u8 list \<Rightarrow> line_world \<Rightarrow> int \<times> errno \<times> line_world" where
  "line_write bs w =
    (case li_schedule w of
       [] \<Rightarrow> (- 1, EAGAIN, w)
     | k # ks \<Rightarrow> if k = 0 \<or> bs = [] then (- 1, EAGAIN, w\<lparr>li_schedule := ks\<rparr>)
                else (int (min k (length bs)), EOTHER,
                      w\<lparr>li_sent := li_sent w @ take k bs, li_schedule := ks\<rparr>))"

definition line_ops :: "(unit, line_world) posix_ops" where
  "line_ops = \<lparr>px_open = (\<lambda>path w. (3, w)), px_close = (\<lambda>fd w. w), px_tcgetattr = (\<lambda>fd w. (True, (), w)),
     px_raw_8n1 = (\<lambda>speed t. t), px_tcsetattr = (\<lambda>fd t w. (True, w)), px_tcflush = (\<lambda>fd w. w),
     px_write = (\<lambda>fd. line_write), px_read = (\<lambda>fd cap w. (0, [], w))\<rparr>"

interpretation line: posix_file line_ops "\<lambda>fd. li_sent"
  by unfold_locales (auto simp: line_ops_def line_write_def min_def split: list.splits if_splits)

text \<open>C39: Whole frames in order. Whenever a write to the serial device returns, what went out is a prefix of
  the bytes handed in, in order and without repetition, for any pattern of partial writes,
  interruptions and errors of the system call; and all of them if it returns true.\<close>

theorem serial_write_exact:
  assumes "posix_file ops sent" and "posix_write ops s (Some bs) w = Some (ok, w')"
  shows "\<exists>n \<le> length bs. sent (ps_fd s) w' = sent (ps_fd s) w @ (if ps_fd s < 0 then [] else take n bs)
    \<and> (ok \<longrightarrow> n = length bs \<and> ps_fd s \<ge> 0)"
proof (cases "ps_fd s < 0")
  case True
  with assms(2) show ?thesis by (auto simp: posix_write_def)
next
  case False
  with assms(2) have "write_rest ops (ps_fd s) bs w = Some (ok, w')" by (simp add: posix_write_def)
  from posix_file.write_rest_sent [OF assms(1) this] False show ?thesis by auto
qed

theorem serial_write_exact_witness:
  "\<exists>w'. posix_write line_ops (\<lparr>ps_fd = 3\<rparr>) (Some [1, 2, 3]) \<lparr>li_sent = [], li_schedule = [1, 0, 5]\<rparr> = Some (True, w')
    \<and> li_sent w' = [1, 2, 3]"
proof -
  have "posix_write line_ops (\<lparr>ps_fd = 3\<rparr>) (Some [1, 2, 3]) \<lparr>li_sent = [], li_schedule = [1, 0, 5]\<rparr> =
      Some (True, \<lparr>li_sent = [1, 2, 3], li_schedule = []\<rparr>)"
    by (simp add: posix_write_def write_rest.simps line_ops_def line_write_def)
  moreover from serial_write_exact [OF line.posix_file_axioms this]
  have "li_sent \<lparr>li_sent = [1, 2, 3], li_schedule = []\<rparr> = [1, 2, 3]" by simp
  ultimately show ?thesis by blast
qed

lemma busy_line_blocks:
  "posix_write line_ops \<lparr>ps_fd = 3\<rparr> (Some (b # bs)) \<lparr>li_sent = xs, li_schedule = []\<rparr> = None"
  using write_rest_stuck [of "b # bs" line_ops 3] by (simp add: posix_write_def line_ops_def line_write_def)

end
