(* ===== verification/HostConfig.thy ===== *)
theory HostConfig
  imports Protocol "HOL-Library.Sublist"
begin

text \<open>
  The command line of the host programs (\<open>raspberry-pi/common/include/host_config.hpp\<close>). The result is
  the configuration as left behind and the error text, \<open>None\<close> where \<open>parse_arguments\<close> returns true.
\<close>

datatype host_role = Role_Main | Role_Diagnostic

record host_config =
  hc_role :: host_role
  hc_device :: string

definition default_host_config :: host_config where
  "default_host_config = \<lparr>hc_role = Role_Diagnostic, hc_device = ''/dev/serial0''\<rparr>"

definition parse_role :: "string \<Rightarrow> host_role option" where
  "parse_role s = (if s = ''main'' then Some Role_Main else if s = ''diagnostic'' then Some Role_Diagnostic else None)"

definition role_address :: "host_role \<Rightarrow> node_address" where
  "role_address r = (if r = Role_Main then addr_MainComputer else addr_DiagnosticComputer)"

text \<open>The loop from argument \<open>i\<close> on.\<close>

fun parse_from :: "nat \<Rightarrow> string list \<Rightarrow> host_config \<Rightarrow> host_config \<times> string option" where
  "parse_from i [] c = (c, None)"
| "parse_from i (arg # args) c =
    (if arg = ''--role'' then
       (case args of
          [] \<Rightarrow> (c, Some ''--role requires main or diagnostic'')
        | s # rest \<Rightarrow>
            (case parse_role s of
               None \<Rightarrow> (c, Some ''--role requires main or diagnostic'')
             | Some r \<Rightarrow> parse_from (i + 2) rest (c\<lparr>hc_role := r\<rparr>)))
     else if arg = ''--device'' then
       (case args of
          [] \<Rightarrow> (c, Some ''--device requires a path'')
        | s # rest \<Rightarrow>
            if s = [] then (c, Some ''--device requires a path'')
            else parse_from (i + 2) rest (c\<lparr>hc_device := s\<rparr>))
     else if arg = ''--help'' then (c, Some ''usage: --role main|diagnostic --device /dev/serial0'')
     else if prefix ''--'' arg then (c, Some (''unknown option: '' @ arg))
     else if i = 1 then parse_from (i + 1) args (c\<lparr>hc_device := arg\<rparr>)
     else (c, Some (''unexpected argument: '' @ arg)))"

definition parse_arguments :: "string list \<Rightarrow> host_role \<Rightarrow> host_config \<Rightarrow> host_config \<times> string option" where
  "parse_arguments args default_role c = parse_from 1 args (c\<lparr>hc_role := default_role\<rparr>)"

text \<open>Options in any number and order are read back, the last of a kind winning.\<close>

datatype host_option = Opt_Role host_role | Opt_Device string

fun option_words :: "host_option \<Rightarrow> string list" where
  "option_words (Opt_Role r) = [''--role'', if r = Role_Main then ''main'' else ''diagnostic'']"
| "option_words (Opt_Device d) = [''--device'', d]"

fun set_option :: "host_option \<Rightarrow> host_config \<Rightarrow> host_config" where
  "set_option (Opt_Role r) c = c\<lparr>hc_role := r\<rparr>"
| "set_option (Opt_Device d) c = c\<lparr>hc_device := d\<rparr>"

lemma parse_role_word [simp]: "parse_role (if r = Role_Main then ''main'' else ''diagnostic'') = Some r"
  by (cases r) (simp_all add: parse_role_def)

lemma parse_from_options:
  "Opt_Device [] \<notin> set opts \<Longrightarrow>
    parse_from i (concat (map option_words opts)) c = (fold set_option opts c, None)"
proof (induction opts arbitrary: i c)
  case (Cons opt opts)
  then show ?case by (cases opt) auto
qed simp

text \<open>An accepted command line names a device, unless an empty word stands in the first place.\<close>

lemma parse_from_device:
  "parse_from i args c = (c', None) \<Longrightarrow> hc_device c \<noteq> [] \<Longrightarrow> i = 1 \<longrightarrow> args = [] \<or> hd args \<noteq> [] \<Longrightarrow>
    hc_device c' \<noteq> []"
proof (induction i args c rule: parse_from.induct)
  case (2 i arg args c)
  show ?case
  proof (cases "arg = ''--role'' \<or> arg = ''--device'' \<or> arg = ''--help'' \<or> prefix ''--'' arg")
    case True
    with 2 show ?thesis by (auto split: list.splits option.splits if_splits)
  next
    case False
    with 2 show ?thesis by (auto split: if_splits)
  qed
qed simp

end
