(* ===== verification/MainProgram.thy ===== *)
theory MainProgram
  imports ConsoleText Dashboard PosixSerial HostConfig
begin

text \<open>
  The program of the main computer (\<open>raspberry-pi/main-computer/src/main.cpp\<close>): start-up, the observer
  that hands every packet to self-test and log, the console commands and the service loop. What the
  environment does in a pass of the loop (the clock, \<open>poll\<close> and \<open>getline\<close>) is an argument of the pass.
\<close>

section \<open>State and observer\<close>

text \<open>Log and self-test are the variables of \<open>main\<close> the observer has captured.\<close>

record main_watch =
  mw_test :: self_test
  mw_log :: diagnostic_logger

type_synonym main_computer = "main_watch motorcycle_computer"

abbreviation main_test :: "main_computer \<Rightarrow> self_test" where
  "main_test mc \<equiv> mw_test (mc_observer mc)"

abbreviation main_log :: "main_computer \<Rightarrow> diagnostic_logger" where
  "main_log mc \<equiv> mw_log (mc_observer mc)"

definition put_test :: "self_test \<Rightarrow> main_computer \<Rightarrow> main_computer" where
  "put_test t mc = mc\<lparr>mc_observer := (mc_observer mc)\<lparr>mw_test := t\<rparr>\<rparr>"

definition put_log :: "diagnostic_logger \<Rightarrow> main_computer \<Rightarrow> main_computer" where
  "put_log l mc = mc\<lparr>mc_observer := (mc_observer mc)\<lparr>mw_log := l\<rparr>\<rparr>"

definition main_observe :: "'w transport_ops \<Rightarrow> packet \<Rightarrow> u32 \<Rightarrow> supervisor \<Rightarrow> main_watch \<Rightarrow> bike_node \<Rightarrow> 'w
    \<Rightarrow> main_watch \<times> bike_node \<times> 'w" where
  "main_observe ops p now sv st nd w =
    (case test_observe ops p sv now (mw_test st) nd w of
       (t, nd1, w1) \<Rightarrow>
         (st\<lparr>mw_test := t, mw_log := logger_record now p (observed_text p) (mw_log st)\<rparr>, nd1, w1))"

definition main_observer :: "'w transport_ops \<Rightarrow> (main_watch, 'w) packet_observer" where
  "main_observer ops = Some (main_observe ops)"

section \<open>Commands\<close>

text \<open>The commands for the controllers; the result of a request is not looked at.\<close>

definition network_command :: "'w transport_ops \<Rightarrow> string \<Rightarrow> u32 \<Rightarrow> bike_node \<Rightarrow> 'w \<Rightarrow> (bool \<times> bike_node \<times> 'w) option" where
  "network_command ops l now nd w =
    (if l = ''left on'' then Some (set_left_indicator ops True now True nd w)
     else if l = ''left off'' then Some (set_left_indicator ops False now True nd w)
     else if l = ''right on'' then Some (set_right_indicator ops True now True nd w)
     else if l = ''right off'' then Some (set_right_indicator ops False now True nd w)
     else if l = ''brake on'' then Some (set_brake_bright ops True now True nd w)
     else if l = ''brake off'' then Some (set_brake_bright ops False now True nd w)
     else if l = ''high on'' then Some (set_high_beam ops True now True nd w)
     else if l = ''high off'' then Some (set_high_beam ops False now True nd w)
     else if l = ''lock'' then Some (security_client_lock ops now True nd w)
     else if l = ''unlock'' then Some (security_client_unlock ops now True nd w)
     else if l = ''silence'' then Some (security_client_silence ops now True nd w)
     else if l = ''refresh'' then Some (request_all_states ops now nd w)
     else None)"

text \<open>\<open>diag report\<close>: a finished report is printed once.\<close>

definition main_report :: "main_computer \<Rightarrow> string \<times> main_computer" where
  "main_report mc =
    (let t = main_test mc
     in if sf_active t then (''Self-test in progress'' @ newline, mc)
        else if \<not> sf_report_ready t then (''No new self-test report'' @ newline, mc)
        else (concat (map report_line (sf_items t)), put_test (consume_report t) mc))"

definition run_command :: "'w transport_ops \<Rightarrow> string \<Rightarrow> u32 \<Rightarrow> main_computer \<Rightarrow> bike_node \<Rightarrow> 'w
    \<Rightarrow> string \<times> main_computer \<times> bike_node \<times> 'w" where
  "run_command ops l now mc nd w =
    (if l = ''status'' then (print_status (mc_snapshot mc nd), mc, nd, w)
     else if l = ''inventory'' then (print_inventory (mc_supervisor mc), mc, nd, w)
     else if l = ''diag events'' then (concat (map event_line (lg_events (main_log mc))), mc, nd, w)
     else if l = ''diag faults''
     then (concat (map event_line (filter is_fault_event (lg_events (main_log mc)))), mc, nd, w)
     else if l = ''diag clear'' then ([], put_log (logger_clear (main_log mc)) mc, nd, w)
     else if l = ''diag scan''
     then (case sv_send_discovery ops now (mc_supervisor mc) nd w of
             (_, sv, nd1, w1) \<Rightarrow> ([], mc\<lparr>mc_supervisor := sv\<rparr>, nd1, w1))
     else if l = ''diag refresh''
     then (case request_all_states ops now nd w of (_, nd1, w1) \<Rightarrow> ([], mc, nd1, w1))
     else if l = ''diag selftest''
     then (if sf_active (main_test mc) then (''Self-test already running'' @ newline, mc, nd, w)
           else (case begin_test ops (mc_supervisor mc) now (main_test mc) nd w of
                   (t, nd1, w1) \<Rightarrow> ([], put_test t mc, nd1, w1)))
     else if l = ''diag report'' then (case main_report mc of (out, mc1) \<Rightarrow> (out, mc1, nd, w))
     else (case network_command ops l now nd w of
             Some (_, nd1, w1) \<Rightarrow> ([], mc, nd1, w1)
           | None \<Rightarrow> (if l = [] then [] else ''Unknown command'' @ newline, mc, nd, w)))"

definition handle_command :: "'w transport_ops \<Rightarrow> string \<Rightarrow> u32 \<Rightarrow> main_computer \<Rightarrow> bike_node \<Rightarrow> 'w
    \<Rightarrow> bool \<times> string \<times> main_computer \<times> bike_node \<times> 'w" where
  "handle_command ops l now mc nd w =
    (if l = ''quit'' \<or> l = ''exit'' then (False, [], mc, nd, w) else (True, run_command ops l now mc nd w))"

section \<open>Start-up and loop\<close>

text \<open>Arguments and device: \<open>Inl\<close> is the exit code and what is written to \<open>std::cerr\<close>.\<close>

definition main_open :: "('t, 'v) posix_ops \<Rightarrow> string list \<Rightarrow> 'v \<Rightarrow> ((nat \<times> string) + (string \<times> posix_serial)) \<times> 'v" where
  "main_open px args v =
    (case parse_arguments args Role_Main default_host_config of
       (config, Some error) \<Rightarrow> (Inl (2, error @ newline), v)
     | (config, None) \<Rightarrow>
         if hc_role config \<noteq> Role_Main then (Inl (2, ''Use motorcycle_diag for diagnostic role'' @ newline), v)
         else (case open_device px (hc_device config) 115200 posix_serial_init v of
             (ok, serial, v1) \<Rightarrow>
               if \<not> ok
               then (Inl (1, ''Failed to open northbridge serial device: '' @ hc_device config @ newline), v1)
               else (Inr (hc_device config, serial), v1)))"

text \<open>
  The objects of \<open>main\<close>, the log opened (\<open>found\<close> is what its file held) and the first requests sent.
  The result is preceded by what was written to \<open>std::cerr\<close> and \<open>std::cout\<close>.
\<close>

definition main_start :: "'w transport_ops \<Rightarrow> nat \<Rightarrow> string \<Rightarrow> string option \<Rightarrow> u32 \<Rightarrow> 'w
    \<Rightarrow> string \<times> string \<times> main_computer \<times> bike_node \<times> 'w" where
  "main_start ops tr device found now w =
    (case logger_open found (diagnostic_logger_init 250) of
       (ok, log) \<Rightarrow>
         (let err = (if ok then [] else ''Warning: diagnostic CSV logging unavailable'' @ newline)
          in case mc_begin ops now (motorcycle_computer_init \<lparr>mw_test = self_test_init, mw_log = log\<rparr>)
               (node_init addr_MainComputer tr) w of
               (mc, nd, w1) \<Rightarrow>
                 (err, ''Motorcycle computer connected on '' @ device @ newline @
                   ''Commands: status, inventory, refresh, left on|off, right on|off, brake on|off, high on|off, '' @
                   ''lock, unlock, silence, diag events|faults|clear|scan|refresh|selftest|report, quit'' @ newline @
                   ''> '', mc, nd, w1)))"

text \<open>
  \<open>poll\<close> on the console: an error, nothing to read, the end of the input, or a line, with the clock
  read again for the command.
\<close>

datatype console_input = Console_Error | Console_Idle | Console_End | Console_Line string u32

definition main_pass :: "'w transport_ops \<Rightarrow> u32 \<Rightarrow> console_input \<Rightarrow> main_computer \<Rightarrow> bike_node \<Rightarrow> 'w
    \<Rightarrow> (bool \<times> string \<times> main_computer \<times> bike_node \<times> 'w) option" where
  "main_pass ops tick input mc nd w =
    (case mc_service ops (main_observer ops) tick mc nd w of
       None \<Rightarrow> None
     | Some (mc1, nd1, w1) \<Rightarrow>
         (case test_service ops (mc_supervisor mc1) tick (main_test mc1) nd1 w1 of
            (t, nd2, w2) \<Rightarrow>
              (let mc2 = put_test t mc1
               in Some (case input of
                    Console_Error \<Rightarrow> (False, [], mc2, nd2, w2)
                  | Console_Idle \<Rightarrow> (True, [], mc2, nd2, w2)
                  | Console_End \<Rightarrow> (False, [], mc2, nd2, w2)
                  | Console_Line l now \<Rightarrow>
                      (case handle_command ops l now mc2 nd2 w2 of
                         (running, out, mc3, nd3, w3) \<Rightarrow>
                           (running, if running then out @ ''> '' else out, mc3, nd3, w3))))))"

text \<open>
  The loop over the passes the environment grants, each with what the world does before it; \<open>True\<close>
  is a program still running.
\<close>

fun main_loop :: "'w transport_ops \<Rightarrow> (('w \<Rightarrow> 'w) \<times> u32 \<times> console_input) list \<Rightarrow> main_computer \<Rightarrow> bike_node \<Rightarrow> 'w
    \<Rightarrow> (bool \<times> string \<times> main_computer \<times> bike_node \<times> 'w) option" where
  "main_loop ops [] mc nd w = Some (True, [], mc, nd, w)"
| "main_loop ops ((env, tick, input) # passes) mc nd w =
    (case main_pass ops tick input mc nd (env w) of
       None \<Rightarrow> None
     | Some (running, out, mc1, nd1, w1) \<Rightarrow>
         if \<not> running then Some (False, out, mc1, nd1, w1)
         else (case main_loop ops passes mc1 nd1 w1 of
                 None \<Rightarrow> None
               | Some (running2, out2, rest) \<Rightarrow> Some (running2, out @ out2, rest)))"

end
