(* ===== verification/LightingProperties.thy ===== *)
theory LightingProperties
  imports LightingController
begin

text \<open>
  The properties of the lighting controller: its command server on any hardware that keeps its
  contract, the debounced inputs and the blinker, the lamps of the firmware over every run, and
  the confirmation, latching and shutdown of electrical faults.
\<close>

section \<open>Dialogues of the command server\<close>

lemma lighting_state_sent:
  "publish_lighting_state env d now s nd w =
    (True, bump_sequence nd (lighting_state_packet (actual_state env s) d),
     w\<lparr>sw_tx := sw_tx w @ [(nd_transport nd,
        frame_of (stamped nd (lighting_state_packet (actual_state env s) d) False))]\<rparr>)"
  if "le_net env = bench_transport"
  unfolding publish_lighting_state_def that by (rule bench_send) simp_all

lemma set_output_accepted:
  assumes "lighting_hardware (le_hw env)" and net: "le_net env = bench_transport"
    and p: "pkt_type p = msg_SetOutput" "pkt_length p = 2" "pkt_payload p ! 0 = output_code o1"
      "pkt_payload p ! 1 = (if b then 1 else 0)"
    and hw: "lh_write_output (le_hw env) o1 b (ls_hardware s) = (True, h)"
    and s1: "s1 = set_commanded o1 b (s\<lparr>ls_hardware := h\<rparr>)"
  shows "lighting_handle_packet env p now s nd w =
    (True, s1, bump_sequence nd (lighting_state_packet (actual_state env s1) (pkt_source p)),
     w\<lparr>sw_tx := sw_tx w @
       [(nd_transport nd, frame_of (ack_packet (nd_address nd) (pkt_source p) (pkt_sequence p) False)),
        (nd_transport nd, frame_of (stamped nd (lighting_state_packet (actual_state env s1) (pkt_source p)) False))]\<rparr>)"
    and "state_value (ls_commanded s1) o2 = (if o2 = o1 then b else state_value (ls_commanded s) o2)"
    and "state_value (actual_state env s1) o2 =
      (if o2 = o1 then b else lh_read_output (le_hw env) o2 (ls_hardware s))"
proof -
  have dec: "output_of_code (pkt_payload p ! 0) = Some o1" "valid_output (pkt_payload p ! 0)"
    "\<not> pkt_payload p ! Suc 0 > 1" "(pkt_payload p ! Suc 0 \<noteq> 0) = b"
    using p by (auto simp: valid_output_def)
  have ap: "apply_output env o1 b s = (True, s1)"
    by (simp add: apply_output_def hw s1)
  show "lighting_handle_packet env p now s nd w =
    (True, s1, bump_sequence nd (lighting_state_packet (actual_state env s1) (pkt_source p)),
     w\<lparr>sw_tx := sw_tx w @
       [(nd_transport nd, frame_of (ack_packet (nd_address nd) (pkt_source p) (pkt_sequence p) False)),
        (nd_transport nd, frame_of (stamped nd (lighting_state_packet (actual_state env s1) (pkt_source p)) False))]\<rparr>)"
    using p(1,2) dec ap
    by (simp add: lighting_handle_packet_def Let_def net node_send_ack_eq lighting_state_sent [OF net])
  show "state_value (ls_commanded s1) o2 = (if o2 = o1 then b else state_value (ls_commanded s) o2)"
    by (simp add: s1)
  from lighting_hardware.read_after_write [OF assms(1), of o2 o1 b "ls_hardware s"]
  show "state_value (actual_state env s1) o2 =
      (if o2 = o1 then b else lh_read_output (le_hw env) o2 (ls_hardware s))"
    by (simp add: s1 hw)
qed

text \<open>A demonstration unit: the firmware on an idle board with pull-ups and queue ports.\<close>

definition released_board :: pin_bank where
  "released_board = \<lparr>pb_inputs = (\<lambda>_. True), pb_outputs = (\<lambda>_. False)\<rparr>"

definition demo_lights :: "(pin_bank gpio_lighting, serial_world) lighting_env" where
  "demo_lights = lighting_board pin_bank_ops bench_transport"

definition demo_unit :: "pin_bank gpio_lighting lighting_unit" where
  "demo_unit = fst (lighting_setup pin_bank_ops released_board 1)"

lemma demo_lights_net [simp]: "le_net demo_lights = bench_transport" "le_hw demo_lights = gpio_lighting_hw pin_bank_ops"
  by (simp_all add: demo_lights_def)

text \<open>Executing a lighting command. A well-formed SetOutput the hardware accepts sets the commanded
  and the actual state of that output, leaves the others alone, and is answered by exactly two
  frames: the acknowledgement with its sequence number, then the state as it now is.\<close>

theorem set_output_executed:
  assumes "lighting_hardware (le_hw env)" and "le_net env = bench_transport"
    and "pkt_type p = msg_SetOutput" and "pkt_length p = 2" and "pkt_payload p ! 0 = output_code o1"
    and "pkt_payload p ! 1 = (if b then 1 else 0)"
    and "lh_write_output (le_hw env) o1 b (ls_hardware s) = (True, h)"
  shows "\<exists>s1 nd1. lighting_handle_packet env p now s nd w = (True, s1, nd1,
     w\<lparr>sw_tx := sw_tx w @
       [(nd_transport nd, frame_of (ack_packet (nd_address nd) (pkt_source p) (pkt_sequence p) False)),
        (nd_transport nd, frame_of (stamped nd (lighting_state_packet (actual_state env s1) (pkt_source p)) False))]\<rparr>)
    \<and> (\<forall>o2. state_value (ls_commanded s1) o2 = (if o2 = o1 then b else state_value (ls_commanded s) o2))
    \<and> (\<forall>o2. state_value (actual_state env s1) o2 =
        (if o2 = o1 then b else lh_read_output (le_hw env) o2 (ls_hardware s)))"
  using set_output_accepted [OF assms refl] by blast

theorem set_output_executed_witness:
  "\<exists>s1 nd1. lighting_handle_packet demo_lights (set_payload 1 1 (set_payload 0 0x03 (default_packet\<lparr>
      pkt_type := msg_SetOutput, pkt_length := 2\<rparr>))) 5 (lu_server demo_unit) (node_init addr_Lighting 1) quiet_world
    = (True, s1, nd1, quiet_world\<lparr>sw_tx :=
       [(1, frame_of (ack_packet addr_Lighting addr_MainComputer 0 False)),
        (1, frame_of (stamped (node_init addr_Lighting 1)
           (lighting_state_packet (actual_state demo_lights s1) addr_MainComputer) False))]\<rparr>)
    \<and> state_value (ls_commanded s1) BrakeBright"
proof -
  let ?p = "set_payload 1 1 (set_payload 0 0x03 (default_packet\<lparr>pkt_type := msg_SetOutput, pkt_length := 2\<rparr>))"
  have p: "pkt_type ?p = msg_SetOutput" "pkt_length ?p = 2" "pkt_payload ?p ! 0 = output_code BrakeBright"
    "pkt_payload ?p ! 1 = (if True then 1 else 0)" by simp_all
  have hw: "lighting_hardware (le_hw demo_lights)" by (simp add: board_lamps.lighting_hardware_axioms)
  obtain h where h: "lh_write_output (le_hw demo_lights) BrakeBright True (ls_hardware (lu_server demo_unit)) = (True, h)"
    by simp
  from set_output_executed [OF hw demo_lights_net(1) p h, of 5 "node_init addr_Lighting 1" quiet_world]
  show ?thesis by (auto simp del: state_value.simps)
qed

text \<open>C31: Refusing a lighting command. A SetOutput of the wrong length, for an unknown output, with a
  value above one, or that the hardware does not take, changes neither the commanded state nor
  any output, and is answered by exactly one negative acknowledgement.\<close>

theorem set_output_refused:
  assumes "lighting_hardware (le_hw env)" and "le_net env = bench_transport"
    and "pkt_type p = msg_SetOutput"
    and "pkt_length p \<noteq> 2 \<or> output_of_code (pkt_payload p ! 0) = None \<or> pkt_payload p ! 1 > 1
      \<or> \<not> fst (lh_write_output (le_hw env) (the (output_of_code (pkt_payload p ! 0)))
                (pkt_payload p ! 1 \<noteq> 0) (ls_hardware s))"
  shows "\<exists>s1. lighting_handle_packet env p now s nd w = (True, s1, nd,
     w\<lparr>sw_tx := sw_tx w @ [(nd_transport nd,
        frame_of (ack_packet (nd_address nd) (pkt_source p) (pkt_sequence p) True))]\<rparr>)
    \<and> ls_commanded s1 = ls_commanded s \<and> actual_state env s1 = actual_state env s"
proof (cases "pkt_length p \<noteq> 2 \<or> \<not> valid_output (pkt_payload p ! 0) \<or> pkt_payload p ! 1 > 1")
  case True
  with assms(2,3) show ?thesis by (auto simp: lighting_handle_packet_def node_send_ack_eq)
next
  case False
  let ?o = "the (output_of_code (pkt_payload p ! 0))" and ?b = "pkt_payload p ! Suc 0 \<noteq> 0"
  obtain h where h: "lh_write_output (le_hw env) ?o ?b (ls_hardware s) = (False, h)"
    using False assms(4) by (cases "lh_write_output (le_hw env) ?o ?b (ls_hardware s)")
      (auto simp: valid_output_def)
  have "actual_state env (s\<lparr>ls_hardware := h\<rparr>) = actual_state env s"
    using lighting_hardware.read_after_write [OF assms(1), of _ ?o ?b "ls_hardware s"] h
    by (intro state_value_ext) simp
  then show ?thesis
    using assms(2,3) False h by (auto simp: lighting_handle_packet_def apply_output_def node_send_ack_eq)
qed

theorem set_output_refused_witness:
  "\<exists>s1. lighting_handle_packet demo_lights (set_payload 0 0x05 (default_packet\<lparr>
      pkt_type := msg_SetOutput, pkt_length := 2\<rparr>)) 5 (lu_server demo_unit) (node_init addr_Lighting 1) quiet_world
    = (True, s1, node_init addr_Lighting 1, quiet_world\<lparr>sw_tx :=
       [(1, frame_of (ack_packet addr_Lighting addr_MainComputer 0 True))]\<rparr>)
    \<and> ls_commanded s1 = ls_commanded (lu_server demo_unit)"
proof -
  let ?p = "set_payload 0 0x05 (default_packet\<lparr>pkt_type := msg_SetOutput, pkt_length := 2\<rparr>)"
  have p: "pkt_type ?p = msg_SetOutput" and bad: "output_of_code (pkt_payload ?p ! 0) = None"
    by (simp_all add: output_of_code_def)
  have hw: "lighting_hardware (le_hw demo_lights)" by (simp add: board_lamps.lighting_hardware_axioms)
  from set_output_refused [OF hw demo_lights_net(1) p disjI2 [OF disjI1 [OF bad]], of 5
      "lu_server demo_unit" "node_init addr_Lighting 1" quiet_world]
  show ?thesis by auto
qed

section \<open>Requests are answered\<close>

text \<open>What one packet makes the controller write: the acknowledgement first, then at most one answer
  to the sender.\<close>

definition answered :: "bike_node \<Rightarrow> packet \<Rightarrow> bool \<Rightarrow> serial_world \<Rightarrow> serial_world \<Rightarrow> bool" where
  "answered nd p nack w w' \<longleftrightarrow> (\<exists>resp.
     w' = w\<lparr>sw_tx := sw_tx w @ (nd_transport nd,
       frame_of (ack_packet (nd_address nd) (pkt_source p) (pkt_sequence p) nack)) # resp\<rparr>
     \<and> length resp \<le> 1
     \<and> (\<forall>fr\<in>set resp. \<exists>q. fr = (nd_transport nd, frame_of q) \<and> pkt_destination q = pkt_source p
          \<and> pkt_type q \<notin> {msg_Ack, msg_Nack}))"

lemma answered_ack: "answered nd p n w
    (w\<lparr>sw_tx := sw_tx w @ [(nd_transport nd, frame_of (ack_packet (nd_address nd) (pkt_source p) (pkt_sequence p) n))]\<rparr>)"
  unfolding answered_def by (intro exI [of _ "[]"]) simp

lemma answered_response:
  assumes "wf_packet q" and "unat (pkt_length q) \<le> kMaxPayloadSize" and "pkt_destination q = pkt_source p"
    and "pkt_type q \<notin> {msg_Ack, msg_Nack}"
  shows "answered nd p n w (snd (snd (node_send bench_transport nd q now False
    (w\<lparr>sw_tx := sw_tx w @ [(nd_transport nd,
       frame_of (ack_packet (nd_address nd) (pkt_source p) (pkt_sequence p) n))]\<rparr>))))"
  unfolding answered_def bench_send [OF assms(1,2)]
  using assms(3,4)
  by (intro exI [of _ "[(nd_transport nd, frame_of (stamped nd q False))]"])
    (auto intro!: exI [of _ "stamped nd q False"])

lemma lighting_response_sel [simp]:
  "pkt_destination (lighting_device_info_packet d now) = d"
  "pkt_type (lighting_device_info_packet d now) = msg_DeviceInfo"
  "pkt_length (lighting_device_info_packet d now) = 16"
  "pkt_destination (lighting_heartbeat_packet d) = d"
  "pkt_type (lighting_heartbeat_packet d) = msg_Heartbeat"
  by (simp_all add: lighting_device_info_packet_def lighting_heartbeat_packet_def)

lemma lighting_body_answers:
  assumes net: "le_net env = bench_transport" and ack: "pkt_flags p AND FlagAckRequired \<noteq> 0"
    and body: "lighting_body env now p s nd w = (s', nd', w')"
  shows "\<exists>n. answered nd p n w w'
    \<and> (pkt_type p \<in> {msg_DeviceDiscovery, msg_Heartbeat, msg_GetState} \<longrightarrow> \<not> n)
    \<and> (pkt_type p \<notin> {msg_DeviceDiscovery, msg_Heartbeat, msg_GetState, msg_SetOutput} \<longrightarrow> n)"
proof -
  let ?acked = "\<lambda>n. w\<lparr>sw_tx := sw_tx w @ [(nd_transport nd,
      frame_of (ack_packet (nd_address nd) (pkt_source p) (pkt_sequence p) n))]\<rparr>"
  have sent: "snd (node_send_ack bench_transport nd (pkt_source p) (pkt_sequence p) n w) = ?acked n" for n
    by (simp add: node_send_ack_eq)
  have ackd: "ack_if_required env p n nd w = ?acked n" for n
    using ack by (simp add: ack_if_required_def net sent)
  have resp: "answered nd p n w (snd (snd (node_send bench_transport nd q now False (?acked n))))"
    if "q = lighting_device_info_packet (pkt_source p) now \<or> q = lighting_heartbeat_packet (pkt_source p)
      \<or> q = lighting_state_packet st (pkt_source p)" for q n st
    using that by (intro answered_response) auto
  consider (system) "pkt_type p \<in> {msg_DeviceDiscovery, msg_Heartbeat, msg_GetState}"
    | (set) "pkt_type p = msg_SetOutput"
    | (other) "pkt_type p \<notin> {msg_DeviceDiscovery, msg_Heartbeat, msg_GetState, msg_SetOutput}" by blast
  then show ?thesis
  proof cases
    case system
    then have "w' = snd (snd (lighting_handle_system env p now s nd w))"
      using body by (auto simp: lighting_body_def lighting_handle_system_def split: prod.splits)
    with system have "answered nd p False w w'"
      by (auto simp: lighting_handle_system_def ackd lighting_send_device_info_def
        lighting_send_heartbeat_def publish_lighting_state_def net intro!: resp)
    with system show ?thesis by (intro exI [of _ False]) auto
  next
    case set
    let ?a = "apply_output env (the (output_of_code (pkt_payload p ! 0))) (pkt_payload p ! Suc 0 \<noteq> 0) s"
    have w': "w' = snd (snd (snd (lighting_handle_packet env p now s nd w)))"
      using body set by (auto simp: lighting_body_def lighting_handle_system_def lighting_handle_packet_def
        Let_def split: prod.splits if_splits)
    have "\<exists>n. answered nd p n w w'"
      using set unfolding w' lighting_handle_packet_def
      by (cases ?a) (auto simp: Let_def net sent publish_lighting_state_def
        intro: answered_ack resp exI [of _ True] exI [of _ False])
    with set show ?thesis by auto
  next
    case other
    then have "w' = ack_if_required env p True nd w"
      using body by (auto simp: lighting_body_def lighting_handle_system_def lighting_handle_packet_def)
    with other answered_ack [of nd p True w] show ?thesis
      by (intro exI [of _ True]) (simp add: ackd)
  qed
qed

text \<open>Every request is answered. Whatever packet the lighting controller takes from its node with an
  acknowledgement requested, it writes exactly one acknowledgement or negative acknowledgement
  with that packet's sequence number, first, and after it at most one answer, to the sender;
  system requests are acknowledged positively and unknown packets negatively.\<close>

theorem lighting_answers_requests:
  assumes "le_net env = bench_transport" and "pkt_flags p AND FlagAckRequired \<noteq> 0"
    and "lighting_body env now p s nd w = (s', nd', w')"
  shows "\<exists>nack. answered nd p nack w w'
    \<and> (pkt_type p \<in> {msg_DeviceDiscovery, msg_Heartbeat, msg_GetState} \<longrightarrow> \<not> nack)
    \<and> (pkt_type p \<notin> {msg_DeviceDiscovery, msg_Heartbeat, msg_GetState, msg_SetOutput} \<longrightarrow> nack)"
  by (rule lighting_body_answers [OF assms])

theorem lighting_answers_requests_witness:
  "answered (node_init addr_Lighting 1) (default_packet\<lparr>pkt_type := msg_Heartbeat, pkt_flags := FlagAckRequired\<rparr>)
     False quiet_world (snd (snd (lighting_body demo_lights 5 (default_packet\<lparr>pkt_type := msg_Heartbeat,
       pkt_flags := FlagAckRequired\<rparr>) (lu_server demo_unit) (node_init addr_Lighting 1) quiet_world)))"
proof -
  let ?p = "default_packet\<lparr>pkt_type := msg_Heartbeat, pkt_flags := FlagAckRequired\<rparr>"
  obtain s' nd' w' where b: "lighting_body demo_lights 5 ?p (lu_server demo_unit) (node_init addr_Lighting 1)
      quiet_world = (s', nd', w')" by (metis prod_cases3)
  have a: "pkt_flags ?p AND FlagAckRequired \<noteq> 0" by simp
  from lighting_answers_requests [OF demo_lights_net(1) a b] obtain n where
    "answered (node_init addr_Lighting 1) ?p n quiet_world w'" "\<not> n" by auto
  then show ?thesis unfolding b by simp
qed

section \<open>Debounce and blinker\<close>

text \<open>The debounced input is its specification. After any samples (level, time), the debounced
  value of an input is the first level seen, and then the raw level exactly at those samples where
  that level has lasted the debounce time; otherwise it stays.\<close>

theorem debounced_input_spec:
  "db_stable (debounced_run ms (rev xs) debounced_init) = debounced_level ms xs
    \<and> (xs \<noteq> [] \<longrightarrow> db_raw (debounced_run ms (rev xs) debounced_init) = fst (hd xs)
        \<and> db_changed_at_ms (debounced_run ms (rev xs) debounced_init) = level_since xs)"
  by (cases "xs = []") (simp_all add: debounced_run_spec, simp add: debounced_init_def)

theorem debounced_input_spec_witness:
  "db_raw (debounced_run 25 (rev [(True, 5), (False, 0)]) debounced_init)
    \<and> db_changed_at_ms (debounced_run 25 (rev [(True, 5), (False, 0)]) debounced_init) = 5"
  using debounced_input_spec [of 25 "[(True, 5), (False, 0)]"] by simp

definition local_step :: "('h, 'w) lighting_env \<Rightarrow> 'h \<times> u32 \<Rightarrow> local_control \<Rightarrow> local_control" where
  "local_step env x c = update_blink (snd x) (lc_sample_inputs env (snd x) (fst x) c)"

lemma local_step_start:
  assumes "lc_initialized c" and "\<not> lc_indicator_active_previous c"
    and "local_indicator_active (local_step env x c)"
  shows "lc_blink_on (local_step env x c)" and "lc_last_blink_toggle_ms (local_step env x c) = snd x"
proof -
  have act: "local_indicator_active (lc_sample_inputs env (snd x) (fst x) c)"
    using assms(3) by (simp add: local_step_def local_indicator_active_def)
  show "lc_blink_on (local_step env x c)" and "lc_last_blink_toggle_ms (local_step env x c) = snd x"
    using assms(1,2) act by (simp_all add: local_step_def update_blink_def Let_def)
qed

lemma local_step_blink:
  assumes "lc_initialized c" and "lc_indicator_active_previous c"
    and "local_indicator_active (local_step env x c)"
  shows "lc_blink_on (local_step env x c) = (lc_blink_on c \<noteq>
      (snd x - lc_last_blink_toggle_ms c \<ge> lc_blink_half_period_ms c))"
    and "lc_last_blink_toggle_ms (local_step env x c) =
      (if snd x - lc_last_blink_toggle_ms c \<ge> lc_blink_half_period_ms c then snd x
       else lc_last_blink_toggle_ms c)"
proof -
  have act: "local_indicator_active (lc_sample_inputs env (snd x) (fst x) c)"
    using assms(3) by (simp add: local_step_def local_indicator_active_def)
  show "lc_blink_on (local_step env x c) = (lc_blink_on c \<noteq>
      (snd x - lc_last_blink_toggle_ms c \<ge> lc_blink_half_period_ms c))"
    and "lc_last_blink_toggle_ms (local_step env x c) =
      (if snd x - lc_last_blink_toggle_ms c \<ge> lc_blink_half_period_ms c then snd x
       else lc_last_blink_toggle_ms c)"
    using assms(1,2) act by (auto simp: local_step_def update_blink_def Let_def not_le)
qed

lemma local_step_sel [simp]:
  "lc_initialized (local_step env x c)"
  "lc_blink_half_period_ms (local_step env x c) = lc_blink_half_period_ms c"
  "lc_indicator_active_previous (local_step env x c) = local_indicator_active (local_step env x c)"
  by (simp_all add: local_step_def local_indicator_active_def)

text \<open>All steps of a stretch leave an indicator requested.\<close>

fun all_active :: "('h, 'w) lighting_env \<Rightarrow> ('h \<times> u32) list \<Rightarrow> local_control \<Rightarrow> bool" where
  "all_active env [] c = True"
| "all_active env (x # xs) c =
    (local_indicator_active (local_step env x c) \<and> all_active env xs (local_step env x c))"

lemma blink_stays_on:
  assumes "lc_initialized c" and "lc_indicator_active_previous c" and "lc_blink_on c"
    and "all_active env xs c" and "\<forall>x\<in>set xs. snd x - lc_last_blink_toggle_ms c < lc_blink_half_period_ms c"
  shows "lc_blink_on (fold (local_step env) xs c)
    \<and> lc_last_blink_toggle_ms (fold (local_step env) xs c) = lc_last_blink_toggle_ms c
    \<and> lc_indicator_active_previous (fold (local_step env) xs c)
    \<and> lc_initialized (fold (local_step env) xs c)
    \<and> lc_blink_half_period_ms (fold (local_step env) xs c) = lc_blink_half_period_ms c"
  using assms
proof (induction xs arbitrary: c)
  case (Cons x xs)
  have act: "local_indicator_active (local_step env x c)" using Cons.prems(4) by simp
  have less: "\<not> lc_blink_half_period_ms c \<le> snd x - lc_last_blink_toggle_ms c"
    using Cons.prems(5) by (simp add: not_le)
  note step = local_step_blink [OF Cons.prems(1,2) act, simplified less, simplified]
  from Cons.IH [of "local_step env x c"] Cons.prems act step show ?case by simp
qed simp

text \<open>The first flash is complete. When an indicator is requested after none was, the lamp phase
  starts on and stays on at every service within the half period, while a request lasts; the
  first service at which the half period is over turns it off.\<close>

theorem first_flash_complete:
  assumes "lc_initialized c" and "\<not> lc_indicator_active_previous c"
    and "all_active env ((h0, t0) # xs) c"
    and "\<forall>x\<in>set xs. snd x - t0 < lc_blink_half_period_ms c"
  shows "lc_blink_on (fold (local_step env) ((h0, t0) # xs) c)
    \<and> (\<forall>h t. local_indicator_active (fold (local_step env) ((h0, t0) # xs @ [(h, t)]) c) \<longrightarrow>
        t - t0 \<ge> lc_blink_half_period_ms c \<longrightarrow>
        \<not> lc_blink_on (fold (local_step env) ((h0, t0) # xs @ [(h, t)]) c))"
proof -
  let ?c = "local_step env (h0, t0) c"
  have act: "local_indicator_active ?c" "all_active env xs ?c" using assms(3) by simp_all
  note start = local_step_start [OF assms(1,2) act(1), simplified]
  have on: "lc_blink_on (fold (local_step env) xs ?c)
    \<and> lc_last_blink_toggle_ms (fold (local_step env) xs ?c) = t0
    \<and> lc_indicator_active_previous (fold (local_step env) xs ?c)
    \<and> lc_initialized (fold (local_step env) xs ?c)
    \<and> lc_blink_half_period_ms (fold (local_step env) xs ?c) = lc_blink_half_period_ms c"
    using blink_stays_on [of ?c env xs] act start assms(4) by simp
  show ?thesis
    using on local_step_blink(1) [of "fold (local_step env) xs ?c" env] by simp
qed

definition turning_board :: pin_bank where
  "turning_board = released_board\<lparr>pb_inputs := (\<lambda>pin. pin \<noteq> kLeftSwitchPin)\<rparr>"

definition demo_turning :: local_control where
  "demo_turning = fold (local_step demo_lights)
     [(ls_hardware (lu_server demo_unit), 0), (\<lparr>gl_pins = turning_board, gl_state = (\<lambda>_. False)\<rparr>, 10)]
     (lu_local demo_unit)"

theorem first_flash_complete_witness:
  "lc_blink_on (fold (local_step demo_lights) [(\<lparr>gl_pins = turning_board, gl_state = (\<lambda>_. False)\<rparr>, 40),
     (\<lparr>gl_pins = turning_board, gl_state = (\<lambda>_. False)\<rparr>, 539)] demo_turning)"
proof -
  let ?h = "\<lparr>gl_pins = turning_board, gl_state = (\<lambda>_. False)\<rparr>"
  have c: "lc_initialized demo_turning" "\<not> lc_indicator_active_previous demo_turning"
    "all_active demo_lights ((?h, 40) # [(?h, 539)]) demo_turning"
    "539 - 40 < lc_blink_half_period_ms demo_turning"
    by code_simp+
  have "\<forall>x\<in>set [(?h, 539)]. snd x - 40 < lc_blink_half_period_ms demo_turning" using c(4) by simp
  from first_flash_complete [OF c(1-3) this] show ?thesis by blast
qed

section \<open>The lamps over every run\<close>

abbreviation lamp :: "'g gpio_lighting lighting_unit \<Rightarrow> lighting_output \<Rightarrow> bool" where
  "lamp u o1 \<equiv> gpio_read_output o1 (ls_hardware (lu_server u))"

lemma lamp_effective:
  assumes "lighting_trace gp net hs (u, nd, w)" and "independent_pins gp"
  shows "lamp u o1 = effective_output (lu_local u) (ls_commanded (lu_server u)) o1"
  using lighting_trace_inv [OF assms] by (simp add: unit_inv_def gpio_read_output_def)

text \<open>C11: The lamps follow the requests. In every run of the firmware, after any number of loop passes,
  brake and high beam are on exactly if a debounced control asks for them or the network
  commanded them, and each indicator shows the blinker while its switch is on, else its command;
  the debounced controls are the specification's value of all levels the loops have read.\<close>

theorem lamps_follow_requests:
  assumes "lighting_trace gp net hs (u, nd, w)" and "independent_pins gp" and "hs \<noteq> []"
  shows "(lamp u BrakeBright \<longleftrightarrow> debounced_level 25 (input_history gp kFrontBrakeInputPin hs)
      \<or> debounced_level 25 (input_history gp kRearBrakeInputPin hs)
      \<or> lst_brake_bright (ls_commanded (lu_server u)))
    \<and> (lamp u HighBeam \<longleftrightarrow> debounced_level 25 (input_history gp kHighBeamInputPin hs)
      \<or> lst_high_beam (ls_commanded (lu_server u)))
    \<and> lamp u LeftIndicator = (if debounced_level 25 (input_history gp kLeftSwitchPin hs)
      then lc_blink_on (lu_local u) else lst_left_indicator (ls_commanded (lu_server u)))
    \<and> lamp u RightIndicator = (if debounced_level 25 (input_history gp kRightSwitchPin hs)
      then lc_blink_on (lu_local u) else lst_right_indicator (ls_commanded (lu_server u)))"
  unfolding trace_history [OF assms, symmetric] lamp_effective [OF assms(1,2)] by simp

lemma demo_lighting_run:
  "\<exists>u nd w. lighting_trace pin_bank_ops bench_transport (map (\<lambda>t. (g, t)) ts) (u, nd, w)"
proof (induction ts)
  case Nil
  obtain u nd where "lighting_setup pin_bank_ops g 1 = (u, nd)" by fastforce
  from lt_boot [OF this, of bench_transport quiet_world] show ?case by auto
next
  case (Cons t ts)
  then obtain u nd w where tr: "lighting_trace pin_bank_ops bench_transport (map (\<lambda>t. (g, t)) ts) (u, nd, w)"
    by blast
  let ?u = "u\<lparr>lu_server := (lu_server u)\<lparr>ls_hardware := (ls_hardware (lu_server u))\<lparr>gl_pins := g\<rparr>\<rparr>\<rparr>"
  have fin: "finite_transport (le_net (lighting_board pin_bank_ops bench_transport)) (\<lambda>t w. length (sw_rx w t))"
    by (simp add: bench.finite_transport_axioms)
  obtain u' nd' w' where run: "lighting_loop (lighting_board pin_bank_ops bench_transport) t ?u nd w = Some (u', nd', w')"
    using lighting_loop_ends' [OF fin, of t ?u nd w] by auto
  from lt_loop [OF lt_world [OF tr, of g w] run] show ?case by auto
qed

theorem lamps_follow_requests_witness:
  "\<exists>u nd w. lighting_trace pin_bank_ops bench_transport [(idle_board, 30)] (u, nd, w)
    \<and> lamp u BrakeBright \<and> lamp u HighBeam \<and> lamp u LeftIndicator = lc_blink_on (lu_local u)"
proof -
  obtain u nd w where tr: "lighting_trace pin_bank_ops bench_transport [(idle_board, 30)] (u, nd, w)"
    using demo_lighting_run [of idle_board "[30]"] by auto
  from lamps_follow_requests [OF tr pin_bank.independent_pins_axioms] tr show ?thesis
    by (auto simp: input_history_def idle_board_def)
qed

lemma input_level_held:
  assumes "recent \<noteq> []" and "\<forall>x\<in>set recent. \<not> gp_digital_read gp pin (fst x)"
    and "older \<noteq> [] \<longrightarrow> gp_digital_read gp pin (fst (hd older))"
    and "snd (hd recent) - snd (last recent) \<ge> ms"
  shows "debounced_level ms (input_history gp pin (recent @ older))"
proof -
  have "debounced_level ms (input_history gp pin recent @ input_history gp pin older) = True"
  proof (rule debounced_level_held)
    show "input_history gp pin recent \<noteq> []" using assms(1) by (simp add: input_history_def)
    show "\<forall>x\<in>set (input_history gp pin recent). fst x = True"
      using assms(2) by (auto simp: input_history_def)
    show "input_history gp pin older \<noteq> [] \<longrightarrow> fst (hd (input_history gp pin older)) \<noteq> True"
      using assms(3) by (cases older) (auto simp: input_history_def)
    show "ms \<le> snd (hd (input_history gp pin recent)) - snd (last (input_history gp pin recent))"
      using assms(1,4) by (simp add: input_history_def hd_map last_map case_prod_unfold)
  qed
  then show ?thesis by (simp add: input_history_def)
qed

text \<open>C9: Braking lights the brake lamp. In every run of the firmware, whatever arrives on the network,
  if a brake input (active low) was read pressed in all the newest loop passes, over at least
  25 ms since the pass that first read it so, then the brake lamp is on.\<close>

theorem brake_lights_when_held:
  assumes "lighting_trace gp net (recent @ older) (u, nd, w)" and "independent_pins gp"
    and "pin = kFrontBrakeInputPin \<or> pin = kRearBrakeInputPin"
    and "recent \<noteq> []" and "\<forall>x\<in>set recent. \<not> gp_digital_read gp pin (fst x)"
    and "older \<noteq> [] \<longrightarrow> gp_digital_read gp pin (fst (hd older))"
    and "snd (hd recent) - snd (last recent) \<ge> 25"
  shows "lamp u BrakeBright"
proof -
  have ne: "recent @ older \<noteq> []" using assms(4) by simp
  show ?thesis
    using input_level_held [OF assms(4-7)] assms(3) trace_history(3,4) [OF assms(1,2) ne]
    unfolding lamp_effective [OF assms(1,2)] by auto
qed

theorem brake_lights_when_held_witness:
  "\<exists>u nd w. lighting_trace pin_bank_ops bench_transport ([(idle_board, 4), (idle_board, 4294967275)] @ [(released_board, 4294967270)])
     (u, nd, w) \<and> lamp u BrakeBright"
proof -
  obtain u nd w where "lighting_trace pin_bank_ops bench_transport (map (\<lambda>t. (released_board, t)) [4294967270]) (u, nd, w)"
    using demo_lighting_run [of released_board "[4294967270]"] by blast
  then have tr: "lighting_trace pin_bank_ops bench_transport [(released_board, 4294967270)] (u, nd, w)" by simp
  have step: "\<exists>u' nd' w'. lighting_trace pin_bank_ops bench_transport ((idle_board, t) # hs) (u', nd', w')"
    if "lighting_trace pin_bank_ops bench_transport hs (u, nd, w)" for t hs u nd w
  proof -
    let ?u = "u\<lparr>lu_server := (lu_server u)\<lparr>ls_hardware := (ls_hardware (lu_server u))\<lparr>gl_pins := idle_board\<rparr>\<rparr>\<rparr>"
    have fin: "finite_transport (le_net (lighting_board pin_bank_ops bench_transport)) (\<lambda>t w. length (sw_rx w t))"
      by (simp add: bench.finite_transport_axioms)
    obtain u' nd' w' where "lighting_loop (lighting_board pin_bank_ops bench_transport) t ?u nd w = Some (u', nd', w')"
      using lighting_loop_ends' [OF fin, of t ?u nd w] by auto
    from lt_loop [OF lt_world [OF that, of idle_board w] this] show ?thesis by auto
  qed
  obtain u' nd' w' where tr': "lighting_trace pin_bank_ops bench_transport
      ([(idle_board, 4), (idle_board, 4294967275)] @ [(released_board, 4294967270)]) (u', nd', w')"
  proof -
    from step [OF tr, of 4294967275] obtain u1 nd1 w1 where
      "lighting_trace pin_bank_ops bench_transport
        [(idle_board, 4294967275), (released_board, 4294967270)] (u1, nd1, w1)" by blast
    from step [OF this, of 4] that show thesis by auto
  qed
  have "lamp u' BrakeBright"
    by (rule brake_lights_when_held [OF tr' pin_bank.independent_pins_axioms, of kFrontBrakeInputPin])
      (simp_all add: idle_board_def released_board_def)
  with tr' show ?thesis by blast
qed

end
