(* ===== verification/LightingFaultProperties.thy ===== *)
theory LightingFaultProperties
  imports LightingProperties
begin

text \<open>
  The properties of the electrical supervision: when a fault is latched and reported, what a
  shutdown does and how long it lasts next to the rider's controls, and that the loop of the
  firmware ends.
\<close>

section \<open>A test bench with a measured current\<close>

record test_rig =
  tr_on :: "lighting_output \<Rightarrow> bool"
  tr_current :: "lighting_output \<Rightarrow> u16"

definition rig_hw :: "test_rig lighting_hw_ops" where
  "rig_hw = \<lparr>lh_write_output = (\<lambda>o1 b h. (True, h\<lparr>tr_on := (tr_on h)(o1 := b)\<rparr>)),
     lh_read_output = (\<lambda>o1 h. tr_on h o1)\<rparr>"

definition rig_inputs :: "test_rig lighting_input_ops" where
  "rig_inputs = \<lparr>in_left_indicator_requested = (\<lambda>_. False), in_right_indicator_requested = (\<lambda>_. False),
     in_front_brake_active = (\<lambda>_. False), in_rear_brake_active = (\<lambda>_. False),
     in_high_beam_requested = (\<lambda>_. False)\<rparr>"

definition rig :: "(test_rig, serial_world) lighting_env" where
  "rig = \<lparr>le_hw = rig_hw, le_inputs = rig_inputs,
     le_feedback = \<lparr>fb_read_current_ma = (\<lambda>o1 _ h. (True, tr_current h o1))\<rparr>, le_net = bench_transport\<rparr>"

interpretation rig_lamps: reliable_lighting rig_hw
  by unfold_locales (auto simp: rig_hw_def)

definition overload_rig :: test_rig where
  "overload_rig = \<lparr>tr_on = (\<lambda>o1. o1 = HighBeam), tr_current = (\<lambda>_. 6000)\<rparr>"

section \<open>Confirmation and latching\<close>

text \<open>C32: Faults are latched exactly when confirmed. A manager configured for c samples (0 counts as 1)
  has latched a fault of a channel exactly if, among the statuses it has sampled there, some c
  consecutive ones were faults; whatever else the board does between the samples.\<close>

theorem fault_latched_exactly:
  "fr_latched (fault_record_of (fst (fault_run env d o1 xs (set_confirm_samples c fault_manager_init) s nd w)) o1)
    \<longleftrightarrow> has_streak (max 1 (unat c)) (sampled env d o1 xs)"
proof -
  let ?f = "set_confirm_samples c fault_manager_init"
  obtain f' s' nd' w' where r: "fault_run env d o1 xs ?f s nd w = (f', s', nd', w')" by (metis prod_cases4)
  have f: "channel_count ?f o1 = 0" "\<not> fr_latched (channel_record ?f o1)"
    by (simp_all add: set_confirm_samples_def fault_manager_init_def channel_count_def
      channel_record_def default_fault_record_def)
  have c: "unat (fm_confirm_samples ?f) = max 1 (unat c)"
    by (simp add: set_confirm_samples_def fault_manager_init_def unat_eq_zero max_def Suc_le_eq unat_gt_0)
  then have "0 < fm_confirm_samples ?f" by (simp add: word_less_nat_alt)
  from fault_run_latched [OF r f(1) this] f(2) show ?thesis by (simp add: r c)
qed

text \<open>C33: A confirmed overload is shut down and reported. When a channel whose policy asks for it
  completes its confirming over-current sample, the output is switched off and nothing else is,
  the fault is latched with the shutdown noted, the network's command stays, and a fault that was
  not latched before is reported to the main computer by exactly one frame that says so.\<close>

theorem overload_shutdown:
  assumes "reliable_lighting (le_hw env)" and "le_net env = bench_transport"
    and "channel_status env d o1 (ls_hardware s) = ES_OverCurrent"
    and "confirmed_sample f o1 ES_OverCurrent" and "fm_policies f (index_for o1) = ShutdownOnOverCurrent"
    and "update_channel env d o1 now f s nd w = (f', s', nd', w')"
  shows "(\<forall>o2. lh_read_output (le_hw env) o2 (ls_hardware s') =
        (o2 \<noteq> o1 \<and> lh_read_output (le_hw env) o2 (ls_hardware s)))
    \<and> fr_latched (channel_record f' o1) \<and> fr_latched_status (channel_record f' o1) = ES_OverCurrent
    \<and> fr_shutdown_applied (channel_record f' o1) \<and> ls_commanded s' = ls_commanded s
    \<and> (\<not> fr_latched (channel_record f o1) \<longrightarrow> w' = w\<lparr>sw_tx := sw_tx w @ [(nd_transport nd,
         frame_of (stamped nd (fault_packet o1 (channel_record f' o1) msg_Fault) False))]\<rparr>)"
proof -
  obtain h where h: "lh_write_output (le_hw env) o1 False (ls_hardware s) = (True, h)"
    using reliable_lighting.write_works [OF assms(1), of o1 False "ls_hardware s"]
    by (cases "lh_write_output (le_hw env) o1 False (ls_hardware s)") auto
  have sd: "shuts_down f o1 ES_OverCurrent" using assms(5) by (simp add: shuts_down_def)
  note eq = update_channel_confirmed [OF assms(4) assms(3) [symmetric] h refl, of now nd w,
      unfolded assms(6)]
  have "lh_read_output (le_hw env) o2 h = (o2 \<noteq> o1 \<and> lh_read_output (le_hw env) o2 (ls_hardware s))" for o2
    using reliable_lighting.read_written [OF assms(1), of o2 o1 False "ls_hardware s"] h by simp
  moreover have "w' = w\<lparr>sw_tx := sw_tx w @ [(nd_transport nd,
         frame_of (stamped nd (fault_packet o1 (channel_record f' o1) msg_Fault) False))]\<rparr>"
    if "\<not> fr_latched (channel_record f o1)"
    using eq that by (simp add: publish_fault_def assms(2) bench_send channel_record_def)
  ultimately show ?thesis using eq sd by (simp add: channel_record_def)
qed

definition guarded :: fault_manager where
  "guarded = set_policy HighBeam ShutdownOnOverCurrent (set_confirm_samples 1 fault_manager_init)"

theorem overload_shutdown_witness:
  "\<exists>f' s' nd' w'. update_channel rig lighting_diagnostics_init HighBeam 7 guarded
     (lighting_server_init overload_rig) (node_init addr_Lighting 1) quiet_world = (f', s', nd', w')
   \<and> \<not> tr_on (ls_hardware s') HighBeam \<and> length (sw_tx w') = 1"
proof -
  obtain f' s' nd' w' where u: "update_channel rig lighting_diagnostics_init HighBeam 7 guarded
     (lighting_server_init overload_rig) (node_init addr_Lighting 1) quiet_world = (f', s', nd', w')"
    by (metis prod_cases4)
  have hw: "reliable_lighting (le_hw rig)" using rig_lamps.reliable_lighting_axioms by (simp add: rig_def)
  have "le_net rig = bench_transport" by (simp add: rig_def)
  moreover have "channel_status rig lighting_diagnostics_init HighBeam
      (ls_hardware (lighting_server_init overload_rig)) = ES_OverCurrent" by code_simp
  moreover have "confirmed_sample guarded HighBeam ES_OverCurrent" by code_simp
  moreover have "fm_policies guarded (index_for HighBeam) = ShutdownOnOverCurrent" by code_simp
  moreover have "\<not> fr_latched (channel_record guarded HighBeam)" by code_simp
  moreover have "lh_read_output (le_hw rig) o2 h = tr_on h o2" for o2 h by (simp add: rig_def rig_hw_def)
  ultimately show ?thesis
    using overload_shutdown [OF hw _ _ _ _ u] u by auto
qed

text \<open>C34: The shutdown does not last. The rider's controls, serviced in the same firmware loop, restore
  every output to its effective value: an output that an overload has just switched off and that is
  still commanded is switched on again by the next service of the local control.\<close>

theorem shutdown_undone:
  assumes "reliable_lighting (le_hw env)" and "fm_policies f (index_for o1) = ShutdownOnOverCurrent"
    and "channel_status env d o1 (ls_hardware s) = ES_OverCurrent"
    and "confirmed_sample f o1 ES_OverCurrent"
    and "update_channel env d o1 now f s nd w = (f', s', nd', w')"
    and "local_control_service env later c s' nd' w' = (c', s'', nd'', w'')"
    and "effective_output c' (ls_commanded s) o1"
  shows "\<not> lh_read_output (le_hw env) o1 (ls_hardware s') \<and> lh_read_output (le_hw env) o1 (ls_hardware s'')
    \<and> fr_shutdown_applied (channel_record f' o1)"
proof -
  obtain h where h: "lh_write_output (le_hw env) o1 False (ls_hardware s) = (True, h)"
    using reliable_lighting.write_works [OF assms(1), of o1 False "ls_hardware s"]
    by (cases "lh_write_output (le_hw env) o1 False (ls_hardware s)") auto
  have sd: "shuts_down f o1 ES_OverCurrent" using assms(2) by (simp add: shuts_down_def)
  note eq = update_channel_confirmed [OF assms(4) assms(3) [symmetric] h refl, of now nd w,
      unfolded assms(5)]
  have off: "\<not> lh_read_output (le_hw env) o1 h"
    using reliable_lighting.read_written [OF assms(1), of o1 o1 False "ls_hardware s"] h by simp
  have "ls_commanded s'' = ls_commanded s"
    using local_control_service_local(2) [OF assms(6)] eq sd by simp
  with reliable_lighting.service_outputs [OF assms(1) refl assms(6), of o1] assms(7)
  have "lh_read_output (le_hw env) o1 (ls_hardware s'')" by simp
  with eq sd off show ?thesis by (simp add: channel_record_def)
qed

definition beam_commanded :: "test_rig lighting_server" where
  "beam_commanded = set_commanded HighBeam True (lighting_server_init overload_rig)"

theorem shutdown_undone_witness:
  "\<exists>f' s' nd' w' c' s'' nd'' w''. update_channel rig lighting_diagnostics_init HighBeam 7 guarded
     beam_commanded (node_init addr_Lighting 1) quiet_world = (f', s', nd', w')
   \<and> local_control_service rig 8 local_control_init s' nd' w' = (c', s'', nd'', w'')
   \<and> \<not> tr_on (ls_hardware s') HighBeam \<and> tr_on (ls_hardware s'') HighBeam"
proof -
  obtain f' s' nd' w' where u: "update_channel rig lighting_diagnostics_init HighBeam 7 guarded
     beam_commanded (node_init addr_Lighting 1) quiet_world = (f', s', nd', w')" by (metis prod_cases4)
  obtain c' s'' nd'' w'' where l: "local_control_service rig 8 local_control_init s' nd' w' = (c', s'', nd'', w'')"
    by (metis prod_cases4)
  have hw: "reliable_lighting (le_hw rig)" using rig_lamps.reliable_lighting_axioms by (simp add: rig_def)
  have pol: "fm_policies guarded (index_for HighBeam) = ShutdownOnOverCurrent" by code_simp
  have st: "channel_status rig lighting_diagnostics_init HighBeam (ls_hardware beam_commanded) = ES_OverCurrent"
    by code_simp
  have conf: "confirmed_sample guarded HighBeam ES_OverCurrent" by code_simp
  have "lst_high_beam (ls_commanded beam_commanded)" by code_simp
  then have eff: "effective_output c' (ls_commanded beam_commanded) HighBeam" by simp
  have "lh_read_output (le_hw rig) o2 h = tr_on h o2" for o2 h by (simp add: rig_def rig_hw_def)
  with shutdown_undone [OF hw pol st conf u l eff] u l show ?thesis by auto
qed

section \<open>The loop ends\<close>

text \<open>The lighting loop ends. On a transport with finite input, one pass of the firmware's loop, with
  any packets waiting and in any state, returns.\<close>

theorem lighting_loop_ends:
  assumes "finite_transport (le_net env) avail"
  shows "\<exists>u' nd' w'. lighting_loop env now u nd w = Some (u', nd', w')"
  using lighting_loop_ends' [OF assms, of now u nd w] by auto

theorem lighting_loop_ends_witness:
  "\<exists>u' nd' w'. lighting_loop demo_lights 5 demo_unit (node_init addr_Lighting 1)
     (quiet_world\<lparr>sw_rx := (\<lambda>_. frame_of default_packet)\<rparr>) = Some (u', nd', w')"
  by (rule lighting_loop_ends [where avail = "\<lambda>t w. length (sw_rx w t)"])
    (simp add: bench.finite_transport_axioms)

end
