(* ===== verification/NodeBurst.thy ===== *)
theory NodeBurst
  imports NodeLink
begin

text \<open>
  A burst: acknowledgements and then one packet that reach a node in one read of its queue port. The
  acknowledgements are consumed inside the node, the packet is delivered, and the service loop
  around the node handles exactly that packet.
\<close>

lemma node_poll_frames:
  assumes "node_quiet nd" and "\<forall>p\<in>set ps. sendable p"
    and "tp_read ops (nd_transport nd) 64 w = (concat (map frame_of ps), w1)"
    and "node_receive_all ops nd (map received ps) w1 = (nd2, w2)"
    and "node_poll ops nd out now w = (ok, q, nd', w')"
  shows "w' = w2 \<and> (\<exists>s. sp_length s = 0 \<and> node_dequeue_rx (nd2\<lparr>nd_parser := s\<rparr>) out = (ok, q, nd'))"
proof -
  have "collected (sp_rejected (nd_parser nd)) [] (nd_parser nd)"
    using assms(1) by (simp add: collected_idle node_quiet_def node_inv_def)
  from feed_frames [OF this assms(2)] obtain s where
    "parser_feed (nd_parser nd) (concat (map frame_of ps)) = (s, map received ps)" "sp_length s = 0"
    by (auto simp: collected_idle)
  with assms show ?thesis
    by (auto simp: node_poll_cases node_quiet_def node_rx_bytes_feed split: prod.splits)
qed

text \<open>A node that has consumed acknowledgements.\<close>

definition controlled :: "packet list \<Rightarrow> bike_node \<Rightarrow> bike_node" where
  "controlled ks nd = fold (\<lambda>k n. node_handle_control_packet n (received k)) ks nd"

lemma controlled_sel [simp]:
  "nd_address (controlled ks nd) = nd_address nd" "nd_transport (controlled ks nd) = nd_transport nd"
  "nd_sequence (controlled ks nd) = nd_sequence nd" "rx_list (controlled ks nd) = rx_list nd"
  "node_ring (controlled ks nd) = node_ring nd" "nd_rx_count (controlled ks nd) = nd_rx_count nd"
  by (induction ks arbitrary: nd) (simp_all add: controlled_def)

lemma controlled_auto_ack [simp]: "nd_auto_ack (controlled ks nd) = nd_auto_ack nd"
  by (induction ks arbitrary: nd) (simp_all add: controlled_def node_handle_control_packet_def Let_def)

definition control_for :: "bike_node \<Rightarrow> packet \<Rightarrow> bool" where
  "control_for nd k \<longleftrightarrow> sendable k \<and> pkt_destination k = nd_address nd \<and> (pkt_type k = msg_Ack \<or> pkt_type k = msg_Nack)"

lemma node_receive_burst:
  assumes "\<forall>k\<in>set ks. control_for nd k"
  shows "node_receive_all ops nd (map received (ks @ [p])) w = node_receive ops (controlled ks nd) (received p) w"
  using assms
proof (induction ks arbitrary: nd)
  case Nil
  then show ?case by (simp add: controlled_def split: prod.split)
next
  case (Cons k ks)
  then have "node_receive ops nd (received k) w = (node_handle_control_packet nd (received k), w)"
    by (auto simp: node_receive_def control_for_def)
  with Cons show ?case by (simp add: controlled_def control_for_def)
qed

text \<open>The world after the node has taken a packet, its acknowledgement sent where asked for.\<close>

definition world_taken :: "bike_node \<Rightarrow> packet \<Rightarrow> serial_world \<Rightarrow> serial_world" where
  "world_taken nd p w =
    (let w1 = w\<lparr>sw_rx := (sw_rx w)(nd_transport nd := [])\<rparr>
     in if nd_auto_ack nd \<and> pkt_flags p AND FlagAckRequired \<noteq> 0
        then w1\<lparr>sw_tx := sw_tx w @ [(nd_transport nd,
          frame_of (ack_packet (nd_address nd) (pkt_source p) (pkt_sequence p) False))]\<rparr>
        else w1)"

lemma node_poll_burst:
  assumes "node_quiet nd" and "\<forall>k\<in>set ks. control_for nd k" and p: "sendable p" "pkt_destination p = nd_address nd"
      "pkt_type p \<noteq> msg_Ack" "pkt_type p \<noteq> msg_Nack"
    and rx: "sw_rx w (nd_transport nd) = concat (map frame_of (ks @ [p]))" "length (sw_rx w (nd_transport nd)) \<le> 64"
  shows "\<exists>nd'. node_poll bench_transport nd out now w = (True, received p, nd', world_taken nd p w)
    \<and> node_quiet nd' \<and> nd_address nd' = nd_address nd \<and> nd_transport nd' = nd_transport nd
    \<and> nd_sequence nd' = nd_sequence nd \<and> nd_auto_ack nd' = nd_auto_ack nd
    \<and> nd_pending nd' = nd_pending (controlled ks nd)"
proof -
  obtain ok q nd' w' where poll: "node_poll bench_transport nd out now w = (ok, q, nd', w')" by (metis prod_cases4)
  let ?nd = "controlled ks nd" and ?w = "w\<lparr>sw_rx := (sw_rx w)(nd_transport nd := [])\<rparr>"
  have rd: "tp_read bench_transport (nd_transport nd) 64 w = (concat (map frame_of (ks @ [p])), ?w)"
    using rx by simp
  have all: "\<forall>x\<in>set (ks @ [p]). sendable x" using assms(2) p(1) by (auto simp: control_for_def)
  have "node_receive bench_transport ?nd (received p) ?w =
      (snd (node_enqueue_rx ?nd (received p)), world_taken nd p w)"
    using p(2-4) by (auto simp: node_receive_def Let_def node_send_ack_eq world_taken_def)
  then have r: "node_receive_all bench_transport nd (map received (ks @ [p])) ?w =
      (snd (node_enqueue_rx ?nd (received p)), world_taken nd p w)"
    using node_receive_burst [OF assms(2), of bench_transport p ?w] by simp
  let ?nd2 = "snd (node_enqueue_rx ?nd (received p))"
  have ring: "node_ring ?nd" and empty: "rx_list nd = []" "nd_rx_count nd = 0"
    using assms(1) by (simp_all add: node_quiet_def node_inv_def rx_list_def)
  have c: "rx_list ?nd2 = [received p]" and ring2: "node_ring ?nd2"
    using rxq.enq_contents [OF ring] rxq.enq_wf [OF ring] by (simp_all add: empty)
  from node_poll_frames [OF assms(1) all rd r poll] obtain s where
    w': "w' = world_taken nd p w" and s: "sp_length s = 0"
    and d: "node_dequeue_rx (?nd2\<lparr>nd_parser := s\<rparr>) out = (ok, q, nd')" by blast
  from rxq.deq_first [of "?nd2\<lparr>nd_parser := s\<rparr>" "received p" "[]" out] c ring2 d
  have "ok" "q = received p" "rx_list nd' = []" by simp_all
  moreover from this(3) have "nd_rx_count nd' = 0" by (metis length_rx_list list.size(3))
  moreover have "node_inv nd'" using node_poll_inv(1) [OF _ poll] assms(1) by (simp add: node_quiet_def)
  moreover have "nd_address ?nd2 = nd_address nd" "nd_transport ?nd2 = nd_transport nd"
    "nd_sequence ?nd2 = nd_sequence nd" "nd_auto_ack ?nd2 = nd_auto_ack nd" "nd_pending ?nd2 = nd_pending ?nd"
    by (simp_all add: node_enqueue_rx_def)
  ultimately show ?thesis using poll w' s d by (auto simp: node_quiet_def node_dequeue_rx_def split: if_splits)
qed

text \<open>Nothing to read.\<close>

lemma node_poll_nothing:
  assumes "nd_rx_count nd = 0" and "sw_rx w (nd_transport nd) = []"
  shows "node_poll bench_transport nd out now w = (False, out, nd, w)"
proof -
  have "w\<lparr>sw_rx := (sw_rx w)(nd_transport nd := [])\<rparr> = w"
    using assms(2) by (metis fun_upd_triv serial_world.surjective serial_world.update_convs(1))
  then show ?thesis using assms by (simp add: node_poll_cases node_dequeue_rx_def)
qed

lemma talk_bench_rx: "node_sends Q bench_transport a b \<Longrightarrow> sw_rx (snd b) = sw_rx (snd a)"
  by (induction rule: node_sends.induct)
    (auto simp: node_send_eq node_send_ack_eq transmit_def split: if_splits prod.splits)

lemma node_drain_burst:
  assumes "node_quiet nd" and "\<forall>k\<in>set ks. control_for nd k" and "sendable p" "pkt_destination p = nd_address nd"
      "pkt_type p \<noteq> msg_Ack" "pkt_type p \<noteq> msg_Nack"
    and "sw_rx w (nd_transport nd) = concat (map frame_of (ks @ [p]))" "length (sw_rx w (nd_transport nd)) \<le> 64"
    and talk: "\<And>s nd w s' nd' w'. body (received p) s nd w = (s', nd', w') \<Longrightarrow> node_sends Q bench_transport (nd, w) (nd', w')"
  shows "\<exists>nd1. node_drain bench_transport now body s nd w = Some (body (received p) s nd1 (world_taken nd p w))
    \<and> node_quiet nd1 \<and> nd_address nd1 = nd_address nd \<and> nd_transport nd1 = nd_transport nd
    \<and> nd_sequence nd1 = nd_sequence nd \<and> nd_auto_ack nd1 = nd_auto_ack nd
    \<and> nd_pending nd1 = nd_pending (controlled ks nd)"
proof -
  let ?w = "world_taken nd p w"
  from node_poll_burst [OF assms(1-8), of default_packet now] obtain nd1 where
    poll: "node_poll bench_transport nd default_packet now w = (True, received p, nd1, ?w)"
    and nd1: "node_quiet nd1" "nd_address nd1 = nd_address nd" "nd_transport nd1 = nd_transport nd"
      "nd_sequence nd1 = nd_sequence nd" "nd_auto_ack nd1 = nd_auto_ack nd" "nd_pending nd1 = nd_pending (controlled ks nd)"
    by blast
  obtain s2 nd2 w2 where b: "body (received p) s nd1 ?w = (s2, nd2, w2)" by (metis prod_cases3)
  have "nd_rx_count nd2 = 0" "sw_rx w2 (nd_transport nd2) = []"
    using talk_keeps(3,4) [OF talk [OF b]] talk_bench_rx [OF talk [OF b]] nd1(1,3)
    by (auto simp: node_quiet_def world_taken_def Let_def)
  then have "node_drain bench_transport now body s2 nd2 w2 = Some (s2, nd2, w2)"
    by (subst node_drain.simps) (simp add: node_poll_nothing)
  then have "node_drain bench_transport now body s nd w = Some (s2, nd2, w2)"
    by (subst node_drain.simps) (simp add: poll b)
  with nd1 b show ?thesis by (intro exI [of _ nd1]) simp
qed

end
