(* ===== verification/DashboardProperties.thy ===== *)
theory DashboardProperties
  imports Dashboard LightingFaultProperties NodeBurst
begin

text \<open>
  The main computer end to end: one pass of its service loop over a frame a controller sent, and
  what its pictures then hold.
\<close>

section \<open>One frame, one pass\<close>

lemma service_shows_burst:
  assumes "talking_observer bench_transport obs"
    and "node_quiet nd" and "\<forall>k\<in>set ks. control_for nd k" and "sendable p" and "pkt_destination p = nd_address nd"
    and "pkt_type p \<noteq> msg_Ack" and "pkt_type p \<noteq> msg_Nack"
    and "sw_rx w (nd_transport nd) = concat (map frame_of (ks @ [p]))" and "length (sw_rx w (nd_transport nd)) \<le> 64"
    and shown: "\<And>nd w. P (fst (mc_dispatch obs (received p) now mc nd w))"
    and table: "\<And>m sv. P (m\<lparr>mc_supervisor := sv\<rparr>) = P m"
  shows "\<exists>mc' nd' w'. mc_service bench_transport obs now mc nd w = Some (mc', nd', w') \<and> P mc'"
proof -
  have talk: "node_talk bench_transport (nd, w) (nd', w')"
    if "mc_dispatch obs (received p) now m nd w = (m', nd', w')" for m nd w m' nd' w'
    by (rule talking_observer.dispatch_talks [OF assms(1) that])
  have "\<exists>nd0. node_drain bench_transport now (\<lambda>p. mc_dispatch obs p now) mc nd w =
      Some (mc_dispatch obs (received p) now mc nd0 (world_taken nd p w))"
    using node_drain_burst [where body = "\<lambda>p. mc_dispatch obs p now" and s = mc and now = now, OF assms(2-9)] talk
    by fast
  then obtain m1 nd1 w1 where d: "node_drain bench_transport now (\<lambda>p. mc_dispatch obs p now) mc nd w = Some (m1, nd1, w1)"
    and P: "P m1" using shown by (metis fst_conv prod.exhaust_sel)
  obtain nd2 w2 where n: "node_service bench_transport nd1 now w1 = (nd2, w2)" by fastforce
  obtain sv nd3 w3 where "sv_service bench_transport now (mc_supervisor m1) nd2 w2 = (sv, nd3, w3)"
    by (metis prod_cases3)
  then show ?thesis by (simp add: mc_service_def d n table P)
qed

lemma service_shows:
  assumes "talking_observer bench_transport obs"
    and "node_quiet nd" and "sendable p" and "sw_rx w (nd_transport nd) = frame_of p"
    and "encoded_size p \<le> 64" and "pkt_destination p = nd_address nd"
    and "pkt_type p \<noteq> msg_Ack" and "pkt_type p \<noteq> msg_Nack"
    and "\<And>nd w. P (fst (mc_dispatch obs (received p) now mc nd w))"
    and "\<And>m sv. P (m\<lparr>mc_supervisor := sv\<rparr>) = P m"
  shows "\<exists>mc' nd' w'. mc_service bench_transport obs now mc nd w = Some (mc', nd', w') \<and> P mc'"
  by (rule service_shows_burst [where ks = "[]" and p = p, OF assms(1,2)])
    (use assms(3-) length_frame_of [OF assms(3)] in simp_all)

lemma dispatch_lighting_state:
  assumes "nd_address l = addr_Lighting" and "p = stamped l (lighting_state_packet st a) r"
  shows "fst (mc_dispatch obs (received p) now mc nd w) =
    (noted obs (received p) now mc nd w)\<lparr>mc_lighting := view_of_lighting st now\<rparr>"
proof -
  have p: "sendable p" "pkt_length p = 8" "pkt_source p = addr_Lighting" "pkt_type p = msg_StateUpdate"
    by (simp_all add: assms sendable_def)
  have "decode_lighting_state (received p) now m = (True, m\<lparr>mc_lighting := view_of_lighting st now\<rparr>)"
    for m :: "'a motorcycle_computer"
    using p received_nth [OF p(1)] by (intro lighting_state_decoded [where d = a]) (simp_all add: assms(2))
  then show ?thesis by (simp add: mc_dispatch_noted)
qed

lemma dispatch_security_state:
  assumes "nd_address l = addr_Security" and "p = stamped l (security_state_packet sn a) r"
  shows "fst (mc_dispatch obs (received p) now mc nd w) =
    (noted obs (received p) now mc nd w)\<lparr>mc_security := view_of_security sn now (mc_security mc)\<rparr>"
proof -
  have p: "sendable p" "pkt_length p = 6" "pkt_source p = addr_Security" "pkt_type p = msg_SecurityState"
    by (simp_all add: assms sendable_def) (simp add: security_state_packet_def Let_def)
  have "decode_security_state (received p) now m =
      (True, m\<lparr>mc_security := view_of_security sn now (mc_security m)\<rparr>)" for m :: "'a motorcycle_computer"
    using p received_nth [OF p(1)] by (intro security_state_decoded [where d = a]) (simp_all add: assms(2))
  then show ?thesis using p by (simp add: mc_dispatch_noted)
qed

section \<open>Commanded lamps\<close>

text \<open>The lamps as the main computer shows them.\<close>

definition shown_lamps :: "'o motorcycle_computer \<Rightarrow> lighting_state" where
  "shown_lamps mc = \<lparr>lst_left_indicator = lv_left_indicator (mc_lighting mc),
     lst_right_indicator = lv_right_indicator (mc_lighting mc),
     lst_brake_bright = lv_brake_bright (mc_lighting mc), lst_high_beam = lv_high_beam (mc_lighting mc)\<rparr>"

lemma shown_view: "mc_lighting mc = view_of_lighting st now \<Longrightarrow> shown_lamps mc = st"
  by (simp add: shown_lamps_def view_of_lighting_def)

lemma service_shows_lamps:
  assumes "talking_observer bench_transport obs"
    and "node_quiet nd" and "nd_address nd = addr_MainComputer" and "nd_address l = addr_Lighting"
    and "sw_rx w (nd_transport nd) = frame_of (stamped l (lighting_state_packet st addr_MainComputer) False)"
  shows "\<exists>mc' nd' w'. mc_service bench_transport obs now mc nd w = Some (mc', nd', w')
    \<and> mc_lighting mc' = view_of_lighting st now \<and> mc_diagnostics mc' = mc_diagnostics mc
    \<and> mc_faults mc' = mc_faults mc \<and> mc_northbridge mc' = mc_northbridge mc \<and> mc_security mc' = mc_security mc"
proof -
  let ?p = "stamped l (lighting_state_packet st addr_MainComputer) False"
  have "sendable ?p" "encoded_size ?p \<le> 64" "pkt_destination ?p = nd_address nd"
    "pkt_type ?p \<noteq> msg_Ack" "pkt_type ?p \<noteq> msg_Nack"
    by (simp_all add: sendable_def encoded_size_def assms(3))
  then show ?thesis
    by (intro service_shows [OF assms(1,2) _ assms(5)])
      (simp_all add: dispatch_lighting_state [OF assms(4) refl])
qed

text \<open>A lamp command is seen to be done. The lighting server executes a SetOutput of the main
  computer on hardware that keeps its contract, and the last frame it sends reaches the main
  computer: one pass of the main computer's service loop, with any observer that uses the node only to
  send, then shows the commanded lamp as commanded and every other lamp as the hardware has it, and
  leaves the other pictures alone.\<close>

theorem commanded_lamp_shown:
  assumes "lighting_hardware (le_hw env)" and "le_net env = bench_transport"
    and "talking_observer bench_transport obs"
    and "pkt_source p = addr_MainComputer" and "pkt_type p = msg_SetOutput" and "pkt_length p = 2"
    and "pkt_payload p ! 0 = output_code o1" and "pkt_payload p ! 1 = (if b then 1 else 0)"
    and "lh_write_output (le_hw env) o1 b (ls_hardware s) = (True, h)"
    and "nd_address l = addr_Lighting" and "lighting_handle_packet env p t s l v = (ok, s1, l1, v1)"
    and "node_quiet nd" and "nd_address nd = addr_MainComputer"
    and "sw_rx w (nd_transport nd) = snd (last (sw_tx v1))"
  shows "\<exists>mc' nd' w'. mc_service bench_transport obs now mc nd w = Some (mc', nd', w')
    \<and> (\<forall>o2. state_value (shown_lamps mc') o2 =
        (if o2 = o1 then b else lh_read_output (le_hw env) o2 (ls_hardware s)))
    \<and> lv_valid (mc_lighting mc') \<and> lv_updated_at_ms (mc_lighting mc') = now
    \<and> mc_diagnostics mc' = mc_diagnostics mc \<and> mc_faults mc' = mc_faults mc
    \<and> mc_northbridge mc' = mc_northbridge mc \<and> mc_security mc' = mc_security mc"
proof -
  note executed = set_output_accepted [OF assms(1,2,5-9) refl]
  have v1: "snd (last (sw_tx v1)) = frame_of (stamped l (lighting_state_packet (actual_state env s1) addr_MainComputer) False)"
    and s1: "s1 = set_commanded o1 b (s\<lparr>ls_hardware := h\<rparr>)"
    using executed(1) [of t l v] assms(4,11) by auto
  from service_shows_lamps [OF assms(3,12,13,10) assms(14) [unfolded v1], of now mc]
  obtain mc' nd' w' where run: "mc_service bench_transport obs now mc nd w = Some (mc', nd', w')"
    and views: "mc_lighting mc' = view_of_lighting (actual_state env s1) now" "mc_diagnostics mc' = mc_diagnostics mc"
      "mc_faults mc' = mc_faults mc" "mc_northbridge mc' = mc_northbridge mc" "mc_security mc' = mc_security mc"
    by blast
  have "state_value (shown_lamps mc') o2 =
      (if o2 = o1 then b else lh_read_output (le_hw env) o2 (ls_hardware s))" for o2
    using executed(3) [of o2] shown_view [OF views(1)] by (simp add: s1)
  moreover have "lv_valid (mc_lighting mc')" "lv_updated_at_ms (mc_lighting mc') = now"
    by (simp_all add: views(1) view_of_lighting_def)
  ultimately show ?thesis using run views(2-) by blast
qed

definition brake_on_command :: packet where
  "brake_on_command = set_payload 1 1 (set_payload 0 0x03 (default_packet\<lparr>pkt_source := addr_MainComputer,
     pkt_type := msg_SetOutput, pkt_length := 2\<rparr>))"

theorem commanded_lamp_shown_witness:
  "case lighting_handle_packet demo_lights brake_on_command 5 (lu_server demo_unit)
      (node_init addr_Lighting 1) quiet_world of (ok, s1, l1, v1) \<Rightarrow>
    \<exists>mc' nd' w'. mc_service bench_transport None 40 (motorcycle_computer_init ()) (node_init addr_MainComputer 0)
        (quiet_world\<lparr>sw_rx := (\<lambda>_. snd (last (sw_tx v1)))\<rparr>) = Some (mc', nd', w')
      \<and> state_value (shown_lamps mc') BrakeBright \<and> \<not> lv_valid (mc_lighting (motorcycle_computer_init ()))"
proof -
  have p: "pkt_source brake_on_command = addr_MainComputer" "pkt_type brake_on_command = msg_SetOutput"
    "pkt_length brake_on_command = 2" "pkt_payload brake_on_command ! 0 = output_code BrakeBright"
    "pkt_payload brake_on_command ! 1 = (if True then 1 else 0)" by (simp_all add: brake_on_command_def)
  have hw: "lighting_hardware (le_hw demo_lights)" by (simp add: board_lamps.lighting_hardware_axioms)
  obtain h where h: "lh_write_output (le_hw demo_lights) BrakeBright True (ls_hardware (lu_server demo_unit)) = (True, h)"
    by simp
  obtain ok s1 l1 v1 where x: "lighting_handle_packet demo_lights brake_on_command 5 (lu_server demo_unit)
      (node_init addr_Lighting 1) quiet_world = (ok, s1, l1, v1)" by (metis prod_cases4)
  from commanded_lamp_shown [OF hw demo_lights_net(1) no_observer.talking_observer_axioms p h _ x,
      of "node_init addr_MainComputer 0" "quiet_world\<lparr>sw_rx := (\<lambda>_. snd (last (sw_tx v1)))\<rparr>" 40 "motorcycle_computer_init ()"]
  show ?thesis unfolding x
    by (auto simp: motorcycle_computer_init_def default_lighting_snapshot_def simp del: state_value.simps)
qed

section \<open>The security picture\<close>

text \<open>The security picture. The state the security server publishes to the main computer, received
  in one pass of the main computer's service loop, is what its picture shows: mode, start
  inhibit, alarm and the three inputs are those of the server at the time of sending; the last
  event and the other pictures stay.\<close>

theorem dashboard_shows_security:
  assumes "se_net env = bench_transport" and "talking_observer bench_transport obs" and "nd_address l = addr_Security"
    and "publish_security_state env addr_MainComputer t s l v = (ok, l1, v1)"
    and "node_quiet nd" and "nd_address nd = addr_MainComputer"
    and "sw_rx w (nd_transport nd) = snd (last (sw_tx v1))"
  shows "\<exists>mc' nd' w'. mc_service bench_transport obs now mc nd w = Some (mc', nd', w')
    \<and> mc_lighting mc' = mc_lighting mc \<and> mc_diagnostics mc' = mc_diagnostics mc
    \<and> mc_faults mc' = mc_faults mc \<and> mc_northbridge mc' = mc_northbridge mc
    \<and> mc_security mc' = view_of_security (security_state env s) now (mc_security mc)"
proof -
  let ?p = "stamped l (security_state_packet (security_state env s) addr_MainComputer) False"
  have f: "sw_rx w (nd_transport nd) = frame_of ?p"
    using assms(4,7) by (auto simp: publish_security_state_def assms(1) bench_send)
  have "sendable ?p" "encoded_size ?p \<le> 64" "pkt_destination ?p = nd_address nd"
    "pkt_type ?p \<noteq> msg_Ack" "pkt_type ?p \<noteq> msg_Nack"
    by (simp_all add: sendable_def encoded_size_def assms(6)) (simp_all add: security_state_packet_def Let_def)
  then show ?thesis
    by (intro service_shows [OF assms(2,5) _ f]) (simp_all add: dispatch_security_state [OF assms(3) refl])
qed

theorem dashboard_shows_security_witness:
  "case publish_security_state demo_board addr_MainComputer 450 demo_alarm (node_init addr_Security 2)
      quiet_world of (ok, l1, v1) \<Rightarrow>
    \<exists>mc' nd' w'. mc_service bench_transport None 460 (motorcycle_computer_init ()) (node_init addr_MainComputer 0)
        (quiet_world\<lparr>sw_rx := (\<lambda>_. snd (last (sw_tx v1)))\<rparr>) = Some (mc', nd', w')
      \<and> xv_mode (mc_security mc') = Mode_Alarm"
proof -
  obtain ok l1 v1 where x: "publish_security_state demo_board addr_MainComputer 450 demo_alarm
      (node_init addr_Security 2) quiet_world = (ok, l1, v1)" by (metis prod_cases3)
  have n: "se_net demo_board = bench_transport" by (simp add: demo_board_def)
  from dashboard_shows_security [OF n no_observer.talking_observer_axioms _ x,
      of "node_init addr_MainComputer 0" "quiet_world\<lparr>sw_rx := (\<lambda>_. snd (last (sw_tx v1)))\<rparr>" 460 "motorcycle_computer_init ()"]
  obtain mc' nd' w' where "mc_service bench_transport None 460 (motorcycle_computer_init ()) (node_init addr_MainComputer 0)
        (quiet_world\<lparr>sw_rx := (\<lambda>_. snd (last (sw_tx v1)))\<rparr>) = Some (mc', nd', w')"
    and "mc_security mc' = view_of_security (security_state demo_board demo_alarm) 460 (mc_security (motorcycle_computer_init ()))"
    by auto
  moreover have "sn_mode (security_state demo_board demo_alarm) = Mode_Alarm"
    using demo_facts(4) by (simp add: security_state_def)
  ultimately show ?thesis unfolding x by (simp add: view_of_security_def)
qed

section \<open>Who changes what\<close>

lemma first_decoder_keeps:
  assumes "\<And>d m. d \<in> set ds \<Longrightarrow> f (snd (d p now m)) = f m"
  shows "f (first_decoder ds p now m) = f m"
  using assms
proof (induction ds arbitrary: m)
  case (Cons d ds)
  then show ?case using Cons.prems [of d m] by (cases "d p now m") simp
qed simp

lemma lighting_decoders_keep:
  "mc_northbridge (snd (decode_lighting_state p now m)) = mc_northbridge m"
  "mc_security (snd (decode_lighting_state p now m)) = mc_security m"
  "mc_northbridge (snd (decode_lighting_diagnostics p now m)) = mc_northbridge m"
  "mc_security (snd (decode_lighting_diagnostics p now m)) = mc_security m"
  "mc_northbridge (snd (decode_lighting_fault p now m)) = mc_northbridge m"
  "mc_security (snd (decode_lighting_fault p now m)) = mc_security m"
  by (simp_all add: decode_lighting_state_def decode_lighting_diagnostics_def decode_lighting_fault_def
    Let_def split: option.split)

definition lighting_views :: "'o motorcycle_computer \<Rightarrow>
    lighting_snapshot \<times> lighting_diagnostic_snapshot \<times> (nat \<Rightarrow> lighting_fault_snapshot)" where
  "lighting_views mc = (mc_lighting mc, mc_diagnostics mc, mc_faults mc)"

lemma other_decoders_keep:
  "lighting_views (snd (decode_northbridge_diagnostics p now m)) = lighting_views m"
  "mc_security (snd (decode_northbridge_diagnostics p now m)) = mc_security m"
  "lighting_views (snd (decode_northbridge_fault p now m)) = lighting_views m"
  "mc_security (snd (decode_northbridge_fault p now m)) = mc_security m"
  "lighting_views (snd (decode_security_state p now m)) = lighting_views m"
  "mc_northbridge (snd (decode_security_state p now m)) = mc_northbridge m"
  "lighting_views (snd (decode_security_event p now m)) = lighting_views m"
  "mc_northbridge (snd (decode_security_event p now m)) = mc_northbridge m"
  by (simp_all add: decode_northbridge_diagnostics_def decode_northbridge_fault_def decode_security_state_def
    decode_security_event_def lighting_views_def Let_def split: option.split)

lemma lighting_views_noted [simp]: "lighting_views (noted obs p now mc nd v) = lighting_views mc"
  by (simp add: lighting_views_def)

text \<open>Pictures belong to their senders. Whatever a packet holds, dispatching it changes the lighting,
  diagnostics and fault pictures only if the lighting controller sent it, the northbridge
  picture only if the northbridge did, and the security picture only if the security
  controller did.\<close>

theorem dispatch_isolated:
  "(pkt_source p \<noteq> addr_Lighting \<longrightarrow> lighting_views (fst (mc_dispatch obs p now mc nd v)) = lighting_views mc)
  \<and> (pkt_source p \<noteq> addr_Northbridge \<longrightarrow> mc_northbridge (fst (mc_dispatch obs p now mc nd v)) = mc_northbridge mc)
  \<and> (pkt_source p \<noteq> addr_Security \<longrightarrow> mc_security (fst (mc_dispatch obs p now mc nd v)) = mc_security mc)"
proof (intro conjI impI)
  show "lighting_views (fst (mc_dispatch obs p now mc nd v)) = lighting_views mc" if "pkt_source p \<noteq> addr_Lighting"
    unfolding mc_dispatch_noted
    by (subst first_decoder_keeps [where f = lighting_views]) (use that in \<open>auto simp: other_decoders_keep\<close>)
  show "mc_northbridge (fst (mc_dispatch obs p now mc nd v)) = mc_northbridge mc" if "pkt_source p \<noteq> addr_Northbridge"
    unfolding mc_dispatch_noted
    by (subst first_decoder_keeps [where f = mc_northbridge])
      (use that in \<open>auto simp: other_decoders_keep lighting_decoders_keep\<close>)
  show "mc_security (fst (mc_dispatch obs p now mc nd v)) = mc_security mc" if "pkt_source p \<noteq> addr_Security"
    unfolding mc_dispatch_noted
    by (subst first_decoder_keeps [where f = mc_security])
      (use that in \<open>auto simp: other_decoders_keep lighting_decoders_keep\<close>)
qed

theorem dispatch_isolated_witness:
  "lighting_views (fst (mc_dispatch None (default_packet\<lparr>pkt_source := addr_Security, pkt_type := msg_StateUpdate,
      pkt_length := 8\<rparr>) 7 (motorcycle_computer_init ()) (node_init addr_MainComputer 0) quiet_world)) = lighting_views (motorcycle_computer_init ())"
  using dispatch_isolated [of "default_packet\<lparr>pkt_source := addr_Security, pkt_type := msg_StateUpdate,
      pkt_length := 8\<rparr>" None 7 "motorcycle_computer_init ()" "node_init addr_MainComputer 0" quiet_world] by simp

section \<open>Northbridge counters and electrical faults\<close>

lemma dispatch_northbridge_diagnostics:
  assumes "nb_inv nb" and "nb_diag_ports nb port_numbers 18 (nb_diag_head a nb) = Some (p, off)"
    and "q = local_packet nb (p\<lparr>pkt_length := word_of_nat off\<rparr>)"
  shows "sendable q \<and> mc_northbridge (fst (mc_dispatch obs (received q) now mc nd v)) = (mc_northbridge mc)
    \<lparr>nv_valid := True, nv_forwarded_packets := nb_forwarded_packets nb,
     nv_dropped_packets := nb_dropped_packets nb, nv_route_movement_events := nb_route_movement_events nb,
     nv_topology_fault_events := nb_topology_fault_events nb,
     nv_ports := (\<lambda>i. if i < kMaxRouterPorts \<and> nb_transports nb ! i \<noteq> None
        then view_of_port (nb_port_stats nb ! i) else default_port_snapshot),
     nv_updated_at_ms := now\<rparr>"
proof -
  have off: "off = 18 + 21 * attached_count nb"
    using nb_diag_ports_Some [OF assms(2)] attached_count_ports [OF nb_inv_transports [OF assms(1)]] by simp
  have "nb_diag_ports nb port_numbers 18 (nb_diag_head a nb) \<noteq> None" using assms(2) by simp
  then have "attached_count nb \<le> 5"
    unfolding nb_diag_ports_None attached_count_ports [OF nb_inv_transports [OF assms(1)]] Let_def by auto
  then have l: "unat (word_of_nat off :: u16) = off" and small: "off \<le> kMaxPayloadSize"
    unfolding off by (simp_all only: unat_of_nat) simp_all
  have t: "pkt_type (nb_diag_head a nb) = msg_Diagnostic"
    by (simp add: nb_diag_head_def put_u32_eq Let_def)
  have q: "pkt_source q = addr_Northbridge" "pkt_type q = msg_Diagnostic" "pkt_length q = word_of_nat off"
    "pkt_payload q = pkt_payload p" "wf_packet q"
    using nb_diag_ports_Some [OF assms(2)] t by (simp_all add: assms(3)) (simp_all add: local_packet_def)
  have s: "sendable q" using q(3,5) l small by (simp add: sendable_def)
  have "decode_northbridge_diagnostics (received q) now m = (True, m\<lparr>mc_northbridge := (mc_northbridge m)
    \<lparr>nv_valid := True, nv_forwarded_packets := nb_forwarded_packets nb,
     nv_dropped_packets := nb_dropped_packets nb, nv_route_movement_events := nb_route_movement_events nb,
     nv_topology_fault_events := nb_topology_fault_events nb,
     nv_ports := (\<lambda>i. if i < kMaxRouterPorts \<and> nb_transports nb ! i \<noteq> None
        then view_of_port (nb_port_stats nb ! i) else default_port_snapshot),
     nv_updated_at_ms := now\<rparr>\<rparr>)" for m :: "'a motorcycle_computer"
    using q received_nth [OF s] l
    by (intro northbridge_diagnostics_decoded [OF assms(1,2)]) simp_all
  with s q show ?thesis by (simp add: mc_dispatch_noted)
qed

text \<open>The northbridge picture. With at most five attached ports the northbridge answers a diagnostics
  request with exactly one frame, and the main computer, dispatching what its parser makes of
  that frame, shows the northbridge's forwarded, dropped, route-movement and topology counters
  and the statistics of exactly the attached ports.\<close>

theorem northbridge_counters_shown:
  assumes "nb_inv nb" and "attached (nb_transports nb) e" and "attached_count nb \<le> 5"
  shows "\<exists>q nb' w'. nb_send_diagnostics bench_transport addr_MainComputer e nb w = Some (True, nb', w')
    \<and> sw_tx w' = sw_tx w @ [(the (nb_transports nb ! unat e), frame_of q)] \<and> sendable q
    \<and> mc_northbridge (fst (mc_dispatch obs (received q) now mc nd v)) = (mc_northbridge mc)
      \<lparr>nv_valid := True, nv_forwarded_packets := nb_forwarded_packets nb,
       nv_dropped_packets := nb_dropped_packets nb, nv_route_movement_events := nb_route_movement_events nb,
       nv_topology_fault_events := nb_topology_fault_events nb,
       nv_ports := (\<lambda>i. if i < kMaxRouterPorts \<and> nb_transports nb ! i \<noteq> None
          then view_of_port (nb_port_stats nb ! i) else default_port_snapshot),
       nv_updated_at_ms := now\<rparr>"
proof -
  have "nb_diag_ports nb port_numbers 18 (nb_diag_head addr_MainComputer nb) \<noteq> None"
    unfolding nb_diag_ports_None attached_count_ports [OF nb_inv_transports [OF assms(1)]] Let_def
    using assms(3) by auto
  then obtain p off where d: "nb_diag_ports nb port_numbers 18 (nb_diag_head addr_MainComputer nb) = Some (p, off)"
    by auto
  let ?p = "p\<lparr>pkt_length := word_of_nat off\<rparr>"
  have q: "sendable (local_packet nb ?p)" by (rule conjunct1 [OF dispatch_northbridge_diagnostics [OF assms(1) d refl, of obs now mc]])
  have "wf_packet ?p" using nb_diag_ports_Some [OF d] by simp
  from nb_send_local_eq [OF this, of bench_transport e nb w] assms(2) q
  have "nb_send_local bench_transport ?p e nb w =
      (True, upd_stats e inc_tx (local_bump ?p nb),
       w\<lparr>sw_tx := sw_tx w @ [(the (nb_transports nb ! unat e), frame_of (local_packet nb ?p))]\<rparr>)"
    by (simp add: transmit_def sendable_def)
  then have send: "nb_send_diagnostics bench_transport addr_MainComputer e nb w =
      Some (True, upd_stats e inc_tx (local_bump ?p nb),
       w\<lparr>sw_tx := sw_tx w @ [(the (nb_transports nb ! unat e), frame_of (local_packet nb ?p))]\<rparr>)"
    unfolding nb_send_diagnostics_def d by simp
  show ?thesis
    by (rule exI [of _ "local_packet nb ?p"], (rule exI)+, intro conjI, rule send, simp, rule q,
      rule conjunct2 [OF dispatch_northbridge_diagnostics [OF assms(1) d refl]])
qed

theorem northbridge_counters_shown_witness:
  "\<exists>q nb' w'. nb_send_diagnostics bench_transport addr_MainComputer kPortPi northbridge_setup quiet_world =
      Some (True, nb', w') \<and> sw_tx w' = [(0, frame_of q)]
    \<and> (\<forall>i. pv_attached (nv_ports (mc_northbridge
        (fst (mc_dispatch None (received q) 9 (motorcycle_computer_init ()) (node_init addr_MainComputer 0) quiet_world))) i) = (i < 3))"
proof -
  have n: "attached (nb_transports northbridge_setup) kPortPi" "attached_count northbridge_setup \<le> 5"
    by (simp_all add: northbridge_setup_eq(1) attached_def attached_count_def)
  have p: "pv_attached (if i < kMaxRouterPorts \<and> nb_transports northbridge_setup ! i \<noteq> None
      then view_of_port s else default_port_snapshot) = (i < 3)" for i s
    by (auto simp: northbridge_setup_eq(1) view_of_port_def default_port_snapshot_def nth_Cons'
      less_Suc_eq numeral_nat)
  from northbridge_counters_shown [OF northbridge_setup_inv n, of quiet_world None 9 "motorcycle_computer_init ()"
      "node_init addr_MainComputer 0" quiet_world]
  obtain q nb' w' where "nb_send_diagnostics bench_transport addr_MainComputer kPortPi northbridge_setup quiet_world =
      Some (True, nb', w')" "sw_tx w' = [(0, frame_of q)]"
    and v: "nv_ports (mc_northbridge (fst (mc_dispatch None (received q) 9 (motorcycle_computer_init ()) (node_init addr_MainComputer 0) quiet_world))) =
      (\<lambda>i. if i < kMaxRouterPorts \<and> nb_transports northbridge_setup ! i \<noteq> None
          then view_of_port (nb_port_stats northbridge_setup ! i) else default_port_snapshot)"
    by (auto simp: northbridge_setup_eq(1))
  with v p show ?thesis by (metis (lifting))
qed

lemma dispatch_lighting_fault:
  assumes "nd_address l = addr_Lighting" and "ty = msg_Fault \<or> ty = msg_FaultClear"
  shows "mc_faults (fst (mc_dispatch obs (received (stamped l (fault_packet o1 r ty) False)) now mc nd v)) =
    (mc_faults mc)(index_for o1 :=
     \<lparr>fv_latched = (ty = msg_Fault), fv_status = (if ty = msg_Fault then fr_latched_status r else ES_Off),
      fv_shutdown_applied = (ty = msg_Fault \<and> fr_shutdown_applied r),
      fv_occurrence_count = fr_occurrence_count r, fv_updated_at_ms = now\<rparr>)"
proof -
  let ?q = "stamped l (fault_packet o1 r ty) False"
  have p: "pkt_length (fault_packet o1 r ty) = 8" "pkt_type (fault_packet o1 r ty) = ty" "wf_packet (fault_packet o1 r ty)"
    by (simp_all add: fault_packet_def Let_def)
  then have q: "sendable ?q" "pkt_source ?q = addr_Lighting" "pkt_type ?q = ty" "pkt_length ?q = 8"
    by (simp_all add: sendable_def assms(1))
  have "decode_lighting_fault (received ?q) now m = (True, m\<lparr>mc_faults := (mc_faults m)(index_for o1 :=
     \<lparr>fv_latched = (ty = msg_Fault), fv_status = (if ty = msg_Fault then fr_latched_status r else ES_Off),
      fv_shutdown_applied = (ty = msg_Fault \<and> fr_shutdown_applied r),
      fv_occurrence_count = fr_occurrence_count r, fv_updated_at_ms = now\<rparr>)\<rparr>)" for m :: "'a motorcycle_computer"
    using q received_nth [OF q(1)] assms(2) by (intro lighting_fault_decoded) simp_all
  then show ?thesis using q assms(2) by (auto simp: mc_dispatch_noted)
qed

lemma dispatch_lighting_diagnostics:
  assumes "nd_address l = addr_Lighting"
  shows "dv_channels (mc_diagnostics (fst (mc_dispatch obs
      (received (stamped l (diagnostics_packet env d h addr_MainComputer) False)) now mc nd v))) (index_for o1) =
    evaluate_channel env d o1 h"
proof -
  let ?q = "stamped l (diagnostics_packet env d h addr_MainComputer) False"
  have q: "sendable ?q" "pkt_source ?q = addr_Lighting" "pkt_type ?q = msg_LightingDiagnostic" "pkt_length ?q = 24"
    by (simp_all add: sendable_def assms(1))
  have "\<exists>cs. decode_lighting_diagnostics (received ?q) now (noted obs (received ?q) now mc nd v) =
      (True, (noted obs (received ?q) now mc nd v)\<lparr>mc_diagnostics :=
        \<lparr>dv_valid = True, dv_channels = cs, dv_updated_at_ms = now\<rparr>\<rparr>)
    \<and> (\<forall>o1. cs (index_for o1) = evaluate_channel env d o1 h)"
    using q received_nth [OF q(1)]
    by (intro lighting_diagnostics_decoded [where a = addr_MainComputer]) simp_all
  then show ?thesis using q by (auto simp: mc_dispatch_noted)
qed

text \<open>C36: The electrical picture. A fault message of the lighting controller sets exactly its channel's
  fault entry, to latched with the status, the shutdown flag and the occurrence count of the
  record it was sent from; a clear message resets it and keeps the count; and the diagnostics
  message fills every channel's reading with what the controller evaluated for it.\<close>

theorem dashboard_shows_electrical:
  assumes "nd_address l = addr_Lighting"
  shows "mc_faults (fst (mc_dispatch obs (received (stamped l (fault_packet o1 r msg_Fault) False)) now mc nd v)) =
      (mc_faults mc)(index_for o1 := \<lparr>fv_latched = True, fv_status = fr_latched_status r,
        fv_shutdown_applied = fr_shutdown_applied r, fv_occurrence_count = fr_occurrence_count r,
        fv_updated_at_ms = now\<rparr>)
    \<and> mc_faults (fst (mc_dispatch obs (received (stamped l (fault_packet o1 r msg_FaultClear) False)) now mc nd v)) =
      (mc_faults mc)(index_for o1 := \<lparr>fv_latched = False, fv_status = ES_Off,
        fv_shutdown_applied = False, fv_occurrence_count = fr_occurrence_count r, fv_updated_at_ms = now\<rparr>)
    \<and> (\<forall>o2. dv_channels (mc_diagnostics (fst (mc_dispatch obs
        (received (stamped l (diagnostics_packet env d h addr_MainComputer) False)) now mc nd v))) (index_for o2) =
      evaluate_channel env d o2 h)"
  by (intro conjI allI dispatch_lighting_diagnostics [OF assms])
    (simp_all add: dispatch_lighting_fault [OF assms])

theorem dashboard_shows_electrical_witness:
  "cd_current_ma (dv_channels (mc_diagnostics (fst (mc_dispatch None (received (stamped (node_init addr_Lighting 1)
     (diagnostics_packet rig lighting_diagnostics_init overload_rig addr_MainComputer) False)) 12
     (motorcycle_computer_init ()) (node_init addr_MainComputer 0) quiet_world))) (index_for HighBeam)) = 6000"
proof -
  have "cd_current_ma (evaluate_channel rig lighting_diagnostics_init HighBeam overload_rig) = 6000"
    by (simp add: evaluate_channel_def rig_def rig_hw_def overload_rig_def lighting_diagnostics_init_def Let_def)
  with dashboard_shows_electrical [of "node_init addr_Lighting 1" None LeftIndicator _ 12
      "motorcycle_computer_init ()" "node_init addr_MainComputer 0" quiet_world rig lighting_diagnostics_init overload_rig]
  show ?thesis by (simp del: index_for.simps)
qed

end
