(* ===== verification/MainProperties.thy ===== *)
theory MainProperties
  imports MainProgram DashboardProperties
begin

text \<open>
  The program of the main computer as a whole: it runs until it is told to stop, whatever arrives
  keeps it in its invariant, commands do what they say, and only that.
\<close>

section \<open>The observer and the commands talk\<close>

interpretation main_watching: talking_observer ops "main_observer ops" for ops
  by unfold_locales
    (auto simp: main_observer_def main_observe_def split: prod.splits intro: test_observe_talk)

lemma lighting_set_output_talk:
  "lighting_set_output ops o1 b now r nd w = (ok, nd', w') \<Longrightarrow> node_talk ops (nd, w) (nd', w')"
  unfolding lighting_set_output_def by (erule talk_send1 [rotated]) simp_all

text \<open>What a console line may put on the bus: talk, the request for the state, and the command it names.\<close>

definition asks :: "security_command \<Rightarrow> packet \<Rightarrow> bool" where
  "asks c p \<longleftrightarrow> pkt_type p = msg_SecurityCommand \<and> pkt_length p = 1 \<and> pkt_payload p ! 0 = c"

lemma calm_asks: "calm p \<Longrightarrow> \<not> asks c p"
  by (auto simp: calm_def asks_def)

definition said :: "string \<Rightarrow> packet \<Rightarrow> bool" where
  "said l p \<longleftrightarrow> calm p \<or> asks cmd_RequestState p \<or> l = ''lock'' \<and> asks cmd_Lock p
     \<or> l = ''unlock'' \<and> asks cmd_Unlock p \<or> l = ''silence'' \<and> asks cmd_SilenceAlarm p"

lemma talk_said: "node_talk ops a b \<Longrightarrow> node_sends (said l) ops a b"
  by (erule sends_mono) (simp add: said_def)

lemma security_client_command_sends:
  "security_client_command ops c now r nd w = (ok, nd', w') \<Longrightarrow> node_sends (asks c) ops (nd, w) (nd', w')"
  unfolding security_client_command_def by (erule sends_one [rotated]) (simp_all add: asks_def)

lemma request_all_states_sends:
  assumes "request_all_states ops now nd w = (ok, nd', w')"
  shows "node_sends (said k) ops (nd, w) (nd', w')"
proof -
  obtain l nd1 w1 n nd2 w2 s where
    1: "node_send ops nd (default_packet\<lparr>pkt_destination := addr_Lighting, pkt_type := msg_GetState\<rparr>) now False w
      = (l, nd1, w1)"
    and 2: "node_send ops nd1 (default_packet\<lparr>pkt_destination := addr_Northbridge, pkt_type := msg_Diagnostic\<rparr>)
      now False w1 = (n, nd2, w2)"
    and 3: "security_client_request_state ops now nd2 w2 = (s, nd', w')"
    using assms by (auto simp: request_all_states_def split: prod.splits)
  from talk_send1 [OF _ 1] have a: "node_talk ops (nd, w) (nd1, w1)" by simp
  from talk_send1 [OF _ 2] have b: "node_talk ops (nd1, w1) (nd2, w2)" by simp
  from 3 have c: "node_sends (said k) ops (nd2, w2) (nd', w')"
    unfolding security_client_request_state_def
    by (rule sends_mono [OF security_client_command_sends]) (simp add: said_def)
  show ?thesis by (rule sends_trans [OF sends_trans [OF c talk_said [OF b]] talk_said [OF a]])
qed

lemma network_command_sends:
  "network_command ops l now nd w = Some (ok, nd', w') \<Longrightarrow> node_sends (said l) ops (nd, w) (nd', w')"
  by (auto simp: network_command_def set_left_indicator_def set_right_indicator_def set_brake_bright_def
    set_high_beam_def security_client_lock_def security_client_unlock_def security_client_silence_def said_def
    split: if_splits intro: talk_said lighting_set_output_talk request_all_states_sends
    elim!: sends_mono [OF security_client_command_sends])

section \<open>The invariant of the program\<close>

text \<open>The self-test is consistent, the log keeps its bound, the table of nodes its size.\<close>

definition main_inv :: "main_computer \<Rightarrow> bool" where
  "main_inv mc \<longleftrightarrow> test_inv (main_test mc) \<and> lg_limit (main_log mc) = 250
     \<and> length (lg_events (main_log mc)) \<le> 250 \<and> length (sv_nodes (mc_supervisor mc)) = 16"

lemma put_sel [simp]:
  "main_test (put_test t mc) = t" "main_log (put_test t mc) = main_log mc"
  "main_test (put_log l mc) = main_test mc" "main_log (put_log l mc) = l"
  "mc_supervisor (put_test t mc) = mc_supervisor mc" "mc_supervisor (put_log l mc) = mc_supervisor mc"
  by (simp_all add: put_test_def put_log_def)

lemma first_decoder_others:
  "mc_supervisor (first_decoder ds p now m) = mc_supervisor m \<and> mc_observer (first_decoder ds p now m) = mc_observer m"
  if "set ds \<subseteq> {decode_lighting_state, decode_lighting_diagnostics, decode_lighting_fault,
    decode_northbridge_diagnostics, decode_northbridge_fault, decode_security_state, decode_security_event}"
proof -
  have "mc_supervisor (snd (d p now m)) = mc_supervisor m \<and> mc_observer (snd (d p now m)) = mc_observer m"
    if "d \<in> set ds" for d m
    using that \<open>set ds \<subseteq> _\<close>
    by (auto simp: decode_lighting_state_def decode_lighting_diagnostics_def decode_lighting_fault_def
      decode_northbridge_diagnostics_def decode_northbridge_fault_def decode_security_state_def
      decode_security_event_def Let_def split: option.splits if_splits)
  then show ?thesis
    using first_decoder_keeps [of ds mc_supervisor p now m] first_decoder_keeps [of ds mc_observer p now m] by blast
qed

lemma main_inv_dispatch:
  assumes "mc_dispatch (main_observer ops) p now mc nd w = (mc', nd', w')" and "main_inv mc"
  shows "main_inv mc'"
proof -
  let ?sv = "sv_observe p now (mc_supervisor mc)"
  obtain t nd1 w1 where t: "test_observe ops p ?sv now (main_test mc) nd w = (t, nd1, w1)" by (metis prod_cases3)
  have "mc_supervisor mc' = ?sv \<and> mc_observer mc' = (mc_observer mc)\<lparr>mw_test := t,
      mw_log := logger_record now p (observed_text p) (main_log mc)\<rparr>"
    using assms(1) by (auto simp: mc_dispatch_def mc_observed_def main_observer_def main_observe_def t Let_def first_decoder_others
      simp del: first_decoder.simps)
  with test_observe_inv [OF _ t] assms(2) logger_record_bound [of now p _ "main_log mc"]
  show ?thesis by (auto simp: main_inv_def)
qed

lemma main_inv_supervisor:
  "main_inv mc \<Longrightarrow> length (sv_nodes sv) = 16 \<Longrightarrow> main_inv (mc\<lparr>mc_supervisor := sv\<rparr>)"
  by (simp add: main_inv_def)

lemma main_service_safe:
  assumes "mc_service ops (main_observer ops) now mc nd w = Some (mc', nd', w')"
    and "node_reachable ops ad tr (nd, w)" and "main_inv mc"
  shows "main_inv mc' \<and> node_reachable ops ad tr (nd', w')"
proof -
  obtain mc1 nd1 w1 nd2 w2 sv where
    drain: "node_drain ops now (\<lambda>p. mc_dispatch (main_observer ops) p now) mc nd w = Some (mc1, nd1, w1)"
    and serv: "node_service ops nd1 now w1 = (nd2, w2)"
    and sup: "sv_service ops now (mc_supervisor mc1) nd2 w2 = (sv, nd', w')" and mc': "mc' = mc1\<lparr>mc_supervisor := sv\<rparr>"
    using assms(1) by (auto simp: mc_service_def split: option.splits prod.splits)
  have "main_inv mc1 \<and> node_reachable ops ad tr (nd1, w1)"
    by (rule node_drain_reachable [where I = main_inv, OF drain assms(2,3)],
      erule main_watching.dispatch_talks, erule (1) main_inv_dispatch)
  then have 1: "main_inv mc1" "node_reachable ops ad tr (nd1, w1)" by simp_all
  have "node_reachable ops ad tr (nd2, w2)" using 1(2) step_service [OF serv] by (rule reach_step)
  with talk_reachable [OF sv_service_nodes(3) [OF sup]] sv_service_nodes(1) [OF sup] 1(1)
  show ?thesis by (auto simp: mc' main_inv_def)
qed

lemma main_inv_put_test: "main_inv mc \<Longrightarrow> test_inv t \<Longrightarrow> main_inv (put_test t mc)"
  by (simp add: main_inv_def)

lemma main_report_inv: "main_report mc = (out, mc') \<Longrightarrow> main_inv mc \<Longrightarrow> main_inv mc'"
  by (auto simp: main_report_def Let_def main_inv_put_test consume_report_inv main_inv_def split: if_splits)

lemma run_command_sends:
  assumes "run_command ops l now mc nd w = (out, mc', nd', w')"
  shows "node_sends (said l) ops (nd, w) (nd', w')"
proof -
  have scan: "node_sends (said l) ops (nd, w) (n1, v1)"
    if "sv_send_discovery ops now (mc_supervisor mc) nd w = (ok, sv, n1, v1)" for ok sv n1 v1
    using sv_send_sel [OF disjI1 [OF that]] by (simp add: talk_said)
  show ?thesis
    using assms scan talk_said [OF begin_test_talk [of ops "mc_supervisor mc" now "main_test mc" nd w], of _ _ _ l]
      request_all_states_sends [of ops now nd w] network_command_sends [of ops l now nd w] sends_refl [of "said l" ops nd w]
    unfolding run_command_def by (auto split: if_splits prod.splits option.splits)
qed

lemma run_command_inv:
  assumes "run_command ops l now mc nd w = (out, mc', nd', w')" and "main_inv mc"
  shows "main_inv mc'"
proof -
  have clear: "main_inv (put_log (logger_clear (main_log mc)) mc)"
    using assms(2) by (simp add: main_inv_def logger_clear_def)
  have scan: "main_inv (mc\<lparr>mc_supervisor := sv\<rparr>)"
    if "sv_send_discovery ops now (mc_supervisor mc) nd w = (ok, sv, n1, v1)" for ok sv n1 v1
    using sv_send_sel [OF disjI1 [OF that]] assms(2) by (simp add: main_inv_def)
  have start: "main_inv (put_test t mc)"
    if "begin_test ops (mc_supervisor mc) now (main_test mc) nd w = (t, n1, v1)" for t n1 v1
    using begin_test_inv [OF _ that] assms(2) by (simp add: main_inv_def)
  show ?thesis
    using assms clear scan start main_report_inv [OF _ assms(2)]
    unfolding run_command_def by (auto split: if_splits prod.splits option.splits)
qed

lemma console_command_sends:
  "handle_command ops l now mc nd w = (running, out, mc', nd', w') \<Longrightarrow> node_sends (said l) ops (nd, w) (nd', w')"
  using run_command_sends [of ops l now mc nd w] by (auto simp: handle_command_def sends_refl split: if_splits)

lemma handle_command_safe:
  assumes "handle_command ops l now mc nd w = (running, out, mc', nd', w')" and "main_inv mc"
  shows "main_inv mc' \<and> node_sends (said l) ops (nd, w) (nd', w') \<and> running = (l \<noteq> ''quit'' \<and> l \<noteq> ''exit'')"
  using assms run_command_inv [of ops l now mc nd w] console_command_sends [OF assms(1)]
  by (auto simp: handle_command_def split: if_splits)

section \<open>Passes\<close>

text \<open>What ends the program.\<close>

fun stops :: "console_input \<Rightarrow> bool" where
  "stops Console_Error = True"
| "stops Console_Idle = False"
| "stops Console_End = True"
| "stops (Console_Line l now) = (l = ''quit'' \<or> l = ''exit'')"

lemma main_pass_safe:
  assumes "main_pass ops tick input mc nd w = Some (running, out, mc', nd', w')"
    and "node_reachable ops ad tr (nd, w)" and "main_inv mc"
  shows "main_inv mc' \<and> node_reachable ops ad tr (nd', w') \<and> running = (\<not> stops input)"
proof -
  obtain mc1 nd1 w1 t nd2 w2 where
    s: "mc_service ops (main_observer ops) tick mc nd w = Some (mc1, nd1, w1)"
    and t: "test_service ops (mc_supervisor mc1) tick (main_test mc1) nd1 w1 = (t, nd2, w2)"
    using assms(1) by (auto simp: main_pass_def split: option.splits prod.splits)
  from main_service_safe [OF s assms(2,3)] have 1: "main_inv mc1" "node_reachable ops ad tr (nd1, w1)" by auto
  have 2: "main_inv (put_test t mc1)" "node_reachable ops ad tr (nd2, w2)"
    using 1 test_service_inv [OF _ t] talk_reachable [OF test_service_talk [OF t]]
    by (simp_all add: main_inv_put_test main_inv_def)
  from assms(1) show ?thesis
  proof (cases input)
    case (Console_Line l now)
    obtain run o1 mc3 nd3 w3 where h: "handle_command ops l now (put_test t mc1) nd2 w2 = (run, o1, mc3, nd3, w3)"
      by (metis prod_cases5)
    with assms(1) have "mc' = mc3" "nd' = nd3" "w' = w3" "running = run"
      by (auto simp: main_pass_def s t Console_Line)
    with handle_command_safe [OF h 2(1)] talk_reachable [OF _ 2(2)] Console_Line show ?thesis by auto
  qed (use 2 in \<open>auto simp: main_pass_def s t\<close>)
qed

lemma main_pass_returns:
  assumes "finite_transport ops avail"
  shows "main_pass ops tick input mc nd w \<noteq> None"
proof -
  obtain mc1 nd1 w1 where s: "mc_service ops (main_observer ops) tick mc nd w = Some (mc1, nd1, w1)"
    using main_watching.service_ends [OF assms, of tick mc nd w] by auto
  obtain t nd2 w2 where t: "test_service ops (mc_supervisor mc1) tick (main_test mc1) nd1 w1 = (t, nd2, w2)"
    by (metis prod_cases3)
  show ?thesis by (simp add: main_pass_def s t Let_def)
qed

lemma main_loop_safe:
  assumes "main_loop ops passes mc nd w = Some (running, out, mc', nd', w')"
    and "node_reachable ops ad tr (nd, w)" and "main_inv mc"
  shows "main_inv mc' \<and> node_reachable ops ad tr (nd', w')
    \<and> running = (\<forall>(env, tick, input)\<in>set passes. \<not> stops input)"
  using assms
proof (induction passes arbitrary: mc nd w out)
  case (Cons pass passes)
  obtain env tick input where p: "pass = (env, tick, input)" by (metis prod_cases3)
  obtain run o1 mc1 nd1 w1 where h: "main_pass ops tick input mc nd (env w) = Some (run, o1, mc1, nd1, w1)"
    using Cons.prems(1) by (auto simp: p split: option.splits)
  have "node_reachable ops ad tr (nd, env w)" using Cons.prems(2) step_world by (rule reach_step)
  note safe = main_pass_safe [OF h this Cons.prems(3)]
  show ?case
  proof (cases run)
    case True
    then obtain o2 where "main_loop ops passes mc1 nd1 w1 = Some (running, o2, mc', nd', w')"
      using Cons.prems(1) by (auto simp: p h split: option.splits)
    from Cons.IH [OF this] safe True show ?thesis by (auto simp: p)
  next
    case False
    with Cons.prems(1) safe show ?thesis by (auto simp: p h)
  qed
qed simp

lemma main_loop_returns:
  assumes "finite_transport ops avail"
  shows "main_loop ops passes mc nd w \<noteq> None"
proof (induction passes arbitrary: mc nd w)
  case (Cons pass passes)
  obtain env tick input where p: "pass = (env, tick, input)" by (metis prod_cases3)
  obtain run o1 mc1 nd1 w1 where "main_pass ops tick input mc nd (env w) = Some (run, o1, mc1, nd1, w1)"
    using main_pass_returns [OF assms] by (metis not_None_eq prod_cases5)
  with Cons.IH [of mc1 nd1 w1] show ?case by (auto simp: p split: option.split)
qed simp

lemma main_start_safe:
  assumes "main_start ops tr device found now w = (err, out, mc, nd, w')"
  shows "main_inv mc \<and> node_reachable ops addr_MainComputer tr (nd, w')
    \<and> node_sends (said k) ops (node_init addr_MainComputer tr, w) (nd, w')"
proof -
  obtain ok log where log: "logger_open found (diagnostic_logger_init 250) = (ok, log)" by fastforce
  let ?m = "motorcycle_computer_init \<lparr>mw_test = self_test_init, mw_log = log\<rparr>"
  let ?n = "node_init addr_MainComputer tr"
  obtain o1 sv1 nd1 w1 o2 sv2 nd2 w2 o3 where
    1: "sv_send_discovery ops now (mc_supervisor ?m) ?n w = (o1, sv1, nd1, w1)"
    and 2: "sv_send_heartbeat ops now sv1 nd1 w1 = (o2, sv2, nd2, w2)"
    and 3: "request_all_states ops now nd2 w2 = (o3, nd, w')" and mc: "mc = ?m\<lparr>mc_supervisor := sv2\<rparr>"
    using assms by (auto simp: main_start_def mc_begin_def log split: prod.splits)
  note s1 = sv_send_sel [OF disjI1 [OF 1]] and s2 = sv_send_sel [OF disjI2 [OF 2]]
  have sends: "node_sends (said k) ops (?n, w) (nd, w')"
    by (rule sends_trans [OF request_all_states_sends [OF 3] talk_said [OF talk_trans [OF s2(5) s1(5)]]])
  then have "node_reachable ops addr_MainComputer tr (nd, w')" by (rule talk_reachable) (rule reach_init)
  moreover have "length (sv_nodes sv2) = 16" using sv_inv_init by (simp add: s2 s1 motorcycle_computer_init_def sv_inv_def)
  moreover have "test_inv self_test_init" by (rule test_reachable_inv [OF test_start])
  moreover have "lg_limit log = 250 \<and> lg_events log = []"
    using log by (auto simp: logger_open_def diagnostic_logger_init_def split: option.splits)
  ultimately show ?thesis using sends by (simp add: main_inv_def mc motorcycle_computer_init_def)
qed

section \<open>Properties of the program\<close>

text \<open>C12: The main computer runs until it is told to stop, and stays in its invariant. On a serial line
  with finitely many bytes to read at any time, in chunks of at most 64, whatever they are and whatever
  the world does between the passes, the service loop returns from every pass; after any passes the
  program is still running exactly if none of them had a poll error, the end of the console input, or
  the command quit or exit; its node is consistent, keeps its address and has never dropped a received
  packet, the self-test is consistent, the log holds at most its 250 events, and the table of nodes has
  its sixteen entries.\<close>

theorem main_runs_until_told:
  assumes "finite_transport ops avail"
  shows "case main_start ops tr device found now w of (err, out0, mc0, nd0, w0) \<Rightarrow>
    \<exists>running out mc nd w'. main_loop ops passes mc0 nd0 w0 = Some (running, out, mc, nd, w')
      \<and> running = (\<forall>(env, tick, input)\<in>set passes. \<not> stops input)
      \<and> node_inv nd \<and> nd_address nd = addr_MainComputer \<and> nd_rx_drops nd = 0 \<and> test_inv (main_test mc)
      \<and> length (lg_events (main_log mc)) \<le> 250 \<and> length (sv_nodes (mc_supervisor mc)) = 16"
proof -
  obtain err out0 mc0 nd0 w0 where s: "main_start ops tr device found now w = (err, out0, mc0, nd0, w0)"
    by (metis prod_cases5)
  obtain running out mc nd w' where run: "main_loop ops passes mc0 nd0 w0 = Some (running, out, mc, nd, w')"
    using main_loop_returns [OF assms, of passes mc0 nd0 w0] by (metis not_None_eq prod_cases5)
  have i: "node_reachable ops addr_MainComputer tr (nd0, w0)" "main_inv mc0" using main_start_safe [OF s, of "[]"] by simp_all
  have d: "main_inv mc" "node_reachable ops addr_MainComputer tr (nd, w')"
    "running = (\<forall>(env, tick, input)\<in>set passes. \<not> stops input)"
    using main_loop_safe [OF run i] by simp_all
  from run d node_reachable_inv [OF d(2)] node_reachable_drops [OF d(2) finite_transport.axioms(1) [OF assms]]
  show ?thesis unfolding s by (simp add: main_inv_def)
qed

theorem main_runs_until_told_witness:
  "case main_start bench_transport 0 ''/dev/serial0'' None 5 quiet_world of (err, out0, mc0, nd0, w0) \<Rightarrow>
    \<exists>out mc nd w'. main_loop bench_transport [(\<lambda>w. w\<lparr>sw_rx := (\<lambda>_. [0xA5, 1, 2])\<rparr>, 10, Console_Idle),
        (id, 20, Console_Line ''diag selftest'' 21), (id, 30, Console_Line ''exit'' 31), (id, 40, Console_Idle)] mc0 nd0 w0
      = Some (False, out, mc, nd, w') \<and> nd_rx_drops nd = 0"
  using main_runs_until_told [OF bench.finite_transport_axioms,
      where tr = 0 and device = "''/dev/serial0''" and found = None and now = 5 and w = quiet_world and passes =
      "[(\<lambda>w. w\<lparr>sw_rx := (\<lambda>_. [0xA5, 1, 2])\<rparr>, 10, Console_Idle),
        (id, 20, Console_Line ''diag selftest'' 21), (id, 30, Console_Line ''exit'' 31), (id, 40, Console_Idle)]"]
  by (cases "main_start bench_transport 0 ''/dev/serial0'' None 5 quiet_world" rule: prod_cases5)
    (auto simp del: main_loop.simps)

end
