(* ===== verification/NorthbridgeCarry.thy ===== *)
theory NorthbridgeCarry
  imports NorthbridgeRuntime
begin

text \<open>
  What the northbridge does for the nodes behind it: under any traffic the routes of bound nodes stay
  where their bindings say, and frames between bound nodes are carried unchanged and in order.
\<close>

section \<open>Pinned routes\<close>

definition pinned :: "northbridge \<Rightarrow> bool" where
  "pinned nb \<longleftrightarrow> nb_topology_enforced nb \<and>
     (\<forall>a q. binding_lookup nb a = Some q \<longrightarrow> route_lookup (nb_router nb) a = Some q)"

lemma pinned_cong:
  assumes "nb_bindings nb' = nb_bindings nb" and "nb_topology_enforced nb' = nb_topology_enforced nb"
    and "nb_router nb' = nb_router nb"
  shows "pinned nb' = pinned nb"
  using assms by (simp add: pinned_def binding_lookup_def)

text \<open>The routes after a packet: nothing moves when it is shut out, its source is seen otherwise.\<close>

lemma nb_receive_router:
  assumes "nb_inv nb" and "attached (nb_transports nb) port" and "wf_packet p"
    and "nb_receive ops p port now nb w = Some (nb', w')"
  shows "nb_router nb' = (if misplaced nb port p \<and> nb_topology_enforced nb then nb_router nb
    else router_mark_seen (pkt_source p) port now (nb_router nb))"
proof -
  have r: "router_inv (nb_router nb)" "attached (rt_ports (nb_router nb)) port"
    using assms(1,2) by (simp_all add: nb_inv_def)
  show ?thesis
  proof (cases "misplaced nb port p \<and> nb_topology_enforced nb")
    case True
    with assms(4) obtain k where "nb_send_topology_fault ops (pkt_source p)
        (the (binding_lookup nb (pkt_source p))) port (nb_shut_out port p nb) w = (k, nb', w')"
      by (cases "nb_send_topology_fault ops (pkt_source p)
        (the (binding_lookup nb (pkt_source p))) port (nb_shut_out port p nb) w") (simp add: nb_receive_eq)
    from nb_send_topology_fault_keeps(1) [OF this] True show ?thesis
      by (simp add: same_network_def nb_shut_out_def)
  next
    case False
    then show ?thesis
    proof (cases "pkt_destination p = addr_Northbridge")
      case True
      with False assms(4) obtain k where "nb_handle_local_packet ops p port now ((nb_counted port p nb)
          \<lparr>nb_router := router_mark_seen (pkt_source p) port now (nb_router nb)\<rparr>) w = Some (k, nb', w')"
        by (auto simp: nb_receive_eq)
      from nb_handle_local_keeps(1) [OF this] False show ?thesis by (auto simp: same_network_def)
    next
      case pass: False
      obtain ok r' w1 where f: "router_forward ops p port now (nb_router nb) w = (ok, r', w1)"
        by (metis prod_cases3)
      have "r' = router_mark_seen (pkt_source p) port now (nb_router nb)"
        using f by (auto simp: router_forward_def Let_def split: if_splits prod.splits)
      with False pass f assms(4) account_forward_same(1) [of "(nb_counted port p nb)\<lparr>nb_router := r'\<rparr>" p port ok]
      show ?thesis by (auto simp: nb_receive_eq nb_pass_def Let_def same_network_def)
    qed
  qed
qed

lemma pinned_receive:
  assumes "nb_inv nb" and "attached (nb_transports nb) port" and "wf_packet p" and "pinned nb"
    and "nb_receive ops p port now nb w = Some (nb', w')"
  shows "pinned nb'"
proof -
  have r: "router_inv (nb_router nb)" "attached (rt_ports (nb_router nb)) port"
    using assms(1,2) by (simp_all add: nb_inv_def)
  have s: "nb_topology_enforced nb' = nb_topology_enforced nb" "binding_lookup nb' = binding_lookup nb"
    using nb_receive_keeps [OF assms(1,2,3,5)] by (auto simp: same_setup_def binding_lookup_def [abs_def])
  show ?thesis
    using assms(4) nb_receive_router [OF assms(1,2,3,5)] router_mark_seen_lookup [OF r]
    by (auto simp: pinned_def s misplaced_def)
qed

text \<open>Every byte keeps what every packet keeps.\<close>

lemma nb_bytes_induct_inv:
  assumes "nb_bytes ops port now bs nb w = Some (nb', w')"
    and "nb_inv nb" and "attached (nb_transports nb) port" and "J nb"
    and parser: "\<And>m s. J m \<Longrightarrow> J (m\<lparr>nb_parsers := (nb_parsers m)[unat port := s]\<rparr>)"
    and packet: "\<And>p m v m' v'. nb_inv m \<Longrightarrow> attached (nb_transports m) port \<Longrightarrow> wf_packet p \<Longrightarrow> J m \<Longrightarrow>
      nb_receive ops p port now m v = Some (m', v') \<Longrightarrow> J m'"
  shows "J nb'"
  using assms(1-4)
proof (induction bs arbitrary: nb w)
  case (Cons b bs)
  obtain ok s1 p where push: "parser_push (nb_parsers nb ! unat port) b default_packet = (ok, s1, p)"
    by (metis prod_cases3)
  let ?nb1 = "nb\<lparr>nb_parsers := (nb_parsers nb)[unat port := s1]\<rparr>"
  have "unat port < kMaxRouterPorts"
    using Cons.prems(2,3) nb_inv_transports by (auto simp: attached_def)
  then have ps: "parser_inv (nb_parsers nb ! unat port)" using Cons.prems(2) by (simp add: nb_inv_def)
  from parser_push_inv [OF this] push have "parser_inv s1" by (metis fst_conv snd_conv)
  then have inv1: "nb_inv ?nb1" using Cons.prems(2) by (auto simp: nb_inv_def dest!: set_list_update_subset)
  show ?case
  proof (cases ok)
    case False
    with push Cons.prems show ?thesis by (intro Cons.IH [OF _ inv1]) (simp_all add: parser)
  next
    case True
    obtain nb2 w2 where r: "nb_receive ops p port now ?nb1 w = Some (nb2, w2)"
      and rest: "nb_bytes ops port now bs nb2 w2 = Some (nb', w')"
      using push Cons.prems(1) True by (auto split: option.splits)
    have wf: "wf_packet p" using push_delivers [OF ps] push True by (simp add: sendable_def)
    have at1: "attached (nb_transports ?nb1) port" using Cons.prems(3) by simp
    from nb_receive_keeps [OF inv1 at1 wf r] Cons.prems(3)
    have "nb_inv nb2" "attached (nb_transports nb2) port" by (simp_all add: same_setup_def)
    from Cons.IH [OF rest this packet [OF inv1 at1 wf parser [OF Cons.prems(4)] r]] show ?thesis .
  qed
qed simp

lemma nb_bytes_other_parsers:
  assumes "nb_bytes ops port now bs nb w = Some (nb', w')" and "nb_inv nb" and "attached (nb_transports nb) port"
    and "j \<noteq> unat port"
  shows "nb_parsers nb' ! j = nb_parsers nb ! j"
proof (rule nb_bytes_induct_inv [where J = "\<lambda>m. nb_parsers m ! j = nb_parsers nb ! j", OF assms(1-3) refl])
  fix p m v m' v'
  assume "nb_inv m" "attached (nb_transports m) port" "wf_packet p" "nb_parsers m ! j = nb_parsers nb ! j"
    "nb_receive ops p port now m v = Some (m', v')"
  then show "nb_parsers m' ! j = nb_parsers nb ! j" using nb_receive_keeps by metis
qed (use assms(4) in simp)

lemma pinned_port:
  assumes "nb_inv nb" and "pinned nb" and "nb_service_port ops port now nb w = Some (nb', w')"
  shows "pinned nb'"
proof (cases "attached (nb_transports nb) port")
  case True
  let ?nb1 = "\<lambda>n. upd_stats port (\<lambda>s. s\<lparr>ps_rx_bytes := ps_rx_bytes s + word_of_nat n\<rparr>) nb"
  obtain chunk w1 nb2 where b: "nb_bytes ops port now chunk (?nb1 (length chunk)) w1 = Some (nb2, w')"
    and nb': "nb' = nb_note_rejects port nb2"
    using assms(3) True by (auto simp: nb_service_port_def attached_def split: prod.splits option.splits)
  have "pinned nb2"
  proof (rule nb_bytes_induct_inv [where J = pinned, OF b])
    show "nb_inv (?nb1 (length chunk))" "attached (nb_transports (?nb1 (length chunk))) port"
      using assms(1) True by simp_all
    show "pinned (?nb1 (length chunk))" using assms(2) by (simp add: pinned_def binding_lookup_def)
    show "pinned (m\<lparr>nb_parsers := (nb_parsers m)[unat port := s]\<rparr>)" if "pinned m" for m s
      using that by (simp add: pinned_def binding_lookup_def)
  qed (rule pinned_receive)
  then show ?thesis by (simp add: nb' nb_note_rejects_def Let_def pinned_def binding_lookup_def)
next
  case False
  with assms show ?thesis by (auto simp: nb_service_port_def attached_def split: option.splits)
qed

lemma pinned_ports:
  "nb_service_ports ops ports now nb w = Some (nb', w') \<Longrightarrow> nb_inv nb \<Longrightarrow> pinned nb \<Longrightarrow> pinned nb'"
proof (induction ports arbitrary: nb w)
  case (Cons q ports)
  then obtain nb1 w1 where p: "nb_service_port ops q now nb w = Some (nb1, w1)"
    and rest: "nb_service_ports ops ports now nb1 w1 = Some (nb', w')"
    by (auto split: option.splits)
  from Cons.IH [OF rest] nb_service_port_keeps [OF Cons.prems(2) p] pinned_port [OF Cons.prems(2,3) p]
  show ?case by blast
qed simp

lemma pinned_service:
  assumes "nb_service ops now nb w = Some (nb', w')" and "nb_inv nb" and "pinned nb"
  shows "pinned nb'"
proof (rule pinned_ports)
  show "nb_service_ports ops port_numbers now (nb\<lparr>nb_last_service_ms := now\<rparr>) w = Some (nb', w')"
    using assms(1) by (simp add: nb_service_def)
qed (use assms(2,3) in \<open>simp_all add: pinned_def binding_lookup_def\<close>)

text \<open>The firmware's table starts pinned: bindings and routes are entered side by side.\<close>

lemma bindings_are_routes:
  assumes "map (\<lambda>b. (tb_active b, tb_address b, tb_port b)) bs = map (\<lambda>e. (re_active e, re_address e, re_port e)) es"
  shows "map_option (\<lambda>i. tb_port (bs ! i)) (find_index (binding_matches a) bs) =
    map_option (\<lambda>i. re_port (es ! i)) (find_index (route_matches a) es)"
proof -
  let ?h = "\<lambda>(x, y, z :: u8). x \<and> y = a"
  have f: "find_index ?h (map (\<lambda>b. (tb_active b, tb_address b, tb_port b)) bs) = find_index (binding_matches a) bs"
    "find_index ?h (map (\<lambda>e. (re_active e, re_address e, re_port e)) es) = find_index (route_matches a) es"
    by (simp_all add: find_index_map binding_matches_def [abs_def] route_matches_def [abs_def])
  then have "find_index (binding_matches a) bs = find_index (route_matches a) es" unfolding assms by simp
  moreover have "tb_port (bs ! i) = re_port (es ! i)" if "find_index (binding_matches a) bs = Some i" for i
  proof -
    have "i < length bs" "length bs = length es"
      using find_index_SomeD(1) [OF that] arg_cong [OF assms, of length] by simp_all
    with arg_cong [OF assms, of "\<lambda>xs. xs ! i"] show ?thesis by simp
  qed
  ultimately show ?thesis by (cases "find_index (route_matches a) es") (simp_all del: find_index_None_iff)
qed

lemma pinned_setup: "pinned northbridge_setup"
proof -
  have "map (\<lambda>b. (tb_active b, tb_address b, tb_port b)) (nb_bindings northbridge_setup) =
      map (\<lambda>e. (re_active e, re_address e, re_port e)) (rt_routes (nb_router northbridge_setup))"
    by code_simp
  from bindings_are_routes [OF this] show ?thesis
    by (simp add: pinned_def northbridge_setup_eq(2) binding_lookup_def route_lookup_def)
qed

section \<open>Carrying\<close>

text \<open>A packet from its own port to a node the table knows behind another port.\<close>

definition carries :: "northbridge \<Rightarrow> u8 \<Rightarrow> node_address \<Rightarrow> packet \<Rightarrow> bool" where
  "carries nb port d p \<longleftrightarrow> sendable p \<and> \<not> misplaced nb port p \<and> pkt_destination p = d \<and> pkt_source p \<noteq> d"

lemma carries_received: "carries nb port d p \<Longrightarrow> carries nb port d (received p)"
  by (simp add: carries_def misplaced_def)

lemma carries_cong: "nb_bindings nb' = nb_bindings nb \<Longrightarrow> carries nb' port d p = carries nb port d p"
  by (simp add: carries_def misplaced_def binding_lookup_def)

lemma nb_receive_carries:
  assumes inv: "nb_inv nb" and att: "attached (nb_transports nb) port" and p: "carries nb port d p"
    and d: "d \<noteq> addr_Northbridge" "d \<noteq> addr_Broadcast"
    and route: "route_lookup (nb_router nb) d = Some q" "q \<noteq> port"
  shows "\<exists>nb'. nb_receive bench_transport p port now nb w = Some (nb',
      w\<lparr>sw_tx := sw_tx w @ [(the (nb_transports nb ! unat q), frame_of p)]\<rparr>)
    \<and> nb_inv nb' \<and> same_setup nb nb' \<and> nb_parsers nb' = nb_parsers nb
    \<and> route_lookup (nb_router nb') d = Some q
    \<and> nb_forwarded_packets nb' = nb_forwarded_packets nb + 1 \<and> nb_dropped_packets nb' = nb_dropped_packets nb"
proof -
  have r: "router_inv (nb_router nb)" "attached (rt_ports (nb_router nb)) port" "rt_ports (nb_router nb) = nb_transports nb"
    using inv att by (simp_all add: nb_inv_def)
  have s: "sendable p" "wf_packet p" using p by (simp_all add: carries_def sendable_def)
  let ?r1 = "router_mark_seen (pkt_source p) port now (nb_router nb)"
  have l: "route_lookup ?r1 d = Some q"
    using router_mark_seen_lookup [OF r(1,2)] route p by (auto simp: carries_def)
  obtain r1 where f: "router_forward bench_transport p port now (nb_router nb) w =
      (pkt_destination p = addr_Northbridge \<or> egress_ports r1 port (pkt_destination p) \<noteq> [], r1,
       w\<lparr>sw_tx := sw_tx w @ map (\<lambda>q. (port_transport (nb_router nb) q, frame_of p))
                            (egress_ports r1 port (pkt_destination p))\<rparr>)"
    using router_forward_bench [OF r(1,2) s(1)] by blast
  have "r1 = ?r1" using f by (auto simp: router_forward_def Let_def split: if_splits prod.splits)
  with l d route(2) have e: "egress_ports r1 port d = [q]" "pkt_destination p = d"
    using p by (simp_all add: egress_ports_def carries_def)
  have run: "nb_receive bench_transport p port now nb w = Some
      (nb_pass port p True ((nb_counted port p nb)\<lparr>nb_router := r1\<rparr>),
       w\<lparr>sw_tx := sw_tx w @ [(the (nb_transports nb ! unat q), frame_of p)]\<rparr>)"
    using p d f by (simp add: nb_receive_eq e carries_def port_transport_def r(3))
  note keeps = nb_receive_keeps [OF inv att s(2) run]
  have "nb_dropped_packets (nb_pass port p True ((nb_counted port p nb)\<lparr>nb_router := r1\<rparr>)) = nb_dropped_packets nb"
    using account_forward_same(1) [of "(nb_counted port p nb)\<lparr>nb_router := r1\<rparr>" p port True]
    by (simp add: nb_pass_def Let_def same_network_def)
  moreover have "nb_router (nb_pass port p True ((nb_counted port p nb)\<lparr>nb_router := r1\<rparr>)) = r1"
    using account_forward_same(1) [of "(nb_counted port p nb)\<lparr>nb_router := r1\<rparr>" p port True]
    by (simp add: nb_pass_def Let_def same_network_def)
  moreover have "nb_transit nb port p" using p d by (simp add: nb_transit_def carries_def)
  ultimately show ?thesis using keeps run l \<open>r1 = ?r1\<close> by simp
qed

lemma nb_bytes_carries:
  assumes "nb_inv nb" and "attached (nb_transports nb) port" and "parser_feed (nb_parsers nb ! unat port) bs = (ps, pks)"
    and "\<And>p. p \<in> set pks \<Longrightarrow> carries nb port d p"
    and d: "d \<noteq> addr_Northbridge" "d \<noteq> addr_Broadcast"
    and "route_lookup (nb_router nb) d = Some q" and q: "q \<noteq> port"
  shows "\<exists>nb'. nb_bytes bench_transport port now bs nb w = Some (nb',
      w\<lparr>sw_tx := sw_tx w @ map (\<lambda>p. (the (nb_transports nb ! unat q), frame_of p)) pks\<rparr>)
    \<and> nb_forwarded_packets nb' = nb_forwarded_packets nb + of_nat (length pks)
    \<and> nb_dropped_packets nb' = nb_dropped_packets nb"
  using assms(1-4,7)
proof (induction bs arbitrary: nb w pks)
  case (Cons b bs)
  obtain ok s1 p where push: "parser_push (nb_parsers nb ! unat port) b default_packet = (ok, s1, p)"
    by (metis prod_cases3)
  let ?nb1 = "nb\<lparr>nb_parsers := (nb_parsers nb)[unat port := s1]\<rparr>"
  have port: "unat port < kMaxRouterPorts"
    using Cons.prems(1,2) nb_inv_transports by (auto simp: attached_def)
  then have ps: "parser_inv (nb_parsers nb ! unat port)" using Cons.prems(1) by (simp add: nb_inv_def)
  from parser_push_inv [OF this] push have "parser_inv s1" by (metis fst_conv snd_conv)
  then have inv1: "nb_inv ?nb1" using Cons.prems(1) by (auto simp: nb_inv_def dest!: set_list_update_subset)
  have at1: "nb_parsers ?nb1 ! unat port = s1" using port Cons.prems(1) by (simp add: nb_inv_def)
  have c1: "carries ?nb1 port d = carries nb port d"
    by (simp add: carries_def [abs_def] misplaced_def binding_lookup_def)
  obtain ps2 pks2 where feed: "parser_feed s1 bs = (ps2, pks2)" by fastforce
  show ?case
  proof (cases ok)
    case False
    with push Cons.prems(3) feed have "pks2 = pks" "ps2 = ps" by simp_all
    with Cons.IH [OF inv1, of pks w] Cons.prems(2,4,5) at1 feed c1 False push show ?thesis by simp
  next
    case True
    have pk: "pks = p # pks2" "ps = ps2" using push Cons.prems(3) feed True by auto
    have "attached (nb_transports ?nb1) port" "carries ?nb1 port d p" "route_lookup (nb_router ?nb1) d = Some q"
      using Cons.prems(2,4,5) pk c1 by simp_all
    from nb_receive_carries [OF inv1 this(1,2) d this(3) q, of now w] obtain nb2 where
      r: "nb_receive bench_transport p port now ?nb1 w = Some (nb2,
        w\<lparr>sw_tx := sw_tx w @ [(the (nb_transports nb ! unat q), frame_of p)]\<rparr>)"
      and k: "nb_inv nb2" "same_setup ?nb1 nb2" "nb_parsers nb2 = nb_parsers ?nb1"
        "route_lookup (nb_router nb2) d = Some q" "nb_forwarded_packets nb2 = nb_forwarded_packets nb + 1"
        "nb_dropped_packets nb2 = nb_dropped_packets nb" by auto
    have c2: "carries nb2 port d = carries nb port d" and t2: "nb_transports nb2 = nb_transports nb"
      using k(2) same_setup_cong(3) [OF k(2)] c1 by (simp_all add: carries_def [abs_def] same_setup_def misplaced_def [abs_def] binding_lookup_def)
    from Cons.IH [OF k(1), of pks2 "w\<lparr>sw_tx := sw_tx w @ [(the (nb_transports nb ! unat q), frame_of p)]\<rparr>"]
    show ?thesis using Cons.prems(2,4) at1 k feed c2 t2 push True r pk by (auto simp: ac_simps)
  qed
qed simp

text \<open>What matters for carrying survives a port with nothing to read.\<close>

definition alike :: "northbridge \<Rightarrow> northbridge \<Rightarrow> bool" where
  "alike nb nb' \<longleftrightarrow> nb_inv nb' \<and> same_setup nb nb' \<and> nb_router nb' = nb_router nb \<and> nb_parsers nb' = nb_parsers nb
     \<and> nb_forwarded_packets nb' = nb_forwarded_packets nb \<and> nb_dropped_packets nb' = nb_dropped_packets nb"

lemma alike_refl: "nb_inv nb \<Longrightarrow> alike nb nb"
  by (simp add: alike_def same_setup_def)

lemma alike_trans: "alike a b \<Longrightarrow> alike b c \<Longrightarrow> alike a c"
  by (simp add: alike_def same_setup_def)

lemma alike_note_rejects: "nb_inv nb \<Longrightarrow> alike nb (nb_note_rejects port nb)"
  by (simp add: alike_def) (simp add: nb_note_rejects_def Let_def)

definition silent :: "northbridge \<Rightarrow> serial_world \<Rightarrow> u8 \<Rightarrow> bool" where
  "silent nb w port \<longleftrightarrow> (\<forall>t. unat port < length (nb_transports nb) \<longrightarrow> nb_transports nb ! unat port = Some t \<longrightarrow> sw_rx w t = [])"

lemma nb_service_port_silent:
  assumes "nb_inv nb" and "silent nb w port"
  shows "\<exists>nb'. nb_service_port bench_transport port now nb w = Some (nb', w) \<and> alike nb nb'"
proof (cases "attached (nb_transports nb) port")
  case True
  then obtain t where t: "nb_transports nb ! unat port = Some t" "unat port < length (nb_transports nb)"
    by (auto simp: attached_def)
  have "sw_rx w t = []" using assms(2) t by (simp add: silent_def)
  then have "w\<lparr>sw_rx := (sw_rx w)(t := [])\<rparr> = w" by (metis fun_upd_triv serial_world.surjective serial_world.update_convs(1))
  with t \<open>sw_rx w t = []\<close> alike_note_rejects [of "upd_stats port (\<lambda>s. s\<lparr>ps_rx_bytes := ps_rx_bytes s + 0\<rparr>) nb" port] assms(1)
  show ?thesis by (simp add: nb_service_port_def) (simp add: alike_def same_setup_def)
next
  case False
  then show ?thesis using alike_refl [OF assms(1)] by (auto simp: nb_service_port_def attached_def)
qed

lemma nb_service_ports_silent:
  assumes "nb_inv nb" and "\<And>port. port \<in> set ports \<Longrightarrow> silent nb w port"
  shows "\<exists>nb'. nb_service_ports bench_transport ports now nb w = Some (nb', w) \<and> alike nb nb'"
  using assms
proof (induction ports arbitrary: nb)
  case (Cons q ports)
  obtain nb1 where 1: "nb_service_port bench_transport q now nb w = Some (nb1, w)" "alike nb nb1"
    using nb_service_port_silent [of nb w q now] Cons.prems by auto
  then have "nb_inv nb1" "silent nb1 w = silent nb w" by (simp_all add: alike_def same_setup_def silent_def [abs_def])
  with Cons.IH [of nb1] Cons.prems(2) 1 show ?case by (auto intro: alike_trans)
qed (auto intro: alike_refl)

lemma nb_service_ports_append:
  "nb_service_ports ops (ps @ qs) now nb w = (case nb_service_ports ops ps now nb w of
     None \<Rightarrow> None | Some (nb', w') \<Rightarrow> nb_service_ports ops qs now nb' w')"
  by (induction ps arbitrary: nb w) (auto split: option.splits)

lemma nb_service_port_carries:
  assumes inv: "nb_inv nb" and "nb_transports nb ! unat port = Some t" and port: "unat port < kMaxRouterPorts"
    and ps: "\<And>p. p \<in> set ps \<Longrightarrow> carries nb port d p"
    and d: "d \<noteq> addr_Northbridge" "d \<noteq> addr_Broadcast"
    and "route_lookup (nb_router nb) d = Some q" and "q \<noteq> port"
    and "sp_length (nb_parsers nb ! unat port) = 0"
    and rx: "sw_rx w t = concat (map frame_of ps)" "length (sw_rx w t) \<le> 64"
  shows "\<exists>nb'. nb_service_port bench_transport port now nb w = Some (nb', w\<lparr>sw_rx := (sw_rx w)(t := []),
      sw_tx := sw_tx w @ map (\<lambda>p. (the (nb_transports nb ! unat q), frame_of p)) ps\<rparr>)
    \<and> nb_inv nb' \<and> same_setup nb nb' \<and> sp_length (nb_parsers nb' ! unat port) = 0
    \<and> (\<forall>j. j \<noteq> unat port \<longrightarrow> nb_parsers nb' ! j = nb_parsers nb ! j)
    \<and> nb_forwarded_packets nb' = nb_forwarded_packets nb + of_nat (length ps)
    \<and> nb_dropped_packets nb' = nb_dropped_packets nb"
proof -
  let ?n = "word_of_nat (length (sw_rx w t))"
  let ?nb = "upd_stats port (\<lambda>s. s\<lparr>ps_rx_bytes := ps_rx_bytes s + ?n\<rparr>) nb"
  let ?w = "w\<lparr>sw_rx := (sw_rx w)(t := [])\<rparr>"
  have att: "attached (nb_transports ?nb) port" using assms(2) port nb_inv_transports [OF inv] by (simp add: attached_def)
  have "parser_inv (nb_parsers nb ! unat port)" using inv port by (simp add: nb_inv_def)
  then have "collected (sp_rejected (nb_parsers nb ! unat port)) [] (nb_parsers nb ! unat port)"
    using assms(9) by (simp add: collected_idle)
  moreover have sendable: "\<forall>p\<in>set ps. sendable p" using ps by (simp add: carries_def)
  ultimately obtain s where feed: "parser_feed (nb_parsers ?nb ! unat port) (sw_rx w t) = (s, map received ps)"
    and s: "collected (sp_rejected (nb_parsers nb ! unat port)) [] s"
    using feed_frames by (fastforce simp: rx)
  have carried: "carries ?nb port d p" if "p \<in> set (map received ps)" for p
    using that ps carries_cong [of ?nb nb] carries_received by auto
  have "nb_inv ?nb" "route_lookup (nb_router ?nb) d = Some q" using inv assms(7) by simp_all
  from nb_bytes_carries [OF this(1) att feed carried d this(2) assms(8), of now ?w] obtain nb2 where
    b: "nb_bytes bench_transport port now (sw_rx w t) ?nb ?w = Some (nb2, w\<lparr>sw_rx := (sw_rx w)(t := []),
      sw_tx := sw_tx w @ map (\<lambda>p. (the (nb_transports nb ! unat q), frame_of p)) ps\<rparr>)"
    and n: "nb_forwarded_packets nb2 = nb_forwarded_packets nb + of_nat (length ps)"
      "nb_dropped_packets nb2 = nb_dropped_packets nb"
    using sendable by (auto simp: comp_def cong: map_cong)
  from nb_bytes_keeps [OF \<open>nb_inv ?nb\<close> att b feed]
  have k: "nb_inv nb2" "same_setup nb nb2" "nb_parsers nb2 ! unat port = s" by (simp_all add: same_setup_def)
  have "sp_length s = 0" using s by (simp add: collected_idle)
  moreover have "nb_parsers nb2 ! j = nb_parsers nb ! j" if "j \<noteq> unat port" for j
    using nb_bytes_other_parsers [OF b \<open>nb_inv ?nb\<close> att that] by simp
  ultimately show ?thesis
    using b k n assms(2) port nb_inv_transports [OF inv] rx(2) same_setup_trans [OF k(2) nb_note_rejects_keeps(2)]
      alike_note_rejects [OF k(1), of port]
    by (simp add: nb_service_port_def alike_def)
qed

text \<open>The other ports have nothing to read, and do not share the busy transport.\<close>

definition only_port :: "northbridge \<Rightarrow> serial_world \<Rightarrow> u8 \<Rightarrow> bool" where
  "only_port nb w port \<longleftrightarrow> (\<forall>i t. i < length (nb_transports nb) \<longrightarrow> i \<noteq> unat port \<longrightarrow> nb_transports nb ! i = Some t \<longrightarrow>
     sw_rx w t = [] \<and> nb_transports nb ! unat port \<noteq> Some t)"

lemma nb_service_carries:
  assumes inv: "nb_inv nb" and t: "nb_transports nb ! unat port = Some t" and port: "unat port < kMaxRouterPorts"
    and ps: "\<And>p. p \<in> set ps \<Longrightarrow> carries nb port d p"
    and d: "d \<noteq> addr_Northbridge" "d \<noteq> addr_Broadcast"
    and q: "route_lookup (nb_router nb) d = Some q" "q \<noteq> port"
    and idle: "sp_length (nb_parsers nb ! unat port) = 0"
    and rx: "sw_rx w t = concat (map frame_of ps)" "length (sw_rx w t) \<le> 64" and only: "only_port nb w port"
  shows "\<exists>nb'. nb_service bench_transport now nb w = Some (nb', w\<lparr>sw_rx := (sw_rx w)(t := []),
      sw_tx := sw_tx w @ map (\<lambda>p. (the (nb_transports nb ! unat q), frame_of p)) ps\<rparr>)
    \<and> nb_inv nb' \<and> same_setup nb nb' \<and> sp_length (nb_parsers nb' ! unat port) = 0
    \<and> (\<forall>j. j \<noteq> unat port \<longrightarrow> nb_parsers nb' ! j = nb_parsers nb ! j)
    \<and> nb_forwarded_packets nb' = nb_forwarded_packets nb + of_nat (length ps)
    \<and> nb_dropped_packets nb' = nb_dropped_packets nb"
proof -
  let ?nb0 = "nb\<lparr>nb_last_service_ms := now\<rparr>"
  let ?w2 = "w\<lparr>sw_rx := (sw_rx w)(t := []),
      sw_tx := sw_tx w @ map (\<lambda>p. (the (nb_transports nb ! unat q), frame_of p)) ps\<rparr>"
  have "port \<in> set port_numbers" using port by simp
  then obtain us vs where split: "port_numbers = us @ port # vs" by (meson split_list)
  have others: "x \<noteq> port" if "x \<in> set us \<or> x \<in> set vs" for x
    using distinct_port_numbers that by (auto simp: split)
  have quiet: "silent m v x"
    if "same_setup nb m" "x \<in> set us \<or> x \<in> set vs" "v = w \<or> v = ?w2" for m v x
  proof -
    have "unat x \<noteq> unat port" using others [OF that(2)] by (simp add: word_unat_eq_iff)
    then show ?thesis using only t that(1,3) by (auto simp: only_port_def silent_def same_setup_def)
  qed
  have inv0: "nb_inv ?nb0" and s0: "same_setup nb ?nb0" using inv by (simp_all add: same_setup_def)
  from nb_service_ports_silent [OF inv0, of us w now] quiet [OF s0] obtain nb1 where
    1: "nb_service_ports bench_transport us now ?nb0 w = Some (nb1, w)" "alike ?nb0 nb1" by blast
  then have a1: "nb_inv nb1" "same_setup nb nb1" "nb_router nb1 = nb_router nb" "nb_parsers nb1 = nb_parsers nb"
    "nb_forwarded_packets nb1 = nb_forwarded_packets nb" "nb_dropped_packets nb1 = nb_dropped_packets nb"
    by (simp_all add: alike_def same_setup_def)
  have tr: "nb_transports nb1 = nb_transports nb" using a1(2) by (simp add: same_setup_def)
  have c1: "carries nb1 port d p" if "p \<in> set ps" for p
    using ps [OF that] same_setup_cong(3) [OF a1(2)] by (simp add: carries_def)
  have t1: "nb_transports nb1 ! unat port = Some t" and q1: "route_lookup (nb_router nb1) d = Some q"
    and i1: "sp_length (nb_parsers nb1 ! unat port) = 0" using t q idle by (simp_all add: tr a1)
  from nb_service_port_carries [OF a1(1) t1 port c1 d q1 q(2) i1 rx, of now] obtain nb2 where
    2: "nb_service_port bench_transport port now nb1 w = Some (nb2, ?w2)"
      "nb_inv nb2" "same_setup nb1 nb2" "sp_length (nb_parsers nb2 ! unat port) = 0"
      "\<forall>j. j \<noteq> unat port \<longrightarrow> nb_parsers nb2 ! j = nb_parsers nb ! j"
      "nb_forwarded_packets nb2 = nb_forwarded_packets nb + of_nat (length ps)"
      "nb_dropped_packets nb2 = nb_dropped_packets nb"
    by (auto simp: tr a1)
  have s2: "same_setup nb nb2" using a1(2) 2(3) by (rule same_setup_trans)
  from nb_service_ports_silent [OF 2(2), of vs ?w2 now] quiet [OF s2] obtain nb3 where
    3: "nb_service_ports bench_transport vs now nb2 ?w2 = Some (nb3, ?w2)" "alike nb2 nb3" by blast
  have "nb_service bench_transport now nb w = Some (nb3, ?w2)"
    by (simp add: nb_service_def split nb_service_ports_append 1(1) 2(1) 3(1))
  moreover have "same_setup nb nb3" using s2 3(2) by (auto simp: alike_def intro: same_setup_trans)
  ultimately show ?thesis using 2 3(2) by (simp add: alike_def)
qed

section \<open>The running firmware\<close>

text \<open>The northbridge of the firmware after its setup and any number of services, in any world.\<close>

inductive firmware_northbridge :: "'w transport_ops \<Rightarrow> northbridge \<Rightarrow> bool" for ops :: "'w transport_ops" where
  nb_boot: "firmware_northbridge ops northbridge_setup"
| nb_round: "firmware_northbridge ops nb \<Longrightarrow> nb_service ops now nb w = Some (nb', w') \<Longrightarrow> firmware_northbridge ops nb'"

lemma firmware_northbridge_inv:
  "firmware_northbridge ops nb \<Longrightarrow> nb_inv nb \<and> same_setup northbridge_setup nb \<and> pinned nb"
proof (induction rule: firmware_northbridge.induct)
  case nb_boot
  show ?case using northbridge_setup_inv pinned_setup by (simp add: same_setup_def)
next
  case (nb_round nb now w nb' w')
  then have "nb_inv nb" by simp
  have "attached_count nb \<le> 5"
    using same_setup_cong(2) [of northbridge_setup nb] nb_round
    by (simp add: attached_count_def northbridge_setup_eq)
  from nb_service_total [OF \<open>nb_inv nb\<close> this, of ops now w] nb_round
  have "nb_inv nb'" "same_setup nb nb'" by auto
  with pinned_service [OF nb_round(2) \<open>nb_inv nb\<close>] nb_round show ?case by (blast intro: same_setup_trans)
qed

text \<open>Between two bound nodes the routes needed are always there.\<close>

lemma firmware_burst_carried:
  assumes "firmware_northbridge ops nb" and "binding_lookup nb a = Some port" and "binding_lookup nb d = Some q" and "q \<noteq> port"
    and ps: "\<And>p. p \<in> set ps \<Longrightarrow> sendable p \<and> pkt_source p = a \<and> pkt_destination p = d"
    and d: "d \<noteq> addr_Northbridge" "d \<noteq> addr_Broadcast"
    and t: "nb_transports nb ! unat port = Some t" and port: "unat port < kMaxRouterPorts"
    and idle: "sp_length (nb_parsers nb ! unat port) = 0" and only: "only_port nb w port"
    and rx: "sw_rx w t = concat (map frame_of ps)" "length (sw_rx w t) \<le> 64"
  shows "\<exists>nb'. nb_service bench_transport now nb w = Some (nb', w\<lparr>sw_rx := (sw_rx w)(t := []),
      sw_tx := sw_tx w @ map (\<lambda>p. (the (nb_transports nb ! unat q), frame_of p)) ps\<rparr>)
    \<and> nb_inv nb' \<and> same_setup nb nb' \<and> sp_length (nb_parsers nb' ! unat port) = 0
    \<and> (\<forall>j. j \<noteq> unat port \<longrightarrow> nb_parsers nb' ! j = nb_parsers nb ! j)
    \<and> nb_forwarded_packets nb' = nb_forwarded_packets nb + of_nat (length ps)
    \<and> nb_dropped_packets nb' = nb_dropped_packets nb"
proof -
  have i: "nb_inv nb" "pinned nb" using firmware_northbridge_inv [OF assms(1)] by simp_all
  have c: "carries nb port d p" if "p \<in> set ps" for p
    using ps [OF that] assms(2-4) by (auto simp: carries_def misplaced_def)
  have r: "route_lookup (nb_router nb) d = Some q" using i(2) assms(3) by (simp add: pinned_def)
  from nb_service_carries [OF i(1) t port c d r assms(4) idle rx only] show ?thesis .
qed

section \<open>Properties\<close>

text \<open>C7: Routes cannot be poisoned. Whatever bytes arrive on whatever port, after the setup of the
  firmware and any number of services the routes of the main computer, the diagnostic computer and
  the two controllers are the ports they are bound to, and bindings, ports and enforcement are
  those of the setup. (The firmware's README says that the route of a node can follow the port where
  it is observed; the setup binds these four nodes and enforces the bindings, so for them it cannot.)\<close>

theorem northbridge_routes_pinned:
  assumes "firmware_northbridge ops nb"
  shows "route_lookup (nb_router nb) addr_MainComputer = Some kPortPi
    \<and> route_lookup (nb_router nb) addr_DiagnosticComputer = Some kPortPi
    \<and> route_lookup (nb_router nb) addr_Lighting = Some kPortLighting
    \<and> route_lookup (nb_router nb) addr_Security = Some kPortSecurity
    \<and> same_setup northbridge_setup nb"
proof -
  have p: "pinned nb" "same_setup northbridge_setup nb" using firmware_northbridge_inv [OF assms] by simp_all
  then have "binding_lookup nb = binding_lookup northbridge_setup"
    by (simp add: same_setup_def binding_lookup_def [abs_def])
  with p northbridge_setup_eq(3-6) show ?thesis by (simp add: pinned_def)
qed

theorem northbridge_routes_pinned_witness:
  "case nb_service bench_transport 40 northbridge_setup (quiet_world\<lparr>sw_rx := (\<lambda>t. if t = 2
      then frame_of (default_packet\<lparr>pkt_source := addr_Lighting\<rparr>) else [])\<rparr>) of
     None \<Rightarrow> False | Some (nb, w) \<Rightarrow> route_lookup (nb_router nb) addr_Lighting = Some 1"
proof -
  let ?w = "quiet_world\<lparr>sw_rx := (\<lambda>t. if t = 2 then frame_of (default_packet\<lparr>pkt_source := addr_Lighting\<rparr>) else [])\<rparr>"
  have "attached_count northbridge_setup \<le> 5" by (simp add: attached_count_def northbridge_setup_eq)
  from nb_service_total [OF northbridge_setup_inv this, of bench_transport 40 ?w]
  obtain nb w where s: "nb_service bench_transport 40 northbridge_setup ?w = Some (nb, w)" by blast
  from northbridge_routes_pinned [OF nb_round [OF nb_boot s]] show ?thesis by (simp add: s)
qed

text \<open>Frames are carried. A burst of frames from one bound node to another that arrives within one
  read of the first node's port, the other ports being silent, comes out of the second node's port
  byte for byte and in order; nothing else is written, every frame is counted as forwarded, none as
  dropped, and the parser of the port is ready for the next
  burst while those of the other ports are untouched.\<close>

theorem northbridge_carries:
  assumes "firmware_northbridge ops nb" and "binding_lookup nb a = Some port" and "binding_lookup nb d = Some q" and "q \<noteq> port"
    and "\<And>p. p \<in> set ps \<Longrightarrow> sendable p \<and> pkt_source p = a \<and> pkt_destination p = d"
    and "d \<noteq> addr_Northbridge" and "d \<noteq> addr_Broadcast"
    and "nb_transports nb ! unat port = Some t" and "unat port < kMaxRouterPorts"
    and "sp_length (nb_parsers nb ! unat port) = 0" and "only_port nb w port"
    and "sw_rx w t = concat (map frame_of ps)" and "length (sw_rx w t) \<le> 64"
  shows "\<exists>nb'. nb_service bench_transport now nb w = Some (nb', w\<lparr>sw_rx := (sw_rx w)(t := []),
      sw_tx := sw_tx w @ map (\<lambda>p. (the (nb_transports nb ! unat q), frame_of p)) ps\<rparr>)
    \<and> sp_length (nb_parsers nb' ! unat port) = 0
    \<and> (\<forall>j. j \<noteq> unat port \<longrightarrow> nb_parsers nb' ! j = nb_parsers nb ! j)
    \<and> nb_forwarded_packets nb' = nb_forwarded_packets nb + of_nat (length ps)
    \<and> nb_dropped_packets nb' = nb_dropped_packets nb"
  using firmware_burst_carried [OF assms(1-4) _ assms(6,7)] assms(5,8-13) by blast

theorem northbridge_carries_witness:
  "\<exists>nb. nb_service bench_transport 40 northbridge_setup (quiet_world\<lparr>sw_rx := (\<lambda>t. if t = 0
      then frame_of to_lighting @ frame_of to_lighting else [])\<rparr>) = Some (nb,
     quiet_world\<lparr>sw_tx := [(1, frame_of to_lighting), (1, frame_of to_lighting)]\<rparr>)"
proof -
  let ?w = "quiet_world\<lparr>sw_rx := (\<lambda>t. if t = 0 then frame_of to_lighting @ frame_of to_lighting else [])\<rparr>"
  have p: "sendable to_lighting" "pkt_source to_lighting = addr_MainComputer" "pkt_destination to_lighting = addr_Lighting"
    "pkt_length to_lighting = 0" by (simp_all add: to_lighting_def sendable_def)
  have l: "length (frame_of to_lighting) = 12" using length_frame_of [OF p(1)] by (simp add: encoded_size_def p(4))
  have s: "nb_parsers northbridge_setup ! unat kPortPi = stream_parser_init"
    by (simp add: northbridge_setup_def Let_def) code_simp
  have o: "only_port northbridge_setup ?w kPortPi"
    by (auto simp: only_port_def northbridge_setup_eq(1) less_Suc_eq numeral_nat nth_Cons')
  have "\<exists>nb. nb_service bench_transport 40 northbridge_setup ?w = Some (nb, ?w\<lparr>sw_rx := (sw_rx ?w)(0 := []),
      sw_tx := sw_tx ?w @ map (\<lambda>p. (the (nb_transports northbridge_setup ! unat (1 :: u8)), frame_of p)) [to_lighting, to_lighting]\<rparr>)"
    using northbridge_carries [OF nb_boot northbridge_setup_eq(3,5), of "[to_lighting, to_lighting]" 0 ?w 40] p l s o
    by (auto simp: northbridge_setup_eq(1) stream_parser_init_def)
  moreover have "?w\<lparr>sw_rx := (sw_rx ?w)(0 := []), sw_tx := x\<rparr> = quiet_world\<lparr>sw_tx := x\<rparr>" for x
    by (simp add: quiet_world_def fun_eq_iff)
  ultimately show ?thesis by (simp add: northbridge_setup_eq(1) del: fun_upd_apply)
qed

end
