(* ===== verification/SystemComposition.thy ===== *)
theory SystemComposition
  imports MainProperties NorthbridgeCarry
begin

text \<open>
  The system end to end: a console command of the main computer travels through the northbridge to
  the lighting controller, is executed there, and the answer travels back to the console. Every
  device has a serial world of its own; a wire carries what one of them wrote to what another reads.
\<close>

section \<open>Wires\<close>

text \<open>The bytes written to a transport between two worlds.\<close>

definition wire :: "nat \<Rightarrow> serial_world \<Rightarrow> serial_world \<Rightarrow> u8 list" where
  "wire t w w1 = concat (map snd (filter (\<lambda>x. fst x = t) (drop (length (sw_tx w)) (sw_tx w1))))"

lemma wire_append: "sw_tx w1 = sw_tx w @ xs \<Longrightarrow> wire t w w1 = concat (map snd (filter (\<lambda>x. fst x = t) xs))"
  by (simp add: wire_def)

section \<open>The main computer asks\<close>

fun lamp_command :: "lighting_output \<Rightarrow> bool \<Rightarrow> string" where
  "lamp_command LeftIndicator b = (if b then ''left on'' else ''left off'')"
| "lamp_command RightIndicator b = (if b then ''right on'' else ''right off'')"
| "lamp_command BrakeBright b = (if b then ''brake on'' else ''brake off'')"
| "lamp_command HighBeam b = (if b then ''high on'' else ''high off'')"

definition set_output_request :: "lighting_output \<Rightarrow> bool \<Rightarrow> packet" where
  "set_output_request o1 b = set_payload 1 (if b then 1 else 0) (set_payload 0 (output_code o1)
     (default_packet\<lparr>pkt_destination := addr_Lighting, pkt_type := msg_SetOutput, pkt_length := 2\<rparr>))"

lemma set_output_request_sel [simp]:
  "wf_packet (set_output_request o1 b)" "pkt_length (set_output_request o1 b) = 2"
  "pkt_destination (set_output_request o1 b) = addr_Lighting" "pkt_type (set_output_request o1 b) = msg_SetOutput"
  "pkt_payload (set_output_request o1 b) ! 0 = output_code o1"
  "pkt_payload (set_output_request o1 b) ! Suc 0 = (if b then 1 else 0)"
  by (simp_all add: set_output_request_def)

lemma handle_lamp_command:
  "handle_command ops (lamp_command o1 b) now mc nd w =
    (case lighting_set_output ops o1 b now True nd w of (_, nd1, w1) \<Rightarrow> (True, [], mc, nd1, w1))"
  by (cases o1; cases b)
    (simp_all add: handle_command_def run_command_def network_command_def set_left_indicator_def
      set_right_indicator_def set_brake_bright_def set_high_beam_def split: prod.split)

lemma lamp_command_sent:
  assumes "node_quiet nd" and "\<not> ptx_active (nd_pending nd)"
    and "handle_command bench_transport (lamp_command o1 b) now mc nd w = (running, out, mc1, nd1, w1)"
  shows "running \<and> mc1 = mc \<and> w1 = w\<lparr>sw_tx := sw_tx w @
      [(nd_transport nd, frame_of (stamped nd (set_output_request o1 b) True))]\<rparr>"
    and "node_quiet nd1 \<and> nd_address nd1 = nd_address nd \<and> nd_transport nd1 = nd_transport nd"
proof -
  let ?p = "set_output_request o1 b"
  obtain ok nd2 w2 where s: "lighting_set_output bench_transport o1 b now True nd w = (ok, nd2, w2)"
    by (metis prod_cases3)
  then have send: "node_send bench_transport nd ?p now True w = (ok, nd2, w2)"
    by (simp add: lighting_set_output_def set_output_request_def)
  have r: "running" "mc1 = mc" "nd1 = nd2" "w1 = w2" using assms(3) by (simp_all add: handle_lamp_command s)
  have "nd2 = (bump_sequence nd ?p)\<lparr>nd_pending := \<lparr>ptx_active = True, ptx_packet = stamped nd ?p True,
       ptx_sent_at_ms = now, ptx_retries = 0\<rparr>\<rparr>"
    and w2: "w2 = w\<lparr>sw_tx := sw_tx w @ [(nd_transport nd, frame_of (stamped nd ?p True))]\<rparr>"
    using send assms(2) by (auto simp: node_send_eq transmit_def)
  then have k: "nd_parser nd2 = nd_parser nd" by simp
  from talk_keeps [OF talk_send1 [OF _ send]] assms(1) k
  show "node_quiet nd1 \<and> nd_address nd1 = nd_address nd \<and> nd_transport nd1 = nd_transport nd"
    by (simp add: r node_quiet_def)
  from r w2 show "running \<and> mc1 = mc \<and> w1 = w\<lparr>sw_tx := sw_tx w @
      [(nd_transport nd, frame_of (stamped nd (set_output_request o1 b) True))]\<rparr>" by simp
qed

section \<open>The lighting controller executes\<close>

lemma lighting_service_executes:
  assumes hw: "lighting_hardware (le_hw env)" and net: "le_net env = bench_transport"
    and l: "node_quiet l" "nd_address l = addr_Lighting" "\<not> nd_auto_ack l" "\<not> ptx_active (nd_pending l)"
    and p: "p = stamped nd (set_output_request o1 b) True" and nd: "nd_address nd = addr_MainComputer"
    and rx: "sw_rx u (nd_transport l) = frame_of p"
    and h: "lh_write_output (le_hw env) o1 b (ls_hardware s) = (True, h)"
    and s1: "s1 = set_commanded o1 b (s\<lparr>ls_hardware := h\<rparr>)"
  shows "\<exists>l0 l1. lighting_controller_service env now s l u = Some (s1, l1,
      u\<lparr>sw_rx := (sw_rx u)(nd_transport l := []), sw_tx := sw_tx u @
       [(nd_transport l, frame_of (ack_packet addr_Lighting addr_MainComputer (pkt_sequence p) False)),
        (nd_transport l, frame_of (stamped l0 (lighting_state_packet (actual_state env s1) addr_MainComputer) False))]\<rparr>)
    \<and> nd_address l0 = addr_Lighting"
proof -
  have ps: "sendable p" "pkt_destination p = nd_address l" "pkt_type p = msg_SetOutput" "pkt_length p = 2"
    "pkt_source p = addr_MainComputer"
    using p by (simp_all add: sendable_def l(2) nd)
  have rp: "pkt_type (received p) = msg_SetOutput" "pkt_length (received p) = 2"
    "pkt_payload (received p) ! 0 = output_code o1" "pkt_payload (received p) ! 1 = (if b then 1 else 0)"
    using ps received_payload_nth [OF ps(1)] by (simp_all add: p)
  have body: "lighting_body env now (received p) s n v =
      (s1, bump_sequence n (lighting_state_packet (actual_state env s1) addr_MainComputer),
       v\<lparr>sw_tx := sw_tx v @
         [(nd_transport n, frame_of (ack_packet (nd_address n) addr_MainComputer (pkt_sequence p) False)),
          (nd_transport n, frame_of (stamped n (lighting_state_packet (actual_state env s1) addr_MainComputer) False))]\<rparr>)"
    for n v
    using set_output_accepted(1) [OF hw net rp h s1, of now n v] rp(1) ps(5)
    by (simp add: lighting_body_def lighting_handle_system_def)
  have talk: "node_talk bench_transport (n, v) (n', v')"
    if "lighting_body env now (received p) x n v = (x', n', v')" for x n v x' n' v'
    using lighting_body_talk [OF that] net by simp
  have len: "length (frame_of p) \<le> 64" using length_frame_of [OF ps(1)] by (simp add: encoded_size_def ps(4))
  have "\<exists>l0. node_drain bench_transport now (lighting_body env now) s l u =
      Some (lighting_body env now (received p) s l0 (world_taken l p u))
    \<and> nd_address l0 = nd_address l \<and> nd_transport l0 = nd_transport l \<and> nd_pending l0 = nd_pending l"
    using node_drain_burst [where body = "lighting_body env now" and s = s and now = now and ks = "[]",
        OF l(1) _ ps(1,2)] ps(3) rx len talk
    by (fastforce simp: controlled_def)
  then obtain l0 where d: "node_drain bench_transport now (lighting_body env now) s l u =
      Some (lighting_body env now (received p) s l0 (world_taken l p u))"
    and l0: "nd_address l0 = addr_Lighting" "nd_transport l0 = nd_transport l" "nd_pending l0 = nd_pending l"
    using l(2) by auto
  have w: "world_taken l p u = u\<lparr>sw_rx := (sw_rx u)(nd_transport l := [])\<rparr>"
    using l(3) by (simp add: world_taken_def Let_def)
  let ?q = "lighting_state_packet (actual_state env s1) addr_MainComputer"
  have "nd_pending (bump_sequence l0 ?q) = nd_pending l" by (simp add: l0(3))
  then have "node_service bench_transport (bump_sequence l0 ?q) now v = (bump_sequence l0 ?q, v)" for v
    using l(4) by (simp add: node_service_def)
  then show ?thesis
    by (intro exI [of _ l0] exI [of _ "bump_sequence l0 ?q"])
      (simp add: lighting_controller_service_def net d body w l0)
qed

section \<open>The main computer shows\<close>

lemma print_status_lighting: "sublist (lighting_line (ms_lighting s)) (print_status s)"
proof -
  have "sublist y (x @ y @ z)" for x y z :: string by blast
  from this [of "lighting_line (ms_lighting s)" _ "security_line (ms_security s)"] show ?thesis
    unfolding print_status_def by (metis append.assoc)
qed

lemma status_shown:
  assumes "node_quiet nd" and nd: "nd_address nd = addr_MainComputer" and l: "nd_address l = addr_Lighting"
    and rx: "sw_rx w (nd_transport nd) =
      frame_of (ack_packet addr_Lighting addr_MainComputer n False) @
      frame_of (stamped l (lighting_state_packet st addr_MainComputer) False)"
  shows "\<exists>out mc' nd' w'. main_pass bench_transport tick (Console_Line ''status'' t) mc nd w = Some (True, out, mc', nd', w')
    \<and> sublist (lighting_line (view_of_lighting st tick)) out"
proof -
  let ?k = "ack_packet addr_Lighting addr_MainComputer n False"
  let ?p = "stamped l (lighting_state_packet st addr_MainComputer) False"
  have p: "sendable ?p" "pkt_destination ?p = nd_address nd" "pkt_type ?p \<noteq> msg_Ack" "pkt_type ?p \<noteq> msg_Nack"
    by (simp_all add: sendable_def nd)
  have k: "\<forall>k\<in>set [?k]. control_for nd k" by (simp add: nd control_for_def)
  have rx': "sw_rx w (nd_transport nd) = concat (map frame_of ([?k] @ [?p]))" using rx by simp
  have "length (frame_of ?k) = 12" "length (frame_of ?p) = 20"
    using length_frame_of [of ?k] length_frame_of [OF p(1)] by (simp_all add: encoded_size_def)
  then have len: "length (sw_rx w (nd_transport nd)) \<le> 64" by (simp add: rx)
  have "\<exists>mc' nd' w'. mc_service bench_transport (main_observer bench_transport) tick mc nd w = Some (mc', nd', w')
      \<and> mc_lighting mc' = view_of_lighting st tick"
    by (rule service_shows_burst [OF main_watching.talking_observer_axioms assms(1) k p rx' len])
      (simp_all add: dispatch_lighting_state [OF l refl])
  then obtain mc1 nd1 w1 where s: "mc_service bench_transport (main_observer bench_transport) tick mc nd w = Some (mc1, nd1, w1)"
    and v: "mc_lighting mc1 = view_of_lighting st tick" by blast
  obtain x nd2 w2 where t: "test_service bench_transport (mc_supervisor mc1) tick (main_test mc1) nd1 w1 = (x, nd2, w2)"
    by (metis prod_cases3)
  have "ms_lighting (mc_snapshot (put_test x mc1) nd2) = view_of_lighting st tick"
    by (simp add: mc_snapshot_def put_test_def v)
  with print_status_lighting [of "mc_snapshot (put_test x mc1) nd2"]
  have "sublist (lighting_line (view_of_lighting st tick)) (print_status (mc_snapshot (put_test x mc1) nd2) @ ''> '')"
    by (auto simp: sublist_def) (metis append.assoc)
  then show ?thesis by (simp add: main_pass_def s t Let_def handle_command_def run_command_def)
qed

section \<open>Round trip\<close>

lemma setup_transports:
  assumes "same_setup northbridge_setup nb"
  shows "nb_transports nb ! 0 = Some 0" "nb_transports nb ! Suc 0 = Some 1"
    "binding_lookup nb addr_MainComputer = Some 0" "binding_lookup nb addr_Lighting = Some 1"
  using assms northbridge_setup_eq by (simp_all add: same_setup_def binding_lookup_def)

lemma command_carried:
  assumes nb: "firmware_northbridge bench_transport nb" and idle: "sp_length (nb_parsers nb ! 0) = 0"
    and p: "sendable p" "pkt_source p = addr_MainComputer" "pkt_destination p = addr_Lighting" "encoded_size p \<le> 64"
    and v: "sw_rx v 0 = frame_of p" "only_port nb v 0"
    and run: "nb_service bench_transport t nb v = Some (nb1, v1)"
  shows "wire 1 v v1 = frame_of p \<and> sp_length (nb_parsers nb1 ! 0) = 0
    \<and> nb_parsers nb1 ! Suc 0 = nb_parsers nb ! Suc 0 \<and> firmware_northbridge bench_transport nb1"
proof -
  have s: "same_setup northbridge_setup nb" using firmware_northbridge_inv [OF nb] by simp
  from firmware_burst_carried [OF nb setup_transports(3,4) [OF s], of "[p]" 0 v t] idle p v setup_transports [OF s] length_frame_of [OF p(1)]
  obtain nb' where "nb_service bench_transport t nb v = Some (nb', v\<lparr>sw_rx := (sw_rx v)(0 := []),
      sw_tx := sw_tx v @ [(1, frame_of p)]\<rparr>)" and k: "sp_length (nb_parsers nb' ! 0) = 0"
      "nb_parsers nb' ! Suc 0 = nb_parsers nb ! Suc 0"
    by auto
  with run have "nb1 = nb'" "sw_tx v1 = sw_tx v @ [(1, frame_of p)]" by auto
  with k nb_round [OF nb run] show ?thesis by (simp add: wire_append)
qed

lemma answer_carried:
  assumes nb: "firmware_northbridge bench_transport nb" and idle: "sp_length (nb_parsers nb ! Suc 0) = 0"
    and ps: "\<And>p. p \<in> set ps \<Longrightarrow> sendable p \<and> pkt_source p = addr_Lighting \<and> pkt_destination p = addr_MainComputer"
    and v: "sw_rx v 1 = concat (map frame_of ps)" "length (sw_rx v 1) \<le> 64" "only_port nb v 1"
    and run: "nb_service bench_transport t nb v = Some (nb1, v1)"
  shows "wire 0 v v1 = concat (map frame_of ps)"
proof -
  have s: "same_setup northbridge_setup nb" using firmware_northbridge_inv [OF nb] by simp
  from firmware_burst_carried [OF nb setup_transports(4,3) [OF s], of ps 1 v t] idle ps v setup_transports [OF s]
  obtain nb' where "nb_service bench_transport t nb v = Some (nb', v\<lparr>sw_rx := (sw_rx v)(1 := []),
      sw_tx := sw_tx v @ map (\<lambda>p. (0, frame_of p)) ps\<rparr>)"
    by auto
  with run have "sw_tx v1 = sw_tx v @ map (\<lambda>p. (0, frame_of p)) ps" by auto
  from wire_append [OF this] show ?thesis by (simp add: filter_map comp_def)
qed

text \<open>C2: A typed lamp command is executed and shown. The command is typed at the main computer while no
  acknowledgement is outstanding; the bytes its node writes reach the northbridge, in any state its
  firmware can be in between two frames; what that writes reaches the lighting controller, whose
  hardware takes the value; its answer travels back. Then the controller has the command, and the
  status page printed by the main computer's next pass shows the commanded lamp as commanded and
  every other lamp as the hardware has it.\<close>

theorem console_switches_lamp:
  assumes "lighting_hardware (le_hw env)" and "le_net env = bench_transport"
    and "node_quiet nd" and "nd_address nd = addr_MainComputer" and "\<not> ptx_active (nd_pending nd)"
    and "firmware_northbridge bench_transport nb"
    and "sp_length (nb_parsers nb ! 0) = 0" and "sp_length (nb_parsers nb ! Suc 0) = 0"
    and "node_quiet l" and "nd_address l = addr_Lighting" and "\<not> nd_auto_ack l" and "\<not> ptx_active (nd_pending l)"
    and "lh_write_output (le_hw env) o1 b (ls_hardware s) = (True, h)"
    and "handle_command bench_transport (lamp_command o1 b) t1 mc nd w = (running, out1, mc1, nd1, w1)"
    and "sw_rx v 0 = wire (nd_transport nd) w w1" and "only_port nb v 0"
    and "nb_service bench_transport t2 nb v = Some (nb1, v1)"
    and "sw_rx u (nd_transport l) = wire 1 v v1"
    and "lighting_controller_service env t3 s l u = Some (s1, l1, u1)"
    and "sw_rx v2 1 = wire (nd_transport l) u u1" and "only_port nb1 v2 1"
    and "nb_service bench_transport t4 nb1 v2 = Some (nb2, v3)"
    and "sw_rx x (nd_transport nd1) = wire 0 v2 v3"
  shows "state_value (ls_commanded s1) o1 = b
    \<and> (\<exists>out mc2 nd2 y st. main_pass bench_transport t5 (Console_Line ''status'' t6) mc1 nd1 x = Some (True, out, mc2, nd2, y)
      \<and> sublist (lighting_line (view_of_lighting st t5)) out
      \<and> (\<forall>o2. state_value st o2 = (if o2 = o1 then b else lh_read_output (le_hw env) o2 (ls_hardware s))))"
proof -
  let ?p = "stamped nd (set_output_request o1 b) True"
  let ?s1 = "set_commanded o1 b (s\<lparr>ls_hardware := h\<rparr>)"
  let ?k = "ack_packet addr_Lighting addr_MainComputer (pkt_sequence ?p) False"
  note sent = lamp_command_sent [OF assms(3,5,14)]
  then have w: "wire (nd_transport nd) w w1 = frame_of ?p" and nd1: "node_quiet nd1" "nd_address nd1 = addr_MainComputer"
    using assms(4) by (auto simp: wire_def)
  have p: "sendable ?p" "pkt_source ?p = addr_MainComputer" "pkt_destination ?p = addr_Lighting" "encoded_size ?p \<le> 64"
    using assms(4) by (simp_all add: sendable_def encoded_size_def)
  from assms(15) w have v: "sw_rx v 0 = frame_of ?p" by simp
  from command_carried [OF assms(6,7) p v assms(16,17)] assms(8)
  have c: "wire 1 v v1 = frame_of ?p" "sp_length (nb_parsers nb1 ! Suc 0) = 0" "firmware_northbridge bench_transport nb1"
    by simp_all
  have u: "sw_rx u (nd_transport l) = frame_of ?p" using assms(18) c(1) by simp
  from lighting_service_executes [OF assms(1,2,9-12) refl assms(4) u assms(13) refl, of t3]
  obtain l0 where s1: "s1 = ?s1" and l0: "nd_address l0 = addr_Lighting"
    and u1: "sw_tx u1 = sw_tx u @ [(nd_transport l, frame_of ?k),
      (nd_transport l, frame_of (stamped l0 (lighting_state_packet (actual_state env ?s1) addr_MainComputer) False))]"
    using assms(19) by auto
  let ?q = "stamped l0 (lighting_state_packet (actual_state env ?s1) addr_MainComputer) False"
  have q: "sendable ?k" "sendable ?q" by (simp, simp add: sendable_def)
  have sizes: "length (frame_of ?k) = 12" "length (frame_of ?q) = 20"
    using length_frame_of [OF q(1)] length_frame_of [OF q(2)] by (simp_all add: encoded_size_def)
  have v2: "sw_rx v2 1 = concat (map frame_of [?k, ?q])"
    using assms(20) wire_append [OF u1] by simp
  have "wire 0 v2 v3 = concat (map frame_of [?k, ?q])"
    by (rule answer_carried [OF c(3,2) _ v2 _ assms(21,22)]) (use q sizes l0 v2 in auto)
  then have x: "sw_rx x (nd_transport nd1) = frame_of ?k @ frame_of ?q" using assms(23) by simp
  have vals: "state_value (actual_state env ?s1) o2 =
      (if o2 = o1 then b else lh_read_output (le_hw env) o2 (ls_hardware s))" for o2
    using lighting_hardware.read_after_write [OF assms(1), of o2 o1 b "ls_hardware s"] assms(13) by simp
  from status_shown [OF nd1 l0 x, of t5 t6 mc1] obtain out mc2 nd2 y where
    "main_pass bench_transport t5 (Console_Line ''status'' t6) mc1 nd1 x = Some (True, out, mc2, nd2, y)
      \<and> sublist (lighting_line (view_of_lighting (actual_state env ?s1) t5)) out" by blast
  with vals have "main_pass bench_transport t5 (Console_Line ''status'' t6) mc1 nd1 x = Some (True, out, mc2, nd2, y)
      \<and> sublist (lighting_line (view_of_lighting (actual_state env ?s1) t5)) out
      \<and> (\<forall>o2. state_value (actual_state env ?s1) o2 =
            (if o2 = o1 then b else lh_read_output (le_hw env) o2 (ls_hardware s)))" by blast
  moreover have "state_value (ls_commanded s1) o1 = b" by (simp add: s1)
  ultimately show ?thesis by blast
qed

text \<open>A serial world in which only one transport has bytes to read.\<close>

abbreviation hearing :: "nat \<Rightarrow> u8 list \<Rightarrow> serial_world" where
  "hearing t bs \<equiv> quiet_world\<lparr>sw_rx := (\<lambda>i. if i = t then bs else [])\<rparr>"

lemma only_port_hearing:
  assumes "same_setup northbridge_setup nb" and "unat port < 3"
  shows "only_port nb (hearing (unat port) bs) port"
proof -
  have t: "nb_transports nb = [Some 0, Some 1, Some 2, None, None, None, None, None]"
    using assms(1) by (simp add: same_setup_def northbridge_setup_eq(1))
  from assms(2) have "unat port = 0 \<or> unat port = 1 \<or> unat port = 2" by auto
  then show ?thesis by (auto simp: only_port_def t less_Suc_eq numeral_nat nth_Cons')
qed

lemma northbridge_setup_ready:
  "sp_length (nb_parsers northbridge_setup ! 0) = 0" "sp_length (nb_parsers northbridge_setup ! Suc 0) = 0"
  by (simp_all add: northbridge_setup_def Let_def) code_simp+

lemma northbridge_serves:
  assumes "firmware_northbridge ops nb"
  shows "\<exists>nb' w'. nb_service ops now nb w = Some (nb', w')"
proof -
  have i: "nb_inv nb" "same_setup northbridge_setup nb" using firmware_northbridge_inv [OF assms] by simp_all
  then have "attached_count nb \<le> 5"
    using same_setup_cong(2) [of northbridge_setup nb] by (simp add: attached_count_def northbridge_setup_eq)
  from nb_service_total [OF i(1) this, of ops now w] show ?thesis by blast
qed

text \<open>A main computer that has just been switched on, and a lighting controller with its firmware.\<close>

definition demo_main :: main_computer where
  "demo_main = motorcycle_computer_init \<lparr>mw_test = self_test_init, mw_log = diagnostic_logger_init 250\<rparr>"

abbreviation demo_light_node :: bike_node where
  "demo_light_node \<equiv> node_set_auto_ack False (node_init addr_Lighting 1)"

theorem console_switches_lamp_witness:
  "\<exists>mc1 nd1 w1 v nb1 v1 u s1 l1 u1 v2 nb2 v3 out mc2 nd2 y st.
    handle_command bench_transport ''high on'' 5 demo_main (node_init addr_MainComputer 0) quiet_world
      = (True, [], mc1, nd1, w1)
    \<and> v = hearing 0 (wire 0 quiet_world w1)
    \<and> nb_service bench_transport 6 northbridge_setup v = Some (nb1, v1)
    \<and> u = hearing 1 (wire 1 v v1)
    \<and> lighting_controller_service demo_lights 7 (lu_server demo_unit) demo_light_node u = Some (s1, l1, u1)
    \<and> v2 = hearing 1 (wire 1 u u1)
    \<and> nb_service bench_transport 8 nb1 v2 = Some (nb2, v3)
    \<and> state_value (ls_commanded s1) HighBeam
    \<and> main_pass bench_transport 9 (Console_Line ''status'' 9) mc1 nd1 (hearing 0 (wire 0 v2 v3)) = Some (True, out, mc2, nd2, y)
    \<and> sublist (lighting_line (view_of_lighting st 9)) out \<and> state_value st HighBeam"
proof -
  have c: "lamp_command HighBeam True = ''high on''" by simp
  obtain running out1 mc1 nd1 w1 where 1: "handle_command bench_transport (lamp_command HighBeam True) 5 demo_main
      (node_init addr_MainComputer 0) quiet_world = (running, out1, mc1, nd1, w1)" by (metis prod_cases5)
  have nd: "node_quiet (node_init addr_MainComputer 0)" "\<not> ptx_active (nd_pending (node_init addr_MainComputer 0))"
    "node_quiet demo_light_node" "\<not> ptx_active (nd_pending demo_light_node)" "\<not> nd_auto_ack demo_light_node"
    using node_inv_setters(3) [OF node_inv_init, of False addr_Lighting 1] node_inv_init
    by (simp_all add: node_quiet_def) (simp_all add: node_init_def node_set_auto_ack_def stream_parser_init_def)
  have t: "nd_transport nd1 = 0" using lamp_command_sent(2) [OF nd(1,2) 1] by (simp add: node_init_def)
  have run: "running" "out1 = []" using 1 unfolding handle_lamp_command by (auto split: prod.splits)
  let ?v = "hearing 0 (wire 0 quiet_world w1)"
  obtain nb1 v1 where 2: "nb_service bench_transport 6 northbridge_setup ?v = Some (nb1, v1)"
    using northbridge_serves [OF nb_boot] by metis
  let ?u = "hearing 1 (wire 1 ?v v1)"
  obtain s1 l1 u1 where 3: "lighting_controller_service demo_lights 7 (lu_server demo_unit) demo_light_node ?u = Some (s1, l1, u1)"
    using lighting_controller_ends [of demo_lights] bench.finite_transport_axioms by (metis demo_lights_net(1) prod_cases3)
  let ?v2 = "hearing 1 (wire 1 ?u u1)"
  obtain nb2 v3 where 4: "nb_service bench_transport 8 nb1 ?v2 = Some (nb2, v3)"
    using northbridge_serves [OF nb_round [OF nb_boot 2]] by metis
  have same: "same_setup northbridge_setup nb1" "same_setup northbridge_setup northbridge_setup"
    using firmware_northbridge_inv [OF nb_round [OF nb_boot 2]] by (simp_all add: same_setup_def)
  have only: "only_port northbridge_setup ?v 0" "only_port nb1 ?v2 1"
    using only_port_hearing [OF same(2), of 0] only_port_hearing [OF same(1), of 1] by simp_all
  have hw: "lighting_hardware (le_hw demo_lights)" by (simp add: board_lamps.lighting_hardware_axioms)
  obtain h where h: "lh_write_output (le_hw demo_lights) HighBeam True (ls_hardware (lu_server demo_unit)) = (True, h)" by simp
  have r: "state_value (ls_commanded s1) HighBeam = True
    \<and> (\<exists>out mc2 nd2 y st. main_pass bench_transport 9 (Console_Line ''status'' 9) mc1 nd1
          (hearing 0 (wire 0 ?v2 v3)) = Some (True, out, mc2, nd2, y)
      \<and> sublist (lighting_line (view_of_lighting st 9)) out
      \<and> (\<forall>o2. state_value st o2 = (if o2 = HighBeam then True
            else lh_read_output (le_hw demo_lights) o2 (ls_hardware (lu_server demo_unit)))))"
    by (rule console_switches_lamp [where l = demo_light_node and u = ?u and v = ?v and ?v2.0 = ?v2,
        OF hw demo_lights_net(1) nd(1) _ nd(2) nb_boot northbridge_setup_ready nd(3) _ nd(5,4) h 1 _ only(1) 2 _ 3 _ only(2) 4])
      (simp_all add: t node_init_def node_set_auto_ack_def)
  then obtain out mc2 nd2 y st where
    5: "main_pass bench_transport 9 (Console_Line ''status'' 9) mc1 nd1 (hearing 0 (wire 0 ?v2 v3)) = Some (True, out, mc2, nd2, y)"
    "sublist (lighting_line (view_of_lighting st 9)) out" "state_value st HighBeam" by metis
  have 6: "state_value (ls_commanded s1) HighBeam" using r by blast
  have "handle_command bench_transport ''high on'' 5 demo_main (node_init addr_MainComputer 0) quiet_world
      = (True, [], mc1, nd1, w1)" using 1 run unfolding c by (simp only: simp_thms)
  with 2 3 4 5 6 show ?thesis by blast
qed

end
