(* ===== verification/NodeFrames.thy ===== *)
theory NodeFrames
  imports NodeBurst
begin

text \<open>
  What a node puts on the wire: whole frames of well-formed packets that carry its own address as
  their source, whatever the application sends, receives or repeats. When the application sends only
  packets of some class, so does the node: it adds acknowledgements and repetitions, no more.
\<close>

section \<open>Well-formed output\<close>

definition speaks_in :: "(packet \<Rightarrow> bool) \<Rightarrow> node_address \<Rightarrow> nat \<Rightarrow> serial_world \<Rightarrow> serial_world \<Rightarrow> bool" where
  "speaks_in Q a t w w' \<longleftrightarrow> (\<exists>ps. (\<forall>p\<in>set ps. sendable p \<and> pkt_source p = a \<and> Q p)
     \<and> sw_tx w' = sw_tx w @ map (\<lambda>p. (t, frame_of p)) ps)"

abbreviation speaks :: "node_address \<Rightarrow> nat \<Rightarrow> serial_world \<Rightarrow> serial_world \<Rightarrow> bool" where
  "speaks \<equiv> speaks_in (\<lambda>_. True)"

lemma speaks_silent [intro]: "sw_tx w' = sw_tx w \<Longrightarrow> speaks_in Q a t w w'"
  by (auto simp: speaks_in_def intro: exI [of _ "[]"])

lemma speaks_trans [trans]:
  assumes "speaks_in Q a t w1 w2" and "speaks_in Q a t w2 w3"
  shows "speaks_in Q a t w1 w3"
proof -
  from assms obtain ps qs where "\<forall>p\<in>set ps. sendable p \<and> pkt_source p = a \<and> Q p"
    "\<forall>p\<in>set qs. sendable p \<and> pkt_source p = a \<and> Q p"
    "sw_tx w3 = sw_tx w1 @ map (\<lambda>p. (t, frame_of p)) (ps @ qs)"
    by (auto simp: speaks_in_def)
  then show ?thesis unfolding speaks_in_def by (intro exI [of _ "ps @ qs"]) auto
qed

lemma speaks_transmit:
  assumes "transmit bench_transport t p w = (ok, w')" and "wf_packet p" and "pkt_source p = a" and "Q p"
  shows "speaks_in Q a t w w'"
proof (cases "unat (pkt_length p) > kMaxPayloadSize")
  case False
  then have "sendable p" using assms(2) by (simp add: sendable_def)
  with assms False show ?thesis
    unfolding speaks_in_def by (intro exI [of _ "[p]"]) (auto simp: transmit_def)
qed (use assms(1) in \<open>auto simp: transmit_def\<close>)

text \<open>What a node that waits for an acknowledgement would repeat is in the class, too.\<close>

definition pending_in :: "(packet \<Rightarrow> bool) \<Rightarrow> bike_node \<Rightarrow> bool" where
  "pending_in Q nd \<longleftrightarrow> (ptx_active (nd_pending nd) \<longrightarrow> Q (ptx_packet (nd_pending nd)))"

definition speaking :: "(packet \<Rightarrow> bool) \<Rightarrow> bike_node \<Rightarrow> bool" where
  "speaking Q nd \<longleftrightarrow> node_inv nd \<and> pending_in Q nd"

text \<open>A use of a node that has kept all this.\<close>

definition voiced :: "(packet \<Rightarrow> bool) \<Rightarrow> bike_node \<times> serial_world \<Rightarrow> bike_node \<times> serial_world \<Rightarrow> bool" where
  "voiced Q a b \<longleftrightarrow> speaks_in Q (nd_address (fst a)) (nd_transport (fst a)) (snd a) (snd b)
     \<and> speaking Q (fst b) \<and> nd_address (fst b) = nd_address (fst a) \<and> nd_transport (fst b) = nd_transport (fst a)"

lemma voiced_refl: "speaking Q nd \<Longrightarrow> voiced Q (nd, w) (nd, w)"
  by (auto simp: voiced_def)

lemma voiced_trans: "voiced Q b c \<Longrightarrow> voiced Q a b \<Longrightarrow> voiced Q a c"
  by (auto simp: voiced_def intro: speaks_trans)

lemma voiced_speaking: "voiced Q a (nd, w) \<Longrightarrow> speaking Q nd"
  by (simp add: voiced_def)

section \<open>Every use of the node\<close>

lemma node_receive_all_transport [simp]:
  "nd_transport (fst (node_receive_all ops nd ps w)) = nd_transport nd"
  by (induction ps arbitrary: nd w) (auto split: prod.splits, metis fst_conv node_receive_sel(2))

lemma node_poll_transport:
  assumes "node_poll ops nd out now w = (ok, p, nd', w')"
  shows "nd_transport nd' = nd_transport nd"
proof -
  have d: "nd_transport n' = nd_transport n" if "node_dequeue_rx n out = (ok, p, n')" for n n'
    using node_dequeue_sel(2) [of n out] that by simp
  have r: "nd_transport n2 = nd_transport nd" if "node_receive_all ops nd ps v = (n2, v2)" for ps v n2 v2
    using node_receive_all_transport [of ops nd ps v] that by simp
  show ?thesis using assms by (auto simp: node_poll_cases node_rx_bytes_feed split: prod.splits if_splits dest!: d r)
qed

text \<open>A class of packets that holds the acknowledgements and everything else that is no security
  command, and does not look at what the node fills in.\<close>

locale packet_class =
  fixes Q :: "packet \<Rightarrow> bool"
  assumes stamped_in: "Q p \<Longrightarrow> Q (stamped nd p r)"
    and calm_in: "calm p \<Longrightarrow> Q p"
begin

lemma send_voiced:
  assumes "node_send bench_transport nd p now r w = (ok, nd', w')" and "wf_packet p" and "Q p" and "speaking Q nd"
  shows "voiced Q (nd, w) (nd', w')"
proof -
  have inv: "node_inv nd'" using node_send_inv' [OF assms(1,2)] assms(4) by (simp add: speaking_def)
  show ?thesis
  proof (cases "r \<and> ptx_active (nd_pending nd)")
    case True
    with assms inv show ?thesis by (auto simp: node_send_eq voiced_def speaking_def pending_in_def)
  next
    case False
    obtain k v where t: "transmit bench_transport (nd_transport nd) (stamped nd p r) w = (k, v)" by fastforce
    have "w' = v" using assms False t by (auto simp: node_send_eq)
    with speaks_transmit [OF t, of "nd_address nd" Q] stamped_in assms(2,3)
    have "speaks_in Q (nd_address nd) (nd_transport nd) w w'" by simp
    moreover have "pending_in Q nd'" "nd_address nd' = nd_address nd" "nd_transport nd' = nd_transport nd"
      using assms False t stamped_in by (auto simp: node_send_eq speaking_def pending_in_def)
    ultimately show ?thesis using inv by (simp add: voiced_def speaking_def)
  qed
qed

lemma ack_in: "Q (ack_packet a d s n)"
  by (rule calm_in) (simp add: calm_def)

lemma ack_speaks:
  "node_send_ack bench_transport nd d q n w = (ok, w') \<Longrightarrow> speaks_in Q (nd_address nd) (nd_transport nd) w w'"
  unfolding speaks_in_def using ack_in
  by (intro exI [of _ "[ack_packet (nd_address nd) d q n]"]) (auto simp: node_send_ack_eq)

lemma sends_voiced:
  "node_sends Q bench_transport a b \<Longrightarrow> speaking Q (fst a) \<Longrightarrow> voiced Q a b"
proof (induction rule: node_sends.induct)
  case (sends_packet a nd w p now r ok nd' w')
  then have "voiced Q a (nd, w)" by simp
  from voiced_trans [OF send_voiced [OF sends_packet(4,2,3) voiced_speaking [OF this]] this] show ?case .
next
  case (sends_ack a nd w d q n ok w')
  with ack_speaks [OF sends_ack(2)] show ?case by (auto simp: voiced_def intro: speaks_trans)
qed (simp add: voiced_refl)

lemma service_voiced:
  assumes "node_service bench_transport nd now w = (nd', w')" and "speaking Q nd"
  shows "voiced Q (nd, w) (nd', w')"
proof -
  let ?p = "ptx_packet (nd_pending nd)"
  have inv: "node_inv nd" "node_inv nd'" "nd_address nd' = nd_address nd"
    using node_service_inv' [OF assms(1)] assms(2) by (simp_all add: speaking_def)
  have k: "nd_transport nd' = nd_transport nd" "pending_in Q nd'"
    using assms by (auto simp: node_service_def Let_def speaking_def pending_in_def split: if_splits prod.splits)
  have "speaks_in Q (nd_address nd) (nd_transport nd) w w'"
  proof (cases "w' = w")
    case False
    obtain ok where "node_write_packet bench_transport nd ?p w = (ok, w')" and "ptx_active (nd_pending nd)"
      using assms(1) False by (auto simp: node_service_def Let_def split: if_splits prod.splits)
    moreover have "sendable ?p" "pkt_source ?p = nd_address nd" "Q ?p"
      using inv(1) assms(2) calculation(2) by (simp_all add: node_inv_def pending_ok_def speaking_def pending_in_def)
    ultimately show ?thesis
      using speaks_transmit [of "nd_transport nd" ?p w ok w'] by (simp add: node_write_packet_eq sendable_def)
  qed auto
  with inv k show ?thesis by (simp add: voiced_def speaking_def)
qed

lemma receive_voiced:
  assumes "node_receive bench_transport nd p w = (nd', w')" and "speaking Q nd" and "sendable p"
  shows "voiced Q (nd, w) (nd', w')"
proof -
  obtain ok v where a: "node_send_ack bench_transport nd (pkt_source p) (pkt_sequence p) False w = (ok, v)" by fastforce
  then have "w' = w \<or> w' = v" using assms(1) by (auto simp: node_receive_def Let_def split: if_splits)
  with ack_speaks [OF a] have "speaks_in Q (nd_address nd) (nd_transport nd) w w'" by auto
  moreover have "pending_in Q nd'"
    using assms(1,2) by (auto simp: node_receive_def Let_def speaking_def pending_in_def
      node_handle_control_packet_def split: if_splits)
  ultimately show ?thesis
    using node_receive_inv [of nd p bench_transport w] node_receive_sel [of bench_transport nd p w] assms
    by (simp add: voiced_def speaking_def)
qed

lemma receive_all_voiced:
  "node_receive_all bench_transport nd ps w = (nd', w') \<Longrightarrow> speaking Q nd \<Longrightarrow> \<forall>p\<in>set ps. sendable p \<Longrightarrow>
    voiced Q (nd, w) (nd', w')"
proof (induction ps arbitrary: nd w)
  case (Cons p ps)
  obtain nd1 w1 where r: "node_receive bench_transport nd p w = (nd1, w1)" by fastforce
  have v: "voiced Q (nd, w) (nd1, w1)" using receive_voiced [OF r] Cons.prems by simp
  have "voiced Q (nd1, w1) (nd', w')" using Cons.IH [of nd1 w1] Cons.prems v by (simp add: r voiced_speaking)
  from voiced_trans [OF this v] show ?case .
qed (simp add: voiced_refl)

lemma poll_voiced:
  assumes "node_poll bench_transport nd out now w = (ok, p, nd', w')" and "speaking Q nd"
  shows "voiced Q (nd, w) (nd', w')"
proof -
  have inv: "node_inv nd'" using node_poll_inv(1) [OF _ assms(1)] assms(2) by (simp add: speaking_def)
  have deq: "pending_in Q n'" if "node_dequeue_rx n out = (ok, p, n')" "pending_in Q n" for n n'
    using node_dequeue_sel(5) [of n out] that by (simp add: pending_in_def)
  show ?thesis
  proof (cases "nd_rx_count nd = 0")
    case True
    let ?v = "w\<lparr>sw_rx := (sw_rx w)(nd_transport nd := drop 64 (sw_rx w (nd_transport nd)))\<rparr>"
    obtain ps pks where f: "parser_feed (nd_parser nd) (take 64 (sw_rx w (nd_transport nd))) = (ps, pks)" by fastforce
    obtain nd2 w2 where r: "node_receive_all bench_transport nd pks ?v = (nd2, w2)" by fastforce
    have d: "w' = w2" "node_dequeue_rx (nd2\<lparr>nd_parser := ps\<rparr>) out = (ok, p, nd')"
      using assms(1) True by (auto simp: node_poll_cases node_rx_bytes_feed f r split: prod.splits)
    have "parser_inv (nd_parser nd)" using assms(2) by (simp add: speaking_def node_inv_def)
    from feed_sendable [OF this] f have "\<forall>p\<in>set pks. sendable p" by fastforce
    from receive_all_voiced [OF r assms(2) this] have v: "voiced Q (nd, ?v) (nd2, w2)" .
    then have "pending_in Q (nd2\<lparr>nd_parser := ps\<rparr>)" by (simp add: voiced_def speaking_def pending_in_def)
    from deq [OF d(2) this] v d(1) inv node_poll_address [OF assms(1)] node_poll_transport [OF assms(1)]
    show ?thesis by (simp add: voiced_def speaking_def speaks_in_def)
  next
    case False
    then have "node_dequeue_rx nd out = (ok, p, nd')" "w' = w"
      using assms(1) by (auto simp: node_poll_cases split: prod.splits)
    with deq [of nd nd'] assms(2) inv node_poll_address [OF assms(1)] node_poll_transport [OF assms(1)]
    show ?thesis by (auto simp: voiced_def speaking_def)
  qed
qed

lemma drain_voiced:
  assumes "node_drain bench_transport now body s nd w = Some (s', nd', w')" and "speaking Q nd"
    and body: "\<And>p s nd w s' nd' w'. body p s nd w = (s', nd', w') \<Longrightarrow> node_sends Q bench_transport (nd, w) (nd', w')"
  shows "voiced Q (nd, w) (nd', w')"
proof (rule node_drain_invariant [OF assms(1), where I = "\<lambda>s n v. voiced Q (nd, w) (n, v)"])
  fix s n v ok p n1 v1
  assume I: "voiced Q (nd, w) (n, v)" and p: "node_poll bench_transport n default_packet now v = (ok, p, n1, v1)"
  have 1: "voiced Q (nd, w) (n1, v1)" by (rule voiced_trans [OF poll_voiced [OF p voiced_speaking [OF I]] I])
  obtain s2 n2 v2 where b: "body p s n1 v1 = (s2, n2, v2)" by (metis prod_cases3)
  from voiced_trans [OF sends_voiced [OF body [OF b]] 1] voiced_speaking [OF 1] 1
  show "if ok then (case body p s n1 v1 of (s2, n2, v2) \<Rightarrow> voiced Q (nd, w) (n2, v2)) else voiced Q (nd, w) (n1, v1)"
    by (simp add: b)
qed (rule voiced_refl [OF assms(2)])

end

interpretation any_packet: packet_class "\<lambda>_. True"
  by unfold_locales simp_all

end
