(* ===== verification/DiagnosticProgram.thy ===== *)
theory DiagnosticProgram
  imports ConsoleText PosixSerial HostConfig
begin

text \<open>
  The program of the diagnostic computer (\<open>raspberry-pi/diagnostic-computer/src/main.cpp\<close>): it polls its
  node, lets the supervisor, the log and the self-test see every packet, prints what passes its
  filter, and executes console commands. Its variables are one record; the clock is read once a pass.
\<close>

section \<open>State\<close>

record diag_state =
  ds_supervisor :: supervisor
  ds_logger :: diagnostic_logger
  ds_test :: self_test
  ds_monitor :: bool
  ds_filter_enabled :: bool
  ds_filter :: node_address

definition diag_request :: "'w transport_ops \<Rightarrow> node_address \<Rightarrow> message_type \<Rightarrow> u32 \<Rightarrow> bike_node \<Rightarrow> 'w
    \<Rightarrow> bool \<times> bike_node \<times> 'w" where
  "diag_request ops dst type now nd w =
    node_send ops nd (default_packet\<lparr>pkt_destination := dst, pkt_type := type\<rparr>) now False w"

section \<open>Start-up\<close>

definition diag_open :: "('t, 'v) posix_ops \<Rightarrow> string list \<Rightarrow> 'v \<Rightarrow> ((nat \<times> string) + (string \<times> posix_serial)) \<times> 'v" where
  "diag_open px args v =
    (case parse_arguments args Role_Diagnostic default_host_config of
       (config, Some error) \<Rightarrow> (Inl (2, error @ newline), v)
     | (config, None) \<Rightarrow>
         if hc_role config \<noteq> Role_Diagnostic then (Inl (2, ''Use motorcycle_main for main role'' @ newline), v)
         else (case open_device px (hc_device config) 115200 posix_serial_init v of
             (ok, serial, v1) \<Rightarrow>
               if \<not> ok then (Inl (1, ''Unable to open '' @ hc_device config @ newline), v1)
               else (Inr (hc_device config, serial), v1)))"

definition diag_start :: "'w transport_ops \<Rightarrow> nat \<Rightarrow> string \<Rightarrow> string option \<Rightarrow> u32 \<Rightarrow> 'w
    \<Rightarrow> string \<times> string \<times> diag_state \<times> bike_node \<times> 'w" where
  "diag_start ops tr device found now w =
    (case logger_open found (diagnostic_logger_init 250) of
       (ok, log) \<Rightarrow>
         (let err = (if ok then [] else ''Warning: CSV logging unavailable'' @ newline)
          in case sv_send_discovery ops now supervisor_init (node_init addr_DiagnosticComputer tr) w of
               (_, sv, nd, w1) \<Rightarrow>
                 (err, ''Motorcycle diagnostics on '' @ device @ newline @
                   ''Commands: scan, inventory, state lighting|security, diag northbridge, selftest, events, '' @
                   ''faults, clear, monitor on|off, filter <node>|off, ping <node>, quit'' @ newline @ ''> '',
                  \<lparr>ds_supervisor = sv, ds_logger = log, ds_test = self_test_init, ds_monitor = True,
                   ds_filter_enabled = False, ds_filter = addr_Broadcast\<rparr>, nd, w1)))"

section \<open>One pass\<close>

text \<open>The body of the polling loop, with the text printed so far.\<close>

definition diag_shown :: "diag_state \<Rightarrow> packet \<Rightarrow> bool" where
  "diag_shown d p \<longleftrightarrow> ds_monitor d \<and>
    (\<not> ds_filter_enabled d \<or> pkt_source p = ds_filter d \<or> pkt_destination p = ds_filter d)"

definition diag_body :: "'w transport_ops \<Rightarrow> u32 \<Rightarrow> packet \<Rightarrow> string \<times> diag_state \<Rightarrow> bike_node \<Rightarrow> 'w
    \<Rightarrow> (string \<times> diag_state) \<times> bike_node \<times> 'w" where
  "diag_body ops now p s nd w =
    (case s of (out, d) \<Rightarrow>
       let sv = sv_observe p now (ds_supervisor d);
           log = logger_record now p (decode_text p) (ds_logger d)
       in case test_observe ops p sv now (ds_test d) nd w of
            (t, nd1, w1) \<Rightarrow>
              ((if diag_shown d p then out @ monitor_line now p else out,
                d\<lparr>ds_supervisor := sv, ds_logger := log, ds_test := t\<rparr>), nd1, w1))"

definition diag_ping :: "'w transport_ops \<Rightarrow> string \<Rightarrow> u32 \<Rightarrow> bike_node \<Rightarrow> 'w \<Rightarrow> string \<times> bike_node \<times> 'w" where
  "diag_ping ops s now nd w =
    (case parse_node s of
       None \<Rightarrow> (''Unknown node'' @ [CHR 0x5C, CHR ''n''], nd, w)
     | Some a \<Rightarrow>
         (case diag_request ops a msg_Heartbeat now nd w of
            (ok, nd1, w1) \<Rightarrow>
              (if ok then ''Heartbeat request sent to '' @ diag_name a @
                 '' (not a correlated latency measurement)'' @ [CHR 0x5C, CHR ''n''] else [], nd1, w1)))"

text \<open>\<open>line.rfind(prefix, 0) == 0\<close> and the rest behind it.\<close>

definition behind :: "string \<Rightarrow> string \<Rightarrow> string option" where
  "behind pre l = (if prefix pre l then Some (drop (length pre) l) else None)"

definition diag_set_filter :: "string \<Rightarrow> diag_state \<Rightarrow> string \<times> diag_state" where
  "diag_set_filter s d =
    (case parse_node s of
       None \<Rightarrow> (''Unknown filter'' @ [CHR 0x5C, CHR ''n''], d)
     | Some a \<Rightarrow> ([], d\<lparr>ds_filter := a, ds_filter_enabled := True\<rparr>))"

definition diag_selftest :: "'w transport_ops \<Rightarrow> u32 \<Rightarrow> diag_state \<Rightarrow> bike_node \<Rightarrow> 'w
    \<Rightarrow> string \<times> diag_state \<times> bike_node \<times> 'w" where
  "diag_selftest ops now d nd w =
    (case (if sf_active (ds_test d) then (''Self-test already running'' @ newline, ds_test d, nd, w)
           else ([], begin_test ops (ds_supervisor d) now (ds_test d) nd w)) of
       (out, t, nd1, w1) \<Rightarrow>
         (case test_report t of (out2, t2) \<Rightarrow> (out @ out2, d\<lparr>ds_test := t2\<rparr>, nd1, w1)))"

definition is_listed_fault :: "event \<Rightarrow> bool" where
  "is_listed_fault e \<longleftrightarrow> ev_type e = msg_Fault \<or> ev_type e = msg_FaultClear \<or> ev_type e = msg_LightingDiagnostic"

definition diag_command :: "'w transport_ops \<Rightarrow> string \<Rightarrow> u32 \<Rightarrow> diag_state \<Rightarrow> bike_node \<Rightarrow> 'w
    \<Rightarrow> bool \<times> string \<times> diag_state \<times> bike_node \<times> 'w" where
  "diag_command ops l now d nd w =
    (if l = ''quit'' \<or> l = ''exit'' then (False, [], d, nd, w)
     else if l = ''scan''
     then (case sv_send_discovery ops now (ds_supervisor d) nd w of
             (_, sv, nd1, w1) \<Rightarrow> (True, [], d\<lparr>ds_supervisor := sv\<rparr>, nd1, w1))
     else if l = ''inventory''
     then (True, concat (map diag_inventory_line (sv_nodes (ds_supervisor d))), d, nd, w)
     else if l = ''selftest'' then (True, diag_selftest ops now d nd w)
     else if l = ''monitor on'' then (True, [], d\<lparr>ds_monitor := True\<rparr>, nd, w)
     else if l = ''monitor off'' then (True, [], d\<lparr>ds_monitor := False\<rparr>, nd, w)
     else if l = ''events'' then (True, concat (map diag_event_line (lg_events (ds_logger d))), d, nd, w)
     else if l = ''faults''
     then (True, concat (map diag_event_line (filter is_listed_fault (lg_events (ds_logger d)))), d, nd, w)
     else if l = ''clear'' then (True, [], d\<lparr>ds_logger := logger_clear (ds_logger d)\<rparr>, nd, w)
     else if l = ''filter off'' then (True, [], d\<lparr>ds_filter_enabled := False\<rparr>, nd, w)
     else case behind ''filter '' l of
       Some s \<Rightarrow> (case diag_set_filter s d of (out, d1) \<Rightarrow> (True, out, d1, nd, w))
     | None \<Rightarrow>
        (case behind ''ping '' l of
           Some s \<Rightarrow> (case diag_ping ops s now nd w of (out, nd1, w1) \<Rightarrow> (True, out, d, nd1, w1))
         | None \<Rightarrow>
            (if l = ''diag northbridge''
             then (case diag_request ops addr_Northbridge msg_Diagnostic now nd w of
                     (_, nd1, w1) \<Rightarrow> (True, [], d, nd1, w1))
             else if l = ''state lighting''
             then (case diag_request ops addr_Lighting msg_GetState now nd w of (_, nd1, w1) \<Rightarrow> (True, [], d, nd1, w1))
             else if l = ''state security''
             then (case diag_request ops addr_Security msg_GetState now nd w of (_, nd1, w1) \<Rightarrow> (True, [], d, nd1, w1))
             else (True, if l = [] then [] else ''Unknown command'' @ newline, d, nd, w))))"

text \<open>\<open>ready > 0\<close> with input readable is \<open>Some\<close>; the line is \<open>None\<close> at the end of the input.\<close>

definition diag_pass :: "'w transport_ops \<Rightarrow> u32 \<Rightarrow> string option option \<Rightarrow> diag_state \<Rightarrow> bike_node \<Rightarrow> 'w
    \<Rightarrow> (bool \<times> string \<times> diag_state \<times> bike_node \<times> 'w) option" where
  "diag_pass ops now input d nd w =
    (case node_drain ops now (diag_body ops now) ([], d) nd w of
       None \<Rightarrow> None
     | Some ((out, d1), nd1, w1) \<Rightarrow>
         (case test_service ops (ds_supervisor d1) now (ds_test d1) nd1 w1 of
            (t, nd2, w2) \<Rightarrow>
              (case test_report t of
                 (out2, t2) \<Rightarrow>
                   (case sv_service ops now (ds_supervisor d1) nd2 w2 of
                      (sv, nd3, w3) \<Rightarrow>
                        (case node_service ops nd3 now w3 of
                           (nd4, w4) \<Rightarrow>
                             (let d2 = d1\<lparr>ds_test := t2, ds_supervisor := sv\<rparr>
                              in Some (case input of
                                   None \<Rightarrow> (True, out @ out2, d2, nd4, w4)
                                 | Some None \<Rightarrow> (False, out @ out2, d2, nd4, w4)
                                 | Some (Some l) \<Rightarrow>
                                     (case diag_command ops l now d2 nd4 w4 of
                                        (running, out3, d3, nd5, w5) \<Rightarrow>
                                          (running, out @ out2 @ out3 @ (if running then ''> '' else []),
                                           d3, nd5, w5)))))))))"

text \<open>The loop over the passes, each with what the world does before it.\<close>

fun diag_loop :: "'w transport_ops \<Rightarrow> (('w \<Rightarrow> 'w) \<times> u32 \<times> string option option) list \<Rightarrow> diag_state \<Rightarrow> bike_node \<Rightarrow> 'w
    \<Rightarrow> (bool \<times> string \<times> diag_state \<times> bike_node \<times> 'w) option" where
  "diag_loop ops [] d nd w = Some (True, [], d, nd, w)"
| "diag_loop ops ((env, now, input) # passes) d nd w =
    (case diag_pass ops now input d nd (env w) of
       None \<Rightarrow> None
     | Some (running, out, d1, nd1, w1) \<Rightarrow>
         if \<not> running then Some (False, out, d1, nd1, w1)
         else (case diag_loop ops passes d1 nd1 w1 of
                 None \<Rightarrow> None
               | Some (running2, out2, rest) \<Rightarrow> Some (running2, out @ out2, rest)))"

end
