(* ===== verification/DiagnosticProperties.thy ===== *)
theory DiagnosticProperties
  imports DiagnosticProgram NodeBurst
begin

text \<open>
  The program of the diagnostic computer as a whole: it runs until it is told to stop and stays in its
  invariant, its monitor prints what passes the filter, and its log keeps everything it receives.
\<close>

section \<open>The loop talks\<close>

lemma diag_body_talk:
  "diag_body ops now p s nd w = (s', nd', w') \<Longrightarrow> node_talk ops (nd, w) (nd', w')"
  by (auto simp: diag_body_def Let_def split: prod.splits intro: test_observe_talk)

lemma diag_request_talk:
  "diag_request ops a ty now nd w = (ok, nd', w') \<Longrightarrow> node_talk ops (nd, w) (nd', w')"
  unfolding diag_request_def by (erule talk_send1 [rotated]) simp_all

lemma diag_ping_talk:
  "diag_ping ops s now nd w = (out, nd', w') \<Longrightarrow> node_talk ops (nd, w) (nd', w')"
  by (auto simp: diag_ping_def talk_refl split: option.splits prod.splits intro: diag_request_talk)

section \<open>Invariant\<close>

definition diag_inv :: "diag_state \<Rightarrow> bool" where
  "diag_inv d \<longleftrightarrow> test_inv (ds_test d) \<and> lg_limit (ds_logger d) = 250
     \<and> length (lg_events (ds_logger d)) \<le> 250 \<and> length (sv_nodes (ds_supervisor d)) = 16"

lemma diag_body_inv:
  assumes "diag_body ops now p (out, d) nd w = ((out', d'), nd', w')" and "diag_inv d"
  shows "diag_inv d'"
proof -
  obtain t nd1 w1 where t: "test_observe ops p (sv_observe p now (ds_supervisor d)) now (ds_test d) nd w = (t, nd1, w1)"
    by (metis prod_cases3)
  from test_observe_inv [OF _ t] logger_record_bound [of now p _ "ds_logger d"] assms t
  show ?thesis by (auto simp: diag_body_def diag_inv_def Let_def)
qed

lemma test_report_inv: "test_report t = (out, t') \<Longrightarrow> test_inv t \<Longrightarrow> test_inv t'"
  by (auto simp: test_report_def Let_def consume_report_inv split: if_splits)

lemma diag_selftest_talk:
  assumes "diag_selftest ops now d nd w = (out, d', nd', w')"
  shows "node_talk ops (nd, w) (nd', w')"
  using assms begin_test_talk [of ops "ds_supervisor d" now "ds_test d" nd w] talk_refl [of ops nd w]
  by (auto simp: diag_selftest_def split: prod.splits if_splits)

lemma diag_selftest_inv:
  assumes "diag_selftest ops now d nd w = (out, d', nd', w')" and "diag_inv d"
  shows "diag_inv d'"
proof (cases "sf_active (ds_test d)")
  case True
  with assms test_report_inv show ?thesis by (auto simp: diag_selftest_def diag_inv_def split: prod.splits)
next
  case False
  obtain t nd1 w1 where t: "begin_test ops (ds_supervisor d) now (ds_test d) nd w = (t, nd1, w1)" by (metis prod_cases3)
  with assms False test_report_inv begin_test_inv [OF _ t] show ?thesis
    by (auto simp: diag_selftest_def diag_inv_def split: prod.splits)
qed

lemma diag_command_talk:
  assumes "diag_command ops l now d nd w = (running, out, d', nd', w')"
  shows "node_talk ops (nd, w) (nd', w')"
proof -
  have scan: "node_talk ops (nd, w) (n1, v1)"
    if "sv_send_discovery ops now (ds_supervisor d) nd w = (ok, sv, n1, v1)" for ok sv n1 v1
    using sv_send_sel [OF disjI1 [OF that]] by simp
  show ?thesis
    using assms scan diag_selftest_talk [of ops now d nd w] diag_ping_talk [of ops _ now nd w]
      diag_request_talk [of ops _ _ now nd w] talk_refl [of ops nd w]
    unfolding diag_command_def by (auto split: if_splits prod.splits option.splits)
qed

lemma diag_command_safe:
  assumes "diag_command ops l now d nd w = (running, out, d', nd', w')" and "diag_inv d"
  shows "diag_inv d' \<and> node_talk ops (nd, w) (nd', w') \<and> running = (l \<noteq> ''quit'' \<and> l \<noteq> ''exit'')"
proof -
  have scan: "diag_inv (d\<lparr>ds_supervisor := sv\<rparr>)"
    if "sv_send_discovery ops now (ds_supervisor d) nd w = (ok, sv, n1, v1)" for ok sv n1 v1
    using sv_send_sel [OF disjI1 [OF that]] assms(2) by (simp add: diag_inv_def)
  have clear: "diag_inv (d\<lparr>ds_logger := logger_clear (ds_logger d)\<rparr>)"
    and flags: "diag_inv (d\<lparr>ds_monitor := m\<rparr>)" "diag_inv (d\<lparr>ds_filter_enabled := m\<rparr>)" for m
    using assms(2) by (simp_all add: diag_inv_def logger_clear_def)
  have filt: "diag_inv d1" if "diag_set_filter s d = (o1, d1)" for s o1 d1
    using that assms(2) by (auto simp: diag_set_filter_def diag_inv_def split: option.splits)
  note facts = assms(2) scan clear flags filt diag_selftest_inv [of ops now d nd w, OF _ assms(2)]
  show ?thesis
    using assms(1) facts diag_command_talk [OF assms(1)]
    unfolding diag_command_def by (auto split: if_splits prod.splits option.splits)
qed

text \<open>What ends the program.\<close>

fun diag_stops :: "string option option \<Rightarrow> bool" where
  "diag_stops None = False"
| "diag_stops (Some None) = True"
| "diag_stops (Some (Some l)) = (l = ''quit'' \<or> l = ''exit'')"

section \<open>Passes\<close>

lemma diag_drain_safe:
  assumes "node_drain ops now (diag_body ops now) (out, d) nd w = Some ((out', d'), nd', w')"
    and "node_reachable ops ad tr (nd, w)" and "diag_inv d"
  shows "diag_inv d' \<and> node_reachable ops ad tr (nd', w')"
proof -
  have "diag_inv (snd (out', d')) \<and> node_reachable ops ad tr (nd', w')"
  proof (rule node_drain_reachable [where I = "\<lambda>s. diag_inv (snd s)", OF assms(1,2)])
    show "diag_inv (snd (out, d))" using assms(3) by simp
    fix p s nd w s' nd' w'
    assume b: "diag_body ops now p s nd w = (s', nd', w')"
    show "node_talk ops (nd, w) (nd', w')" by (rule diag_body_talk [OF b])
    assume "diag_inv (snd s)"
    with b show "diag_inv (snd s')" by (cases s; cases s') (auto dest: diag_body_inv)
  qed
  then show ?thesis by simp
qed

lemma diag_pass_safe:
  assumes "diag_pass ops now input d nd w = Some (running, out, d', nd', w')"
    and "node_reachable ops ad tr (nd, w)" and "diag_inv d"
  shows "diag_inv d' \<and> node_reachable ops ad tr (nd', w') \<and> running = (\<not> diag_stops input)"
proof -
  obtain o1 d1 nd1 w1 where dr: "node_drain ops now (diag_body ops now) ([], d) nd w = Some ((o1, d1), nd1, w1)"
    using assms(1) by (auto simp: diag_pass_def split: option.splits prod.splits)
  obtain t nd2 w2 where t: "test_service ops (ds_supervisor d1) now (ds_test d1) nd1 w1 = (t, nd2, w2)"
    by (metis prod_cases3)
  obtain o2 t2 where rep: "test_report t = (o2, t2)" by fastforce
  obtain sv nd3 w3 where sv: "sv_service ops now (ds_supervisor d1) nd2 w2 = (sv, nd3, w3)" by (metis prod_cases3)
  obtain nd4 w4 where n: "node_service ops nd3 now w3 = (nd4, w4)" by fastforce
  let ?d = "d1\<lparr>ds_test := t2, ds_supervisor := sv\<rparr>"
  have 1: "diag_inv d1" "node_reachable ops ad tr (nd1, w1)" using diag_drain_safe [OF dr assms(2,3)] by simp_all
  have i: "diag_inv ?d"
    using 1(1) test_report_inv [OF rep test_service_inv [OF _ t]] sv_service_nodes(1) [OF sv] by (simp add: diag_inv_def)
  have "node_reachable ops ad tr (nd3, w3)"
    by (rule talk_reachable [OF sv_service_nodes(3) [OF sv] talk_reachable [OF test_service_talk [OF t] 1(2)]])
  then have r: "node_reachable ops ad tr (nd4, w4)" using step_service [OF n] by (rule reach_step)
  note eqs = diag_pass_def dr t rep sv n Let_def
  show ?thesis
  proof (cases "\<exists>l. input = Some (Some l)")
    case False
    with assms(1) i r show ?thesis by (cases input) (auto simp: eqs)
  next
    case True
    then obtain l where l: "input = Some (Some l)" by blast
    obtain run o3 d3 nd5 w5 where c: "diag_command ops l now ?d nd4 w4 = (run, o3, d3, nd5, w5)"
      by (metis prod_cases5)
    with assms(1) have "d' = d3" "nd' = nd5" "w' = w5" "running = run" by (auto simp: eqs l)
    with diag_command_safe [OF c i] talk_reachable [OF _ r] l show ?thesis by auto
  qed
qed

lemma diag_pass_returns:
  assumes "finite_transport ops avail"
  shows "diag_pass ops now input d nd w \<noteq> None"
proof -
  obtain o1 d1 nd1 w1 where "node_drain ops now (diag_body ops now) ([], d) nd w = Some ((o1, d1), nd1, w1)"
    using node_drain_talk_ends [OF assms diag_body_talk] by fastforce
  then show ?thesis by (auto simp: diag_pass_def Let_def split: prod.split option.split)
qed

lemma diag_loop_safe:
  assumes "diag_loop ops passes d nd w = Some (running, out, d', nd', w')"
    and "node_reachable ops ad tr (nd, w)" and "diag_inv d"
  shows "diag_inv d' \<and> node_reachable ops ad tr (nd', w')
    \<and> running = (\<forall>(env, now, input)\<in>set passes. \<not> diag_stops input)"
  using assms
proof (induction passes arbitrary: d nd w out)
  case (Cons pass passes)
  obtain env now input where p: "pass = (env, now, input)" by (metis prod_cases3)
  obtain run o1 d1 nd1 w1 where h: "diag_pass ops now input d nd (env w) = Some (run, o1, d1, nd1, w1)"
    using Cons.prems(1) by (auto simp: p split: option.splits)
  have "node_reachable ops ad tr (nd, env w)" using Cons.prems(2) step_world by (rule reach_step)
  note safe = diag_pass_safe [OF h this Cons.prems(3)]
  show ?case
  proof (cases run)
    case True
    then obtain o2 where "diag_loop ops passes d1 nd1 w1 = Some (running, o2, d', nd', w')"
      using Cons.prems(1) by (auto simp: p h split: option.splits)
    from Cons.IH [OF this] safe True show ?thesis by (auto simp: p)
  next
    case False
    with Cons.prems(1) safe show ?thesis by (auto simp: p h)
  qed
qed simp

lemma diag_loop_returns:
  assumes "finite_transport ops avail"
  shows "diag_loop ops passes d nd w \<noteq> None"
proof (induction passes arbitrary: d nd w)
  case (Cons pass passes)
  obtain env now input where p: "pass = (env, now, input)" by (metis prod_cases3)
  obtain run o1 d1 nd1 w1 where "diag_pass ops now input d nd (env w) = Some (run, o1, d1, nd1, w1)"
    using diag_pass_returns [OF assms] by (metis not_None_eq prod_cases5)
  with Cons.IH [of d1 nd1 w1] show ?case by (auto simp: p split: option.split)
qed simp

lemma diag_start_safe:
  assumes "diag_start ops tr device found now w = (err, out, d, nd, w')"
  shows "diag_inv d \<and> node_reachable ops addr_DiagnosticComputer tr (nd, w') \<and> ds_monitor d \<and> \<not> ds_filter_enabled d
    \<and> node_talk ops (node_init addr_DiagnosticComputer tr, w) (nd, w')"
proof -
  obtain ok log where log: "logger_open found (diagnostic_logger_init 250) = (ok, log)" by fastforce
  obtain k sv where s: "sv_send_discovery ops now supervisor_init (node_init addr_DiagnosticComputer tr) w = (k, sv, nd, w')"
    and d: "d = \<lparr>ds_supervisor = sv, ds_logger = log, ds_test = self_test_init, ds_monitor = True,
                   ds_filter_enabled = False, ds_filter = addr_Broadcast\<rparr>"
    using assms by (auto simp: diag_start_def log Let_def split: prod.splits)
  note sel = sv_send_sel [OF disjI1 [OF s]]
  have "length (sv_nodes sv) = 16" using sv_inv_init by (simp add: sel(1) sv_inv_def)
  moreover have "test_inv self_test_init" by (rule test_reachable_inv [OF test_start])
  moreover have "lg_limit log = 250 \<and> lg_events log = []"
    using log by (auto simp: logger_open_def diagnostic_logger_init_def split: option.splits)
  ultimately show ?thesis using talk_reachable [OF sel(5) reach_init] sel(5) by (simp add: diag_inv_def d)
qed

section \<open>Properties of the program\<close>

text \<open>C19: The diagnostic computer runs until it is told to stop, and stays in its invariant. On a serial
  line with finitely many bytes to read at any time, in chunks of at most 64, whatever they are and
  whatever happens between the passes, the polling loop returns from every pass; it is still running
  exactly if no pass had the end of the input or the command quit or exit; its node is consistent,
  keeps its address and has never dropped a received packet, the self-test is consistent, the log
  holds at most its 250 events and the table of nodes its sixteen entries.\<close>

theorem diag_runs_until_told:
  assumes "finite_transport ops avail"
  shows "case diag_start ops tr device found now w of (err, out0, d0, nd0, w0) \<Rightarrow>
    \<exists>running out d nd w'. diag_loop ops passes d0 nd0 w0 = Some (running, out, d, nd, w')
      \<and> running = (\<forall>(env, now, input)\<in>set passes. \<not> diag_stops input)
      \<and> node_inv nd \<and> nd_address nd = addr_DiagnosticComputer \<and> nd_rx_drops nd = 0
      \<and> test_inv (ds_test d) \<and> length (lg_events (ds_logger d)) \<le> 250 \<and> length (sv_nodes (ds_supervisor d)) = 16"
proof -
  obtain err out0 d0 nd0 w0 where s: "diag_start ops tr device found now w = (err, out0, d0, nd0, w0)"
    by (metis prod_cases5)
  obtain running out d nd w' where run: "diag_loop ops passes d0 nd0 w0 = Some (running, out, d, nd, w')"
    using diag_loop_returns [OF assms, of passes d0 nd0 w0] by (metis not_None_eq prod_cases5)
  have i: "node_reachable ops addr_DiagnosticComputer tr (nd0, w0)" "diag_inv d0" using diag_start_safe [OF s] by simp_all
  have d: "diag_inv d" "node_reachable ops addr_DiagnosticComputer tr (nd, w')"
    "running = (\<forall>(env, now, input)\<in>set passes. \<not> diag_stops input)"
    using diag_loop_safe [OF run i] by simp_all
  from run d node_reachable_inv [OF d(2)] node_reachable_drops [OF d(2) finite_transport.axioms(1) [OF assms]]
  show ?thesis unfolding s by (simp add: diag_inv_def)
qed

theorem diag_runs_until_told_witness:
  "case diag_start bench_transport 0 ''/dev/serial0'' None 5 quiet_world of (err, out0, d0, nd0, w0) \<Rightarrow>
    \<exists>out d nd w'. diag_loop bench_transport [(\<lambda>w. w\<lparr>sw_rx := (\<lambda>_. [0xA5, 1, 2])\<rparr>, 10, None),
        (id, 20, Some (Some ''selftest'')), (id, 30, Some None), (id, 40, None)] d0 nd0 w0
      = Some (False, out, d, nd, w') \<and> nd_rx_drops nd = 0"
  using diag_runs_until_told [OF bench.finite_transport_axioms,
      where tr = 0 and device = "''/dev/serial0''" and found = None and now = 5 and w = quiet_world and passes = "[(\<lambda>w. w\<lparr>sw_rx := (\<lambda>_. [0xA5, 1, 2])\<rparr>, 10, None),
        (id, 20, Some (Some ''selftest'')), (id, 30, Some None), (id, 40, None)]"]
  by (cases "diag_start bench_transport 0 ''/dev/serial0'' None 5 quiet_world" rule: prod_cases5)
    (auto simp del: diag_loop.simps)

text \<open>The monitor and the log. While no self-test is running or waiting to be printed, a pass of the
  diagnostic computer over one frame sent to it prints the frame's line if the monitor is on and the
  filter is off or names its source or destination, and nothing otherwise; the log records it
  either way, as its latest event.\<close>

theorem diag_monitor_shows:
  assumes "node_quiet nd" and "sendable p" and "pkt_destination p = nd_address nd"
    and "pkt_type p \<noteq> msg_Ack" and "pkt_type p \<noteq> msg_Nack" and "encoded_size p \<le> 64"
    and "sw_rx w (nd_transport nd) = frame_of p"
    and "\<not> sf_active (ds_test d)" and "\<not> sf_report_ready (ds_test d)" and "lg_limit (ds_logger d) > 0"
  shows "\<exists>d' nd' w'. diag_pass bench_transport now None d nd w =
      Some (True, if diag_shown d p then monitor_line now (received p) else [], d', nd', w')
    \<and> lg_events (ds_logger d') \<noteq> []
    \<and> last (lg_events (ds_logger d')) = \<lparr>ev_time_ms = now, ev_source = pkt_source p,
        ev_destination = pkt_destination p, ev_type = pkt_type p, ev_text = decode_text (received p)\<rparr>"
proof -
  let ?p = "received p" and ?sv = "sv_observe (received p) now (ds_supervisor d)"
  let ?log = "logger_record now ?p (decode_text ?p) (ds_logger d)"
  have shown: "diag_shown d ?p = diag_shown d p" by (simp add: diag_shown_def)
  have body: "diag_body bench_transport now ?p ([], d) n v =
      ((if diag_shown d p then monitor_line now ?p else [], d\<lparr>ds_supervisor := ?sv, ds_logger := ?log\<rparr>), n, v)" for n v
    using assms(8) shown by (simp add: diag_body_def test_observe_def Let_def)
  have talk: "node_talk bench_transport (n, v) (n', v')"
    if "diag_body bench_transport now ?p s n v = (s', n', v')" for s n v s' n' v'
    by (rule diag_body_talk [OF that])
  obtain nd1 where dr: "node_drain bench_transport now (diag_body bench_transport now) ([], d) nd w =
      Some ((if diag_shown d p then monitor_line now ?p else [], d\<lparr>ds_supervisor := ?sv, ds_logger := ?log\<rparr>),
        nd1, world_taken nd p w)"
    using node_drain_burst [where body = "diag_body bench_transport now" and s = "([], d)" and now = now and ks = "[]",
        OF assms(1) _ assms(2-5)] talk assms(6,7) length_frame_of [OF assms(2)]
    by (fastforce simp: body)
  obtain sv nd2 w2 where sv: "sv_service bench_transport now ?sv nd1 (world_taken nd p w) = (sv, nd2, w2)"
    by (metis prod_cases3)
  obtain nd3 w3 where n: "node_service bench_transport nd2 now w2 = (nd3, w3)" by fastforce
  have "diag_pass bench_transport now None d nd w = Some (True, if diag_shown d p then monitor_line now ?p else [],
      d\<lparr>ds_supervisor := sv, ds_logger := ?log\<rparr>, nd3, w3)"
    using assms(8,9) by (simp add: diag_pass_def dr test_service_def test_report_def sv n)
  moreover have "lg_events ?log \<noteq> [] \<and> last (lg_events ?log) = \<lparr>ev_time_ms = now, ev_source = pkt_source p,
        ev_destination = pkt_destination p, ev_type = pkt_type p, ev_text = decode_text ?p\<rparr>"
    using assms(10) by (simp add: logger_record_def Let_def trim_front_eq)
  ultimately show ?thesis by simp
qed

theorem diag_monitor_shows_witness:
  "let p = default_packet\<lparr>pkt_source := addr_Lighting, pkt_destination := addr_DiagnosticComputer\<rparr>;
      d = (\<lambda>a. \<lparr>ds_supervisor = supervisor_init, ds_logger = diagnostic_logger_init 250, ds_test = self_test_init,
             ds_monitor = True, ds_filter_enabled = True, ds_filter = a\<rparr>);
      w = quiet_world\<lparr>sw_rx := (\<lambda>_. frame_of p)\<rparr>; nd = node_init addr_DiagnosticComputer 0
   in (\<exists>d' nd' w'. diag_pass bench_transport 7 None (d addr_Lighting) nd w
          = Some (True, monitor_line 7 (received p), d', nd', w') \<and> lg_events (ds_logger d') \<noteq> [])
    \<and> (\<exists>d' nd' w'. diag_pass bench_transport 7 None (d addr_Security) nd w
          = Some (True, [], d', nd', w') \<and> lg_events (ds_logger d') \<noteq> [])"
proof -
  let ?p = "default_packet\<lparr>pkt_source := addr_Lighting, pkt_destination := addr_DiagnosticComputer\<rparr>"
  let ?d = "\<lambda>a. \<lparr>ds_supervisor = supervisor_init, ds_logger = diagnostic_logger_init 250, ds_test = self_test_init,
      ds_monitor = True, ds_filter_enabled = True, ds_filter = a\<rparr>"
  let ?w = "quiet_world\<lparr>sw_rx := (\<lambda>_. frame_of ?p)\<rparr>" and ?nd = "node_init addr_DiagnosticComputer 0"
  have p: "node_quiet ?nd" "sendable ?p" "pkt_destination ?p = nd_address ?nd" "pkt_type ?p \<noteq> msg_Ack"
    "pkt_type ?p \<noteq> msg_Nack" "encoded_size ?p \<le> 64" "sw_rx ?w (nd_transport ?nd) = frame_of ?p"
    by (simp_all add: sendable_def encoded_size_def)
  have d: "\<not> sf_active (ds_test (?d a))" "\<not> sf_report_ready (ds_test (?d a))" "lg_limit (ds_logger (?d a)) > 0" for a
    by (simp_all add: self_test_init_def diagnostic_logger_init_def)
  have "diag_shown (?d addr_Lighting) ?p" "\<not> diag_shown (?d addr_Security) ?p" by (simp_all add: diag_shown_def)
  with diag_monitor_shows [OF p d [of addr_Lighting], of 7] diag_monitor_shows [OF p d [of addr_Security], of 7]
  show ?thesis unfolding Let_def by (auto simp del: ex_simps)
qed

end
