(* ===== verification/ProgramFrames.thy ===== *)
theory ProgramFrames
  imports NodeFrames MainProperties DiagnosticProperties SecurityController LightingController LightingProperties
begin

text \<open>
  The output of the four programs on the bus: each pass of each of them writes whole, well-formed
  frames from its own address, and nothing else; and of any class of packets that holds what is no
  security command, nothing outside the class, unless a line at its console names it.
\<close>

text \<open>The main computer may put the command on the bus that its console line names.\<close>

definition grants :: "(packet \<Rightarrow> bool) \<Rightarrow> console_input \<Rightarrow> bool" where
  "grants Q input \<longleftrightarrow> (\<forall>l t. input = Console_Line l t \<longrightarrow> (\<forall>p. said l p \<longrightarrow> Q p))"

text \<open>Everything below is proved once for any class of packets that holds what is no command.\<close>

context packet_class
begin

lemma talk_voiced: "node_talk bench_transport a b \<Longrightarrow> speaking Q (fst a) \<Longrightarrow> voiced Q a b"
  by (rule sends_voiced [OF sends_mono [OF _ calm_in]])

lemma talk_on: "node_talk bench_transport b c \<Longrightarrow> voiced Q a b \<Longrightarrow> voiced Q a c"
  using talk_voiced [of b c] by (auto simp: voiced_def intro: speaks_trans)

lemma service_on: "node_service bench_transport nd now w = (nd', w') \<Longrightarrow> voiced Q a (nd, w) \<Longrightarrow> voiced Q a (nd', w')"
  using service_voiced voiced_speaking voiced_trans by metis

lemma drain_talk_voiced:
  assumes "node_drain bench_transport now body s nd w = Some (s', nd', w')" and "speaking Q nd"
    and "\<And>p s nd w s' nd' w'. body p s nd w = (s', nd', w') \<Longrightarrow> node_talk bench_transport (nd, w) (nd', w')"
  shows "voiced Q (nd, w) (nd', w')"
  by (rule drain_voiced [OF assms(1,2)], rule sends_mono [OF assms(3) calm_in])

lemma mc_service_voiced:
  assumes "mc_service bench_transport (main_observer bench_transport) now mc nd w = Some (mc', nd', w')" and "speaking Q nd"
  shows "voiced Q (nd, w) (nd', w')"
proof -
  obtain mc1 nd1 w1 nd2 w2 sv where
    drain: "node_drain bench_transport now (\<lambda>p. mc_dispatch (main_observer bench_transport) p now) mc nd w = Some (mc1, nd1, w1)"
    and serv: "node_service bench_transport nd1 now w1 = (nd2, w2)"
    and sup: "sv_service bench_transport now (mc_supervisor mc1) nd2 w2 = (sv, nd', w')"
    using assms(1) by (auto simp: mc_service_def split: option.splits prod.splits)
  from drain_talk_voiced [OF drain assms(2) main_watching.dispatch_talks]
  show ?thesis by (rule talk_on [OF sv_service_nodes(3) [OF sup] service_on [OF serv]])
qed

lemma main_pass_voiced:
  assumes "main_pass bench_transport tick input mc nd w = Some (running, out, mc', nd', w')" and "speaking Q nd"
    and "grants Q input"
  shows "voiced Q (nd, w) (nd', w')"
proof -
  obtain mc1 nd1 w1 t nd2 w2 where
    s: "mc_service bench_transport (main_observer bench_transport) tick mc nd w = Some (mc1, nd1, w1)"
    and t: "test_service bench_transport (mc_supervisor mc1) tick (main_test mc1) nd1 w1 = (t, nd2, w2)"
    using assms(1) by (auto simp: main_pass_def split: option.splits prod.splits)
  from talk_on [OF test_service_talk [OF t] mc_service_voiced [OF s assms(2)]]
  have 2: "voiced Q (nd, w) (nd2, w2)" .
  show ?thesis
  proof (cases input)
    case (Console_Line l now)
    obtain run o1 mc3 nd3 w3 where h: "handle_command bench_transport l now (put_test t mc1) nd2 w2 = (run, o1, mc3, nd3, w3)"
      by (metis prod_cases5)
    have "node_sends Q bench_transport (nd2, w2) (nd3, w3)"
      using assms(3) Console_Line by (intro sends_mono [OF console_command_sends [OF h]]) (simp add: grants_def)
    from voiced_trans [OF sends_voiced [OF this] 2] voiced_speaking [OF 2] assms(1) show ?thesis
      by (auto simp: main_pass_def s t h Console_Line)
  qed (use assms(1) 2 in \<open>auto simp: main_pass_def s t\<close>)
qed

lemma diag_pass_voiced:
  assumes "diag_pass bench_transport now input d nd w = Some (running, out, d', nd', w')" and "speaking Q nd"
  shows "voiced Q (nd, w) (nd', w')"
proof -
  obtain o1 d1 nd1 w1 where dr: "node_drain bench_transport now (diag_body bench_transport now) ([], d) nd w = Some ((o1, d1), nd1, w1)"
    using assms(1) by (auto simp: diag_pass_def split: option.splits prod.splits)
  obtain t nd2 w2 where t: "test_service bench_transport (ds_supervisor d1) now (ds_test d1) nd1 w1 = (t, nd2, w2)"
    by (metis prod_cases3)
  obtain o2 t2 where rep: "test_report t = (o2, t2)" by fastforce
  obtain sv nd3 w3 where sv: "sv_service bench_transport now (ds_supervisor d1) nd2 w2 = (sv, nd3, w3)" by (metis prod_cases3)
  obtain nd4 w4 where n: "node_service bench_transport nd3 now w3 = (nd4, w4)" by fastforce
  let ?d = "d1\<lparr>ds_test := t2, ds_supervisor := sv\<rparr>"
  from talk_on [OF sv_service_nodes(3) [OF sv] talk_on [OF test_service_talk [OF t]
      drain_talk_voiced [OF dr assms(2) diag_body_talk]]]
  have 4: "voiced Q (nd, w) (nd4, w4)" by (rule service_on [OF n])
  note eqs = diag_pass_def dr t rep sv n Let_def
  show ?thesis
  proof (cases "\<exists>l. input = Some (Some l)")
    case True
    then obtain l where l: "input = Some (Some l)" by blast
    obtain run o3 d3 nd5 w5 where c: "diag_command bench_transport l now ?d nd4 w4 = (run, o3, d3, nd5, w5)"
      by (metis prod_cases5)
    from talk_on [OF diag_command_talk [OF c] 4] assms(1) show ?thesis by (auto simp: eqs l c)
  qed (use assms(1) 4 in \<open>cases input; auto simp: eqs\<close>)
qed

lemma lighting_loop_voiced:
  assumes "lighting_loop env now u nd w = Some (u', nd', w')" and net: "le_net env = bench_transport" and "speaking Q nd"
  shows "voiced Q (nd, w) (nd', w')"
proof -
  obtain s1 nd1 w1 c s2 nd2 w2 f s3 nd3 w3 dg where
    1: "lighting_controller_service env now (lu_server u) nd w = Some (s1, nd1, w1)"
    and c: "local_control_service env now (lu_local u) s1 nd1 w1 = (c, s2, nd2, w2)"
    and f: "fault_service env (lu_diagnostics u) now (lu_faults u) s2 nd2 w2 = (f, s3, nd3, w3)"
    and dg: "diagnostics_service env now addr_MainComputer (ls_hardware s3) (lu_diagnostics u) nd3 w3 = (dg, nd', w')"
    by (rule lighting_loop_parts [OF assms(1)])
  obtain n0 v0 where d: "node_drain bench_transport now (lighting_body env now) (lu_server u) nd w = Some (s1, n0, v0)"
    and n: "node_service bench_transport n0 now v0 = (nd1, w1)"
    using 1 net by (auto simp: lighting_controller_service_def split: option.splits prod.splits)
  have "node_talk bench_transport (nd2, w2) (nd3, w3)"
    using f update_channels_talk [of env "lu_diagnostics u" _ now "lu_faults u" s2 nd2 w2] net
    by (auto simp: fault_service_def talk_refl split: if_splits prod.splits)
  then show ?thesis
    by (rule talk_on [OF diagnostics_service_talk [OF dg, unfolded net] talk_on [OF _
      talk_on [OF local_control_service_talk [OF c, unfolded net] service_on [OF n
        drain_talk_voiced [OF d assms(3) lighting_body_talk [of env now, unfolded net]]]]]])
qed

lemma security_pass_voiced:
  assumes "security_controller_service env now s nd w = Some (s', nd', w')" and net: "se_net env = bench_transport"
    and "speaking Q nd"
  shows "voiced Q (nd, w) (nd', w')"
proof -
  obtain s1 nd1 w1 nd2 w2 where d: "node_drain bench_transport now (security_body env now) s nd w = Some (s1, nd1, w1)"
    and sv: "security_service env now s1 nd1 w1 = (s', nd2, w2)" and n: "node_service bench_transport nd2 now w2 = (nd', w')"
    using assms(1,2) by (auto simp: security_controller_service_def split: option.splits prod.splits)
  show ?thesis
    by (rule service_on [OF n talk_on [OF security_service_talk [OF sv, unfolded net]
      drain_talk_voiced [OF d assms(3) security_body_talk [of env now, unfolded net]]]])
qed

end

lemma speaking_any [simp]: "speaking (\<lambda>_. True) nd = node_inv nd"
  by (simp add: speaking_def pending_in_def)

lemma any_grants [simp]: "grants (\<lambda>_. True) input"
  by (simp add: grants_def)

lemma voiced_speaks: "voiced Q (nd, w) (nd', w') \<Longrightarrow> speaks_in Q (nd_address nd) (nd_transport nd) w w'"
  by (simp add: voiced_def)

text \<open>C16: What the programs put on the bus is well formed. From any consistent node and whatever they read,
  one pass of the main computer, of the diagnostic computer, of the lighting controller or of the
  security controller appends to the wire only whole frames of well-formed packets, on its own
  transport and with its own address as their source.\<close>

theorem programs_write_frames:
  assumes "node_inv nd" and "le_net lights = bench_transport" and "se_net alarm = bench_transport"
  shows "(case main_pass bench_transport now input mc nd w of
        None \<Rightarrow> True | Some (_, _, _, _, w') \<Rightarrow> speaks (nd_address nd) (nd_transport nd) w w')
    \<and> (case diag_pass bench_transport now line d nd w of
        None \<Rightarrow> True | Some (_, _, _, _, w') \<Rightarrow> speaks (nd_address nd) (nd_transport nd) w w')
    \<and> (case lighting_loop lights now u nd w of
        None \<Rightarrow> True | Some (_, _, w') \<Rightarrow> speaks (nd_address nd) (nd_transport nd) w w')
    \<and> (case security_controller_service alarm now s nd w of
        None \<Rightarrow> True | Some (_, _, w') \<Rightarrow> speaks (nd_address nd) (nd_transport nd) w w')"
  using any_packet.main_pass_voiced [of now input mc nd w] any_packet.diag_pass_voiced [of now line d nd w]
    any_packet.lighting_loop_voiced [of lights now u nd w] any_packet.security_pass_voiced [of alarm now s nd w] assms
  by (intro conjI) (simp split: option.split prod.split, blast intro: voiced_speaks)+

theorem programs_write_frames_witness:
  "case main_pass bench_transport 7 (Console_Line ''lock'' 7)
      (motorcycle_computer_init \<lparr>mw_test = self_test_init, mw_log = diagnostic_logger_init 250\<rparr>)
      (node_init addr_MainComputer 0) quiet_world of
     None \<Rightarrow> False | Some (_, _, _, _, w') \<Rightarrow> speaks addr_MainComputer 0 quiet_world w'"
proof -
  let ?mc = "motorcycle_computer_init \<lparr>mw_test = self_test_init, mw_log = diagnostic_logger_init 250\<rparr>"
  obtain running out mc nd w' where r: "main_pass bench_transport 7 (Console_Line ''lock'' 7) ?mc
      (node_init addr_MainComputer 0) quiet_world = Some (running, out, mc, nd, w')"
    using main_pass_returns [OF bench.finite_transport_axioms] by (metis not_None_eq prod_cases5)
  from programs_write_frames [OF node_inv_init [of addr_MainComputer 0] demo_lights_net(1), of demo_board, where now = 7
      and input = "Console_Line ''lock'' 7" and mc = ?mc and w = quiet_world] r
  show ?thesis by (simp add: demo_board_def)
qed

end
