(* ===== verification/Streams.thy ===== *)
theory Streams
  imports NodeFrames
begin

text \<open>
  What arrives. A receiver that has only ever been sent whole frames stays in step with its wire, and
  everything it takes from the wire is of the class of packets that were put on it.
\<close>

section \<open>A parser in step with its wire\<close>

text \<open>
  What the parser has collected and the bytes still to come are whole frames of the class, and it has
  never rejected anything.
\<close>

definition in_step :: "(packet \<Rightarrow> bool) \<Rightarrow> stream_parser \<Rightarrow> u8 list \<Rightarrow> bool" where
  "in_step Q s bs \<longleftrightarrow> (\<exists>xs ps. collected 0 xs s \<and> xs @ bs = concat (map frame_of ps)
     \<and> (\<forall>p\<in>set ps. sendable p \<and> Q p))"

lemma in_step_start: "in_step Q stream_parser_init []"
  unfolding in_step_def
  by (intro exI [of _ "[]"]) (simp add: collected_idle parser_inv_init, simp add: stream_parser_init_def)

lemma in_step_clean: "in_step Q s bs \<Longrightarrow> sp_rejected s = 0"
  by (auto simp: in_step_def collected_def)

lemma in_step_append:
  assumes "in_step Q s bs" and "\<forall>p\<in>set ps. sendable p \<and> Q p"
  shows "in_step Q s (bs @ concat (map frame_of ps))"
proof -
  from assms(1) obtain xs qs where "collected 0 xs s" "xs @ bs = concat (map frame_of qs)"
    "\<forall>p\<in>set qs. sendable p \<and> Q p" by (auto simp: in_step_def)
  with assms(2) show ?thesis
    unfolding in_step_def by (intro exI [of _ xs] exI [of _ "qs @ ps"]) auto
qed

text \<open>The collected bytes never hold a whole frame.\<close>

lemma collected_short:
  assumes "collected r xs s" and p: "sendable p" and xs: "xs @ bs = frame_of p @ cs"
  shows "length xs < length (frame_of p)"
proof (rule ccontr)
  assume "\<not> length xs < length (frame_of p)"
  moreover have l: "length (frame_of p) = 12 + unat (pkt_length p)" "unat (pkt_length p) \<le> 128"
    using p length_frame_of [OF p] by (simp_all add: sendable_def encoded_size_def)
  ultimately have k: "12 + unat (pkt_length p) \<le> length xs" by simp
  from k l(1) have "xs ! 9 = frame_of p ! 9" using arg_cong [OF xs, of "\<lambda>ys. ys ! 9"] by (simp add: nth_append)
  then have "sp_buffer s ! 9 = ucast (pkt_length p)"
    using collected_nth [OF assms(1), of 9] k frame_of_nth(10) [OF p] by simp
  then have "sp_expected s = 12 + unat (pkt_length p)" "sp_length s < sp_expected s"
    using assms(1) k l(2) by (auto simp: collected_def parser_inv_def ucast_u16_small)
  with assms(1) k show False by (simp add: collected_def)
qed

text \<open>One byte: the frame it belongs to grows, or is whole.\<close>

lemma collected_push:
  assumes c: "collected 0 xs s" and q: "sendable q" and eq: "xs @ b # bs = frame_of q @ cs"
    and push: "parser_push s b default_packet = (ok, s', p)"
  obtains (more) "\<not> ok" "collected 0 (xs @ [b]) s'"
    | (whole) "ok" "p = received q" "collected 0 [] s'" "bs = cs"
proof -
  let ?k = "length xs"
  have k: "?k < length (frame_of q)" by (rule collected_short [OF c q eq])
  then have xs: "xs = take ?k (frame_of q)" and b: "b = frame_of q ! ?k"
    using arg_cong [OF eq, of "take ?k"] arg_cong [OF eq, of "\<lambda>ys. ys ! ?k"] by (simp_all add: nth_append)
  have bs: "bs = drop (Suc ?k) (frame_of q) @ cs"
    using arg_cong [OF eq, of "drop (Suc ?k)"] k by simp
  have c': "collected 0 (take ?k (frame_of q)) s" using c xs by simp
  show thesis
  proof (cases "Suc ?k < length (frame_of q)")
    case True
    have "xs @ [b] = take (Suc ?k) (frame_of q)" using xs b k by (metis take_Suc_conv_app_nth)
    with collected_step [OF c' True q, of default_packet] push b show ?thesis by (intro more) auto
  next
    case False
    then have l: "Suc ?k = length (frame_of q)" using k by simp
    from push_last [OF c' l q, of default_packet] push b bs l show ?thesis
      by (intro whole) (auto simp: received_def)
  qed
qed

lemma in_step_push:
  assumes "in_step Q s (b # bs)" and push: "parser_push s b default_packet = (ok, s', p)"
  shows "in_step Q s' bs \<and> (ok \<longrightarrow> (\<exists>q. sendable q \<and> Q q \<and> p = received q))"
proof -
  from assms(1) obtain xs qs where c: "collected 0 xs s" and eq: "xs @ b # bs = concat (map frame_of qs)"
    and qs: "\<forall>p\<in>set qs. sendable p \<and> Q p" by (auto simp: in_step_def)
  from eq obtain q rs where q: "qs = q # rs" by (cases qs) auto
  with qs eq have sq: "sendable q" "Q q" and rest: "xs @ b # bs = frame_of q @ concat (map frame_of rs)" by simp_all
  from c sq(1) rest push show ?thesis
  proof (cases rule: collected_push)
    case more
    have "in_step Q s' bs" unfolding in_step_def by (intro exI [of _ "xs @ [b]"] exI [of _ qs]) (use more eq qs in simp)
    with more show ?thesis by simp
  next
    case whole
    have "in_step Q s' bs" unfolding in_step_def by (intro exI [of _ "[]"] exI [of _ rs]) (use whole qs q in simp)
    with whole sq show ?thesis by blast
  qed
qed

lemma in_step_feed:
  "in_step Q s (bs @ cs) \<Longrightarrow> parser_feed s bs = (s', ps) \<Longrightarrow>
    in_step Q s' cs \<and> (\<forall>p\<in>set ps. \<exists>q. sendable q \<and> Q q \<and> p = received q)"
proof (induction bs arbitrary: s s' ps)
  case (Cons b bs)
  obtain ok s1 p where push: "parser_push s b default_packet = (ok, s1, p)" by (metis prod_cases3)
  obtain s2 qs where rest: "parser_feed s1 bs = (s2, qs)" by fastforce
  have "in_step Q s (b # (bs @ cs))" using Cons.prems(1) by simp
  from in_step_push [OF this push] Cons.IH [OF _ rest] push Cons.prems(2)
  show ?case by (auto simp: rest split: if_splits)
qed simp

section \<open>The last frame of a stream\<close>

text \<open>
  The frame of a packet ends the stream: what the parser has collected and the bytes still to come
  are whole frames, the last of which is that packet's. So it is the last thing the parser delivers.
\<close>

definition owed :: "packet \<Rightarrow> stream_parser \<Rightarrow> u8 list \<Rightarrow> bool" where
  "owed p s bs \<longleftrightarrow> (\<exists>xs ps. collected 0 xs s \<and> xs @ bs = concat (map frame_of ps) @ frame_of p
     \<and> (\<forall>q\<in>set ps. sendable q) \<and> sendable p)"

lemma owed_in_step: "owed p s bs \<Longrightarrow> in_step (\<lambda>_. True) s bs"
  unfolding owed_def in_step_def
  by (elim exE, rule_tac x = xs in exI, rule_tac x = "ps @ [p]" in exI) auto

lemma owed_after:
  assumes "in_step Q s bs" and "\<forall>q\<in>set ps. sendable q" and "sendable p"
  shows "owed p s (bs @ concat (map frame_of ps) @ frame_of p)"
proof -
  from assms(1) obtain xs qs where "collected 0 xs s" "xs @ bs = concat (map frame_of qs)" "\<forall>q\<in>set qs. sendable q"
    by (auto simp: in_step_def)
  with assms(2,3) show ?thesis unfolding owed_def by (intro exI [of _ xs] exI [of _ "qs @ ps"]) auto
qed

lemma owed_nonempty:
  assumes "owed p s bs"
  shows "bs \<noteq> []"
proof
  assume bs: "bs = []"
  from assms obtain xs ps where c: "collected 0 xs s" and eq: "xs @ bs = concat (map frame_of ps) @ frame_of p"
    and s: "\<forall>q\<in>set ps. sendable q" "sendable p" by (auto simp: owed_def)
  obtain q cs where q: "sendable q" "xs @ [] = frame_of q @ cs" using eq s by (cases ps) (auto simp: bs)
  from collected_short [OF c q] q(2) show False by simp
qed

lemma owed_push:
  assumes "owed p s (b # bs)" and push: "parser_push s b default_packet = (ok, s', q)"
  obtains (later) "owed p s' bs" "ok \<Longrightarrow> \<exists>r. sendable r \<and> q = received r"
    | (now) "ok" "q = received p" "collected 0 [] s'" "bs = []"
proof -
  from assms(1) obtain xs ps where c: "collected 0 xs s" and eq: "xs @ b # bs = concat (map frame_of ps) @ frame_of p"
    and s: "\<forall>q\<in>set ps. sendable q" "sendable p" by (auto simp: owed_def)
  show thesis
  proof (cases ps)
    case Nil
    from eq Nil have "xs @ b # bs = frame_of p @ []" by simp
    from c s(2) this push show ?thesis
    proof (cases rule: collected_push)
      case more
      have "owed p s' bs" unfolding owed_def using more eq s Nil by (intro exI [of _ "xs @ [b]"] exI [of _ "[]"]) simp
      with more show ?thesis by (intro later) simp_all
    next
      case whole
      then show ?thesis by (intro now) simp_all
    qed
  next
    case (Cons r rs)
    have r: "sendable r" and rest: "xs @ b # bs = frame_of r @ concat (map frame_of rs) @ frame_of p" using eq s Cons by simp_all
    from c r rest push show ?thesis
    proof (cases rule: collected_push)
      case more
      have "owed p s' bs" unfolding owed_def using more eq s by (intro exI [of _ "xs @ [b]"] exI [of _ ps]) simp
      with more show ?thesis by (intro later) simp_all
    next
      case whole
      have "owed p s' bs" unfolding owed_def using whole s Cons by (intro exI [of _ "[]"] exI [of _ rs]) simp
      with whole r show ?thesis by (intro later) auto
    qed
  qed
qed

lemma owed_feed:
  "owed p s (bs @ cs) \<Longrightarrow> parser_feed s bs = (s', ps) \<Longrightarrow>
    owed p s' cs \<or> cs = [] \<and> collected 0 [] s' \<and> (\<exists>qs. ps = qs @ [received p])"
proof (induction bs arbitrary: s ps)
  case (Cons b bs)
  obtain ok s1 q where push: "parser_push s b default_packet = (ok, s1, q)" by (metis prod_cases3)
  obtain qs where feed: "parser_feed s1 bs = (s', qs)" "ps = (if ok then q # qs else qs)"
    using Cons.prems(2) push by (auto split: prod.splits if_splits)
  have "owed p s (b # (bs @ cs))" using Cons.prems(1) by simp
  from this push show ?case
  proof (cases rule: owed_push)
    case later
    from Cons.IH [OF later(1) feed(1)] feed(2) show ?thesis by auto
  next
    case now
    with feed show ?thesis by auto
  qed
qed simp

section \<open>A node in step with its wire\<close>

definition fed :: "(packet \<Rightarrow> bool) \<Rightarrow> bike_node \<Rightarrow> serial_world \<Rightarrow> bool" where
  "fed Q nd w \<longleftrightarrow> in_step Q (nd_parser nd) (sw_rx w (nd_transport nd)) \<and> (\<forall>p\<in>set (rx_list nd). Q p)"

lemma fed_init: "sw_rx w t = [] \<Longrightarrow> fed Q (node_init a t) w"
  using in_step_start by (simp add: fed_def node_init_def rx_list_def)

lemma sends_keep_received:
  "node_sends P ops a b \<Longrightarrow> nd_parser (fst b) = nd_parser (fst a) \<and> rx_list (fst b) = rx_list (fst a)"
  by (induction rule: node_sends.induct) (auto simp: node_send_eq split: prod.splits if_splits)

lemma fed_sends:
  assumes "node_sends P bench_transport (nd, w) (nd', w')" and "fed Q nd w"
  shows "fed Q nd' w'"
  using sends_keep_received [OF assms(1)] talk_keeps(3) [OF assms(1)] talk_bench_rx [OF assms(1)] assms(2)
  by (simp add: fed_def)

lemma fed_service:
  assumes "node_service bench_transport nd now w = (nd', w')" and "fed Q nd w"
  shows "fed Q nd' w'"
proof -
  have "sw_rx w' = sw_rx w" "nd_parser nd' = nd_parser nd" "rx_list nd' = rx_list nd" "nd_transport nd' = nd_transport nd"
    using assms(1) by (auto simp: node_service_def Let_def node_write_packet_def split: if_splits prod.splits option.splits bool.splits)
  with assms(2) show ?thesis by (simp add: fed_def)
qed

lemma receive_all_queue:
  "node_receive_all bench_transport nd ps w = (nd', w') \<Longrightarrow> node_ring nd \<Longrightarrow>
    set (rx_list nd') \<subseteq> set (rx_list nd) \<union> set ps \<and> sw_rx w' = sw_rx w \<and> node_ring nd'"
proof (induction ps arbitrary: nd w)
  case (Cons p ps)
  obtain nd1 w1 where r: "node_receive bench_transport nd p w = (nd1, w1)" by fastforce
  have c: "set (rx_list (snd (node_enqueue_rx nd p))) \<subseteq> insert p (set (rx_list nd))"
    using set_take_subset [of kNodeRxQueueSize "rx_list nd @ [p]"] by (auto simp: node_enqueue_contents [OF Cons.prems(2)])
  have h: "rx_list (node_handle_control_packet nd p) = rx_list nd" "node_ring (node_handle_control_packet nd p) = node_ring nd"
    by (simp_all add: node_handle_control_packet_def Let_def)
  have "node_ring nd1" "set (rx_list nd1) \<subseteq> insert p (set (rx_list nd))" "sw_rx w1 = sw_rx w"
    using r c h node_enqueue_ring [OF Cons.prems(2), of p] Cons.prems(2)
    by (auto simp: node_receive_def Let_def node_send_ack_eq split: if_splits)
  with Cons.IH [of nd1 w1] Cons.prems(1) show ?case by (auto simp: r)
qed simp

text \<open>The class of what is received is that of what is sent: only the payload after its length is lost.\<close>

locale frame_class = packet_class +
  assumes received_in: "sendable p \<Longrightarrow> Q p \<Longrightarrow> Q (received p)"
begin

lemma feed_in:
  assumes "in_step Q s (bs @ cs)" and "parser_feed s bs = (s', ps)"
  shows "in_step Q s' cs" and "\<forall>p\<in>set ps. Q p"
  using in_step_feed [OF assms] received_in by auto

lemma fed_poll:
  assumes poll: "node_poll bench_transport nd out now w = (ok, p, nd', w')" and inv: "node_inv nd" and "fed Q nd w"
  shows "fed Q nd' w'" and "ok \<Longrightarrow> Q p"
proof -
  let ?t = "nd_transport nd"
  have deq: "rx_list n' = tl (rx_list n) \<and> nd_parser n' = nd_parser n \<and> nd_transport n' = nd_transport n
      \<and> (ok \<longrightarrow> p \<in> set (rx_list n))"
    if "node_dequeue_rx n out = (ok, p, n')" "node_ring n" for n n'
    using that rxq.deq_contents [OF that(2), of out] rxq.deq_succeeds [OF that(2), of out] rxq.deq_value [OF that(2), of out]
      node_dequeue_sel [of n out]
    by (auto split: list.splits)
  have "fed Q nd' w' \<and> (ok \<longrightarrow> Q p)"
  proof (cases "nd_rx_count nd = 0")
    case True
    let ?v = "w\<lparr>sw_rx := (sw_rx w)(?t := drop 64 (sw_rx w ?t))\<rparr>"
    obtain ps pks where f: "parser_feed (nd_parser nd) (take 64 (sw_rx w ?t)) = (ps, pks)" by fastforce
    obtain nd2 w2 where r: "node_receive_all bench_transport nd pks ?v = (nd2, w2)" by fastforce
    have d: "w' = w2" "node_dequeue_rx (nd2\<lparr>nd_parser := ps\<rparr>) out = (ok, p, nd')"
      using poll True by (auto simp: node_poll_cases node_rx_bytes_feed f r split: prod.splits)
    have "in_step Q (nd_parser nd) (take 64 (sw_rx w ?t) @ drop 64 (sw_rx w ?t))" using assms(3) by (simp add: fed_def)
    note in' = feed_in [OF this f]
    have ring: "node_ring nd" using inv by (simp add: node_inv_def)
    from receive_all_queue [OF r ring] assms(3) in'(2)
    have q: "\<forall>p\<in>set (rx_list nd2). Q p" "node_ring nd2" "sw_rx w2 = sw_rx ?v" by (auto simp: fed_def)
    moreover have "nd_transport nd2 = ?t" using node_receive_all_transport [of bench_transport nd pks ?v] by (simp add: r)
    ultimately show ?thesis
      using deq [OF d(2)] in'(1) d(1) by (auto simp: fed_def dest: in_set_tlD)
  next
    case False
    then have "node_dequeue_rx nd out = (ok, p, nd')" "w' = w"
      using poll by (auto simp: node_poll_cases split: prod.splits)
    with deq [of nd nd'] assms(3) inv show ?thesis
      by (auto simp: fed_def node_inv_def dest: in_set_tlD)
  qed
  then show "fed Q nd' w'" "ok \<Longrightarrow> Q p" by simp_all
qed

text \<open>The service loop of an application hands out packets of the class only.\<close>

lemma drain_fed:
  assumes "node_drain bench_transport now body s nd w = Some (s', nd', w')"
    and "node_inv nd" and "fed Q nd w" and "I s"
    and body: "\<And>p s nd w s' nd' w'. body p s nd w = (s', nd', w') \<Longrightarrow> node_sends P bench_transport (nd, w) (nd', w')"
    and state: "\<And>p s nd w s' nd' w'. body p s nd w = (s', nd', w') \<Longrightarrow> Q p \<Longrightarrow> I s \<Longrightarrow> I s'"
  shows "I s' \<and> node_inv nd' \<and> fed Q nd' w'"
proof (rule node_drain_invariant [OF assms(1), where I = "\<lambda>s n v. I s \<and> node_inv n \<and> fed Q n v"])
  show "I s \<and> node_inv nd \<and> fed Q nd w" using assms(2-4) by simp
  fix s n v ok p n1 v1
  assume I: "I s \<and> node_inv n \<and> fed Q n v" and p: "node_poll bench_transport n default_packet now v = (ok, p, n1, v1)"
  obtain s2 n2 v2 where b: "body p s n1 v1 = (s2, n2, v2)" by (metis prod_cases3)
  have 1: "node_inv n1" "fed Q n1 v1" "ok \<Longrightarrow> Q p" using node_poll_inv(1) [OF _ p] fed_poll [OF p] I by simp_all
  from state [OF b] talk_keeps(1) [OF body [OF b]] fed_sends [OF body [OF b] 1(2)] 1 I
  show "if ok then (case body p s n1 v1 of (s2, n2, v2) \<Rightarrow> I s2 \<and> node_inv n2 \<and> fed Q n2 v2)
      else I s \<and> node_inv n1 \<and> fed Q n1 v1"
    by (simp add: b)
qed

end

end
