(* ===== verification/NorthbridgeFrames.thy ===== *)
theory NorthbridgeFrames
  imports Streams NorthbridgeCarry
begin

text \<open>
  What the northbridge puts on its wires: the packets it has received, and answers of its own that
  are no security commands. Ports in step with their wires stay in step.
\<close>

section \<open>Output\<close>

definition utters :: "(packet \<Rightarrow> bool) \<Rightarrow> serial_world \<Rightarrow> serial_world \<Rightarrow> bool" where
  "utters Q w w' \<longleftrightarrow> (\<exists>xs. (\<forall>x\<in>set xs. sendable (snd x) \<and> Q (snd x))
     \<and> sw_tx w' = sw_tx w @ map (\<lambda>x. (fst x, frame_of (snd x))) xs)"

lemma utters_silent [intro]: "sw_tx w' = sw_tx w \<Longrightarrow> utters Q w w'"
  by (auto simp: utters_def intro: exI [of _ "[]"])

lemma utters_trans:
  assumes "utters Q w1 w2" and "utters Q w2 w3"
  shows "utters Q w1 w3"
proof -
  from assms obtain xs ys where "\<forall>x\<in>set xs. sendable (snd x) \<and> Q (snd x)" "\<forall>x\<in>set ys. sendable (snd x) \<and> Q (snd x)"
    "sw_tx w3 = sw_tx w1 @ map (\<lambda>x. (fst x, frame_of (snd x))) (xs @ ys)"
    by (auto simp: utters_def)
  then show ?thesis unfolding utters_def by (intro exI [of _ "xs @ ys"]) auto
qed

text \<open>A use of the queue ports that reads nothing.\<close>

definition writes :: "(packet \<Rightarrow> bool) \<Rightarrow> serial_world \<Rightarrow> serial_world \<Rightarrow> bool" where
  "writes Q w w' \<longleftrightarrow> utters Q w w' \<and> sw_rx w' = sw_rx w"

lemma writes_refl [simp]: "writes Q w w"
  by (auto simp: writes_def)

lemma writes_trans: "writes Q w1 w2 \<Longrightarrow> writes Q w2 w3 \<Longrightarrow> writes Q w1 w3"
  by (auto simp: writes_def intro: utters_trans)

lemma writes_frames:
  assumes "w' = w\<lparr>sw_tx := sw_tx w @ map (\<lambda>q. (f q, frame_of p)) qs\<rparr>" and "sendable p" and "Q p"
  shows "writes Q w w'"
  unfolding writes_def utters_def using assms
  by (intro conjI exI [of _ "map (\<lambda>q. (f q, p)) qs"]) auto

lemma writes_transmit:
  assumes "transmit bench_transport t p w = (ok, w')" and "wf_packet p" and "Q p"
  shows "writes Q w w'"
  using assms writes_frames [of w' w "\<lambda>_. t" p "[()]" Q]
  by (auto simp: transmit_def sendable_def split: if_splits)

section \<open>Its own packets\<close>

lemma nb_diag_ports_calm:
  assumes "nb_diag_ports nb port_numbers 18 (nb_diag_head a nb) = Some (p, n)"
  shows "wf_packet (p\<lparr>pkt_length := word_of_nat n\<rparr>)" and "calm (p\<lparr>pkt_length := word_of_nat n\<rparr>)"
  using nb_diag_ports_Some [OF assms] by (simp_all add: nb_diag_head_def put_u32_eq Let_def)

context packet_class
begin

lemma nb_send_local_writes:
  assumes "nb_send_local bench_transport p e nb w = (ok, nb', w')" and "wf_packet p" and "calm p"
  shows "writes Q w w'"
proof -
  have "Q (local_packet nb p)"
    using assms(3) by (intro calm_in) (simp add: calm_def local_packet_def)
  then show ?thesis
    using assms(1,2) writes_transmit [of "the (nb_transports nb ! unat e)" "local_packet nb p" w _ w' Q]
    by (auto simp: nb_send_local_eq split: prod.splits if_splits)
qed

lemma nb_send_topology_fault_writes:
  assumes "nb_send_topology_fault bench_transport a q e nb w = (ok, nb', w')"
  shows "writes Q w w'"
  using assms nb_send_local_writes [of "topology_fault_packet a q e (nb_topology_fault_events nb)"
      "word_of_int (router_route_for (nb_router nb) addr_MainComputer)" nb w ok nb' w']
  by (auto simp: nb_send_topology_fault_def Let_def split: if_splits)
    (simp add: topology_fault_packet_def put_u32_eq Let_def)

lemma nb_handle_local_writes:
  assumes "nb_handle_local_packet bench_transport p e now nb w = Some (ok, nb', w')"
  shows "writes Q w w'"
proof -
  let ?nb1 = "nb\<lparr>nb_last_service_ms := now\<rparr>"
  let ?ack = "default_packet\<lparr>pkt_destination := pkt_source p, pkt_type := msg_Ack,
                      pkt_flags := FlagResponse, pkt_sequence := pkt_sequence p\<rparr>"
  obtain nb2 w2 where a: "(if pkt_flags p AND FlagAckRequired \<noteq> 0
      then snd (nb_send_local bench_transport ?ack e ?nb1 w) else (?nb1, w)) = (nb2, w2)" by fastforce
  have 1: "writes Q w w2"
  proof (cases "pkt_flags p AND FlagAckRequired = 0")
    case False
    then obtain k where "nb_send_local bench_transport ?ack e ?nb1 w = (k, nb2, w2)"
      using a by (cases "nb_send_local bench_transport ?ack e ?nb1 w") simp
    then show ?thesis by (rule nb_send_local_writes) simp_all
  qed (use a in auto)
  have 2: "writes Q w2 w'"
    using assms unfolding nb_handle_local_packet_def Let_def a
    by (auto simp: nb_send_device_info_def nb_send_heartbeat_def nb_send_diagnostics_def
        split: if_splits option.splits intro: nb_send_local_writes nb_diag_ports_calm)
  show ?thesis by (rule writes_trans [OF 1 2])
qed

section \<open>Receiving\<close>

lemma nb_receive_writes:
  assumes inv: "nb_inv nb" and att: "attached (nb_transports nb) port" and p: "sendable p" "Q p"
    and run: "nb_receive bench_transport p port now nb w = Some (nb', w')"
  shows "writes Q w w'"
proof -
  have r: "router_inv (nb_router nb)" "attached (rt_ports (nb_router nb)) port"
    using inv att by (simp_all add: nb_inv_def)
  consider (out) "misplaced nb port p" "nb_topology_enforced nb"
    | (mine) "\<not> (misplaced nb port p \<and> nb_topology_enforced nb)" "pkt_destination p = addr_Northbridge"
    | (pass) "\<not> (misplaced nb port p \<and> nb_topology_enforced nb)" "pkt_destination p \<noteq> addr_Northbridge"
    by blast
  then show ?thesis
  proof cases
    case out
    with run obtain k where "nb_send_topology_fault bench_transport (pkt_source p)
        (the (binding_lookup nb (pkt_source p))) port (nb_shut_out port p nb) w = (k, nb', w')"
      by (cases "nb_send_topology_fault bench_transport (pkt_source p)
        (the (binding_lookup nb (pkt_source p))) port (nb_shut_out port p nb) w") (simp add: nb_receive_eq)
    then show ?thesis by (rule nb_send_topology_fault_writes)
  next
    case mine
    with run obtain k where "nb_handle_local_packet bench_transport p port now ((nb_counted port p nb)
        \<lparr>nb_router := router_mark_seen (pkt_source p) port now (nb_router nb)\<rparr>) w = Some (k, nb', w')"
      by (auto simp: nb_receive_eq)
    then show ?thesis by (rule nb_handle_local_writes)
  next
    case pass
    from router_forward_bench [OF r p(1), of now w] obtain ok r1 qs where
      "router_forward bench_transport p port now (nb_router nb) w = (ok, r1,
        w\<lparr>sw_tx := sw_tx w @ map (\<lambda>q. (port_transport (nb_router nb) q, frame_of p)) qs\<rparr>)" by blast
    with run pass have "w' = w\<lparr>sw_tx := sw_tx w @ map (\<lambda>q. (port_transport (nb_router nb) q, frame_of p)) qs\<rparr>"
      by (simp add: nb_receive_eq)
    then show ?thesis by (rule writes_frames) (rule p)+
  qed
qed

end

text \<open>A port in step with its wire.\<close>

context frame_class
begin

lemma nb_bytes_writes:
  assumes "nb_bytes bench_transport port now bs nb w = Some (nb', w')"
    and "nb_inv nb" and "attached (nb_transports nb) port" and "in_step Q (nb_parsers nb ! unat port) (bs @ cs)"
  shows "writes Q w w' \<and> in_step Q (nb_parsers nb' ! unat port) cs"
  using assms
proof (induction bs arbitrary: nb w)
  case (Cons b bs)
  obtain ok s1 p where push: "parser_push (nb_parsers nb ! unat port) b default_packet = (ok, s1, p)"
    by (metis prod_cases3)
  let ?nb1 = "nb\<lparr>nb_parsers := (nb_parsers nb)[unat port := s1]\<rparr>"
  have port: "unat port < kMaxRouterPorts" using Cons.prems(2,3) nb_inv_transports by (auto simp: attached_def)
  then have ps: "parser_inv (nb_parsers nb ! unat port)" using Cons.prems(2) by (simp add: nb_inv_def)
  from parser_push_inv [OF this] push have "parser_inv s1" by (metis fst_conv snd_conv)
  then have inv1: "nb_inv ?nb1" using Cons.prems(2) by (auto simp: nb_inv_def dest!: set_list_update_subset)
  have at1: "attached (nb_transports ?nb1) port" "nb_parsers ?nb1 ! unat port = s1"
    using Cons.prems(2,3) port by (simp_all add: nb_inv_def)
  have "in_step Q (nb_parsers nb ! unat port) (b # (bs @ cs))" using Cons.prems(4) by simp
  from in_step_push [OF this push] received_in
  have s: "in_step Q s1 (bs @ cs)" "ok \<Longrightarrow> sendable p \<and> Q p" by auto
  show ?case
  proof (cases ok)
    case False
    with push Cons.prems(1) s(1) at1 show ?thesis by (intro Cons.IH [OF _ inv1]) simp_all
  next
    case True
    obtain nb2 w2 where r: "nb_receive bench_transport p port now ?nb1 w = Some (nb2, w2)"
      and rest: "nb_bytes bench_transport port now bs nb2 w2 = Some (nb', w')"
      using push Cons.prems(1) True by (auto split: option.splits)
    have p: "sendable p" "Q p" "wf_packet p" using s(2) True by (simp_all add: sendable_def)
    from nb_receive_keeps [OF inv1 at1(1) p(3) r] at1
    have k: "nb_inv nb2" "attached (nb_transports nb2) port" "nb_parsers nb2 ! unat port = s1"
      by (simp_all add: same_setup_def)
    with Cons.IH [OF rest k(1,2)] s(1) nb_receive_writes [OF inv1 at1(1) p(1,2) r] show ?thesis
      by (auto intro: writes_trans)
  qed
qed simp

end

section \<open>All ports\<close>

definition tuned :: "(packet \<Rightarrow> bool) \<Rightarrow> northbridge \<Rightarrow> serial_world \<Rightarrow> bool" where
  "tuned Q nb w \<longleftrightarrow> (\<forall>i t. i < kMaxRouterPorts \<longrightarrow> nb_transports nb ! i = Some t \<longrightarrow>
     in_step Q (nb_parsers nb ! i) (sw_rx w t))"

definition own_wires :: "northbridge \<Rightarrow> bool" where
  "own_wires nb \<longleftrightarrow> (\<forall>i j t. i < kMaxRouterPorts \<longrightarrow> j < kMaxRouterPorts \<longrightarrow> nb_transports nb ! i = Some t \<longrightarrow>
     nb_transports nb ! j = Some t \<longrightarrow> i = j)"

lemma own_wires_setup: "same_setup nb nb' \<Longrightarrow> own_wires nb' = own_wires nb"
  by (simp add: own_wires_def same_setup_def)

context frame_class
begin

lemma nb_service_port_utters:
  assumes "nb_service_port bench_transport port now nb w = Some (nb', w')" and inv: "nb_inv nb" and "own_wires nb" and "tuned Q nb w"
  shows "utters Q w w' \<and> tuned Q nb' w'"
proof (cases "attached (nb_transports nb) port")
  case True
  then obtain t where t: "nb_transports nb ! unat port = Some t" and port: "unat port < kMaxRouterPorts"
    using nb_inv_transports [OF inv] by (auto simp: attached_def)
  let ?nb = "upd_stats port (\<lambda>s. s\<lparr>ps_rx_bytes := ps_rx_bytes s + word_of_nat (length (take 64 (sw_rx w t)))\<rparr>) nb"
  let ?w = "w\<lparr>sw_rx := (sw_rx w)(t := drop 64 (sw_rx w t))\<rparr>"
  obtain nb2 where b: "nb_bytes bench_transport port now (take 64 (sw_rx w t)) ?nb ?w = Some (nb2, w')"
    and nb': "nb' = nb_note_rejects port nb2"
    using assms(1) True t by (auto simp: nb_service_port_def attached_def split: prod.splits option.splits)
  have i: "nb_inv ?nb" "attached (nb_transports ?nb) port" using inv True by simp_all
  have "in_step Q (nb_parsers ?nb ! unat port) (take 64 (sw_rx w t) @ drop 64 (sw_rx w t))"
    using assms(4) t port by (simp add: tuned_def)
  from nb_bytes_writes [OF b i this] have w: "utters Q ?w w'" "sw_rx w' = sw_rx ?w"
    and s: "in_step Q (nb_parsers nb2 ! unat port) (drop 64 (sw_rx w t))" by (simp_all add: writes_def)
  have other: "nb_parsers nb2 ! j = nb_parsers nb ! j" if "j \<noteq> unat port" for j
    using nb_bytes_other_parsers [OF b i that] by simp
  have k: "nb_transports nb' = nb_transports nb" "nb_parsers nb' = nb_parsers nb2"
    using nb_bytes_keeps [OF i b prod.collapse [symmetric]]
    by (simp_all add: nb' same_setup_def nb_note_rejects_def Let_def)
  have "in_step Q (nb_parsers nb' ! j) (sw_rx w' u)" if j: "j < kMaxRouterPorts" "nb_transports nb' ! j = Some u" for j u
  proof (cases "j = unat port")
    case True
    with j t have "u = t" by (simp add: k)
    with True s show ?thesis by (simp add: k w(2))
  next
    case False
    with j t port assms(3) have "u \<noteq> t" by (auto simp: own_wires_def k(1))
    with False j assms(4) show ?thesis by (simp add: k w(2) other tuned_def)
  qed
  moreover have "utters Q w w'" using w(1) by (simp add: utters_def)
  ultimately show ?thesis by (simp add: tuned_def)
next
  case False
  with assms show ?thesis by (auto simp: nb_service_port_def attached_def split: option.splits)
qed

lemma nb_service_ports_utters:
  "nb_service_ports bench_transport ports now nb w = Some (nb', w') \<Longrightarrow> nb_inv nb \<Longrightarrow> own_wires nb \<Longrightarrow> tuned Q nb w \<Longrightarrow>
    utters Q w w' \<and> tuned Q nb' w'"
proof (induction ports arbitrary: nb w)
  case (Cons q ports)
  then obtain nb1 w1 where p: "nb_service_port bench_transport q now nb w = Some (nb1, w1)"
    and rest: "nb_service_ports bench_transport ports now nb1 w1 = Some (nb', w')"
    by (auto split: option.splits)
  have k: "nb_inv nb1" "own_wires nb1"
    using nb_service_port_keeps [OF Cons.prems(2) p] Cons.prems(3) own_wires_setup by auto
  from nb_service_port_utters [OF p Cons.prems(2-4)] Cons.IH [OF rest k] show ?case
    by (auto intro: utters_trans)
qed auto

lemma nb_service_utters:
  assumes "nb_service bench_transport now nb w = Some (nb', w')" and "nb_inv nb" and "own_wires nb" and "tuned Q nb w"
  shows "utters Q w w'" and "tuned Q nb' w'"
  using nb_service_ports_utters [of port_numbers now "nb\<lparr>nb_last_service_ms := now\<rparr>" w nb' w'] assms
  by (simp_all add: nb_service_def own_wires_def tuned_def)

end

end
