(* ===== verification/SecurityAbstraction.thy ===== *)
theory SecurityAbstraction
  imports SecurityController
begin

text \<open>
  What the security controller promises, as a machine of two variables: the mode and the filtered
  engine signal. Its outputs are functions of the two. The controller on its board implements it:
  every packet and every service is one step of the machine, and the levels of the two output pins
  are its outputs.
\<close>

section \<open>The machine\<close>

record lock_spec =
  lk_mode :: security_mode
  lk_engine :: bool

definition lk_alarm :: "lock_spec \<Rightarrow> bool" where
  "lk_alarm v \<longleftrightarrow> lk_mode v = Mode_Alarm"

definition lk_inhibit :: "lock_spec \<Rightarrow> bool" where
  "lk_inhibit v \<longleftrightarrow> (lk_mode v = Mode_Locked \<or> lk_mode v = Mode_Alarm) \<and> \<not> lk_engine v"

text \<open>A command, with the engine signal as it is then read.\<close>

definition lock_told :: "security_command \<Rightarrow> bool \<Rightarrow> lock_spec \<Rightarrow> lock_spec" where
  "lock_told c engine v =
    (if c = cmd_Lock then \<lparr>lk_mode = (if engine then Mode_LockPending else Mode_Locked), lk_engine = engine\<rparr>
     else if c = cmd_Unlock then \<lparr>lk_mode = Mode_Unlocked, lk_engine = engine\<rparr>
     else if c = cmd_SilenceAlarm
     then v\<lparr>lk_mode := (if lk_mode v = Mode_Alarm then Mode_Locked else lk_mode v)\<rparr>
     else if c = cmd_RequestState then v\<lparr>lk_engine := engine\<rparr>
     else v)"

text \<open>The passing of time: a pending lock is confirmed, an alarm ends, a new shock starts one.\<close>

definition lock_tick :: "bool \<Rightarrow> bool \<Rightarrow> bool \<Rightarrow> lock_spec \<Rightarrow> lock_spec" where
  "lock_tick engine over shock v =
    (let m1 = (if lk_mode v = Mode_LockPending \<and> \<not> engine then Mode_Locked else lk_mode v);
         m2 = (if m1 = Mode_Alarm \<and> over then Mode_Locked else m1)
     in \<lparr>lk_mode = (if m2 = Mode_Locked \<and> shock then Mode_Alarm else m2), lk_engine = engine\<rparr>)"

section \<open>The controller as a state of the machine\<close>

definition lock_view :: "('h, 'p) security_server \<Rightarrow> lock_spec" where
  "lock_view s = \<lparr>lk_mode = ss_mode s, lk_engine = ss_engine_running s\<rparr>"

lemma lock_view_sel [simp]: "lk_mode (lock_view s) = ss_mode s" "lk_engine (lock_view s) = ss_engine_running s"
  by (simp_all add: lock_view_def)

definition represents :: "('g gpio_security, 'p) security_server \<Rightarrow> lock_spec \<Rightarrow> bool" where
  "represents s v \<longleftrightarrow> lock_view s = v \<and> gs_alarm (ss_hardware s) = lk_alarm v \<and> gs_inhibit (ss_hardware s) = lk_inhibit v
     \<and> (ss_mode s \<noteq> Mode_Unlocked \<longrightarrow> ss_engine_initialized s) \<and> (ss_alarm_timer_active s \<longleftrightarrow> ss_mode s = Mode_Alarm)"

text \<open>The outputs of the board are what was last written.\<close>

lemma board_set_alarm [simp]:
  "gs_alarm (ss_hardware (snd (set_alarm_output (security_board gp pf net) b s))) = b"
  "gs_inhibit (ss_hardware (snd (set_alarm_output (security_board gp pf net) b s))) = gs_inhibit (ss_hardware s)"
  "fst (set_alarm_output (security_board gp pf net) b s)"
  by (simp_all add: set_alarm_output_def gpio_security_hw_def gpio_set_alarm_output_def)

lemma board_set_inhibit [simp]:
  "gs_inhibit (ss_hardware (set_start_inhibit (security_board gp pf net) b s)) = b"
  "gs_alarm (ss_hardware (set_start_inhibit (security_board gp pf net) b s)) = gs_alarm (ss_hardware s)"
  by (simp_all add: set_start_inhibit_def gpio_security_hw_def gpio_set_start_inhibit_def)

lemma board_update_inhibit [simp]:
  "gs_inhibit (ss_hardware (update_start_inhibit (security_board gp pf net) s)) =
    ((ss_mode s = Mode_Locked \<or> ss_mode s = Mode_Alarm) \<and> \<not> engine_view (security_board gp pf net) s)"
  "gs_alarm (ss_hardware (update_start_inhibit (security_board gp pf net) s)) = gs_alarm (ss_hardware s)"
  by (simp_all add: update_start_inhibit_def)

text \<open>An update of the start prevention restores the representation.\<close>

lemma represents_update:
  assumes "gs_alarm (ss_hardware s) = (ss_mode s = Mode_Alarm)" and "ss_mode s \<noteq> Mode_Unlocked \<longrightarrow> ss_engine_initialized s"
    and "ss_alarm_timer_active s \<longleftrightarrow> ss_mode s = Mode_Alarm"
  shows "represents (update_start_inhibit (security_board gp pf net) s) (lock_view s)"
  using assms by (auto simp: represents_def lock_view_def lk_alarm_def lk_inhibit_def engine_view_def)

lemma sampled_initialized [simp]: "ss_engine_initialized (sample_inputs env now s)"
  by (simp add: sample_engine_def Let_def)

lemma represents_locked:
  "represents (locked_state (security_board gp pf net) b now s)
    \<lparr>lk_mode = (if \<not> b then Mode_Unlocked
       else if ss_engine_running (sample_inputs (security_board gp pf net) now s) then Mode_LockPending else Mode_Locked),
     lk_engine = ss_engine_running (sample_inputs (security_board gp pf net) now s)\<rparr>"
  (is "represents _ \<lparr>lk_mode = _, lk_engine = ?e\<rparr>")
proof (cases b)
  case True
  let ?s = "(persist_armed (security_board gp pf net) True ((snd (set_alarm_output (security_board gp pf net) False
      (sample_inputs (security_board gp pf net) now s)))\<lparr>ss_alarm_timer_active := False, ss_recovery_requires_stop := False\<rparr>))
      \<lparr>ss_mode := (if ?e then Mode_LockPending else Mode_Locked)\<rparr>"
  have "represents (update_start_inhibit (security_board gp pf net) ?s) (lock_view ?s)"
    by (rule represents_update) simp_all
  with True show ?thesis by (simp add: locked_state_def Let_def lock_view_def)
next
  case False
  then show ?thesis
    by (simp add: locked_state_def Let_def represents_def lock_view_def lk_alarm_def lk_inhibit_def)
qed

lemma represents_silenced:
  assumes "represents s v"
  shows "represents (silenced_state (security_board gp pf net) s)
    (v\<lparr>lk_mode := (if lk_mode v = Mode_Alarm then Mode_Locked else lk_mode v)\<rparr>)"
proof -
  obtain s1 where s1: "set_alarm_output (security_board gp pf net) False s = (True, s1)"
    using board_set_alarm(3) [of gp pf net False s] by (metis prod.collapse)
  let ?s = "s1\<lparr>ss_alarm_timer_active := False,
      ss_mode := (if ss_mode s = Mode_Alarm then Mode_Locked else ss_mode s)\<rparr>"
  have k: "\<not> gs_alarm (ss_hardware s1)" "ss_engine_running s1 = ss_engine_running s"
    "ss_engine_initialized s1 = ss_engine_initialized s"
    using board_set_alarm(1) [of gp pf net False s] set_alarm_output_sel [of "security_board gp pf net" False s]
    by (simp_all add: s1)
  have "represents (update_start_inhibit (security_board gp pf net) ?s) (lock_view ?s)"
    by (rule represents_update) (use k assms in \<open>auto simp: represents_def\<close>)
  moreover have "lock_view ?s = v\<lparr>lk_mode := (if lk_mode v = Mode_Alarm then Mode_Locked else lk_mode v)\<rparr>"
    using assms k by (auto simp: represents_def lock_view_def)
  ultimately show ?thesis by (simp add: silenced_state_def s1)
qed

lemma represents_alarmed:
  assumes "represents s v" and "ss_mode s = Mode_Locked"
  shows "represents (alarmed_state (security_board gp pf net) now s) (v\<lparr>lk_mode := Mode_Alarm\<rparr>)"
proof -
  obtain s1 where s1: "set_alarm_output (security_board gp pf net) True s = (True, s1)"
    using board_set_alarm(3) [of gp pf net True s] by (metis prod.collapse)
  let ?s = "s1\<lparr>ss_mode := Mode_Alarm, ss_alarm_started_ms := now, ss_alarm_timer_active := True\<rparr>"
  have k: "gs_alarm (ss_hardware s1)" "ss_engine_running s1 = ss_engine_running s"
    "ss_engine_initialized s1 = ss_engine_initialized s"
    using board_set_alarm(1) [of gp pf net True s] set_alarm_output_sel [of "security_board gp pf net" True s]
    by (simp_all add: s1)
  have "represents (update_start_inhibit (security_board gp pf net) ?s) (lock_view ?s)"
    by (rule represents_update) (use k assms in \<open>auto simp: represents_def\<close>)
  moreover have "lock_view ?s = v\<lparr>lk_mode := Mode_Alarm\<rparr>"
    using assms k by (auto simp: represents_def lock_view_def)
  ultimately show ?thesis using assms(2) by (simp add: alarmed_state_def s1)
qed

section \<open>Steps\<close>

lemma represents_cong:
  assumes "lock_view s' = lock_view s" and "ss_hardware s' = ss_hardware s"
    and "ss_engine_initialized s' = ss_engine_initialized s" and "ss_alarm_timer_active s' = ss_alarm_timer_active s"
  shows "represents s' v = represents s v"
proof -
  have "ss_mode s' = ss_mode s" using assms(1) by (simp add: lock_view_def)
  with assms show ?thesis by (simp add: represents_def)
qed

lemma represents_mode:
  assumes "represents s v"
  shows "ss_mode s = lk_mode v" "ss_alarm_timer_active s \<longleftrightarrow> lk_mode v = Mode_Alarm"
  using assms by (auto simp: represents_def)

lemma represents_sampled:
  assumes "represents s v"
  shows "represents (update_start_inhibit (security_board gp pf net) (sample_inputs (security_board gp pf net) now s))
    (v\<lparr>lk_engine := ss_engine_running (sample_inputs (security_board gp pf net) now s)\<rparr>)"
proof -
  let ?s = "sample_inputs (security_board gp pf net) now s"
  have "represents (update_start_inhibit (security_board gp pf net) ?s) (lock_view ?s)"
    by (rule represents_update) (use assms in \<open>auto simp: represents_def lk_alarm_def\<close>)
  moreover have "lock_view ?s = v\<lparr>lk_engine := ss_engine_running ?s\<rparr>" using assms by (auto simp: represents_def lock_view_def)
  ultimately show ?thesis by simp
qed

definition lock_heard :: "packet \<Rightarrow> bool \<Rightarrow> lock_spec \<Rightarrow> lock_spec" where
  "lock_heard p engine v =
    (if pkt_type p = msg_SecurityCommand \<and> pkt_length p = 1 then lock_told (pkt_payload p ! 0) engine v else v)"

lemma sample_last_controller:
  "ss_engine_running (sample_engine env now (s\<lparr>ss_last_controller := a\<rparr>)) = ss_engine_running (sample_engine env now s)"
  by (simp add: sample_engine_def Let_def)

lemma represents_packet:
  assumes "represents s v"
  shows "represents (packet_state (security_board gp pf net) p now s)
    (lock_heard p (ss_engine_running (sample_inputs (security_board gp pf net) now s)) v)"
proof -
  let ?s = "s\<lparr>ss_last_controller := pkt_source p\<rparr>"
  have 1: "represents ?s v" using assms by (subst represents_cong [of _ s]) (simp_all add: lock_view_def)
  note steps = represents_locked [of gp pf net True now ?s] represents_locked [of gp pf net False now ?s]
    represents_silenced [OF 1, of gp pf net] represents_sampled [OF 1, of gp pf net now]
  show ?thesis
    using steps assms 1
    by (simp add: packet_state_def lock_heard_def commanded_state_def lock_told_def Let_def sample_last_controller)
qed

text \<open>The time of the alarm is up, and the trigger input has just been confirmed.\<close>

definition alarm_over :: "u32 \<Rightarrow> ('h, 'p) security_server \<Rightarrow> bool" where
  "alarm_over now s \<longleftrightarrow> now - ss_alarm_started_ms s \<ge> ss_alarm_duration_ms s"

definition new_shock :: "('h, 'p, 'w) security_env \<Rightarrow> u32 \<Rightarrow> ('h, 'p) security_server \<Rightarrow> bool" where
  "new_shock env now s \<longleftrightarrow> ss_trigger (sample_inputs env now s) \<and> \<not> ss_previous_trigger s"

lemma represents_service:
  assumes "represents s v"
  shows "represents (serviced_state (security_board gp pf net) now s)
    (lock_tick (ss_engine_running (sample_inputs (security_board gp pf net) now s)) (alarm_over now s)
       (new_shock (security_board gp pf net) now s) v)"
proof -
  let ?B = "security_board gp pf net"
  let ?s1 = "sample_inputs ?B now s"
  let ?e = "ss_engine_running ?s1"
  let ?s2 = "confirmed_state ?s1"
  let ?v2 = "\<lparr>lk_mode = (if lk_mode v = Mode_LockPending \<and> \<not> ?e then Mode_Locked else lk_mode v), lk_engine = ?e\<rparr>"
  let ?s3 = "update_start_inhibit ?B ?s2"
  have v: "lk_mode v = ss_mode s" using assms by (auto simp: represents_def)
  obtain v2 where v2: "v2 = ?v2" by blast
  have "lock_view ?s2 = v2" by (simp add: confirmed_state_def lock_view_def v v2)
  moreover have "represents ?s3 (lock_view ?s2)"
    by (rule represents_update) (use assms in \<open>auto simp: represents_def lk_alarm_def confirmed_state_def\<close>)
  ultimately have 3: "represents ?s3 v2" by simp
  have m3: "ss_mode ?s3 = lk_mode v2" using represents_mode(1) [OF 3] .
  have keep: "ss_alarm_started_ms ?s3 = ss_alarm_started_ms s" "ss_alarm_duration_ms ?s3 = ss_alarm_duration_ms s"
    "ss_trigger ?s3 = ss_trigger ?s1" "ss_previous_trigger ?s3 = ss_previous_trigger s"
    by (simp_all add: confirmed_state_def)
  have over: "expired now ?s3 \<longleftrightarrow> lk_mode v2 = Mode_Alarm \<and> alarm_over now s"
    using represents_mode [OF 3] keep(1,2) by (auto simp: expired_def alarm_over_def)
  let ?s4 = "if expired now ?s3 then silenced_state ?B ?s3 else ?s3"
  let ?v4 = "if lk_mode v2 = Mode_Alarm \<and> alarm_over now s then v2\<lparr>lk_mode := Mode_Locked\<rparr> else v2"
  have 4: "represents ?s4 ?v4"
    using 3 represents_silenced [OF 3, of gp pf net] by (auto simp: over)
  have m4: "ss_mode ?s4 = lk_mode ?v4" using represents_mode(1) [OF 4] .
  have shock: "ss_trigger ?s4 \<and> \<not> ss_previous_trigger ?s4 \<longleftrightarrow> new_shock ?B now s"
    using keep(3,4) by (simp add: new_shock_def)
  let ?s6 = "if ss_mode ?s4 = Mode_Locked \<and> ss_trigger ?s4 \<and> \<not> ss_previous_trigger ?s4
      then alarmed_state ?B now ?s4 else ?s4"
  let ?v6 = "if lk_mode ?v4 = Mode_Locked \<and> new_shock ?B now s then ?v4\<lparr>lk_mode := Mode_Alarm\<rparr> else ?v4"
  have 6: "represents ?s6 ?v6"
    using 4 represents_alarmed [OF 4, of gp pf net now] unfolding shock m4 by presburger
  have "?v6 = lock_tick ?e (alarm_over now s) (new_shock ?B now s) v"
    by (simp add: lock_tick_def Let_def v2)
  with 6 have "represents ?s6 (lock_tick ?e (alarm_over now s) (new_shock ?B now s) v)" by simp
  then show ?thesis
    unfolding serviced_state_def Let_def by (subst represents_cong [of _ ?s6]) (simp_all add: lock_view_def)
qed

section \<open>Runs\<close>

lemma represents_self: "represents s v \<Longrightarrow> represents s (lock_view s)"
  by (simp add: represents_def)

lemma represents_restore:
  assumes "ss_mode s = Mode_Unlocked"
  shows "represents (snd (restore_persisted_state (security_board gp pf net) now s))
    (lock_view (snd (restore_persisted_state (security_board gp pf net) now s)))"
  by (auto simp: restore_persisted_state_def Let_def represents_def lock_view_def lk_alarm_def lk_inhibit_def
      split: prod.split option.split)

text \<open>A drain tells the machine the packets it hands out, each with some reading of the engine.\<close>

definition heard :: "packet list \<Rightarrow> bool list \<Rightarrow> lock_spec \<Rightarrow> lock_spec" where
  "heard ps es v = fold (\<lambda>(p, e). lock_heard p e) (zip ps es) v"

lemma heard_snoc: "length es = length ps \<Longrightarrow> heard (ps @ [p]) (es @ [e]) v = lock_heard p e (heard ps es v)"
  by (simp add: heard_def)

lemma body_heard:
  assumes "security_body (security_board gp pf net) now p s nd w = (s', nd', w')" and "represents s v"
  shows "\<exists>e. represents s' (lock_heard p e v)"
proof -
  obtain h nd1 w1 where h: "security_handle_system (security_board gp pf net) p now s nd w = (h, nd1, w1)"
    by (metis prod_cases3)
  show ?thesis
  proof (cases h)
    case True
    then have "pkt_type p \<noteq> msg_SecurityCommand" using h by (auto simp: security_handle_system_def split: if_splits)
    with assms h True show ?thesis by (simp add: security_body_def lock_heard_def)
  next
    case False
    then have "s' = packet_state (security_board gp pf net) p now s"
      using assms(1) h security_handle_packet_state [of "security_board gp pf net" p now s nd1 w1]
      by (auto simp: security_body_def)
    with represents_packet [OF assms(2)] show ?thesis by blast
  qed
qed

lemma drain_heard:
  assumes d: "node_drain net now (recording (security_body (security_board gp pf net) now)) (s, []) nd w = Some ((s1, ps), nd1, w1)"
    and "node_inv nd" and "represents s v"
  shows "\<exists>es. length es = length ps \<and> represents s1 (heard ps es v)"
proof -
  let ?I = "\<lambda>(x, ps). \<exists>es. length es = length ps \<and> represents x (heard ps es v)"
  let ?b = "recording (security_body (security_board gp pf net) now)"
  have start: "?I (s, [])" using assms(3) by (simp add: heard_def)
  have "?I (s1, ps) \<and> node_inv nd1"
  proof (rule node_drain_talk_inv [where I = ?I, OF d assms(2) start])
    fix p y nd w y' nd' w'
    assume b: "?b p y nd w = (y', nd', w')"
    obtain x qs where y: "y = (x, qs)" by fastforce
    obtain x' where b': "security_body (security_board gp pf net) now p x nd w = (x', nd', w')" and y': "y' = (x', qs @ [p])"
      using b by (auto simp: recording_def y split: prod.splits)
    show "node_talk net (nd, w) (nd', w')" using security_body_talk [OF b'] by simp
    assume "?I y"
    then obtain es where "length es = length qs" "represents x (heard qs es v)" by (auto simp: y)
    with body_heard [OF b'] obtain e where "represents x' (heard (qs @ [p]) (es @ [e]) v)" "length (es @ [e]) = length (qs @ [p])"
      by (auto simp: heard_snoc)
    then show "?I y'" unfolding y' by blast
  qed
  then show ?thesis by simp
qed

lemma controller_represents:
  assumes "security_controller_service (security_board gp pf net) now s nd w = Some (s', nd', w')"
    and "node_inv nd" and "represents s v"
  shows "\<exists>s1 ps nd1 w1 es.
    node_drain net now (recording (security_body (security_board gp pf net) now)) (s, []) nd w = Some ((s1, ps), nd1, w1)
    \<and> length es = length ps
    \<and> represents s' (lock_tick (ss_engine_running (sample_inputs (security_board gp pf net) now s1)) (alarm_over now s1)
        (new_shock (security_board gp pf net) now s1) (heard ps es v))"
proof -
  let ?B = "security_board gp pf net"
  obtain s1 nd1 w1 nd2 w2 where d: "node_drain net now (security_body ?B now) s nd w = Some (s1, nd1, w1)"
    and sv: "security_service ?B now s1 nd1 w1 = (s', nd2, w2)"
    using assms(1) by (auto simp: security_controller_service_def split: option.splits prod.splits)
  obtain ps where r: "node_drain net now (recording (security_body ?B now)) (s, []) nd w = Some ((s1, ps), nd1, w1)"
    using node_drain_recorded [OF d, of "[]"] by auto
  from drain_heard [OF r assms(2,3)] obtain es where es: "length es = length ps" "represents s1 (heard ps es v)" by blast
  from represents_service [OF es(2), of gp pf net now] security_service_state [of ?B now s1 nd1 w1] r es(1)
  show ?thesis by (auto simp: sv)
qed

lemma security_reachable_represents:
  "security_reachable gp pf net x \<Longrightarrow> represents (fst x) (lock_view (fst x))"
proof (induction rule: security_reachable.induct)
  case (sec_boot pins flash t now s nd w)
  then show ?case using represents_restore [of "security_server_init _ _"]
    by (auto simp: security_setup_def Let_def security_server_init_def)
next
  case (sec_loop s nd w now s' nd' w')
  from security_reachable_inv [OF sec_loop(1)] have "node_inv nd" by simp
  from controller_represents [OF sec_loop(2) this] sec_loop(3) represents_self show ?case by fastforce
next
  case (sec_world s nd w pins w')
  then show ?case by (auto simp: represents_def lock_view_def)
qed (auto simp: represents_def lock_view_def ss_set_engine_stop_confirm_ms_def ss_set_shock_warning_confirm_ms_def
  ss_set_shock_trigger_confirm_ms_def ss_set_alarm_duration_ms_def)

section \<open>The pins\<close>

text \<open>
  The board remembers what it has set its two outputs to; the pins follow it. The two setters write
  the pin and the memory side by side, and nothing else touches either.
\<close>

definition pins_follow :: "(nat \<Rightarrow> 'g \<Rightarrow> bool) \<Rightarrow> ('g gpio_security, 'p) security_server \<Rightarrow> bool" where
  "pins_follow driven s \<longleftrightarrow>
     driven kAlarmOutputPin (gs_pins (ss_hardware s)) = gs_alarm (ss_hardware s)
     \<and> driven kStartInhibitPin (gs_pins (ss_hardware s)) = gs_inhibit (ss_hardware s)"

lemma pins_follow_cong: "ss_hardware s' = ss_hardware s \<Longrightarrow> pins_follow driven s' = pins_follow driven s"
  by (simp add: pins_follow_def)

lemma pins_follow_keep [simp]:
  "pins_follow driven (sample_inputs env now s) = pins_follow driven s"
  "pins_follow driven (persist_armed env b s) = pins_follow driven s"
  "pins_follow driven (s\<lparr>ss_mode := m\<rparr>) = pins_follow driven s"
  "pins_follow driven (s\<lparr>ss_last_controller := a\<rparr>) = pins_follow driven s"
  "pins_follow driven (s\<lparr>ss_alarm_timer_active := b\<rparr>) = pins_follow driven s"
  "pins_follow driven (s\<lparr>ss_alarm_started_ms := t\<rparr>) = pins_follow driven s"
  "pins_follow driven (s\<lparr>ss_recovery_requires_stop := b\<rparr>) = pins_follow driven s"
  "pins_follow driven (s\<lparr>ss_previous_warning := b\<rparr>) = pins_follow driven s"
  "pins_follow driven (s\<lparr>ss_previous_trigger := b\<rparr>) = pins_follow driven s"
  by (simp_all add: pins_follow_def)

lemma restored_hardware:
  "ss_hardware (snd (restore_persisted_state (security_board gp pf net) now s)) =
    ss_hardware (set_start_inhibit (security_board gp pf net) False (snd (set_alarm_output (security_board gp pf net) False s)))"
  by (cases "pref_load_armed pf False (ss_persistence s)") (simp add: restore_persisted_state_def Let_def)

context driven_pins
begin

lemma alarm_pin_follows [simp]:
  "pins_follow driven s \<Longrightarrow> pins_follow driven (snd (set_alarm_output (security_board gp pf net) b s))"
  by (simp add: pins_follow_def set_alarm_output_def gpio_security_hw_def gpio_set_alarm_output_def driven_write)

lemma inhibit_pin_follows [simp]:
  "pins_follow driven s \<Longrightarrow> pins_follow driven (set_start_inhibit (security_board gp pf net) b s)"
  "pins_follow driven s \<Longrightarrow> pins_follow driven (update_start_inhibit (security_board gp pf net) s)"
  by (simp_all add: pins_follow_def update_start_inhibit_def set_start_inhibit_def gpio_security_hw_def
    gpio_set_start_inhibit_def driven_write)

lemma silenced_follows [simp]:
  "pins_follow driven s \<Longrightarrow> pins_follow driven (silenced_state (security_board gp pf net) s)"
  using alarm_pin_follows [of s pf net False]
  by (cases "set_alarm_output (security_board gp pf net) False s") (simp add: silenced_state_def)

lemma alarmed_follows [simp]:
  "pins_follow driven s \<Longrightarrow> pins_follow driven (alarmed_state (security_board gp pf net) now s)"
  using alarm_pin_follows [of s pf net True]
  by (cases "set_alarm_output (security_board gp pf net) True s") (simp add: alarmed_state_def)

lemma packet_follows:
  assumes "pins_follow driven s"
  shows "pins_follow driven (packet_state (security_board gp pf net) p now s)"
  using assms by (auto simp: packet_state_def commanded_state_def locked_state_def Let_def)

lemma service_follows:
  assumes "pins_follow driven s"
  shows "pins_follow driven (serviced_state (security_board gp pf net) now s)"
  using assms by (auto simp: serviced_state_def confirmed_state_def Let_def)

lemma setup_follows:
  "pins_follow driven (fst (security_setup gp pf net pins flash t now))"
proof -
  let ?h = "gpio_security_begin gp \<lparr>gs_pins = pins, gs_alarm = False, gs_inhibit = False\<rparr>"
  let ?B = "security_board gp pf net" and ?p = "snd (pref_begin pf \<lparr>pp_preferences = flash, pp_opened = False\<rparr>)"
  have "pins_follow driven (security_server_init ?h ?p)"
    by (simp add: pins_follow_def security_server_init_def gpio_security_begin_def Let_def driven_mode driven_write)
  then have "pins_follow driven (set_start_inhibit ?B False (snd (set_alarm_output ?B False (security_server_init ?h ?p))))"
    by simp
  moreover have "ss_hardware (fst (security_setup gp pf net pins flash t now)) =
      ss_hardware (set_start_inhibit ?B False (snd (set_alarm_output ?B False (security_server_init ?h ?p))))"
    by (simp add: security_setup_def Let_def restored_hardware)
  ultimately show ?thesis
    using pins_follow_cong [of _ "set_start_inhibit ?B False (snd (set_alarm_output ?B False (security_server_init ?h ?p)))" driven] by blast
qed

end

text \<open>The outputs of the machine, on the pins.\<close>

definition drives :: "(nat \<Rightarrow> 'g \<Rightarrow> bool) \<Rightarrow> ('g gpio_security, 'p) security_server \<Rightarrow> lock_spec \<Rightarrow> bool" where
  "drives driven s v \<longleftrightarrow> represents s v \<and> driven kAlarmOutputPin (gs_pins (ss_hardware s)) = lk_alarm v
     \<and> driven kStartInhibitPin (gs_pins (ss_hardware s)) = lk_inhibit v"

lemma drives_follow: "drives driven s v \<longleftrightarrow> represents s v \<and> pins_follow driven s"
  by (auto simp: drives_def represents_def pins_follow_def)

lemma setup_represents: "represents (fst (security_setup gp pf net pins flash t now)) (lock_view (fst (security_setup gp pf net pins flash t now)))"
  using security_reachable_represents [OF sec_boot [OF prod.collapse [symmetric]]] by simp

section \<open>Properties\<close>

text \<open>C17: Refinement of the security controller, step by step, down to the pins. After its setup the
  controller drives its alarm pin and its start-prevention pin as the abstract machine of mode and engine
  signal says for its state. From any state in which it does, handling any packet is the machine's step for
  the command in it, and one service is the machine's tick, with the engine signal as sampled, whether the
  alarm's time is up, and whether a shock has just been confirmed; each time the two pins are driven as the
  machine says for its next state. (The level a pin drives is what was last written to it.)\<close>

theorem security_refines_lock:
  assumes "driven_pins gp driven"
  shows "(case security_setup gp pf net pins flash t now of (s0, _) \<Rightarrow> drives driven s0 (lock_view s0))
    \<and> (drives driven s v \<longrightarrow>
      (case security_handle_packet (security_board gp pf net) p now s nd w of (_, s1, _, _) \<Rightarrow>
        drives driven s1 (lock_heard p (ss_engine_running (sample_inputs (security_board gp pf net) now s)) v))
    \<and> (case security_service (security_board gp pf net) now s nd w of (s1, _, _) \<Rightarrow>
        drives driven s1 (lock_tick (ss_engine_running (sample_inputs (security_board gp pf net) now s))
          (alarm_over now s) (new_shock (security_board gp pf net) now s) v)))"
  using represents_packet [of s v gp pf net p now] represents_service [of s v gp pf net now]
    driven_pins.packet_follows [OF assms, of s pf net p now] driven_pins.service_follows [OF assms, of s pf net now]
    security_handle_packet_state [of "security_board gp pf net" p now s nd w]
    security_service_state [of "security_board gp pf net" now s nd w]
    driven_pins.setup_follows [OF assms, of pf net pins flash t now]
    setup_represents [of gp pf net pins flash t now]
  by (auto simp: drives_follow split: prod.split)

theorem security_refines_lock_witness:
  "case security_service demo_board 400 demo_shaken (node_init addr_Security 0) quiet_world of (s1, _, _) \<Rightarrow>
    drives output_level s1 \<lparr>lk_mode = Mode_Alarm, lk_engine = False\<rparr>
    \<and> pb_outputs (gs_pins (ss_hardware s1)) kAlarmOutputPin \<and> \<not> pb_outputs (gs_pins (ss_hardware demo_shaken)) kAlarmOutputPin"
proof -
  have v: "represents demo_shaken (lock_view demo_shaken)"
    using demo_reach(2) security_reachable_represents by fastforce
  have f: "pins_follow output_level demo_shaken" by code_simp
  have "lock_tick (ss_engine_running (sample_inputs demo_board 400 demo_shaken)) (alarm_over 400 demo_shaken)
      (new_shock demo_board 400 demo_shaken) (lock_view demo_shaken) = \<lparr>lk_mode = Mode_Alarm, lk_engine = False\<rparr>"
    by code_simp
  with security_refines_lock [OF driven_bank.driven_pins_axioms, where v = "lock_view demo_shaken" and s = demo_shaken
      and pf = flash_ops and net = bench_transport and now = 400 and nd = "node_init addr_Security 0" and w = quiet_world,
      folded demo_board_def] v f
  have d: "case security_service demo_board 400 demo_shaken (node_init addr_Security 0) quiet_world of (s1, _, _) \<Rightarrow>
      drives output_level s1 \<lparr>lk_mode = Mode_Alarm, lk_engine = False\<rparr>"
    by (simp add: drives_follow)
  have off: "\<not> pb_outputs (gs_pins (ss_hardware demo_shaken)) kAlarmOutputPin" by code_simp
  from d off show ?thesis by (auto simp: drives_def lk_alarm_def output_level_def split: prod.splits)
qed

text \<open>C8: Refinement of the security controller, pass by pass. In every state the firmware can reach,
  whatever the pins, the traffic and the flash were, a pass of its loop is the abstract machine's run
  over the packets the pass received, in their order, followed by one tick: the outputs and the mode
  before and after are those of the machine.\<close>

theorem security_pass_refines:
  assumes "security_reachable gp pf net (s, nd, w)"
    and "security_controller_service (security_board gp pf net) now s nd w = Some (s', nd', w')"
  shows "represents s (lock_view s) \<and> (\<exists>s1 ps nd1 w1 es.
    node_drain net now (recording (security_body (security_board gp pf net) now)) (s, []) nd w = Some ((s1, ps), nd1, w1)
    \<and> length es = length ps
    \<and> represents s' (lock_tick (ss_engine_running (sample_inputs (security_board gp pf net) now s1)) (alarm_over now s1)
        (new_shock (security_board gp pf net) now s1) (heard ps es (lock_view s))))"
proof -
  have v: "represents s (lock_view s)" using security_reachable_represents [OF assms(1)] by simp
  have "node_inv nd" using security_reachable_inv [OF assms(1)] by simp
  from controller_represents [OF assms(2) this v] v show ?thesis by blast
qed

theorem security_pass_refines_witness:
  "\<exists>nd w. case security_controller_service demo_board 500 demo_locked nd w of None \<Rightarrow> False
    | Some (s', nd', w') \<Rightarrow> (\<exists>e over shock ps es. length es = length ps
        \<and> represents s' (lock_tick e over shock (heard ps es (lock_view demo_locked))))"
proof -
  obtain nd w where r: "security_reachable pin_bank_ops flash_ops bench_transport (demo_locked, nd, w)"
    using demo_reach(1) by blast
  obtain s' nd' w' where c: "security_controller_service demo_board 500 demo_locked nd w = Some (s', nd', w')"
    using security_controller_ends [of demo_board] bench.finite_transport_axioms unfolding demo_board_def
    by (metis prod_cases3 security_board_sel(3))
  from security_pass_refines [OF r c [unfolded demo_board_def]]
  have "\<exists>e over shock ps es. length es = length ps
      \<and> represents s' (lock_tick e over shock (heard ps es (lock_view demo_locked)))" by blast
  then show ?thesis by (intro exI [of _ nd] exI [of _ w]) (simp add: c)
qed

end
