(* ===== verification/Motorcycle.thy ===== *)
theory Motorcycle
  imports SystemComposition ProgramFrames NorthbridgeFrames SecurityAbstraction
begin

text \<open>
  The whole motorcycle: the Raspberry Pi with the programs of the main and of the diagnostic computer,
  the northbridge, the lighting controller and the security controller on their wires, each taking a
  turn of its program at any time and in any order. What one of them writes in its turn is added to
  what its peer has yet to read.
\<close>

section \<open>The state and its steps\<close>

record ('l, 'g, 'f) motorcycle =
  bk_main :: main_computer
  bk_main_node :: bike_node
  bk_diag :: diag_state
  bk_diag_node :: bike_node
  bk_pi_world :: serial_world
  bk_bridge :: northbridge
  bk_bridge_world :: serial_world
  bk_lights :: "'l gpio_lighting lighting_unit"
  bk_light_node :: bike_node
  bk_light_world :: serial_world
  bk_alarm :: "('g gpio_security, 'f flash_persistence) security_server"
  bk_alarm_node :: bike_node
  bk_alarm_world :: serial_world

definition deliver :: "nat \<Rightarrow> u8 list \<Rightarrow> serial_world \<Rightarrow> serial_world" where
  "deliver t bs w = w\<lparr>sw_rx := (sw_rx w)(t := sw_rx w t @ bs)\<rparr>"

text \<open>The programs of the Pi before their first start.\<close>

definition main_off :: main_computer where
  "main_off = motorcycle_computer_init \<lparr>mw_test = self_test_init, mw_log = diagnostic_logger_init 250\<rparr>"

definition diag_off :: diag_state where
  "diag_off = \<lparr>ds_supervisor = supervisor_init, ds_logger = diagnostic_logger_init 250, ds_test = self_test_init,
     ds_monitor = True, ds_filter_enabled = False, ds_filter = addr_Broadcast\<rparr>"

text \<open>Everything switched on, nothing on the wires.\<close>

inductive bike_off :: "'l gpio_ops \<Rightarrow> 'g gpio_ops \<Rightarrow> 'f preferences_ops \<Rightarrow> ('l, 'g, 'f) motorcycle \<Rightarrow> bool"
  for lg sg pf where
  "lighting_setup lg lamps 1 = (u, ln) \<Longrightarrow> security_setup sg pf bench_transport pins flash 2 now = (s, an) \<Longrightarrow>
   bike_off lg sg pf \<lparr>bk_main = main_off,
     bk_main_node = node_init addr_MainComputer 0, bk_diag = diag_off,
     bk_diag_node = node_init addr_DiagnosticComputer 0, bk_pi_world = quiet_world,
     bk_bridge = northbridge_setup, bk_bridge_world = quiet_world, bk_lights = u, bk_light_node = ln,
     bk_light_world = quiet_world, bk_alarm = s, bk_alarm_node = an, bk_alarm_world = quiet_world\<rparr>"

text \<open>
  A turn of a device, with the lines that may be typed at the console of the main computer. The programs
  of the Pi, which use its one serial port, may be started at any time, and the inputs of the two
  controllers change as they like.
\<close>

inductive bike_step :: "'l gpio_ops \<Rightarrow> 'g gpio_ops \<Rightarrow> 'f preferences_ops \<Rightarrow> (string \<Rightarrow> bool)
    \<Rightarrow> ('l, 'g, 'f) motorcycle \<Rightarrow> ('l, 'g, 'f) motorcycle \<Rightarrow> bool"
  for lg sg pf typed where
  main_starts: "main_start bench_transport 0 device found now (bk_pi_world b) = (err, out, mc, nd, w) \<Longrightarrow>
    bike_step lg sg pf typed b (b\<lparr>bk_main := mc, bk_main_node := nd, bk_pi_world := w,
      bk_bridge_world := deliver 0 (wire 0 (bk_pi_world b) w) (bk_bridge_world b)\<rparr>)"
| main_turn: "main_pass bench_transport tick input (bk_main b) (bk_main_node b) (bk_pi_world b)
      = Some (running, out, mc, nd, w) \<Longrightarrow>
    (\<And>l t. input = Console_Line l t \<Longrightarrow> typed l) \<Longrightarrow>
    bike_step lg sg pf typed b (b\<lparr>bk_main := mc, bk_main_node := nd, bk_pi_world := w,
      bk_bridge_world := deliver 0 (wire 0 (bk_pi_world b) w) (bk_bridge_world b)\<rparr>)"
| diag_starts: "diag_start bench_transport 0 device found now (bk_pi_world b) = (err, out, d, nd, w) \<Longrightarrow>
    bike_step lg sg pf typed b (b\<lparr>bk_diag := d, bk_diag_node := nd, bk_pi_world := w,
      bk_bridge_world := deliver 0 (wire 0 (bk_pi_world b) w) (bk_bridge_world b)\<rparr>)"
| diag_turn: "diag_pass bench_transport tick line (bk_diag b) (bk_diag_node b) (bk_pi_world b)
      = Some (running, out, d, nd, w) \<Longrightarrow>
    bike_step lg sg pf typed b (b\<lparr>bk_diag := d, bk_diag_node := nd, bk_pi_world := w,
      bk_bridge_world := deliver 0 (wire 0 (bk_pi_world b) w) (bk_bridge_world b)\<rparr>)"
| bridge_turn: "nb_service bench_transport now (bk_bridge b) (bk_bridge_world b) = Some (nb, w) \<Longrightarrow>
    bike_step lg sg pf typed b (b\<lparr>bk_bridge := nb, bk_bridge_world := w,
      bk_pi_world := deliver 0 (wire 0 (bk_bridge_world b) w) (bk_pi_world b),
      bk_light_world := deliver 1 (wire 1 (bk_bridge_world b) w) (bk_light_world b),
      bk_alarm_world := deliver 2 (wire 2 (bk_bridge_world b) w) (bk_alarm_world b)\<rparr>)"
| light_turn: "lighting_loop (lighting_board lg bench_transport) now (bk_lights b) (bk_light_node b) (bk_light_world b)
      = Some (u, nd, w) \<Longrightarrow>
    bike_step lg sg pf typed b (b\<lparr>bk_lights := u, bk_light_node := nd, bk_light_world := w,
      bk_bridge_world := deliver 1 (wire 1 (bk_light_world b) w) (bk_bridge_world b)\<rparr>)"
| alarm_turn: "security_controller_service (security_board sg pf bench_transport) now (bk_alarm b) (bk_alarm_node b)
      (bk_alarm_world b) = Some (s, nd, w) \<Longrightarrow>
    bike_step lg sg pf typed b (b\<lparr>bk_alarm := s, bk_alarm_node := nd, bk_alarm_world := w,
      bk_bridge_world := deliver 2 (wire 2 (bk_alarm_world b) w) (bk_bridge_world b)\<rparr>)"
| light_inputs: "bike_step lg sg pf typed b (b\<lparr>bk_lights := (bk_lights b)\<lparr>lu_server := (lu_server (bk_lights b))
      \<lparr>ls_hardware := (ls_hardware (lu_server (bk_lights b)))\<lparr>gl_pins := lamps\<rparr>\<rparr>\<rparr>\<rparr>)"
| alarm_inputs: "bike_step lg sg pf typed b (b\<lparr>bk_alarm := (bk_alarm b)
      \<lparr>ss_hardware := (ss_hardware (bk_alarm b))\<lparr>gs_pins := pins\<rparr>\<rparr>\<rparr>)"

abbreviation bike_runs :: "'l gpio_ops \<Rightarrow> 'g gpio_ops \<Rightarrow> 'f preferences_ops \<Rightarrow> (string \<Rightarrow> bool)
    \<Rightarrow> ('l, 'g, 'f) motorcycle \<Rightarrow> ('l, 'g, 'f) motorcycle \<Rightarrow> bool" where
  "bike_runs lg sg pf typed \<equiv> rtranclp (bike_step lg sg pf typed)"

section \<open>Every device on the bus\<close>

text \<open>
  A step of the motorcycle is a step of one device in its own relation; so what is proved of each
  device in any world holds of it on the bus.
\<close>

definition bike_parts :: "'l gpio_ops \<Rightarrow> 'g gpio_ops \<Rightarrow> 'f preferences_ops \<Rightarrow> ('l, 'g, 'f) motorcycle \<Rightarrow> bool" where
  "bike_parts lg sg pf b \<longleftrightarrow> main_inv (bk_main b) \<and> diag_inv (bk_diag b)
     \<and> node_reachable bench_transport addr_MainComputer 0 (bk_main_node b, bk_pi_world b)
     \<and> node_reachable bench_transport addr_DiagnosticComputer 0 (bk_diag_node b, bk_pi_world b)
     \<and> firmware_northbridge bench_transport (bk_bridge b)
     \<and> (\<exists>hs. lighting_trace lg bench_transport hs (bk_lights b, bk_light_node b, bk_light_world b))
     \<and> security_reachable sg pf bench_transport (bk_alarm b, bk_alarm_node b, bk_alarm_world b)"

lemma programs_off: "main_inv main_off" "diag_inv diag_off"
  using sv_inv_init test_reachable_inv [OF test_start]
  by (simp_all add: main_inv_def main_off_def motorcycle_computer_init_def sv_inv_def diagnostic_logger_init_def
    diag_inv_def diag_off_def)

lemma bike_parts_off: "bike_off lg sg pf b \<Longrightarrow> bike_parts lg sg pf b"
  by (induction rule: bike_off.induct)
    (auto simp: bike_parts_def programs_off intro: reach_init nb_boot lt_boot sec_boot)

lemma parts_world:
  "node_reachable ops a t (nd, w) \<Longrightarrow> node_reachable ops a t (nd, w')"
  "lighting_trace lg net hs (u, nd, w) \<Longrightarrow> lighting_trace lg net hs (u, nd, w')"
  "security_reachable sg pf net (s, nd, w) \<Longrightarrow> security_reachable sg pf net (s, nd, w')"
  using reach_step [OF _ step_world] lt_world [of lg net hs u nd w "gl_pins (ls_hardware (lu_server u))" w']
    sec_world [of sg pf net s nd w "gs_pins (ss_hardware s)" w'] by auto

lemma bike_parts_step: "bike_step lg sg pf typed b b' \<Longrightarrow> bike_parts lg sg pf b \<Longrightarrow> bike_parts lg sg pf b'"
proof (induction rule: bike_step.induct)
  case (main_starts device found now b err out mc nd w)
  then show ?case using main_start_safe [OF main_starts(1), of "[]"] by (auto simp: bike_parts_def intro: parts_world)
next
  case (main_turn tick input b running out mc nd w)
  then show ?case using main_pass_safe [OF main_turn(1), of addr_MainComputer 0]
    by (auto simp: bike_parts_def intro: parts_world)
next
  case (diag_starts device found now b err out d nd w)
  then show ?case using diag_start_safe [OF diag_starts(1)] by (auto simp: bike_parts_def intro: parts_world)
next
  case (diag_turn tick line b running out d nd w)
  then show ?case using diag_pass_safe [OF diag_turn(1), of addr_DiagnosticComputer 0]
    by (auto simp: bike_parts_def intro: parts_world)
next
  case (bridge_turn now b nb w)
  then show ?case using nb_round [OF _ bridge_turn(1)] by (auto simp: bike_parts_def intro: parts_world)
next
  case (light_turn now b u nd w)
  then show ?case using lt_loop [OF _ light_turn(1)] by (auto simp: bike_parts_def)
next
  case (alarm_turn now b s nd w)
  then show ?case using sec_loop [OF _ alarm_turn(1)] by (simp add: bike_parts_def)
next
  case (light_inputs b lamps)
  then show ?case using lt_world by (fastforce simp: bike_parts_def)
next
  case (alarm_inputs b pins)
  then show ?case using sec_world by (fastforce simp: bike_parts_def)
qed

lemma bike_parts_runs: "bike_runs lg sg pf typed b b' \<Longrightarrow> bike_parts lg sg pf b \<Longrightarrow> bike_parts lg sg pf b'"
  by (induction rule: rtranclp_induct) (auto intro: bike_parts_step)

section \<open>Classes on the bus\<close>

lemma utters_wire:
  assumes "utters Q w w'"
  obtains ps where "wire t w w' = concat (map frame_of ps)" "\<forall>p\<in>set ps. sendable p \<and> Q p"
proof -
  from assms obtain xs where "\<forall>x\<in>set xs. sendable (snd x) \<and> Q (snd x)"
    and "sw_tx w' = sw_tx w @ map (\<lambda>x. (fst x, frame_of (snd x))) xs" by (auto simp: utters_def)
  then show thesis
    by (intro that [of "map snd (filter (\<lambda>x. fst x = t) xs)"]) (auto simp: wire_append filter_map comp_def)
qed

lemma speaks_utters: "speaks_in Q a t w w' \<Longrightarrow> utters Q w w'"
  unfolding speaks_in_def utters_def by (elim exE) (rule_tac x = "map (Pair t) ps" in exI, auto)

lemma voiced_utters: "voiced Q (nd, w) (nd', w') \<Longrightarrow> utters Q w w'"
  by (rule speaks_utters [OF voiced_speaks])

lemma in_step_deliver:
  assumes "utters Q w w'" and "in_step Q s (sw_rx v t)"
  shows "in_step Q s (sw_rx (deliver t (wire u w w') v) t)"
proof -
  from utters_wire [OF assms(1)] obtain ps where
    "wire u w w' = concat (map frame_of ps)" "\<forall>p\<in>set ps. sendable p \<and> Q p" .
  with in_step_append [OF assms(2)] show ?thesis by (simp add: deliver_def)
qed

lemma fed_deliver:
  "utters Q w w' \<Longrightarrow> fed Q nd v \<Longrightarrow> nd_transport nd = t \<Longrightarrow> fed Q nd (deliver t (wire u w w') v)"
  using in_step_deliver [of Q w w' "nd_parser nd" v t u] by (simp add: fed_def)

lemma tuned_deliver:
  assumes "utters Q w w'" and "tuned Q nb v"
  shows "tuned Q nb (deliver t (wire u w w') v)"
proof -
  have "in_step Q (nb_parsers nb ! i) (sw_rx (deliver t (wire u w w') v) x)"
    if "i < kMaxRouterPorts" "nb_transports nb ! i = Some x" for i x
    using assms(2) that in_step_deliver [OF assms(1), of "nb_parsers nb ! i" v t u]
    by (cases "x = t") (auto simp: tuned_def deliver_def)
  then show ?thesis by (simp add: tuned_def)
qed

section \<open>Frames of a class on every wire\<close>

definition bus_carries :: "(packet \<Rightarrow> bool) \<Rightarrow> ('l, 'g, 'f) motorcycle \<Rightarrow> bool" where
  "bus_carries Q b \<longleftrightarrow> speaking Q (bk_main_node b) \<and> speaking Q (bk_diag_node b) \<and> speaking Q (bk_light_node b) \<and> speaking Q (bk_alarm_node b)
     \<and> nd_transport (bk_light_node b) = 1 \<and> nd_transport (bk_alarm_node b) = 2
     \<and> firmware_northbridge bench_transport (bk_bridge b) \<and> tuned Q (bk_bridge b) (bk_bridge_world b)
     \<and> fed Q (bk_light_node b) (bk_light_world b) \<and> fed Q (bk_alarm_node b) (bk_alarm_world b)"

lemma own_wires_northbridge: "own_wires northbridge_setup"
  by (auto simp: own_wires_def northbridge_setup_eq(1) less_Suc_eq numeral_nat nth_Cons')

lemma tuned_northbridge: "tuned Q northbridge_setup quiet_world"
proof -
  have "nb_parsers northbridge_setup = replicate kMaxRouterPorts stream_parser_init"
    by (simp add: northbridge_setup_def Let_def) code_simp
  then show ?thesis by (simp add: tuned_def quiet_world_def in_step_start)
qed

lemma speaking_init: "speaking Q (node_init a t)"
  using node_inv_init [of a t] by (simp add: speaking_def pending_in_def node_init_def)

lemma speaking_setters:
  "speaking Q (node_set_max_retries m (node_set_ack_timeout_ms n (node_set_auto_ack b nd))) = speaking Q nd"
  "fed Q (node_set_max_retries m (node_set_ack_timeout_ms n (node_set_auto_ack b nd))) w = fed Q nd w"
  by (simp_all add: speaking_def pending_in_def fed_def node_set_max_retries_def node_set_ack_timeout_ms_def
    node_set_auto_ack_def node_inv_def pending_ok_def deliverable_def)

lemma bus_carries_off: "bike_off lg sg pf b \<Longrightarrow> bus_carries Q b"
proof (induction rule: bike_off.induct)
  case (1 lamps u ln pins flash now s an)
  have ln: "ln = node_set_max_retries 3 (node_set_ack_timeout_ms 250 (node_set_auto_ack False (node_init addr_Lighting 1)))"
    using 1(1) by (simp add: lighting_setup_def Let_def)
  have an: "an = node_set_max_retries 3 (node_set_ack_timeout_ms 250 (node_set_auto_ack False (node_init addr_Security 2)))"
    using 1(2) by (simp add: security_setup_def Let_def)
  have "fed Q an quiet_world" "fed Q ln quiet_world"
    unfolding an ln speaking_setters by (rule fed_init, simp add: quiet_world_def)+
  moreover have "nd_transport an = 2" "nd_transport ln = 1"
    by (simp_all add: an ln node_set_max_retries_def node_set_ack_timeout_ms_def node_set_auto_ack_def node_init_def)
  moreover have "speaking Q an" "speaking Q ln" unfolding ln an speaking_setters by (rule speaking_init)+
  ultimately show ?case by (simp add: bus_carries_def speaking_init tuned_northbridge nb_boot)
qed

context frame_class
begin

lemma drain_talk_fed:
  assumes "node_drain bench_transport now body s nd w = Some (s', nd', w')" and "node_inv nd" and "fed Q nd w"
    and "\<And>p s nd w s' nd' w'. body p s nd w = (s', nd', w') \<Longrightarrow> node_talk bench_transport (nd, w) (nd', w')"
  shows "fed Q nd' w'"
  using drain_fed [OF assms(1-3), where I = "\<lambda>_. True"] assms(4) by blast

lemma lighting_loop_fed:
  assumes "lighting_loop env now u nd w = Some (u', nd', w')" and net: "le_net env = bench_transport"
    and "node_inv nd" and "fed Q nd w"
  shows "fed Q nd' w'"
proof -
  obtain s1 nd1 w1 c s2 nd2 w2 f s3 nd3 w3 dg where
    1: "lighting_controller_service env now (lu_server u) nd w = Some (s1, nd1, w1)"
    and c: "local_control_service env now (lu_local u) s1 nd1 w1 = (c, s2, nd2, w2)"
    and f: "fault_service env (lu_diagnostics u) now (lu_faults u) s2 nd2 w2 = (f, s3, nd3, w3)"
    and dg: "diagnostics_service env now addr_MainComputer (ls_hardware s3) (lu_diagnostics u) nd3 w3 = (dg, nd', w')"
    by (rule lighting_loop_parts [OF assms(1)])
  obtain n0 v0 where d: "node_drain bench_transport now (lighting_body env now) (lu_server u) nd w = Some (s1, n0, v0)"
    and n: "node_service bench_transport n0 now v0 = (nd1, w1)"
    using 1 net by (auto simp: lighting_controller_service_def split: option.splits prod.splits)
  have "node_talk bench_transport (nd2, w2) (nd3, w3)"
    using f update_channels_talk [of env "lu_diagnostics u" _ now "lu_faults u" s2 nd2 w2] net
    by (auto simp: fault_service_def talk_refl split: if_splits prod.splits)
  then show ?thesis
    by (rule fed_sends [OF diagnostics_service_talk [OF dg, unfolded net] fed_sends [OF _
      fed_sends [OF local_control_service_talk [OF c, unfolded net] fed_service [OF n
        drain_talk_fed [OF d assms(3,4) lighting_body_talk [of env now, unfolded net]]]]]])
qed

lemma security_pass_fed:
  assumes "security_controller_service env now s nd w = Some (s', nd', w')" and net: "se_net env = bench_transport"
    and "node_inv nd" and "fed Q nd w"
  shows "fed Q nd' w'"
proof -
  obtain s1 nd1 w1 nd2 w2 where d: "node_drain bench_transport now (security_body env now) s nd w = Some (s1, nd1, w1)"
    and sv: "security_service env now s1 nd1 w1 = (s', nd2, w2)" and n: "node_service bench_transport nd2 now w2 = (nd', w')"
    using assms(1,2) by (auto simp: security_controller_service_def split: option.splits prod.splits)
  show ?thesis
    by (rule fed_service [OF n fed_sends [OF security_service_talk [OF sv, unfolded net]
      drain_talk_fed [OF d assms(3,4) security_body_talk [of env now, unfolded net]]]])
qed

text \<open>
  A step keeps the class on every wire if it holds what the lines that may be typed put there, and what
  starting the program does.
\<close>

lemma bus_carries_step:
  assumes step: "bike_step lg sg pf typed b b'" and typed: "\<And>l p. typed l \<or> l = [] \<Longrightarrow> said l p \<Longrightarrow> Q p"
    and I: "bus_carries Q b"
  shows "bus_carries Q b'"
  using step I
proof (induction rule: bike_step.induct)
  case (main_starts device found now b err out mc nd w)
  have "node_sends Q bench_transport (node_init addr_MainComputer 0, bk_pi_world b) (nd, w)"
    using main_start_safe [OF main_starts(1), of "[]"] typed by (auto elim!: sends_mono)
  from sends_voiced [OF this] have "voiced Q (node_init addr_MainComputer 0, bk_pi_world b) (nd, w)"
    by (simp add: speaking_init)
  with main_starts(2) show ?case
    by (auto simp: bus_carries_def dest: voiced_speaking intro!: tuned_deliver elim: voiced_utters)
next
  case (main_turn tick input b running out mc nd w)
  have "grants Q input" using main_turn(2) typed by (auto simp: grants_def)
  with main_pass_voiced [OF main_turn(1)] main_turn(3)
  have "voiced Q (bk_main_node b, bk_pi_world b) (nd, w)" by (simp add: bus_carries_def)
  with main_turn(3) show ?case
    by (auto simp: bus_carries_def dest: voiced_speaking intro!: tuned_deliver elim: voiced_utters)
next
  case (diag_starts device found now b err out d nd w)
  have "node_talk bench_transport (node_init addr_DiagnosticComputer 0, bk_pi_world b) (nd, w)"
    using diag_start_safe [OF diag_starts(1)] by simp
  from talk_voiced [OF this] have "voiced Q (node_init addr_DiagnosticComputer 0, bk_pi_world b) (nd, w)"
    by (simp add: speaking_init)
  with diag_starts(2) show ?case
    by (auto simp: bus_carries_def dest: voiced_speaking intro!: tuned_deliver elim: voiced_utters)
next
  case (diag_turn tick line b running out d nd w)
  from diag_pass_voiced [OF diag_turn(1)] diag_turn(2)
  have "voiced Q (bk_diag_node b, bk_pi_world b) (nd, w)" by (simp add: bus_carries_def)
  with diag_turn(2) show ?case
    by (auto simp: bus_carries_def dest: voiced_speaking intro!: tuned_deliver elim: voiced_utters)
next
  case (bridge_turn now b nb w)
  then have nb: "firmware_northbridge bench_transport (bk_bridge b)" and t: "tuned Q (bk_bridge b) (bk_bridge_world b)"
    by (simp_all add: bus_carries_def)
  have i: "nb_inv (bk_bridge b)" "own_wires (bk_bridge b)"
    using firmware_northbridge_inv [OF nb] own_wires_setup own_wires_northbridge by auto
  from nb_service_utters [OF bridge_turn(1) i t] nb_round [OF nb bridge_turn(1)] bridge_turn(2)
  show ?case by (simp add: bus_carries_def fed_deliver)
next
  case (light_turn now b u nd w)
  from lighting_loop_voiced [OF light_turn(1)] light_turn(2)
  have v: "voiced Q (bk_light_node b, bk_light_world b) (nd, w)" by (simp add: bus_carries_def)
  have "fed Q nd w" using lighting_loop_fed [OF light_turn(1)] light_turn(2) by (simp add: bus_carries_def speaking_def)
  with v light_turn(2) show ?case
    by (auto simp: bus_carries_def voiced_def dest: speaks_utters intro!: tuned_deliver)
next
  case (alarm_turn now b s nd w)
  from security_pass_voiced [OF alarm_turn(1)] alarm_turn(2)
  have v: "voiced Q (bk_alarm_node b, bk_alarm_world b) (nd, w)" by (simp add: bus_carries_def)
  have "fed Q nd w" using security_pass_fed [OF alarm_turn(1)] alarm_turn(2) by (simp add: bus_carries_def speaking_def)
  with v alarm_turn(2) show ?case
    by (auto simp: bus_carries_def voiced_def dest: speaks_utters intro!: tuned_deliver)
qed (simp_all add: bus_carries_def)

lemma bus_carries_runs:
  assumes "bike_runs lg sg pf typed b b'" and "\<And>l p. typed l \<or> l = [] \<Longrightarrow> said l p \<Longrightarrow> Q p" and "bus_carries Q b"
  shows "bus_carries Q b'"
  using assms by (induction rule: rtranclp_induct) (auto intro: bus_carries_step)

end

interpretation any_frame: frame_class "\<lambda>_. True"
  by unfold_locales simp_all

section \<open>A lock that is not told\<close>

text \<open>The mode can only leave a set of modes on one command.\<close>

definition held_by :: "security_command \<Rightarrow> security_mode set \<Rightarrow> bool" where
  "held_by c M \<longleftrightarrow> (\<forall>v. lk_mode v \<in> M \<longrightarrow>
     (\<forall>k e. k \<noteq> c \<longrightarrow> lk_mode (lock_told k e v) \<in> M) \<and> (\<forall>e o1 t. lk_mode (lock_tick e o1 t v) \<in> M))"

lemma armed_held: "held_by cmd_Unlock {Mode_LockPending, Mode_Locked, Mode_Alarm}"
  by (auto simp: held_by_def lock_told_def lock_tick_def Let_def)

lemma unlocked_held: "held_by cmd_Lock {Mode_Unlocked}"
  by (auto simp: held_by_def lock_told_def lock_tick_def Let_def)

definition unasked :: "security_command \<Rightarrow> packet \<Rightarrow> bool" where
  "unasked c p \<longleftrightarrow> \<not> asks c p"

interpretation unasked: frame_class "unasked c" for c
proof
  fix p nd r
  show "unasked c p \<Longrightarrow> unasked c (stamped nd p r)" by (simp add: unasked_def asks_def)
  show "calm p \<Longrightarrow> unasked c p" by (simp add: unasked_def calm_asks)
  show "sendable p \<Longrightarrow> unasked c p \<Longrightarrow> unasked c (received p)"
    using received_payload_nth [of p 0] by (auto simp: unasked_def asks_def)
qed

definition alarm_in :: "security_mode set \<Rightarrow> ('g gpio_security, 'f) security_server \<Rightarrow> bool" where
  "alarm_in M s \<longleftrightarrow> (\<exists>v. represents s v \<and> lk_mode v \<in> M)"

lemma alarm_in_mode: "alarm_in M s \<Longrightarrow> ss_mode s \<in> M"
  unfolding alarm_in_def using represents_mode(1) by metis

lemma heard_held: "held_by c M \<Longrightarrow> unasked c p \<Longrightarrow> lk_mode v \<in> M \<Longrightarrow> lk_mode (lock_heard p e v) \<in> M"
  by (auto simp: held_by_def lock_heard_def unasked_def asks_def)

lemma alarm_pass_held:
  assumes "security_controller_service (security_board sg pf bench_transport) now s nd w = Some (s', nd', w')"
    and held: "held_by c M" and "alarm_in M s" and "node_inv nd" and "fed (unasked c) nd w"
  shows "alarm_in M s'"
proof -
  let ?B = "security_board sg pf bench_transport"
  obtain s1 nd1 w1 nd2 w2 where d: "node_drain bench_transport now (security_body ?B now) s nd w = Some (s1, nd1, w1)"
    and sv: "security_service ?B now s1 nd1 w1 = (s', nd2, w2)" and n: "node_service bench_transport nd2 now w2 = (nd', w')"
    using assms(1) by (auto simp: security_controller_service_def split: option.splits prod.splits)
  have "alarm_in M s1 \<and> node_inv nd1 \<and> fed (unasked c) nd1 w1"
  proof (rule unasked.drain_fed [OF d assms(4,5), where I = "alarm_in M", OF assms(3)])
    show "node_talk bench_transport (nd, w) (nd', w')" if "security_body ?B now p s nd w = (s', nd', w')" for p s nd w s' nd' w'
      using security_body_talk [OF that] by simp
    show "alarm_in M s'" if "security_body ?B now p s nd w = (s', nd', w')" "unasked c p" "alarm_in M s" for p s nd w s' nd' w'
    proof -
      from that(3) obtain v where v: "represents s v" "lk_mode v \<in> M" by (auto simp: alarm_in_def)
      with body_heard [OF that(1)] heard_held [OF held that(2)] show ?thesis by (fastforce simp: alarm_in_def)
    qed
  qed
  then have 1: "alarm_in M s1" "fed (unasked c) nd1 w1" by simp_all
  then obtain v where v: "represents s1 v" "lk_mode v \<in> M" by (auto simp: alarm_in_def)
  have s': "s' = serviced_state ?B now s1" using security_service_state [of ?B now s1 nd1 w1] by (simp add: sv)
  show ?thesis
    using represents_service [OF v(1), of sg pf bench_transport now] held v(2) unfolding s' alarm_in_def held_by_def by blast
qed

text \<open>Without its command, which nobody types, the mode stays.\<close>

lemma spares_unlock: "\<not> typed ''unlock'' \<Longrightarrow> typed l \<or> l = [] \<Longrightarrow> said l p \<Longrightarrow> unasked cmd_Unlock p"
  and spares_lock: "\<not> typed ''lock'' \<Longrightarrow> typed l \<or> l = [] \<Longrightarrow> said l p \<Longrightarrow> unasked cmd_Lock p"
  by (auto simp: said_def unasked_def asks_def calm_def)

lemma alarm_step_held:
  assumes "bike_step lg sg pf typed b b'" and "held_by c M" and "bus_carries (unasked c) b" and "alarm_in M (bk_alarm b)"
  shows "alarm_in M (bk_alarm b')"
  using assms(1,3,4)
proof (induction rule: bike_step.induct)
  case (alarm_turn now b s nd w)
  with alarm_pass_held [OF alarm_turn(1) assms(2)] show ?case by (simp add: bus_carries_def speaking_def)
next
  case (alarm_inputs b pins)
  then obtain v where v: "represents (bk_alarm b) v" "lk_mode v \<in> M" by (auto simp: alarm_in_def)
  then have "represents ((bk_alarm b)\<lparr>ss_hardware := (ss_hardware (bk_alarm b))\<lparr>gs_pins := pins\<rparr>\<rparr>) v"
    by (simp add: represents_def lock_view_def)
  with v(2) show ?case by (auto simp: alarm_in_def)
qed simp_all

lemma alarm_runs_held:
  assumes runs: "bike_runs lg sg pf typed b b'" and "held_by c M" and off: "bike_off lg sg pf b" and m: "ss_mode (bk_alarm b) \<in> M"
    and typed: "\<And>l p. typed l \<or> l = [] \<Longrightarrow> said l p \<Longrightarrow> unasked c p"
  shows "alarm_in M (bk_alarm b')"
  using runs
proof (induction rule: rtranclp_induct)
  case base
  have "security_reachable sg pf bench_transport (bk_alarm b, bk_alarm_node b, bk_alarm_world b)"
    using bike_parts_off [OF off] by (simp add: bike_parts_def)
  from security_reachable_represents [OF this] m show ?case by (auto simp: alarm_in_def)
next
  case (step b1 b2)
  have "bus_carries (unasked c) b1"
    using unasked.bus_carries_runs [OF step(1) _ bus_carries_off [OF off], of c] typed by blast
  from alarm_step_held [OF step(2) assms(2) this step(3)] show ?case .
qed

end
