(* ===== verification/LockCommands.thy ===== *)
theory LockCommands
  imports SystemComposition SecurityAbstraction
begin

text \<open>
  The commands for the lock end to end: typed at the main computer, carried by the northbridge,
  executed by the security controller as its abstract machine says.
\<close>

section \<open>The main computer asks\<close>

definition lock_lines :: "(string \<times> security_command) set" where
  "lock_lines = {(''lock'', cmd_Lock), (''unlock'', cmd_Unlock), (''silence'', cmd_SilenceAlarm)}"

definition lock_request :: "security_command \<Rightarrow> packet" where
  "lock_request c = set_payload 0 c
     (default_packet\<lparr>pkt_destination := addr_Security, pkt_type := msg_SecurityCommand, pkt_length := 1\<rparr>)"

lemma lock_request_sel [simp]:
  "wf_packet (lock_request c)" "pkt_length (lock_request c) = 1" "pkt_destination (lock_request c) = addr_Security"
  "pkt_type (lock_request c) = msg_SecurityCommand" "pkt_payload (lock_request c) ! 0 = c"
  by (simp_all add: lock_request_def)

lemma handle_lock_line:
  assumes "(l, c) \<in> lock_lines"
  shows "handle_command ops l now mc nd w =
    (case node_send ops nd (lock_request c) now True w of (_, nd1, w1) \<Rightarrow> (True, [], mc, nd1, w1))"
proof -
  note defs = handle_command_def run_command_def network_command_def security_client_command_def lock_request_def
  consider "l = ''lock''" "c = cmd_Lock" | "l = ''unlock''" "c = cmd_Unlock" | "l = ''silence''" "c = cmd_SilenceAlarm"
    using assms by (auto simp: lock_lines_def)
  then show ?thesis
  proof cases
    case 1
    then show ?thesis by (simp add: defs security_client_lock_def split: prod.split)
  next
    case 2
    then show ?thesis by (simp add: defs security_client_unlock_def split: prod.split)
  next
    case 3
    then show ?thesis by (simp add: defs security_client_silence_def split: prod.split)
  qed
qed

lemma lock_line_sent:
  assumes "(l, c) \<in> lock_lines" and "\<not> ptx_active (nd_pending nd)"
    and "handle_command bench_transport l now mc nd w = (running, out, mc1, nd1, w1)"
  shows "wire (nd_transport nd) w w1 = frame_of (stamped nd (lock_request c) True)"
proof -
  obtain ok nd2 w2 where send: "node_send bench_transport nd (lock_request c) now True w = (ok, nd2, w2)"
    by (metis prod_cases3)
  then have "w2 = w\<lparr>sw_tx := sw_tx w @ [(nd_transport nd, frame_of (stamped nd (lock_request c) True))]\<rparr>"
    using assms(2) by (auto simp: node_send_eq transmit_def)
  moreover have "w1 = w2" using assms(3) by (simp add: handle_lock_line [OF assms(1)] send)
  ultimately show ?thesis by (simp add: wire_def)
qed

section \<open>The security controller executes\<close>

lemma alarm_executes:
  assumes q: "node_quiet an" "nd_address an = addr_Security"
    and p: "p = stamped nd (lock_request c) True"
    and rx: "sw_rx u (nd_transport an) = frame_of p"
    and run: "security_controller_service (security_board gp pf bench_transport) now s an u = Some (s1, an1, u1)"
    and v: "represents s v"
  shows "\<exists>e1 e2 over shock. represents s1 (lock_tick e2 over shock (lock_told c e1 v))"
proof -
  let ?B = "security_board gp pf bench_transport"
  have ps: "sendable p" "pkt_destination p = nd_address an" "pkt_type p \<noteq> msg_Ack" "pkt_type p \<noteq> msg_Nack" "pkt_length p = 1"
    by (simp_all add: p sendable_def q(2))
  have len: "length (sw_rx u (nd_transport an)) \<le> 64"
    using length_frame_of [OF ps(1)] by (simp add: rx encoded_size_def ps(5))
  have talk: "node_talk bench_transport (n, v) (n', v')" if "security_body ?B now (received p) x n v = (x', n', v')" for x n v x' n' v'
    using security_body_talk [OF that] by simp
  have rx': "sw_rx u (nd_transport an) = concat (map frame_of ([] @ [p]))" using rx by simp
  obtain n0 where d: "node_drain bench_transport now (security_body ?B now) s an u =
      Some (security_body ?B now (received p) s n0 (world_taken an p u))"
    using node_drain_burst [where body = "security_body ?B now" and s = s and now = now, OF q(1) _ ps(1-4) rx' len] talk
    by fastforce
  obtain s0 n1 w1 where b: "security_body ?B now (received p) s n0 (world_taken an p u) = (s0, n1, w1)" by (metis prod_cases3)
  from body_heard [OF b v] obtain e1 where "represents s0 (lock_heard (received p) e1 v)" by blast
  moreover have "lock_heard (received p) e1 v = lock_told c e1 v"
    using received_payload_nth [OF ps(1), of 0] by (simp add: lock_heard_def p)
  ultimately have 0: "represents s0 (lock_told c e1 v)" by simp
  have "s1 = serviced_state ?B now s0"
    using run security_service_state [of ?B now s0 n1 w1]
    by (auto simp: security_controller_service_def d b split: prod.splits)
  with represents_service [OF 0, of gp pf bench_transport now] show ?thesis by blast
qed

section \<open>Property\<close>

lemma setup_security:
  assumes "same_setup northbridge_setup nb"
  shows "nb_transports nb ! 2 = Some 2" "binding_lookup nb addr_Security = Some 2"
  using assms northbridge_setup_eq by (simp_all add: same_setup_def binding_lookup_def)

text \<open>C5: A typed lock command reaches the lock. \<open>lock\<close>, \<open>unlock\<close> or \<open>silence\<close> is typed at the main
  computer while no acknowledgement is outstanding; the bytes its node writes reach the northbridge, in
  any state its firmware can be in between two frames; what that writes for the security controller
  reaches it, in any state it can be in. After the controller's pass it stands where its abstract machine
  stands after that command and one tick: after \<open>unlock\<close> it is unlocked and neither prevents the start nor
  sounds the alarm, and after \<open>lock\<close> it is not unlocked.\<close>

theorem console_commands_lock:
  assumes "(l, c) \<in> lock_lines"
    and "nd_address nd = addr_MainComputer" and "\<not> ptx_active (nd_pending nd)"
    and "firmware_northbridge bench_transport nb" and "sp_length (nb_parsers nb ! 0) = 0"
    and "security_reachable gp pf bench_transport (s, an, u0)" and "node_quiet an" and "nd_address an = addr_Security"
    and "handle_command bench_transport l t1 mc nd w = (running, out, mc1, nd1, w1)"
    and "sw_rx v 0 = wire (nd_transport nd) w w1" and "only_port nb v 0"
    and "nb_service bench_transport t2 nb v = Some (nb1, v1)"
    and "sw_rx u (nd_transport an) = wire 2 v v1"
    and "security_controller_service (security_board gp pf bench_transport) t3 s an u = Some (s1, an1, u1)"
  shows "(\<exists>e1 e2 over shock. represents s1 (lock_tick e2 over shock (lock_told c e1 (lock_view s))))
    \<and> (c = cmd_Unlock \<longrightarrow> ss_mode s1 = Mode_Unlocked \<and> \<not> gs_inhibit (ss_hardware s1) \<and> \<not> gs_alarm (ss_hardware s1))
    \<and> (c = cmd_Lock \<longrightarrow> ss_mode s1 \<noteq> Mode_Unlocked)"
proof -
  let ?p = "stamped nd (lock_request c) True"
  have p: "sendable ?p" "pkt_source ?p = addr_MainComputer" "pkt_destination ?p = addr_Security"
    by (simp_all add: sendable_def assms(2))
  have size: "length (frame_of ?p) \<le> 64" using length_frame_of [OF p(1)] by (simp add: encoded_size_def)
  have v: "sw_rx v 0 = frame_of ?p" using lock_line_sent [OF assms(1,3,9)] assms(10) by simp
  have st: "same_setup northbridge_setup nb" using firmware_northbridge_inv [OF assms(4)] by simp
  from firmware_burst_carried [OF assms(4) setup_transports(3) [OF st] setup_security(2) [OF st], of "[?p]" 0 v t2]
    p size v assms(5,11) setup_transports(1) [OF st] setup_security(1) [OF st]
  obtain nb' where "nb_service bench_transport t2 nb v = Some (nb', v\<lparr>sw_rx := (sw_rx v)(0 := []),
      sw_tx := sw_tx v @ [(2, frame_of ?p)]\<rparr>)" by auto
  with assms(12) have "sw_tx v1 = sw_tx v @ [(2, frame_of ?p)]" by auto
  then have u: "sw_rx u (nd_transport an) = frame_of ?p" using assms(13) by (simp add: wire_append)
  have "represents s (lock_view s)" using security_reachable_represents [OF assms(6)] by simp
  from alarm_executes [OF assms(7,8) refl u assms(14) this]
  obtain e1 e2 over shock where r: "represents s1 (lock_tick e2 over shock (lock_told c e1 (lock_view s)))" by blast
  have "ss_mode s1 = Mode_Unlocked \<and> \<not> gs_inhibit (ss_hardware s1) \<and> \<not> gs_alarm (ss_hardware s1)" if "c = cmd_Unlock"
    using r that by (auto simp: represents_def lock_told_def lock_tick_def lk_inhibit_def lk_alarm_def lock_view_def)
  moreover have "ss_mode s1 \<noteq> Mode_Unlocked" if "c = cmd_Lock"
    using represents_mode(1) [OF r] that by (auto simp: lock_told_def lock_tick_def Let_def)
  ultimately show ?thesis using r by blast
qed

theorem console_commands_lock_witness:
  "\<exists>running out mc1 nd1 w1 v nb1 v1 an s1 an1 u1.
    handle_command bench_transport ''unlock'' 5 demo_main (node_init addr_MainComputer 0) quiet_world = (running, out, mc1, nd1, w1)
    \<and> v = hearing 0 (wire 0 quiet_world w1)
    \<and> nb_service bench_transport 6 northbridge_setup v = Some (nb1, v1)
    \<and> security_controller_service demo_board 7 demo_boot an (hearing 0 (wire 2 v v1)) = Some (s1, an1, u1)
    \<and> ss_mode demo_boot = Mode_LockPending \<and> ss_mode s1 = Mode_Unlocked"
proof -
  let ?n = "node_init addr_MainComputer 0"
  obtain running out mc1 nd1 w1 where 1: "handle_command bench_transport ''unlock'' 5 demo_main ?n quiet_world
      = (running, out, mc1, nd1, w1)" by (metis prod_cases5)
  let ?v = "hearing 0 (wire 0 quiet_world w1)"
  obtain nb1 v1 where 2: "nb_service bench_transport 6 northbridge_setup ?v = Some (nb1, v1)"
    using northbridge_serves [OF nb_boot] by metis
  let ?u = "hearing 0 (wire 2 ?v v1)"
  obtain an where boot: "security_setup pin_bank_ops flash_ops bench_transport idle_board
     (\<lambda>k. if k = ''armed'' then Some True else None) 0 0 = (demo_boot, an)"
    by (simp add: demo_boot_def security_setup_def Let_def)
  then have an: "an = node_set_max_retries 3 (node_set_ack_timeout_ms 250 (node_set_auto_ack False (node_init addr_Security 0)))"
    by (simp add: security_setup_def Let_def)
  have "node_inv an" unfolding an by (intro node_inv_setters node_inv_init)
  then have q: "node_quiet an" "nd_address an = addr_Security" "nd_transport an = 0"
    by (simp_all add: node_quiet_def an node_init_def node_set_max_retries_def node_set_ack_timeout_ms_def
      node_set_auto_ack_def stream_parser_init_def)
  obtain s1 an1 u1 where 3: "security_controller_service demo_board 7 demo_boot an ?u = Some (s1, an1, u1)"
    using security_controller_ends [of demo_board] bench.finite_transport_axioms unfolding demo_board_def
    by (metis prod_cases3 security_board_sel(3))
  have r: "security_reachable pin_bank_ops flash_ops bench_transport (demo_boot, an, quiet_world)"
    by (rule sec_boot [OF boot])
  have n: "nd_address ?n = addr_MainComputer" "\<not> ptx_active (nd_pending ?n)" "nd_transport ?n = 0"
    by (simp_all add: node_init_def)
  have only: "only_port northbridge_setup ?v 0"
    using only_port_hearing [of northbridge_setup 0] by (simp add: same_setup_def)
  have line: "(''unlock'', cmd_Unlock) \<in> lock_lines" by (simp add: lock_lines_def)
  have "ss_mode s1 = Mode_Unlocked"
    using console_commands_lock [where v = ?v and u = ?u, OF line n(1,2) nb_boot northbridge_setup_ready(1) r q(1,2) 1
        _ only 2 _ 3 [unfolded demo_board_def]] by (simp add: n(3) q(3))
  moreover have "ss_mode demo_boot = Mode_LockPending" by code_simp
  ultimately show ?thesis using 1 2 3
    by (intro exI [of _ running] exI [of _ out] exI [of _ mc1] exI [of _ nd1] exI [of _ w1] exI [of _ ?v] exI [of _ nb1]
      exI [of _ v1] exI [of _ an] exI [of _ s1] exI [of _ an1] exI [of _ u1]) simp
qed

end
