(* ===== verification/LastFrame.thy ===== *)
theory LastFrame
  imports Motorcycle LockCommands
begin

text \<open>
  The last frame on a wire arrives: the northbridge hands it over to the wire of its destination,
  behind whatever else it had to carry there, and a node takes it up, as the last packet its
  service loop handles.
\<close>

section \<open>The northbridge hands over\<close>

definition routed :: "northbridge \<Rightarrow> u8 \<Rightarrow> packet \<Rightarrow> u8 \<Rightarrow> bool" where
  "routed nb port p q \<longleftrightarrow> nb_inv nb \<and> pinned nb \<and> attached (nb_transports nb) port \<and> binding_lookup nb (pkt_source p) = Some port
     \<and> binding_lookup nb (pkt_destination p) = Some q \<and> q \<noteq> port \<and> pkt_destination p \<noteq> addr_Northbridge
     \<and> pkt_destination p \<noteq> addr_Broadcast"

lemma routed_setup:
  assumes "routed nb port p q" and "nb_inv nb'" and "pinned nb'" and "same_setup nb nb'"
  shows "routed nb' port p q"
  using assms by (auto simp: routed_def same_setup_def binding_lookup_def)

lemma nb_receive_hands:
  assumes r: "routed nb port p q" and p: "sendable p"
    and run: "nb_receive bench_transport (received p) port now nb w = Some (nb', w')"
  shows "w' = w\<lparr>sw_tx := sw_tx w @ [(the (nb_transports nb ! unat q), frame_of p)]\<rparr>"
proof -
  have c: "carries nb port (pkt_destination p) (received p)"
    using r p by (auto simp: carries_def misplaced_def routed_def)
  from r nb_receive_carries [OF _ _ c, of q now w] run show ?thesis
    using frame_of_received [OF p] by (auto simp: routed_def pinned_def)
qed

lemma nb_bytes_owed:
  assumes "nb_bytes bench_transport port now bs nb w = Some (nb', w')" and "routed nb port p q"
    and "owed p (nb_parsers nb ! unat port) (bs @ cs)" and "sendable p"
  shows "owed p (nb_parsers nb' ! unat port) cs
    \<or> (\<exists>v. writes (\<lambda>_. True) w v \<and> w' = v\<lparr>sw_tx := sw_tx v @ [(the (nb_transports nb ! unat q), frame_of p)]\<rparr>)"
  using assms(1-3)
proof (induction bs arbitrary: nb w)
  case (Cons b bs)
  obtain ok s1 r where push: "parser_push (nb_parsers nb ! unat port) b default_packet = (ok, s1, r)"
    by (metis prod_cases3)
  let ?nb1 = "nb\<lparr>nb_parsers := (nb_parsers nb)[unat port := s1]\<rparr>"
  have inv: "nb_inv nb" "attached (nb_transports nb) port" using Cons.prems(2) by (simp_all add: routed_def)
  then have port: "unat port < kMaxRouterPorts" using nb_inv_transports by (auto simp: attached_def)
  then have ps: "parser_inv (nb_parsers nb ! unat port)" using inv(1) by (simp add: nb_inv_def)
  from parser_push_inv [OF this] push have "parser_inv s1" by (metis fst_conv snd_conv)
  then have inv1: "nb_inv ?nb1" using inv(1) by (auto simp: nb_inv_def dest!: set_list_update_subset)
  have "pinned ?nb1 = pinned nb" by (rule pinned_cong) simp_all
  then have r1: "routed ?nb1 port p q"
    using inv1 Cons.prems(2) by (simp add: routed_def binding_lookup_def)
  have at1: "nb_parsers ?nb1 ! unat port = s1" using port inv(1) by (simp add: nb_inv_def)
  have o1: "owed p (nb_parsers nb ! unat port) (b # (bs @ cs))" using Cons.prems(3) by simp
  show ?case
  proof (cases ok)
    case False
    from o1 push have "owed p s1 (bs @ cs)" by (cases rule: owed_push) (use False in simp_all)
    with push Cons.prems(1) False r1 at1 Cons.IH [of ?nb1 w] show ?thesis by simp
  next
    case True
    obtain nb2 w2 where rcv: "nb_receive bench_transport r port now ?nb1 w = Some (nb2, w2)"
      and rest: "nb_bytes bench_transport port now bs nb2 w2 = Some (nb', w')"
      using push Cons.prems(1) True by (auto split: option.splits)
    from o1 push show ?thesis
    proof (cases rule: owed_push)
      case later
      then obtain x where x: "sendable x" "r = received x" using True by blast
      have s: "sendable r" using x by simp
      then have wf: "wf_packet r" by (simp add: sendable_def)
      have a1: "attached (nb_transports ?nb1) port" using inv(2) by simp
      note keep = nb_receive_keeps [OF inv1 a1 wf rcv]
      have "pinned nb2" using pinned_receive [OF inv1 a1 wf _ rcv] r1 by (simp add: routed_def)
      then have r2: "routed nb2 port p q" using keep by (intro routed_setup [OF r1]) simp_all
      have "nb_parsers nb2 ! unat port = s1" "nb_transports nb2 = nb_transports nb"
        using keep at1 by (simp_all add: same_setup_def)
      with Cons.IH [OF rest r2] later(1) any_packet.nb_receive_writes [OF inv1 a1 s TrueI rcv] show ?thesis
        by (auto intro: writes_trans)
    next
      case now
      have "w2 = w\<lparr>sw_tx := sw_tx w @ [(the (nb_transports nb ! unat q), frame_of p)]\<rparr>"
        using nb_receive_hands [OF r1 assms(4)] rcv now by simp
      with now rest show ?thesis by (auto intro: exI [of _ w])
    qed
  qed
qed simp

definition hands :: "packet \<Rightarrow> nat \<Rightarrow> serial_world \<Rightarrow> serial_world \<Rightarrow> bool" where
  "hands p t w w' \<longleftrightarrow> (\<exists>v. utters (\<lambda>_. True) w v \<and> sw_tx w' = sw_tx v @ [(t, frame_of p)])"

lemma nb_service_port_owed:
  assumes run: "nb_service_port bench_transport port now nb w = Some (nb', w')" and r: "routed nb port p q"
    and t: "nb_transports nb ! unat port = Some t" and o1: "owed p (nb_parsers nb ! unat port) (sw_rx w t)" and p: "sendable p"
  shows "sw_rx w' = (sw_rx w)(t := drop 64 (sw_rx w t))
    \<and> (owed p (nb_parsers nb' ! unat port) (sw_rx w' t) \<or>
      hands p (the (nb_transports nb ! unat q)) w w')"
proof -
  let ?nb = "upd_stats port (\<lambda>s. s\<lparr>ps_rx_bytes := ps_rx_bytes s + word_of_nat (length (take 64 (sw_rx w t)))\<rparr>) nb"
  let ?w = "w\<lparr>sw_rx := (sw_rx w)(t := drop 64 (sw_rx w t))\<rparr>"
  have i: "nb_inv nb" "attached (nb_transports nb) port" using r by (simp_all add: routed_def)
  obtain nb2 where b: "nb_bytes bench_transport port now (take 64 (sw_rx w t)) ?nb ?w = Some (nb2, w')"
    and nb': "nb' = nb_note_rejects port nb2"
    using run i(2) t by (auto simp: nb_service_port_def attached_def split: prod.splits option.splits)
  have o2: "owed p (nb_parsers ?nb ! unat port) (take 64 (sw_rx w t) @ drop 64 (sw_rx w t))" using o1 by simp
  have r2: "routed ?nb port p q" using r by (simp add: routed_def pinned_def binding_lookup_def)
  have i2: "nb_inv ?nb" "attached (nb_transports ?nb) port" using r2 by (simp_all add: routed_def)
  have rx: "sw_rx w' = sw_rx ?w"
    using any_frame.nb_bytes_writes [OF b i2 owed_in_step [OF o2]] by (simp add: writes_def)
  have "nb_parsers nb' = nb_parsers nb2" by (simp add: nb' nb_note_rejects_def Let_def)
  moreover have "hands p (the (nb_transports nb ! unat q)) w w'"
    if "writes (\<lambda>_. True) ?w v" "w' = v\<lparr>sw_tx := sw_tx v @ [(the (nb_transports nb ! unat q), frame_of p)]\<rparr>" for v
    unfolding hands_def by (rule exI [of _ v]) (use that in \<open>simp add: writes_def utters_def\<close>)
  ultimately show ?thesis
    using nb_bytes_owed [OF b r2 o2 p] unfolding rx by auto
qed

text \<open>A northbridge whose other wires are silent, on the wires of the firmware.\<close>

definition three_wires :: "northbridge \<Rightarrow> bool" where
  "three_wires nb \<longleftrightarrow> nb_transports nb = [Some 0, Some 1, Some 2, None, None, None, None, None]"

lemma port_list: "port_numbers = [0, 1, 2, 3, 4, 5, 6, 7]"
  by code_simp

lemma firmware_wires:
  assumes "firmware_northbridge ops nb"
  shows "three_wires nb" and "binding_lookup nb addr_MainComputer = Some 0" and "binding_lookup nb addr_Security = Some 2"
  using firmware_northbridge_inv [OF assms] setup_transports [of nb] setup_security [of nb] northbridge_setup_eq(1)
  by (auto simp: three_wires_def same_setup_def)

definition wire_read :: "nat option list \<Rightarrow> u8 \<Rightarrow> (nat \<Rightarrow> u8 list) \<Rightarrow> nat \<Rightarrow> u8 list" where
  "wire_read ts port f = (case ts ! unat port of None \<Rightarrow> f | Some t \<Rightarrow> f(t := drop 64 (f t)))"

lemma nb_service_port_reads:
  assumes run: "nb_service_port bench_transport port now nb w = Some (nb', w')" and inv: "nb_inv nb"
    and port: "unat port < kMaxRouterPorts" and tuned: "tuned (\<lambda>_. True) nb w"
  shows "sw_rx w' = wire_read (nb_transports nb) port (sw_rx w)"
proof (cases "nb_transports nb ! unat port")
  case None
  with run show ?thesis by (auto simp: nb_service_port_def wire_read_def split: if_splits)
next
  case (Some t)
  let ?nb = "upd_stats port (\<lambda>s. s\<lparr>ps_rx_bytes := ps_rx_bytes s + word_of_nat (length (take 64 (sw_rx w t)))\<rparr>) nb"
  let ?w = "w\<lparr>sw_rx := (sw_rx w)(t := drop 64 (sw_rx w t))\<rparr>"
  have att: "attached (nb_transports nb) port" using Some port nb_inv_transports [OF inv] by (simp add: attached_def)
  obtain nb2 where b: "nb_bytes bench_transport port now (take 64 (sw_rx w t)) ?nb ?w = Some (nb2, w')"
    using run att Some by (auto simp: nb_service_port_def attached_def split: prod.splits option.splits)
  have i: "nb_inv ?nb" "attached (nb_transports ?nb) port" using inv att by simp_all
  have "in_step (\<lambda>_. True) (nb_parsers ?nb ! unat port) (take 64 (sw_rx w t) @ drop 64 (sw_rx w t))"
    using tuned Some port by (simp add: tuned_def)
  from any_frame.nb_bytes_writes [OF b i this] Some show ?thesis by (simp add: writes_def wire_read_def)
qed

lemma nb_service_ports_read:
  "nb_service_ports bench_transport ports now nb w = Some (nb', w') \<Longrightarrow> nb_inv nb \<Longrightarrow> own_wires nb \<Longrightarrow>
    tuned (\<lambda>_. True) nb w \<Longrightarrow> \<forall>port\<in>set ports. unat port < kMaxRouterPorts \<Longrightarrow>
    sw_rx w' = fold (wire_read (nb_transports nb)) ports (sw_rx w)"
proof (induction ports arbitrary: nb w)
  case (Cons q ports)
  then obtain nb1 w1 where p: "nb_service_port bench_transport q now nb w = Some (nb1, w1)"
    and rest: "nb_service_ports bench_transport ports now nb1 w1 = Some (nb', w')"
    by (auto split: option.splits)
  have k: "nb_inv nb1" "own_wires nb1" "nb_transports nb1 = nb_transports nb"
    using nb_service_port_keeps [OF Cons.prems(2) p] Cons.prems(3) own_wires_setup [of nb nb1] by (simp_all add: same_setup_def)
  from any_frame.nb_service_port_utters [OF p Cons.prems(2-4)] have "tuned (\<lambda>_. True) nb1 w1" by simp
  with Cons.IH [OF rest k(1,2)] nb_service_port_reads [OF p Cons.prems(2) _ Cons.prems(4)] Cons.prems(5) show ?case
    by (simp add: k(3))
qed simp

lemma bridge_reads:
  assumes fw: "firmware_northbridge bench_transport nb" and "tuned (\<lambda>_. True) nb w"
    and "nb_service bench_transport now nb w = Some (nb', w')"
  shows "sw_rx w' t = (if t < 3 then drop 64 (sw_rx w t) else sw_rx w t)"
proof -
  let ?nb = "nb\<lparr>nb_last_service_ms := now\<rparr>"
  have "nb_inv nb" "own_wires nb" using firmware_northbridge_inv [OF fw] own_wires_setup own_wires_northbridge by auto
  then have "nb_inv ?nb" "own_wires ?nb" "tuned (\<lambda>_. True) ?nb w" using assms(2) by (simp_all add: own_wires_def tuned_def)
  moreover have "nb_service_ports bench_transport port_numbers now ?nb w = Some (nb', w')"
    using assms(3) by (simp add: nb_service_def)
  moreover have "\<forall>port\<in>set port_numbers. unat port < kMaxRouterPorts" by simp
  ultimately have "sw_rx w' = fold (wire_read (nb_transports nb)) port_numbers (sw_rx w)"
    using nb_service_ports_read by fastforce
  then have "sw_rx w' = fold (wire_read [Some 0, Some 1, Some 2, None, None, None, None, None]) [0, 1, 2, 3, 4, 5, 6, 7] (sw_rx w)"
    using firmware_wires(1) [OF fw] by (simp add: three_wires_def port_list)
  then have "sw_rx w' = ((sw_rx w)(0 := drop 64 (sw_rx w 0), 1 := drop 64 (sw_rx w 1), 2 := drop 64 (sw_rx w 2)))"
    by (simp add: wire_read_def)
  then show ?thesis by (auto simp: less_Suc_eq numeral_nat)
qed

text \<open>A turn with the frame owed on the first port and nothing on the others.\<close>

lemma bridge_hands_turn:
  assumes fw: "firmware_northbridge bench_transport nb" and run: "nb_service bench_transport now nb w = Some (nb', w')"
    and silent: "sw_rx w 1 = []" "sw_rx w 2 = []" and o1: "owed p (nb_parsers nb ! 0) (sw_rx w 0)" and p: "sendable p"
      "pkt_source p = addr_MainComputer" "pkt_destination p = addr_Security"
  shows "owed p (nb_parsers nb' ! 0) (sw_rx w' 0) \<or> hands p 2 w w'"
proof -
  let ?nb = "nb\<lparr>nb_last_service_ms := now\<rparr>"
  have fi: "nb_inv nb" "pinned nb" using firmware_northbridge_inv [OF fw] by simp_all
  have ts: "nb_transports nb = [Some 0, Some 1, Some 2, None, None, None, None, None]"
    using firmware_wires(1) [OF fw] by (simp add: three_wires_def)
  have r: "routed ?nb 0 p 2"
    using fi firmware_wires(2,3) [OF fw] p by (simp add: routed_def pinned_def binding_lookup_def attached_def ts)
  obtain nb1 w1 where s0: "nb_service_port bench_transport 0 now ?nb w = Some (nb1, w1)"
    and rest: "nb_service_ports bench_transport [1, 2, 3, 4, 5, 6, 7] now nb1 w1 = Some (nb', w')"
    using run by (auto simp: nb_service_def port_list split: option.splits)
  have t0: "nb_transports ?nb ! unat (0 :: u8) = Some 0" "owed p (nb_parsers ?nb ! unat (0 :: u8)) (sw_rx w 0)"
    using o1 by (simp_all add: ts)
  note port = nb_service_port_owed [OF s0 r t0 p(1)]
  have k: "nb_inv nb1" "nb_transports nb1 = nb_transports nb"
    using nb_service_port_keeps [OF _ s0] fi by (simp_all add: same_setup_def)
  have "silent nb1 w1 x" if "x \<in> set [1, 2, 3, 4, 5, 6, 7]" for x
    using that port silent by (auto simp: silent_def k ts)
  from nb_service_ports_silent [OF k(1) this] obtain nb2 where
    "nb_service_ports bench_transport [1, 2, 3, 4, 5, 6, 7] now nb1 w1 = Some (nb2, w1)" "alike nb1 nb2" by blast
  with rest have "w' = w1" "nb_parsers nb' = nb_parsers nb1" by (auto simp: alike_def simp del: nb_service_ports.simps)
  moreover have "the (nb_transports ?nb ! unat (2 :: u8)) = 2" by (simp add: ts)
  ultimately show ?thesis using port by auto
qed

section \<open>A node takes its last frame\<close>

lemma dequeue_front:
  assumes "node_dequeue_rx nd out = (ok, p, nd')" and "node_ring nd"
  shows "rx_list nd' = tl (rx_list nd)" "ok \<longleftrightarrow> rx_list nd \<noteq> []" "ok \<Longrightarrow> p = hd (rx_list nd)"
    "nd_parser nd' = nd_parser nd" "nd_transport nd' = nd_transport nd"
  using rxq.deq_contents [OF assms(2), of out] rxq.deq_succeeds [OF assms(2), of out] rxq.deq_value [OF assms(2), of out]
    node_dequeue_sel [of nd out]
  by (simp_all add: assms(1) split: list.splits)

lemma node_poll_bench:
  assumes poll: "node_poll bench_transport nd out now w = (ok, p, nd', w')" and inv: "node_inv nd"
  obtains (queued) "rx_list nd \<noteq> []" "ok" "p = hd (rx_list nd)" "rx_list nd' = tl (rx_list nd)"
      "nd_parser nd' = nd_parser nd" "w' = w"
    | (read) ps pks where "rx_list nd = []"
      "parser_feed (nd_parser nd) (take 64 (sw_rx w (nd_transport nd))) = (ps, pks)" "nd_parser nd' = ps"
      "ok \<longleftrightarrow> filter (accepted nd) pks \<noteq> []" "ok \<Longrightarrow> p = hd (filter (accepted nd) pks)"
      "rx_list nd' = tl (filter (accepted nd) pks)"
      "sw_rx w' = (sw_rx w)(nd_transport nd := drop 64 (sw_rx w (nd_transport nd)))"
proof (cases "nd_rx_count nd = 0")
  case True
  let ?t = "nd_transport nd"
  let ?v = "w\<lparr>sw_rx := (sw_rx w)(?t := drop 64 (sw_rx w ?t))\<rparr>"
  obtain ps pks where f: "parser_feed (nd_parser nd) (take 64 (sw_rx w ?t)) = (ps, pks)" by fastforce
  obtain nd2 w2 where r: "node_receive_all bench_transport nd pks ?v = (nd2, w2)" by fastforce
  have d: "w' = w2" "node_dequeue_rx (nd2\<lparr>nd_parser := ps\<rparr>) out = (ok, p, nd')"
    using poll True by (auto simp: node_poll_cases node_rx_bytes_feed f r split: prod.splits)
  have ring: "node_ring nd" using inv by (simp add: node_inv_def)
  from receive_all_queue [OF r ring] have q: "node_ring nd2" "sw_rx w2 = sw_rx ?v" by simp_all
  have "node_rx_bytes bench_transport nd (take 64 (sw_rx w ?t)) ?v = (nd2\<lparr>nd_parser := ps\<rparr>, w2)"
    by (simp add: node_rx_bytes_feed f r)
  from node_rx_bytes_queue [OF inv True _ this f] have "rx_list (nd2\<lparr>nd_parser := ps\<rparr>) = filter (accepted nd) pks" by simp
  moreover have "node_ring (nd2\<lparr>nd_parser := ps\<rparr>)" using q(1) by (simp add: node_ring_def)
  note front = dequeue_front [OF d(2) this]
  moreover have "rx_list nd = []" using True by (metis length_rx_list list.size(3) length_0_conv)
  ultimately show thesis using f d(1) q(2) by (intro read [of ps pks]) simp_all
next
  case False
  then have "node_dequeue_rx nd out = (ok, p, nd')" "w' = w"
    using poll by (auto simp: node_poll_cases split: prod.splits)
  moreover from False have "rx_list nd \<noteq> []" by (metis length_rx_list list.size(3))
  ultimately show thesis using dequeue_front [of nd out ok p nd'] inv by (intro queued) (simp_all add: node_inv_def)
qed

definition due :: "packet \<Rightarrow> bike_node \<Rightarrow> serial_world \<Rightarrow> bool" where
  "due p nd w \<longleftrightarrow> owed p (nd_parser nd) (sw_rx w (nd_transport nd))
     \<or> (\<exists>qs. rx_list nd = qs @ [received p]) \<and> sw_rx w (nd_transport nd) = []"

definition spent :: "bike_node \<Rightarrow> serial_world \<Rightarrow> bool" where
  "spent nd w \<longleftrightarrow> rx_list nd = [] \<and> sw_rx w (nd_transport nd) = []"

lemma due_keeps:
  assumes "node_sends P bench_transport (nd, w) (nd', w')"
  shows "due p nd' w' = due p nd w" "spent nd' w' = spent nd w"
  using sends_keep_received [OF assms] talk_keeps(3) [OF assms] talk_bench_rx [OF assms]
  by (simp_all add: due_def spent_def)

lemma tl_snoc: "qs @ [x] = r # rs \<Longrightarrow> rs = [] \<and> r = x \<or> (\<exists>qs'. rs = qs' @ [x])"
  by (cases qs) auto

lemma poll_due:
  assumes poll: "node_poll bench_transport nd out now w = (ok, q, nd', w')" and inv: "node_inv nd"
    and "due p nd w" and acc: "accepted nd (received p)"
  shows "due p nd' w' \<and> (ok \<or> owed p (nd_parser nd') (sw_rx w' (nd_transport nd')))
    \<or> ok \<and> q = received p \<and> spent nd' w'"
  using poll inv
proof (cases rule: node_poll_bench)
  case queued
  note t = node_poll_transport [OF poll]
  from assms(3) [unfolded due_def] show ?thesis
  proof
    assume "owed p (nd_parser nd) (sw_rx w (nd_transport nd))"
    with queued t show ?thesis by (simp add: due_def)
  next
    assume a: "(\<exists>qs. rx_list nd = qs @ [received p]) \<and> sw_rx w (nd_transport nd) = []"
    then obtain qs where qs: "rx_list nd = qs @ [received p]" by blast
    then obtain r rs where rs: "rx_list nd = r # rs" by (cases qs) auto
    from qs rs have "rs = [] \<and> r = received p \<or> (\<exists>qs'. rs = qs' @ [received p])" by (intro tl_snoc) simp
    with queued t a rs show ?thesis by (auto simp: due_def spent_def)
  qed
next
  case (read ps pks)
  note t = node_poll_transport [OF poll]
  have o1: "owed p (nd_parser nd) (take 64 (sw_rx w (nd_transport nd)) @ drop 64 (sw_rx w (nd_transport nd)))"
    using assms(3) read(1) by (auto simp: due_def)
  from owed_feed [OF o1 read(2)] show ?thesis
  proof
    assume "owed p ps (drop 64 (sw_rx w (nd_transport nd)))"
    with read t show ?thesis by (simp add: due_def)
  next
    assume a: "drop 64 (sw_rx w (nd_transport nd)) = [] \<and> collected 0 [] ps \<and> (\<exists>qs. pks = qs @ [received p])"
    then obtain qs where qs: "filter (accepted nd) pks = qs @ [received p]" using acc by auto
    then obtain r rs where rs: "filter (accepted nd) pks = r # rs" by (cases qs) auto
    from qs rs have "rs = [] \<and> r = received p \<or> (\<exists>qs'. rs = qs' @ [received p])" by (intro tl_snoc) simp
    with read t a rs show ?thesis by (auto simp: due_def spent_def)
  qed
qed

text \<open>The loop ends with a poll that found nothing.\<close>

lemma node_drain_exit:
  assumes run: "node_drain ops now body s nd w = Some (s', nd', w')" and start: "I s nd w"
    and step: "\<And>s nd w p nd1 w1 s2 nd2 w2. I s nd w \<Longrightarrow> node_poll ops nd default_packet now w = (True, p, nd1, w1) \<Longrightarrow>
      body p s nd1 w1 = (s2, nd2, w2) \<Longrightarrow> I s2 nd2 w2"
  shows "\<exists>n v q. I s' n v \<and> node_poll ops n default_packet now v = (False, q, nd', w')"
proof -
  let ?R = "\<lambda>(s', nd', w'). \<exists>n v q. I s' n v \<and> node_poll ops n default_packet now v = (False, q, nd', w')"
  have "I s nd w \<longrightarrow> ?R r" if "node_drain ops now body s nd w = Some r" for r
  proof (rule node_drain.raw_induct [OF _ that, where P = "\<lambda>ops' now' body' s nd w r.
      ops' = ops \<longrightarrow> now' = now \<longrightarrow> body' = body \<longrightarrow> I s nd w \<longrightarrow> ?R r", THEN mp, THEN mp, THEN mp, OF _ refl refl refl])
    fix f ops' now' body' s nd w r
    assume IH: "\<And>ops' now' body' s nd w r. f ops' now' body' s nd w = Some r \<Longrightarrow>
        ops' = ops \<longrightarrow> now' = now \<longrightarrow> body' = body \<longrightarrow> I s nd w \<longrightarrow> ?R r"
      and eq: "(case node_poll ops' nd default_packet now' w of (ok, p, nd1, w1) \<Rightarrow>
        if ok then (case body' p s nd1 w1 of (s2, nd2, w2) \<Rightarrow> f ops' now' body' s2 nd2 w2)
        else Some (s, nd1, w1)) = Some r"
    show "ops' = ops \<longrightarrow> now' = now \<longrightarrow> body' = body \<longrightarrow> I s nd w \<longrightarrow> ?R r"
    proof (intro impI)
      assume same: "ops' = ops" "now' = now" "body' = body" and I: "I s nd w"
      obtain ok p nd1 w1 where np: "node_poll ops nd default_packet now w = (ok, p, nd1, w1)" by (metis prod_cases4)
      obtain s2 nd2 w2 where b: "body p s nd1 w1 = (s2, nd2, w2)" by (metis prod_cases3)
      show "?R r"
      proof (cases ok)
        case True
        then have "f ops now body s2 nd2 w2 = Some r" "I s2 nd2 w2" using eq step [OF I _ b] np by (simp_all add: same b)
        from IH [OF this(1)] this(2) show ?thesis by simp
      next
        case False
        with eq np I show ?thesis by (auto simp: same)
      qed
    qed
  qed
  with run start show ?thesis by fastforce
qed

end
