(* ===== verification/MotorcycleProperties.thy ===== *)
theory MotorcycleProperties
  imports Motorcycle
begin

text \<open>
  What holds of the motorcycle as a whole, whatever its riders type, whatever its switches and sensors
  do, and in whatever order its devices take their turns.
\<close>

section \<open>Every turn returns\<close>

lemma bridge_serves:
  "firmware_northbridge bench_transport nb \<Longrightarrow> nb_service bench_transport now nb w \<noteq> None"
  using northbridge_serves [of bench_transport nb now w] by auto

lemma light_serves: "lighting_loop (lighting_board lg bench_transport) now u nd w \<noteq> None"
  using lighting_loop_ends' [of "lighting_board lg bench_transport" _ now u nd w] bench.finite_transport_axioms by auto

lemma alarm_serves: "security_controller_service (security_board sg pf bench_transport) now s nd w \<noteq> None"
  using security_controller_ends [of "security_board sg pf bench_transport" _ now s nd w] bench.finite_transport_axioms by auto

lemmas main_serves = main_pass_returns [OF bench.finite_transport_axioms]
lemmas diag_serves = diag_pass_returns [OF bench.finite_transport_axioms]

section \<open>A demonstration\<close>

text \<open>The motorcycle switched on with a flash that remembers whether it was locked.\<close>

definition remembering :: "bool \<Rightarrow> string \<Rightarrow> bool option" where
  "remembering armed k = (if k = ''armed'' then Some armed else None)"

definition demo_bike :: "bool \<Rightarrow> (pin_bank, pin_bank, string \<Rightarrow> bool option) motorcycle" where
  "demo_bike armed =
    (case lighting_setup pin_bank_ops released_board 1 of (u, ln) \<Rightarrow>
     case security_setup pin_bank_ops flash_ops bench_transport idle_board (remembering armed) 2 0 of (s, an) \<Rightarrow>
       \<lparr>bk_main = main_off, bk_main_node = node_init addr_MainComputer 0, bk_diag = diag_off,
        bk_diag_node = node_init addr_DiagnosticComputer 0, bk_pi_world = quiet_world,
        bk_bridge = northbridge_setup, bk_bridge_world = quiet_world, bk_lights = u, bk_light_node = ln,
        bk_light_world = quiet_world, bk_alarm = s, bk_alarm_node = an, bk_alarm_world = quiet_world\<rparr>)"

lemma demo_bike_off: "bike_off pin_bank_ops pin_bank_ops flash_ops (demo_bike armed)"
proof -
  obtain u ln s an where 1: "lighting_setup pin_bank_ops released_board 1 = (u, ln)"
    and 2: "security_setup pin_bank_ops flash_ops bench_transport idle_board (remembering armed) 2 0 = (s, an)"
    by fastforce
  show ?thesis unfolding demo_bike_def 1 2 prod.case by (rule bike_off.intros [OF 1 2])
qed

lemma demo_bike_mode: "ss_mode (bk_alarm (demo_bike armed)) = (if armed then Mode_LockPending else Mode_Unlocked)"
proof -
  have "bk_alarm (demo_bike armed) = fst (security_setup pin_bank_ops flash_ops bench_transport idle_board (remembering armed) 2 0)"
    by (simp add: demo_bike_def split: prod.split)
  moreover have "ss_mode (fst (security_setup pin_bank_ops flash_ops bench_transport idle_board (remembering True) 2 0)) = Mode_LockPending"
    "ss_mode (fst (security_setup pin_bank_ops flash_ops bench_transport idle_board (remembering False) 2 0)) = Mode_Unlocked"
    by code_simp+
  ultimately show ?thesis by (cases armed) simp_all
qed

text \<open>A line is typed, the northbridge carries it, and the security controller takes its turn.\<close>

lemma bike_goes_on: "bike_step lg sg pf typed a b \<Longrightarrow> bike_runs lg sg pf typed b c \<Longrightarrow> bike_runs lg sg pf typed a c"
  and bike_turns: "bike_step lg sg pf typed a b \<Longrightarrow> bike_runs lg sg pf typed a b"
  by auto

lemma one_round:
  assumes "bike_parts lg sg pf b" and "typed l"
  shows "\<exists>b1 b3 running out.
    main_pass bench_transport t (Console_Line l t) (bk_main b) (bk_main_node b) (bk_pi_world b)
      = Some (running, out, bk_main b1, bk_main_node b1, bk_pi_world b1)
    \<and> bike_step lg sg pf typed b b1 \<and> bike_runs lg sg pf typed b1 b3 \<and> bike_runs lg sg pf typed b b3"
proof -
  obtain running out mc nd w where m: "main_pass bench_transport t (Console_Line l t) (bk_main b) (bk_main_node b) (bk_pi_world b)
      = Some (running, out, mc, nd, w)" using main_serves by (metis not_None_eq prod_cases5)
  let ?b1 = "b\<lparr>bk_main := mc, bk_main_node := nd, bk_pi_world := w,
      bk_bridge_world := deliver 0 (wire 0 (bk_pi_world b) w) (bk_bridge_world b)\<rparr>"
  have 1: "bike_step lg sg pf typed b ?b1" by (rule main_turn [OF m]) (use assms(2) in simp)
  have "firmware_northbridge bench_transport (bk_bridge ?b1)" using assms(1) by (simp add: bike_parts_def)
  from bridge_serves [OF this] obtain nb v where n: "nb_service bench_transport t (bk_bridge ?b1) (bk_bridge_world ?b1) = Some (nb, v)"
    by (metis not_None_eq surj_pair)
  note 2 = bridge_turn [OF n, of lg sg pf typed]
  let ?b2 = "?b1\<lparr>bk_bridge := nb, bk_bridge_world := v,
      bk_pi_world := deliver 0 (wire 0 (bk_bridge_world ?b1) v) (bk_pi_world ?b1),
      bk_light_world := deliver 1 (wire 1 (bk_bridge_world ?b1) v) (bk_light_world ?b1),
      bk_alarm_world := deliver 2 (wire 2 (bk_bridge_world ?b1) v) (bk_alarm_world ?b1)\<rparr>"
  obtain s an u where "security_controller_service (security_board sg pf bench_transport) t (bk_alarm ?b2) (bk_alarm_node ?b2)
      (bk_alarm_world ?b2) = Some (s, an, u)" using alarm_serves by (metis not_None_eq prod_cases3)
  note 3 = alarm_turn [OF this, of lg typed]
  note 4 = bike_goes_on [OF 2 bike_turns [OF 3]]
  have "main_pass bench_transport t (Console_Line l t) (bk_main b) (bk_main_node b) (bk_pi_world b)
      = Some (running, out, bk_main ?b1, bk_main_node ?b1, bk_pi_world ?b1)" using m by simp
  note ride = this 1 4 bike_goes_on [OF 1 4]
  show ?thesis by (intro exI conjI, rule ride(1), rule ride(2), rule ride(3), rule ride(4))
qed

section \<open>Properties\<close>

text \<open>C1: The lock obeys only its commands. Let the motorcycle be switched on and run in any way: any
  order and timing of the turns of its devices, any lines at the two consoles, any restarts of the two
  programs of the Pi, any inputs of the switches and sensors. If the security controller started armed
  and nobody typed \<open>unlock\<close> at the main computer, it is not unlocked; if it started unlocked and nobody
  typed \<open>lock\<close> there, it is unlocked, and neither prevents the engine from starting nor sounds the alarm.\<close>

theorem lock_obeys_commands:
  assumes "bike_off lg sg pf b0" and "bike_runs lg sg pf typed b0 b"
  shows "(ss_mode (bk_alarm b0) \<noteq> Mode_Unlocked \<and> \<not> typed ''unlock'' \<longrightarrow> ss_mode (bk_alarm b) \<noteq> Mode_Unlocked)
    \<and> (ss_mode (bk_alarm b0) = Mode_Unlocked \<and> \<not> typed ''lock'' \<longrightarrow> ss_mode (bk_alarm b) = Mode_Unlocked
        \<and> \<not> gs_inhibit (ss_hardware (bk_alarm b)) \<and> \<not> gs_alarm (ss_hardware (bk_alarm b)))"
proof (intro conjI impI)
  assume a: "ss_mode (bk_alarm b0) \<noteq> Mode_Unlocked \<and> \<not> typed ''unlock''"
  then have "ss_mode (bk_alarm b0) \<in> {Mode_LockPending, Mode_Locked, Mode_Alarm}"
    by (cases "ss_mode (bk_alarm b0)") simp_all
  from alarm_in_mode [OF alarm_runs_held [OF assms(2) armed_held assms(1) this spares_unlock [where typed = typed, OF conjunct2 [OF a]]]]
  show "ss_mode (bk_alarm b) \<noteq> Mode_Unlocked" by auto
next
  assume a: "ss_mode (bk_alarm b0) = Mode_Unlocked \<and> \<not> typed ''lock''"
  then have "ss_mode (bk_alarm b0) \<in> {Mode_Unlocked}" by simp
  from alarm_runs_held [OF assms(2) unlocked_held assms(1) this spares_lock [where typed = typed, OF conjunct2 [OF a]]]
  have "alarm_in {Mode_Unlocked} (bk_alarm b)" .
  then show "ss_mode (bk_alarm b) = Mode_Unlocked" "\<not> gs_inhibit (ss_hardware (bk_alarm b))"
    "\<not> gs_alarm (ss_hardware (bk_alarm b))"
    by (auto simp: alarm_in_def represents_def lock_view_def lk_inhibit_def lk_alarm_def)
qed

theorem lock_obeys_commands_witness:
  "\<exists>b1 b3 running out b4 b6 running' out'.
    main_pass bench_transport 7 (Console_Line ''lock'' 7) (bk_main (demo_bike True)) (bk_main_node (demo_bike True))
        (bk_pi_world (demo_bike True)) = Some (running, out, bk_main b1, bk_main_node b1, bk_pi_world b1)
    \<and> bike_runs pin_bank_ops pin_bank_ops flash_ops (\<lambda>l. l = ''lock'') b1 b3 \<and> ss_mode (bk_alarm b3) \<noteq> Mode_Unlocked
    \<and> main_pass bench_transport 7 (Console_Line ''unlock'' 7) (bk_main (demo_bike False)) (bk_main_node (demo_bike False))
        (bk_pi_world (demo_bike False)) = Some (running', out', bk_main b4, bk_main_node b4, bk_pi_world b4)
    \<and> bike_runs pin_bank_ops pin_bank_ops flash_ops (\<lambda>l. l = ''unlock'') b4 b6 \<and> ss_mode (bk_alarm b6) = Mode_Unlocked"
proof -
  let ?runs = "\<lambda>l. bike_runs pin_bank_ops pin_bank_ops flash_ops (\<lambda>x. x = l)"
  have round: "\<exists>b1 b3 running out. main_pass bench_transport 7 (Console_Line l 7) (bk_main (demo_bike armed))
        (bk_main_node (demo_bike armed)) (bk_pi_world (demo_bike armed)) =
        Some (running, out, bk_main b1, bk_main_node b1, bk_pi_world b1)
      \<and> ?runs l b1 b3 \<and> ?runs l (demo_bike armed) b3" for l armed
    using one_round [OF bike_parts_off [OF demo_bike_off], of "\<lambda>x. x = l" l 7 armed] by blast
  obtain b1 b3 running out where 1: "main_pass bench_transport 7 (Console_Line ''lock'' 7) (bk_main (demo_bike True))
        (bk_main_node (demo_bike True)) (bk_pi_world (demo_bike True)) =
        Some (running, out, bk_main b1, bk_main_node b1, bk_pi_world b1)"
      "?runs ''lock'' b1 b3" "?runs ''lock'' (demo_bike True) b3"
    using round [of "''lock''" True] by blast
  obtain b4 b6 running' out' where 2: "main_pass bench_transport 7 (Console_Line ''unlock'' 7) (bk_main (demo_bike False))
        (bk_main_node (demo_bike False)) (bk_pi_world (demo_bike False)) =
        Some (running', out', bk_main b4, bk_main_node b4, bk_pi_world b4)"
      "?runs ''unlock'' b4 b6" "?runs ''unlock'' (demo_bike False) b6"
    using round [of "''unlock''" False] by blast
  have 3: "ss_mode (bk_alarm b3) \<noteq> Mode_Unlocked" "ss_mode (bk_alarm b6) = Mode_Unlocked"
    using lock_obeys_commands [OF demo_bike_off 1(3)] lock_obeys_commands [OF demo_bike_off 2(3)]
    by (simp_all add: demo_bike_mode)
  show ?thesis by (intro exI conjI, rule 1(1), rule 1(2), rule 3(1), rule 2(1), rule 2(2), rule 3(2))
qed

text \<open>C6: The wires stay in step. In whatever state the motorcycle gets to, the northbridge has never
  rejected a frame on any of its three ports, and neither controller has rejected one: frames are split,
  queued, forwarded and repeated, but never torn.\<close>

theorem wires_stay_in_step:
  assumes "bike_off lg sg pf b0" and "bike_runs lg sg pf typed b0 b"
  shows "sp_rejected (nb_parsers (bk_bridge b) ! unat kPortPi) = 0
    \<and> sp_rejected (nb_parsers (bk_bridge b) ! unat kPortLighting) = 0
    \<and> sp_rejected (nb_parsers (bk_bridge b) ! unat kPortSecurity) = 0
    \<and> sp_rejected (nd_parser (bk_light_node b)) = 0 \<and> sp_rejected (nd_parser (bk_alarm_node b)) = 0"
proof -
  have c: "bus_carries (\<lambda>_. True) b"
    by (rule any_frame.bus_carries_runs [OF assms(2) _ bus_carries_off [OF assms(1)]]) simp
  then have t: "nb_transports (bk_bridge b) = nb_transports northbridge_setup"
    using firmware_northbridge_inv by (auto simp: bus_carries_def same_setup_def)
  have port: "sp_rejected (nb_parsers (bk_bridge b) ! i) = 0" if "i < kMaxRouterPorts" "nb_transports (bk_bridge b) ! i = Some x" for i x
    using c that in_step_clean unfolding bus_carries_def tuned_def by blast
  have "sp_rejected (nd_parser (bk_light_node b)) = 0 \<and> sp_rejected (nd_parser (bk_alarm_node b)) = 0"
    using c in_step_clean unfolding bus_carries_def fed_def by blast
  then show ?thesis using port [of 0 0] port [of 1 1] port [of 2 2] by (simp add: t northbridge_setup_eq(1))
qed

theorem wires_stay_in_step_witness:
  "\<exists>b. bike_step pin_bank_ops pin_bank_ops flash_ops (\<lambda>l. l = ''lock'') (demo_bike True) b
    \<and> sp_rejected (nd_parser (bk_alarm_node b)) = 0"
proof -
  obtain b where b: "bike_step pin_bank_ops pin_bank_ops flash_ops (\<lambda>l. l = ''lock'') (demo_bike True) b"
    using one_round [OF bike_parts_off [OF demo_bike_off], of "\<lambda>l. l = ''lock''" "''lock''" 7 True] by blast
  then have bs: "bike_runs pin_bank_ops pin_bank_ops flash_ops (\<lambda>l. l = ''lock'') (demo_bike True) b" by (rule bike_turns)
  from wires_stay_in_step [OF demo_bike_off bs] b show ?thesis by blast
qed

end
