(* ===== verification/LockDelivery.thy ===== *)
theory LockDelivery
  imports LastFrame MotorcycleProperties
begin

text \<open>
  The lock can always be told: from every state the motorcycle can get to, a run takes a command typed
  at the main computer over the wires, through the northbridge and into the security controller,
  which obeys it.
\<close>

section \<open>The security controller obeys\<close>












section \<open>The main computer asks\<close>










section \<open>The motorcycle\<close>
















section \<open>Property\<close>




end
