(* ===== verification/Spec2Isabelle.thy ===== *)
theory Spec2Isabelle
  imports NetProperties LockDelivery
begin

text \<open>
  A verification library for the motorcycle computer: a main computer (Raspberry Pi) and two
  autonomous ESP32 controllers, for lighting and for security, joined by serial links through an
  ESP32 northbridge. All of them speak one packet protocol.

  \<^bold>\<open>How the parts interact.\<close> A \<open>BikeNode\<close> sits on a transport, encodes packets into frames,
  parses the bytes it reads, queues what is addressed to it, acknowledges and retransmits. The
  controllers are service loops around a node: drain the node, hand each packet to a server, then
  run the local control and the supervision of their hardware. The northbridge is a router of
  frames that also answers for itself. The main computer is a service loop around a node, too: it
  supervises which nodes are alive and keeps a picture of every controller, decoded from what
  they report.

  \<^bold>\<open>Theories and code.\<close>
  \<^item> \<open>Prelude\<close>: words, bytes and lists; collections of facts.
  \<^item> \<open>Protocol\<close>: \<open>protocol/\<close>: addresses, messages, packets (\<open>packet\<close>), CRC-16, \<open>encode_packet\<close> and
    \<open>decode_packet\<close> on explicit buffers. The codec is a round trip in both directions, and any damage
    to two adjacent bytes is detected.
  \<^item> \<open>StreamParser\<close>: \<open>library/src/stream_parser.cpp\<close>: \<open>parser_push\<close> per byte; its buffer never
    overflows, and frames are recovered behind noise.
  \<^item> \<open>Transport\<close>: \<open>transport.hpp\<close> and the adapter of Arduino streams; a transport is a record of
    functions on a world. Locales \<open>bounded_transport\<close> and \<open>finite_transport\<close> state what the loops rely
    on; queue ports (\<open>bench_transport\<close>) are the concrete world of the witnesses.
  \<^item> \<open>Node\<close>, \<open>NodeLink\<close>: \<open>node.cpp\<close>: the receive ring (locale \<open>bounded_queue\<close>), sending, retrying,
    polling; reachable nodes, delivery and acknowledgement between two nodes, and \<open>node_drain\<close>, the
    \<open>while (poll)\<close> loop all programs share, with \<open>None\<close> for a loop that does not end.
    \<open>NodeBurst\<close>: several frames in one read. \<open>NodeFrames\<close>: everything a node writes is a well-formed
    frame from its own address, and of the class of packets its application sends (locale
    \<open>packet_class\<close>). \<open>Streams\<close>: a parser fed with whole frames of a class stays in step with its wire
    and hands out packets of that class (locale \<open>frame_class\<close>); a parser that is owed a frame (\<open>owed\<close>: it
    is the last one begun or to be read) hands it out in the end.
  \<^item> \<open>Router\<close>: \<open>router.cpp\<close>: learned routes (locale \<open>address_table\<close>), ageing, forwarding.
  \<^item> \<open>DeviceInfo\<close>: \<open>device_info.hpp\<close>: the identity payload and its round trip.
  \<^item> \<open>Northbridge\<close>, \<open>NorthbridgeRuntime\<close>: \<open>northbridge.cpp\<close> and its firmware: port bindings,
    enforcement, forwarding, diagnostics. Writing behind the payload array is \<open>None\<close>.
    \<open>NorthbridgeCarry\<close>: under any traffic the routes of bound nodes stay where they are bound, and
    frames between them are carried unchanged. \<open>NorthbridgeFrames\<close>: what it writes are packets it has
    received and answers of its own that are no security commands.
  \<^item> \<open>Gpio\<close>: pins of the ESP32, as an interface: locale \<open>independent_pins\<close> for reading inputs, locale
    \<open>driven_pins\<close> for the levels of output pins.
  \<^item> \<open>SecurityServer\<close>, \<open>SecurityLogic\<close>, \<open>SecurityController\<close>: \<open>security*.cpp\<close>, \<open>security*.hpp\<close> and
    \<open>esp32/security\<close>: filters, state machine, start prevention, persistence, commands, firmware.
    \<open>SecurityAbstraction\<close>: an abstract machine of mode and engine signal, and the refinement lemmas
    that the controller on its board implements it, step by step and pass by pass, down to the levels it
    drives on its alarm and start-prevention pins.
  \<^item> \<open>LightingServer\<close>, \<open>LightingControl\<close>, \<open>LightingFaults\<close>, \<open>LightingController\<close>: \<open>lighting*.cpp\<close>,
    \<open>lighting*.hpp\<close> and \<open>esp32/lighting\<close>: the command server, debounced inputs and the blinker,
    electrical diagnostics and fault manager, controller and firmware. Their properties are in
    \<open>LightingProperties\<close> and \<open>LightingFaultProperties\<close>.
  \<^item> \<open>Supervisor\<close>: \<open>supervisor.cpp\<close>: the table of nodes, their health, the required-node fault.
  \<^item> \<open>MotorcycleComputer\<close>, \<open>Dashboard\<close>, \<open>DashboardProperties\<close>: \<open>motorcycle_computer.cpp\<close>: decoders,
    dispatch, service; what a controller sends is what the main computer shows. The observer of
    the packets is a parameter; locale \<open>talking_observer\<close> is what the loop relies on: it uses the
    node only to send.
  \<^item> \<open>SelfTest\<close>, \<open>DiagnosticLog\<close>, \<open>HostConfig\<close>, \<open>PosixSerial\<close>: \<open>raspberry-pi/\<close>: the self-test of the three
    controllers, the event log and its CSV file, the command line, the serial device. The file
    operations are a record of functions (locale \<open>posix_file\<close>).
  \<^item> \<open>ConsoleText\<close>, \<open>MainProgram\<close>, \<open>DiagnosticProgram\<close>: the two \<open>main.cpp\<close> of \<open>raspberry-pi/\<close>: the texts
    they print, start-up, the commands of their consoles, one pass of their loops and the loops.
    \<open>MainProperties\<close>, \<open>DiagnosticProperties\<close>: they run until told to stop and stay in their
    invariants. \<open>ProgramFrames\<close>: what the four programs on the bus write.
  \<^item> \<open>SystemComposition\<close>, \<open>LockCommands\<close>: a lamp command typed at the console is carried, executed,
    answered, and shown; a lock command is carried and executed.
  \<^item> \<open>Motorcycle\<close>, \<open>MotorcycleProperties\<close>: the five programs on the bus as one system (\<open>bike_step\<close>): each
    takes a turn of its loop at any time, what it writes is added to what its peer has yet to read,
    and inputs and console lines are arbitrary. In every run all devices keep their invariants, the
    frames on the wires stay whole, and the lock leaves its state only on a command that was typed.
  \<^item> \<open>LastFrame\<close>, \<open>LockDelivery\<close>: what the northbridge and a node do with the last frame on their wire,
    and the possibility of telling the lock: from every state the motorcycle can get to, a run carries a
    command that is typed to the security controller, which obeys it.
  \<^item> \<open>NetProtocol\<close>, \<open>NetRouter\<close>, \<open>NetProperties\<close>: \<open>esp32s3C/\<close>: a second northbridge with an
    implementation of the protocol of its own and fixed bindings of addresses to ports. Its
    parser and codec are related to those of the library, its UARTs are locale \<open>buffered_uart\<close>.

  \<^bold>\<open>Conventions.\<close> A class is a \<open>record\<close>, its constructor a function \<open>..._init\<close> with the default
  member values, a method a function that returns the result, the new object and the new world.
  Machine integers are words of their width (\<open>u8\<close>, \<open>u16\<close>, \<open>u32\<close>), so differences of millisecond
  clocks wrap as in the code. Enumerations that travel as bytes are bytes where the code casts
  without a check and datatypes where it switches. Hardware, flash and serial ports are records of
  functions with a locale for each contract (\<open>security_hardware\<close>, \<open>security_persistence\<close>,
  \<open>lighting_hardware\<close>, \<open>reliable_lighting\<close>, \<open>preferences\<close>), interpreted on the models of the firmware's
  own adapters.

  \<^bold>\<open>Bounds.\<close> Loops over arrays are structural recursions over their index lists. \<open>node_drain\<close> is a
  partial function without fuel: that it returns is a theorem for transports with finitely many
  bytes to read, with the bytes plus the queued packets as its measure. The write loop of the
  serial device is a partial function, too; there \<open>None\<close> really occurs, because it retries a busy
  line for ever. The budgets of the stand-alone northbridge (256 bytes a packet, 8 packets a port)
  are the recursion arguments of its loops, as in the code.

  \<^bold>\<open>Passes of the host programs.\<close> A pass of a host program takes what its environment does in it as
  arguments: a change of the world before it, the clock, and what \<open>poll\<close> and \<open>getline\<close> give. What it
  prints is part of its result. The programs are modelled over any transport: on the POSIX
  transport a write may retry for ever, so their termination is stated for transports that return.

  \<^bold>\<open>Runs of the whole motorcycle.\<close> The wires of \<open>bike_step\<close> lose nothing and keep the order; delays are
  the turns in between. Damage on a wire is the subject of the codec and of the parser, where it is
  detected. The two programs of the Pi share its serial port and may be started again at any time; the
  ESP32 devices are switched on once, since one that restarts in the middle of a frame is out of step
  with its wire until the parser has found the next frame. That the lock can be told is a statement of
  possibility: it names the turns (the program of the main computer is started again, since one that
  waits for an acknowledgement does not send), and no fairness of a schedule is assumed.

  \<^bold>\<open>Not modelled.\<close> Baud rates and serial set-up, the delays of the firmware loops, the periodic print
  of the stand-alone northbridge's sketch, and the tests. The classes that only declare interfaces
  (transport, hardware, feedback) are the records of functions named above.
\<close>

end
